(* ===== verification/Prelude.thy ===== *)
theory Prelude
  imports Main "HOL-Library.Multiset" "HOL-Library.List_Lexorder" "HOL-Library.Word"
    "HOL-Library.Code_Target_Nat"
begin

text \<open>
  Shared vocabulary of the development: the model of Rust strings, of fallible results and of
  the standard library's string and iterator functions that the crate uses, with the lemmas the
  component theories rest on.

  \<^item> A Rust \<^verbatim>\<open>char\<close> is a Unicode scalar value, kept as the natural number of its code point; a
    \<^verbatim>\<open>str\<close> is the list of its chars.  Rust orders strings by their UTF-8 bytes, which is the
    lexicographic order of the code points (\<open>List_Lexorder\<close>).
  \<^item> \<^verbatim>\<open>anyhow::Result\<close> is a sum: \<open>Inl (Err m)\<close> is an error return, \<open>Inl (Panic m)\<close> a panic
    (\<^verbatim>\<open>assert!\<close>, \<^verbatim>\<open>unwrap\<close>, indexing), \<open>Inr\<close> a success.  Messages keep their fixed part only.
  \<^item> \<open>text_codec\<close> is the interface between code that writes a name into a string and
    code that later reads it back; every printer/parser pair of the crate interprets it.
\<close>

section \<open>Collections of facts\<close>

named_theorems result_simps \<open>equations and inversion rules of fallible results\<close>
named_theorems str_simps \<open>facts about strings and string constants\<close>

section \<open>Types\<close>

type_synonym rchar = nat
type_synonym rstr = "rchar list"
type_synonym u32 = "32 word"
type_synonym u64 = "64 word"

datatype failure = Err string | Panic string

type_synonym 'a result = "failure + 'a"

section \<open>Results\<close>

definition and_then :: "'a result \<Rightarrow> ('a \<Rightarrow> 'b result) \<Rightarrow> 'b result" where
  "and_then m f = (case m of Inl e \<Rightarrow> Inl e | Inr x \<Rightarrow> f x)"

definition ok_or :: "failure \<Rightarrow> 'a option \<Rightarrow> 'a result" where
  "ok_or e m = (case m of None \<Rightarrow> Inl e | Some x \<Rightarrow> Inr x)"

definition ensure :: "bool \<Rightarrow> failure \<Rightarrow> unit result" where
  "ensure b e = (if b then Inr () else Inl e)"

definition is_ok :: "'a result \<Rightarrow> bool" where
  "is_ok m = (case m of Inl _ \<Rightarrow> False | Inr _ \<Rightarrow> True)"

definition is_panic :: "'a result \<Rightarrow> bool" where
  "is_panic m = (case m of Inl (Panic _) \<Rightarrow> True | _ \<Rightarrow> False)"

text \<open>\<^verbatim>\<open>iter.map(f).collect::<Result<Vec<_>>>()\<close>: stops at the first error.\<close>

fun try_map :: "('a \<Rightarrow> 'b result) \<Rightarrow> 'a list \<Rightarrow> 'b list result" where
  "try_map f [] = Inr []"
| "try_map f (x # xs) = and_then (f x) (\<lambda>y. and_then (try_map f xs) (\<lambda>ys. Inr (y # ys)))"

text \<open>A \<^verbatim>\<open>for\<close> loop whose body may return early with \<^verbatim>\<open>?\<close>.\<close>

fun try_fold :: "('a \<Rightarrow> 's \<Rightarrow> 's result) \<Rightarrow> 'a list \<Rightarrow> 's \<Rightarrow> 's result" where
  "try_fold f [] s = Inr s"
| "try_fold f (x # xs) s = and_then (f x s) (try_fold f xs)"

section \<open>Strings\<close>

definition str :: "string \<Rightarrow> rstr" where
  "str cs = map of_char cs"

definition is_scalar :: "nat \<Rightarrow> bool" where
  "is_scalar c \<longleftrightarrow> c < 0xD800 \<or> (0xE000 \<le> c \<and> c < 0x110000)"

definition valid_str :: "rstr \<Rightarrow> bool" where
  "valid_str s \<longleftrightarrow> (\<forall>c \<in> set s. is_scalar c)"

text \<open>\<^verbatim>\<open>str::len\<close> counts UTF-8 bytes.\<close>

definition utf8_width :: "rchar \<Rightarrow> nat" where
  "utf8_width c = (if c < 0x80 then 1 else if c < 0x800 then 2 else if c < 0x10000 then 3 else 4)"

definition str_len :: "rstr \<Rightarrow> nat" where
  "str_len s = sum_list (map utf8_width s)"

definition is_ascii_digit :: "rchar \<Rightarrow> bool" where
  "is_ascii_digit c \<longleftrightarrow> 48 \<le> c \<and> c \<le> 57"

definition is_ascii_alphanumeric :: "rchar \<Rightarrow> bool" where
  "is_ascii_alphanumeric c \<longleftrightarrow> is_ascii_digit c \<or> (65 \<le> c \<and> c \<le> 90) \<or> (97 \<le> c \<and> c \<le> 122)"

fun strip_prefix :: "rstr \<Rightarrow> rstr \<Rightarrow> rstr option" where
  "strip_prefix [] s = Some s"
| "strip_prefix (p # ps) [] = None"
| "strip_prefix (p # ps) (c # cs) = (if p = c then strip_prefix ps cs else None)"

definition starts_with :: "rstr \<Rightarrow> rstr \<Rightarrow> bool" where
  "starts_with p s \<longleftrightarrow> strip_prefix p s \<noteq> None"

definition ends_with :: "rstr \<Rightarrow> rstr \<Rightarrow> bool" where
  "ends_with p s \<longleftrightarrow> strip_prefix (rev p) (rev s) \<noteq> None"

text \<open>\<^verbatim>\<open>str::split_once\<close> and \<^verbatim>\<open>str::split\<close> on a single char.\<close>

fun split_once :: "rchar \<Rightarrow> rstr \<Rightarrow> (rstr \<times> rstr) option" where
  "split_once d [] = None"
| "split_once d (c # cs) =
     (if c = d then Some ([], cs)
      else case split_once d cs of None \<Rightarrow> None | Some (a, b) \<Rightarrow> Some (c # a, b))"

fun split_char :: "rchar \<Rightarrow> rstr \<Rightarrow> rstr list" where
  "split_char d [] = [[]]"
| "split_char d (c # cs) =
     (if c = d then [] # split_char d cs
      else case split_char d cs of [] \<Rightarrow> [[c]] | p # ps \<Rightarrow> (c # p) # ps)"

fun join_str :: "rstr \<Rightarrow> rstr list \<Rightarrow> rstr" where
  "join_str sep [] = []"
| "join_str sep [x] = x"
| "join_str sep (x # y # xs) = x @ sep @ join_str sep (y # xs)"

text \<open>Decimal rendering of an unsigned integer (\<^verbatim>\<open>Display\<close>).\<close>

fun fmt_dec :: "nat \<Rightarrow> rstr" where
  "fmt_dec n = (if n < 10 then [48 + n] else fmt_dec (n div 10) @ [48 + n mod 10])"

declare fmt_dec.simps [simp del]

section \<open>Lemmas on results\<close>

lemma and_then_simps [simp, result_simps]:
  "and_then (Inl e) f = Inl e"
  "and_then (Inr x) f = f x"
  by (simp_all add: and_then_def)

lemma and_then_Inr_iff [result_simps]:
  "and_then m f = Inr z \<longleftrightarrow> (\<exists>y. m = Inr y \<and> f y = Inr z)"
  by (cases m) auto

lemma and_then_Inl_iff [result_simps]:
  "and_then m f = Inl e \<longleftrightarrow> m = Inl e \<or> (\<exists>y. m = Inr y \<and> f y = Inl e)"
  by (cases m) auto

lemma and_then_assoc [result_simps]:
  "and_then (and_then m f) g = and_then m (\<lambda>x. and_then (f x) g)"
  by (cases m) auto

lemma and_then_Inr_right [simp]: "and_then m Inr = m"
  by (cases m) auto

lemma ok_or_simps [simp, result_simps]:
  "ok_or e None = Inl e"
  "ok_or e (Some x) = Inr x"
  by (simp_all add: ok_or_def)

lemma ok_or_iff [result_simps]:
  "ok_or e m = Inr x \<longleftrightarrow> m = Some x"
  "ok_or e m = Inl e' \<longleftrightarrow> m = None \<and> e' = e"
  by (auto simp: ok_or_def split: option.splits)

lemma ensure_simps [simp, result_simps]:
  "ensure True e = Inr ()"
  "ensure False e = Inl e"
  by (simp_all add: ensure_def)

lemma ensure_iff [result_simps]:
  "ensure b e = Inr u \<longleftrightarrow> b"
  "ensure b e = Inl e' \<longleftrightarrow> \<not> b \<and> e' = e"
  by (auto simp: ensure_def)

lemma is_ok_iff [result_simps]: "is_ok m \<longleftrightarrow> (\<exists>x. m = Inr x)"
  by (auto simp: is_ok_def split: sum.splits)

lemma is_ok_simps [simp]: "is_ok (Inr x)" "\<not> is_ok (Inl e)"
  by (simp_all add: is_ok_def)

lemma is_panic_simps [simp]:
  "is_panic (Inl f) \<longleftrightarrow> (\<exists>m. f = Panic m)" "\<not> is_panic (Inr x)"
  by (auto simp: is_panic_def split: failure.splits)

lemma is_panic_iff: "is_panic m \<longleftrightarrow> (\<exists>s. m = Inl (Panic s))"
  by (auto simp: is_panic_def split: sum.splits failure.splits)

lemma is_ok_and_then [result_simps]: "is_ok (and_then m f) \<longleftrightarrow> (\<exists>x. m = Inr x \<and> is_ok (f x))"
  by (cases m) auto

lemma is_panic_and_then [result_simps]:
  "is_panic (and_then m f) \<longleftrightarrow> is_panic m \<or> (\<exists>x. m = Inr x \<and> is_panic (f x))"
  by (cases m) auto

lemma try_map_Inr_iff: "try_map f xs = Inr ys \<longleftrightarrow> list_all2 (\<lambda>x y. f x = Inr y) xs ys"
  by (induction xs arbitrary: ys) (auto simp: result_simps list_all2_Cons1)

lemma try_map_Inr: "(\<And>x. x \<in> set xs \<Longrightarrow> f x = Inr (g x)) \<Longrightarrow> try_map f xs = Inr (map g xs)"
  by (induction xs) auto

lemma try_map_append:
  "try_map f (xs @ ys) = and_then (try_map f xs) (\<lambda>a. and_then (try_map f ys) (\<lambda>b. Inr (a @ b)))"
  by (induction xs) (auto simp: result_simps split: sum.splits)

lemma try_map_mem: "try_map f xs = Inr ys \<Longrightarrow> x \<in> set xs \<Longrightarrow> \<exists>y \<in> set ys. f x = Inr y"
  by (induction xs arbitrary: ys) (auto simp: result_simps)

lemma try_map_mem_rev: "try_map f xs = Inr ys \<Longrightarrow> y \<in> set ys \<Longrightarrow> \<exists>x \<in> set xs. f x = Inr y"
  by (induction xs arbitrary: ys) (auto simp: result_simps)

lemma try_map_length: "try_map f xs = Inr ys \<Longrightarrow> length ys = length xs"
  by (auto simp: try_map_Inr_iff dest: list_all2_lengthD)

lemma try_fold_append: "try_fold f (xs @ ys) s = and_then (try_fold f xs s) (try_fold f ys)"
proof (induction xs arbitrary: s)
  case (Cons x xs)
  then show ?case by (cases "f x s") auto
qed simp

lemma try_fold_invariant:
  assumes "try_fold f xs s = Inr s'" "P s"
    and "\<And>x a b. x \<in> set xs \<Longrightarrow> P a \<Longrightarrow> f x a = Inr b \<Longrightarrow> P b"
  shows "P s'"
  using assms
proof (induction xs arbitrary: s)
  case (Cons x xs)
  then obtain t where "f x s = Inr t" "try_fold f xs t = Inr s'"
    by (auto simp: result_simps)
  with Cons show ?case by (meson list.set_intros)
qed simp

text \<open>Loops that only add to a list.\<close>

lemma try_fold_set_mono:
  assumes "try_fold f xs acc = Inr acc'" "\<And>x a b. x \<in> set xs \<Longrightarrow> f x a = Inr b \<Longrightarrow> set a \<subseteq> set b"
  shows "set acc \<subseteq> set acc'"
  using try_fold_invariant [OF assms(1), of "\<lambda>a. set acc \<subseteq> set a"] assms(2) by blast

lemma try_fold_member:
  assumes "try_fold f xs acc = Inr acc'" "\<And>x a b. f x a = Inr b \<Longrightarrow> set a \<subseteq> set b"
    and "x \<in> set xs" "\<And>a b. f x a = Inr b \<Longrightarrow> y \<in> set b"
  shows "y \<in> set acc'"
proof -
  obtain ys zs where "xs = ys @ x # zs" using assms(3) split_list by metis
  with assms(1) obtain a b where "f x a = Inr b" "try_fold f zs b = Inr acc'"
    by (auto simp: try_fold_append result_simps)
  with try_fold_set_mono [of f zs b acc'] assms(2,4) show ?thesis by blast
qed

section \<open>Lemmas on strings\<close>

lemma str_Nil [simp, str_simps]: "str [] = []"
  by (simp add: str_def)

lemma str_Cons [str_simps]: "str (c # cs) = of_char c # str cs"
  by (simp add: str_def)

lemma str_append: "str (a @ b) = str a @ str b"
  by (simp add: str_def)

lemma length_str [simp]: "length (str s) = length s"
  by (simp add: str_def)

lemma strip_prefix_append [simp]: "strip_prefix p (p @ s) = Some s"
  by (induction p) auto

lemma strip_prefix_Some: "strip_prefix p s = Some r \<longleftrightarrow> s = p @ r"
  by (induction p s rule: strip_prefix.induct) auto

lemma strip_prefix_None: "strip_prefix p s = None \<longleftrightarrow> (\<nexists>r. s = p @ r)"
  by (induction p s rule: strip_prefix.induct) auto

lemma starts_with_iff: "starts_with p s \<longleftrightarrow> (\<exists>r. s = p @ r)"
  by (auto simp: starts_with_def strip_prefix_None)

lemma ends_with_iff: "ends_with p s \<longleftrightarrow> (\<exists>r. s = r @ p)"
proof -
  have "(\<exists>r. rev s = rev p @ r) \<longleftrightarrow> (\<exists>r. s = r @ p)"
    by (metis rev_append rev_rev_ident)
  then show ?thesis by (auto simp: ends_with_def strip_prefix_None)
qed

lemma split_once_append [simp]: "d \<notin> set a \<Longrightarrow> split_once d (a @ d # b) = Some (a, b)"
  by (induction a) auto

lemma split_once_SomeD: "split_once d s = Some (a, b) \<Longrightarrow> s = a @ d # b \<and> d \<notin> set a"
proof (induction s arbitrary: a)
  case (Cons c s)
  then show ?case by (cases "c = d"; cases "split_once d s") auto
qed simp

lemma split_once_Some: "split_once d s = Some (a, b) \<longleftrightarrow> s = a @ d # b \<and> d \<notin> set a"
  using split_once_SomeD split_once_append by blast

lemma split_once_None: "split_once d s = None \<longleftrightarrow> d \<notin> set s"
  by (induction s) (auto split: option.splits)

lemma split_char_nonempty [simp]: "split_char d s \<noteq> []"
  by (induction s) (auto split: list.splits)

lemma split_char_no_sep: "d \<notin> set s \<Longrightarrow> split_char d s = [s]"
  by (induction s) auto

lemma split_char_append:
  "d \<notin> set a \<Longrightarrow> split_char d (a @ d # b) = a # split_char d b"
  by (induction a) auto

lemma split_char_pieces: "p \<in> set (split_char d s) \<Longrightarrow> d \<notin> set p"
  by (induction s arbitrary: p) (auto split: list.splits if_splits)

lemma split_char_join:
  "xs \<noteq> [] \<Longrightarrow> \<forall>x \<in> set xs. d \<notin> set x \<Longrightarrow> split_char d (join_str [d] xs) = xs"
  by (induction xs rule: induct_list012) (auto simp: split_char_no_sep split_char_append)

lemma join_split_char: "join_str [d] (split_char d s) = s"
proof (induction s)
  case (Cons c cs)
  show ?case
  proof (cases "split_char d cs")
    case (Cons p ps)
    with \<open>join_str [d] (split_char d cs) = cs\<close> show ?thesis
      by (cases ps) auto
  qed simp
qed simp

lemma valid_str_simps [simp]:
  "valid_str []"
  "valid_str (c # s) \<longleftrightarrow> is_scalar c \<and> valid_str s"
  "valid_str (s @ t) \<longleftrightarrow> valid_str s \<and> valid_str t"
  by (auto simp: valid_str_def)

lemma of_char_less_256: "(of_char c :: nat) < 256"
  using of_char_mod_256 [of c, where 'a = nat] by (metis mod_less_divisor zero_less_numeral)

lemma str_eq_iff [simp]: "str a = str b \<longleftrightarrow> a = b"
  by (simp add: str_def inj_map_eq_map inj_of_char)

lemma str_eq_Nil [simp]: "str s = [] \<longleftrightarrow> s = []"
  by (simp add: str_def)

lemma valid_str_str [simp]: "valid_str (str s)"
proof -
  have "is_scalar (of_char c)" for c
    using of_char_less_256 [of c] unfolding is_scalar_def by linarith
  then show ?thesis by (auto simp: valid_str_def str_def)
qed

lemma str_len_append [simp]: "str_len (a @ b) = str_len a + str_len b"
  by (simp add: str_len_def)

lemma str_len_ascii: "\<forall>c \<in> set s. c < 0x80 \<Longrightarrow> str_len s = length s"
  by (induction s) (auto simp: str_len_def utf8_width_def)

lemma length_le_str_len: "length s \<le> str_len s"
  by (induction s) (auto simp: str_len_def utf8_width_def)

section \<open>Ordered maps\<close>

text \<open>
  \<^verbatim>\<open>BTreeMap\<close> and \<^verbatim>\<open>HashMap\<close> values are association lists with strictly ascending keys, so that
  equality of the lists is equality of the maps and iteration of a \<^verbatim>\<open>BTreeMap\<close> is the list itself.
  \<open>map_store\<close> is the interface the components use.
\<close>

type_synonym ('k, 'v) kvmap = "('k \<times> 'v) list"

fun kv_insert :: "'k::linorder \<Rightarrow> 'v \<Rightarrow> ('k, 'v) kvmap \<Rightarrow> ('k, 'v) kvmap" where
  "kv_insert k v [] = [(k, v)]"
| "kv_insert k v ((a, b) # m) =
     (if k < a then (k, v) # (a, b) # m
      else if k = a then (k, v) # m
      else (a, b) # kv_insert k v m)"

definition kv_remove :: "'k::linorder \<Rightarrow> ('k, 'v) kvmap \<Rightarrow> ('k, 'v) kvmap" where
  "kv_remove k m = filter (\<lambda>e. fst e \<noteq> k) m"

definition kv_lookup :: "('k::linorder, 'v) kvmap \<Rightarrow> 'k \<Rightarrow> 'v option" where
  "kv_lookup m = map_of m"

definition kv_wf :: "('k::linorder, 'v) kvmap \<Rightarrow> bool" where
  "kv_wf m \<longleftrightarrow> sorted_wrt (<) (map fst m)"

text \<open>\<^verbatim>\<open>iter.collect::<HashMap<_, _>>()\<close> and \<^verbatim>\<open>map.extend(iter)\<close>: a later entry replaces an earlier one.\<close>

definition kv_extend :: "('k::linorder, 'v) kvmap \<Rightarrow> ('k \<times> 'v) list \<Rightarrow> ('k, 'v) kvmap" where
  "kv_extend m es = fold (\<lambda>e. kv_insert (fst e) (snd e)) es m"

lemma kv_lookup_Nil [simp]: "kv_lookup [] = Map.empty"
  by (simp add: kv_lookup_def)

lemma kv_lookup_insert: "kv_lookup (kv_insert k v m) = (kv_lookup m)(k \<mapsto> v)"
  by (induction k v m rule: kv_insert.induct) (auto simp: kv_lookup_def fun_eq_iff)

lemma kv_lookup_remove: "kv_lookup (kv_remove k m) = (kv_lookup m)(k := None)"
  by (induction m) (auto simp: kv_lookup_def kv_remove_def fun_eq_iff)

lemma set_fst_kv_insert [simp]: "set (map fst (kv_insert k v m)) = insert k (set (map fst m))"
  by (induction k v m rule: kv_insert.induct) auto

lemma kv_wf_insert: "kv_wf m \<Longrightarrow> kv_wf (kv_insert k v m)"
proof (induction k v m rule: kv_insert.induct)
  case (2 k v a b m)
  then have "set (map fst (kv_insert k v m)) = insert k (fst ` set m)" "kv_wf m"
    by (simp_all only: set_fst_kv_insert) (auto simp: kv_wf_def)
  with 2 show ?case by (auto simp: kv_wf_def)
qed (simp add: kv_wf_def)

lemma kv_wf_remove: "kv_wf m \<Longrightarrow> kv_wf (kv_remove k m)"
  by (induction m) (auto simp: kv_wf_def kv_remove_def)

lemma kv_wf_Nil [simp]: "kv_wf []"
  by (simp add: kv_wf_def)

lemma kv_wf_distinct: "kv_wf m \<Longrightarrow> distinct (map fst m)"
  by (simp add: kv_wf_def strict_sorted_iff)

lemma kv_eqI: "kv_wf m \<Longrightarrow> kv_wf n \<Longrightarrow> kv_lookup m = kv_lookup n \<Longrightarrow> m = n"
proof -
  assume wf: "kv_wf m" "kv_wf n" and eq: "kv_lookup m = kv_lookup n"
  then have "set m = set n"
    by (simp add: kv_lookup_def map_of_inject_set kv_wf_distinct)
  with wf show ?thesis
    by (intro map_sorted_distinct_set_unique [where f = fst])
       (auto simp: kv_wf_def strict_sorted_iff distinct_map intro: inj_on_subset)
qed

locale map_store =
  fixes empty :: "'m"
    and insert_entry :: "'k \<Rightarrow> 'v \<Rightarrow> 'm \<Rightarrow> 'm"
    and remove_entry :: "'k \<Rightarrow> 'm \<Rightarrow> 'm"
    and lookup :: "'m \<Rightarrow> 'k \<Rightarrow> 'v option"
    and wf_map :: "'m \<Rightarrow> bool"
  assumes lookup_empty: "lookup empty k = None"
    and lookup_insert: "wf_map m \<Longrightarrow> lookup (insert_entry k v m) = (lookup m)(k \<mapsto> v)"
    and lookup_remove: "wf_map m \<Longrightarrow> lookup (remove_entry k m) = (lookup m)(k := None)"
    and wf_empty: "wf_map empty"
    and wf_insert: "wf_map m \<Longrightarrow> wf_map (insert_entry k v m)"
    and wf_remove: "wf_map m \<Longrightarrow> wf_map (remove_entry k m)"
    and extensional: "wf_map m \<Longrightarrow> wf_map n \<Longrightarrow> lookup m = lookup n \<Longrightarrow> m = n"
begin

lemma insert_insert_same: "wf_map m \<Longrightarrow> insert_entry k v (insert_entry k w m) = insert_entry k v m"
  by (rule extensional) (auto simp: lookup_insert wf_insert)

lemma insert_commute:
  "wf_map m \<Longrightarrow> k \<noteq> l \<Longrightarrow>
   insert_entry k v (insert_entry l w m) = insert_entry l w (insert_entry k v m)"
  by (rule extensional) (auto simp: lookup_insert wf_insert)

lemma insert_idem: "wf_map m \<Longrightarrow> lookup m k = Some v \<Longrightarrow> insert_entry k v m = m"
  by (rule extensional) (auto simp: lookup_insert wf_insert)

lemma remove_absent: "wf_map m \<Longrightarrow> lookup m k = None \<Longrightarrow> remove_entry k m = m"
  by (rule extensional) (auto simp: lookup_remove wf_remove)

end

interpretation kv: map_store "[]" kv_insert kv_remove kv_lookup kv_wf
  by unfold_locales
     (auto simp: kv_lookup_insert kv_lookup_remove kv_wf_insert kv_wf_remove intro: kv_eqI)

lemma kv_extend_simps [simp]:
  "kv_extend m [] = m"
  "kv_extend m (e # es) = kv_extend (kv_insert (fst e) (snd e) m) es"
  by (simp_all add: kv_extend_def)

lemma kv_wf_extend: "kv_wf m \<Longrightarrow> kv_wf (kv_extend m es)"
  by (induction es arbitrary: m) (auto simp: kv_wf_insert)

lemma kv_lookup_extend: "kv_lookup (kv_extend m es) = kv_lookup m ++ map_of (rev es)"
proof (induction es arbitrary: m)
  case (Cons e es)
  then show ?case
    by (cases e) (simp add: kv_lookup_insert map_add_def fun_eq_iff split: option.splits)
qed simp

lemma kv_lookup_None: "kv_lookup m k = None \<longleftrightarrow> k \<notin> fst ` set m"
  by (simp add: kv_lookup_def map_of_eq_None_iff)

lemma kv_lookup_mem: "kv_wf m \<Longrightarrow> kv_lookup m k = Some v \<longleftrightarrow> (k, v) \<in> set m"
  by (simp add: kv_lookup_def kv_wf_distinct)

section \<open>The interface of a printer and its parser\<close>

locale text_codec =
  fixes enc :: "'a \<Rightarrow> rstr result"
    and dec :: "rstr \<Rightarrow> 'a result"
    and wf :: "'a \<Rightarrow> bool"
  assumes enc_total: "wf x \<Longrightarrow> \<exists>s. enc x = Inr s"
    and dec_enc: "wf x \<Longrightarrow> enc x = Inr s \<Longrightarrow> dec s = Inr x"
begin

lemma enc_inj:
  assumes "wf x" "wf y" "enc x = Inr s" "enc y = Inr s"
  shows "x = y"
  using dec_enc [OF assms(1,3)] dec_enc [OF assms(2,4)] by simp

lemma round_trip: "wf x \<Longrightarrow> and_then (enc x) dec = Inr x"
  using enc_total [of x] dec_enc [of x] by auto

lemma round_trip_list:
  assumes "list_all wf xs"
  shows "and_then (try_map enc xs) (try_map dec) = Inr xs"
  using assms
proof (induction xs)
  case (Cons x xs)
  from Cons.prems obtain s where "enc x = Inr s" "dec s = Inr x"
    using enc_total dec_enc by fastforce
  with Cons show ?case by (cases "try_map enc xs") auto
qed simp

end

end
