(* ===== verification/UPath.thy ===== *)
theory UPath
  imports Prelude
begin

text \<open>
  Unix paths of the Rust standard library (and of \<^verbatim>\<open>camino\<close>, which only adds the UTF-8 guarantee):
  the components of a path string, \<^verbatim>\<open>push\<close>, \<^verbatim>\<open>pop\<close>, the collection of components into a path,
  and the component-wise prefix functions.  Two paths are equal when their components are.
\<close>

section \<open>Definitions\<close>

datatype component = RootDir | CurDir | ParentDir | Normal rstr

definition dot :: rstr where "dot = [46]"
definition dotdot :: rstr where "dotdot = [46, 46]"
definition slash :: rchar where "slash = 47"

lemmas path_consts = dot_def dotdot_def slash_def

fun component_str :: "component \<Rightarrow> rstr" where
  "component_str RootDir = [47]"
| "component_str CurDir = dot"
| "component_str ParentDir = dotdot"
| "component_str (Normal s) = s"

definition part_component :: "rstr \<Rightarrow> component list" where
  "part_component s = (if s = [] \<or> s = dot then [] else if s = dotdot then [ParentDir] else [Normal s])"

text \<open>Empty parts and \<^verbatim>\<open>.\<close> parts are skipped, except a \<^verbatim>\<open>.\<close> that begins a relative path.\<close>

definition components :: "rstr \<Rightarrow> component list" where
  "components s =
     (let parts = split_char slash s; body = concat (map part_component parts)
      in if starts_with [slash] s then RootDir # body
         else if hd parts = dot then CurDir # body
         else body)"

definition is_absolute :: "rstr \<Rightarrow> bool" where
  "is_absolute s \<longleftrightarrow> starts_with [slash] s"

definition path_push :: "rstr \<Rightarrow> rstr \<Rightarrow> rstr" where
  "path_push p s =
     (if is_absolute s then s
      else if p = [] \<or> ends_with [slash] p then p @ s
      else p @ [slash] @ s)"

text \<open>\<^verbatim>\<open>iter.collect::<PathBuf>()\<close>.\<close>

definition path_collect :: "component list \<Rightarrow> rstr" where
  "path_collect cs = fold (\<lambda>c p. path_push p (component_str c)) cs []"

text \<open>\<^verbatim>\<open>parent\<close> and \<^verbatim>\<open>pop\<close>: the path without its last component, if that is not the root.\<close>

definition path_parent :: "rstr \<Rightarrow> rstr option" where
  "path_parent s =
     (case rev (components s) of
        [] \<Rightarrow> None
      | RootDir # _ \<Rightarrow> None
      | _ # cs \<Rightarrow> Some (path_collect (rev cs)))"

definition path_file_name :: "rstr \<Rightarrow> rstr option" where
  "path_file_name s = (case rev (components s) of Normal n # _ \<Rightarrow> Some n | _ \<Rightarrow> None)"

definition path_eq :: "rstr \<Rightarrow> rstr \<Rightarrow> bool" where
  "path_eq a b \<longleftrightarrow> components a = components b"

fun strip_components :: "component list \<Rightarrow> component list \<Rightarrow> component list option" where
  "strip_components [] cs = Some cs"
| "strip_components (p # ps) [] = None"
| "strip_components (p # ps) (c # cs) = (if p = c then strip_components ps cs else None)"

definition path_strip_prefix :: "rstr \<Rightarrow> rstr \<Rightarrow> rstr option" where
  "path_strip_prefix prefix s = map_option path_collect (strip_components (components prefix) (components s))"

definition path_starts_with :: "rstr \<Rightarrow> rstr \<Rightarrow> bool" where
  "path_starts_with prefix s \<longleftrightarrow> strip_components (components prefix) (components s) \<noteq> None"

section \<open>Lemmas\<close>

definition plain_name :: "rstr \<Rightarrow> bool" where
  "plain_name s \<longleftrightarrow> s \<noteq> [] \<and> s \<noteq> dot \<and> s \<noteq> dotdot \<and> slash \<notin> set s"

lemma strip_components_Some: "strip_components p cs = Some r \<longleftrightarrow> cs = p @ r"
  by (induction p cs rule: strip_components.induct) auto

lemma split_char_append2:
  "split_char d (a @ b) = butlast (split_char d a) @ (last (split_char d a) @ hd (split_char d b)) # tl (split_char d b)"
proof (induction a)
  case Nil
  then show ?case by (cases "split_char d b") auto
next
  case (Cons c cs)
  obtain p ps where p: "split_char d cs = p # ps" by (cases "split_char d cs") auto
  show ?case using Cons by (auto simp: p)
qed

lemma split_char_snoc_sep: "split_char d (a @ [d]) = split_char d a @ [[]]"
proof (induction a)
  case (Cons c cs)
  obtain p ps where p: "split_char d cs = p # ps" by (cases "split_char d cs") auto
  with Cons show ?case by auto
qed simp

lemma split_char_sep: "split_char d (a @ d # b) = split_char d a @ split_char d b"
proof (induction a)
  case (Cons c cs)
  obtain p ps where p: "split_char d cs = p # ps" by (cases "split_char d cs") auto
  with Cons show ?case by auto
qed simp

lemma part_component_plain: "plain_name n \<Longrightarrow> part_component n = [Normal n]"
  by (simp add: part_component_def plain_name_def)

lemma part_component_cases: "part_component s = [] \<or> part_component s = [ParentDir] \<or> part_component s = [Normal s]"
  by (simp add: part_component_def)

lemma plain_not_absolute: "plain_name n \<Longrightarrow> \<not> is_absolute n"
  by (auto simp: plain_name_def is_absolute_def starts_with_iff)

lemma dot_simps [simp]: "dot \<noteq> []" "dotdot \<noteq> []" "dot \<noteq> dotdot" "dotdot \<noteq> dot" "[] \<noteq> dot" "[] \<noteq> dotdot"
  "slash \<notin> set dot" "slash \<notin> set dotdot"
  by (simp_all add: path_consts)

lemma part_component_simps [simp]:
  "part_component [] = []" "part_component dot = []" "part_component dotdot = [ParentDir]"
  by (simp_all add: part_component_def)

lemma is_absolute_Nil [simp]: "\<not> is_absolute []"
  by (simp add: is_absolute_def starts_with_iff)

lemma starts_with_append_char: "x \<noteq> [] \<Longrightarrow> starts_with [d] (x @ y) \<longleftrightarrow> starts_with [d] x"
  by (cases x) (auto simp: starts_with_def)

lemma components_append_part:
  "q \<noteq> [] \<Longrightarrow> components (q @ slash # n) = components q @ concat (map part_component (split_char slash n))"
  by (simp add: components_def Let_def split_char_sep starts_with_append_char)

lemma components_root: "components (slash # n) = RootDir # concat (map part_component (split_char slash n))"
  by (simp add: components_def Let_def starts_with_def)

lemma components_push_part:
  assumes "n \<noteq> []" "slash \<notin> set n" "p \<noteq> [] \<or> n \<noteq> dot"
  shows "components (path_push p n) = components p @ part_component n"
proof -
  have sn: "split_char slash n = [n]" and na: "\<not> is_absolute n"
    using assms by (auto simp: split_char_no_sep is_absolute_def starts_with_iff)
  consider "p = []" | q where "p = q @ [slash]" | "p \<noteq> []" "\<not> ends_with [slash] p"
    by (auto simp: ends_with_iff)
  then show ?thesis
  proof cases
    case 1
    with assms sn na show ?thesis
      by (auto simp: path_push_def components_def Let_def is_absolute_def [symmetric])
  next
    case 2
    then have "path_push p n = q @ slash # n"
      using na by (simp add: path_push_def ends_with_iff)
    then show ?thesis
      using 2 sn by (cases "q = []") (simp_all add: components_append_part components_root)
  next
    case 3
    then have "path_push p n = p @ slash # n"
      using na by (simp add: path_push_def)
    then show ?thesis
      using 3 sn by (simp add: components_append_part)
  qed
qed

text \<open>Pushing a plain name appends one component.\<close>

lemma components_push: "plain_name n \<Longrightarrow> components (path_push p n) = components p @ [Normal n]"
  using components_push_part [of n p] part_component_plain [of n] by (simp add: plain_name_def)

lemma components_Nil [simp]: "components [] = []"
  by (simp add: components_def starts_with_iff)

text \<open>The component lists of paths: a root or current directory only in front, then plain names and
  parent directories.\<close>

fun body_component :: "component \<Rightarrow> bool" where
  "body_component (Normal n) \<longleftrightarrow> plain_name n"
| "body_component ParentDir \<longleftrightarrow> True"
| "body_component _ \<longleftrightarrow> False"

definition wf_components :: "component list \<Rightarrow> bool" where
  "wf_components cs \<longleftrightarrow>
     (case cs of [] \<Rightarrow> True
      | c # rest \<Rightarrow> (c = RootDir \<or> c = CurDir \<or> body_component c) \<and> list_all body_component rest)"

lemma part_component_body: "slash \<notin> set s \<Longrightarrow> list_all body_component (part_component s)"
  by (auto simp: part_component_def plain_name_def)

lemma wf_components_body: "list_all body_component cs \<Longrightarrow> wf_components cs"
  by (cases cs) (auto simp: wf_components_def)

lemma wf_components_components: "wf_components (components s)"
proof -
  have "list_all body_component (concat (map part_component (split_char slash s)))"
    using part_component_body split_char_pieces by (fastforce simp: list_all_iff)
  then show ?thesis
    by (auto simp: components_def Let_def wf_components_body) (auto simp: wf_components_def)
qed

lemma path_collect_snoc: "path_collect (cs @ [c]) = path_push (path_collect cs) (component_str c)"
  by (simp add: path_collect_def)

lemma path_collect_Nil [simp]: "path_collect [] = []"
  by (simp add: path_collect_def)

lemma components_push_body:
  assumes "body_component c"
  shows "components (path_push p (component_str c)) = components p @ [c]"
proof (cases c)
  case (Normal n)
  with assms show ?thesis by (simp add: components_push)
qed (use assms components_push_part [of dotdot p] in auto)

lemma components_path_collect: "wf_components cs \<Longrightarrow> components (path_collect cs) = cs"
proof (induction cs rule: rev_induct)
  case (snoc c cs)
  then have cs: "wf_components cs" by (auto simp: wf_components_def split: list.splits)
  show ?case
  proof (cases "cs = []")
    case True
    with snoc.prems consider "c = RootDir" | "c = CurDir" | "body_component c"
      by (auto simp: wf_components_def)
    then show ?thesis
    proof cases
      case 3
      with True show ?thesis
        using path_collect_snoc [of "[]" c] by (simp add: components_push_body)
    qed (simp_all add: True path_collect_def path_push_def is_absolute_def starts_with_def components_def part_component_def path_consts)
  next
    case False
    with snoc.prems have "body_component c" by (auto simp: wf_components_def neq_Nil_conv)
    with snoc cs show ?thesis by (simp add: path_collect_snoc components_push_body)
  qed
qed simp

lemma path_collect_components_eq: "path_eq (path_collect (components s)) s"
  by (simp add: path_eq_def components_path_collect wf_components_components)

lemma pop_push:
  assumes "plain_name n"
  shows "path_parent (path_push p n) = Some (path_collect (components p))"
  using components_push [OF assms, of p] by (simp add: path_parent_def)

lemma strip_prefix_components:
  "path_strip_prefix p s = Some r \<Longrightarrow> wf_components cs \<Longrightarrow> components s = components p @ cs \<Longrightarrow> components r = cs"
  by (auto simp: path_strip_prefix_def strip_components_Some components_path_collect)

end
