(* ===== verification/Oci.thy ===== *)
theory Oci
  imports Prelude
begin

text \<open>
  The OCI image data the crate reads and writes through \<^verbatim>\<open>oci_spec\<close>: the fields the crate's
  code accesses.  A descriptor is compared as a whole by the code, so its remaining optional fields (\<^verbatim>\<open>urls\<close>,
  \<^verbatim>\<open>platform\<close>, \<^verbatim>\<open>artifactType\<close>, \<^verbatim>\<open>data\<close>) are kept too, as the JSON text of each one that is present, in \<open>d_other\<close>.  The types are those of the OCI image specification and carry no behaviour of
  their own, apart from the textual form \<^verbatim>\<open>algorithm:hex\<close> of a digest.
\<close>

datatype media_type =
    ImageManifestType
  | ImageConfigType
  | ImageLayer
  | ImageLayerGzip
  | ImageLayerZstd
  | OtherMedia rstr

record digest =
  dg_algorithm :: rstr
  dg_hex :: rstr

definition digest_to_string :: "digest \<Rightarrow> rstr" where
  "digest_to_string d = dg_algorithm d @ [58] @ dg_hex d"

record descriptor =
  d_media_type :: media_type
  d_digest :: digest
  d_size :: u64
  d_annotations :: "(rstr, rstr) kvmap option"
  d_other :: "(rstr, rstr) kvmap"

record image_manifest =
  m_config :: descriptor
  m_layers :: "descriptor list"
  m_annotations :: "(rstr, rstr) kvmap option"

record history =
  h_created_by :: "rstr option"
  h_comment :: "rstr option"

record container_config =
  cc_labels :: "(rstr, rstr) kvmap option"
  cc_cmd :: "rstr list option"

record image_configuration =
  c_architecture :: rstr
  c_created :: "rstr option"
  c_config :: "container_config option"
  c_diff_ids :: "rstr list"
  c_history :: "history list"

definition default_container_config :: container_config where
  "default_container_config = \<lparr>cc_labels = None, cc_cmd = None\<rparr>"

text \<open>Digests whose algorithm has no colon are determined by their textual form.\<close>

lemma digest_to_string_inject:
  assumes "58 \<notin> set (dg_algorithm a)" "58 \<notin> set (dg_algorithm b)"
    and "digest_to_string a = digest_to_string b"
  shows "a = (b :: digest)"
proof -
  have "split_once 58 (digest_to_string a) = split_once 58 (digest_to_string b)"
    using assms(3) by simp
  then show ?thesis
    using assms(1,2) by (cases a; cases b) (simp add: digest_to_string_def)
qed

end
