(* ===== verification/Action.thy ===== *)
theory Action
  imports Prelude
begin

text \<open>
  Stateful code that may fail: an \<open>action\<close> takes the state and returns a result together with the state
  it leaves behind, also when it fails.  \<open>act_bind\<close> is the sequence of two statements with \<^verbatim>\<open>?\<close> after the
  first, \<open>act_collect\<close> and \<open>act_fold\<close> are loops that stop at the first error.  \<open>leads\<close> states what every run
  of an action does to the state, whether it succeeds or not.
\<close>

type_synonym ('s, 'a) action = "'s \<Rightarrow> 'a result \<times> 's"

section \<open>Definitions\<close>

definition act_result :: "'a result \<Rightarrow> ('s, 'a) action" where
  "act_result r s = (r, s)"

abbreviation act_ret :: "'a \<Rightarrow> ('s, 'a) action" where
  "act_ret x \<equiv> act_result (Inr x)"

definition act_bind :: "('s, 'a) action \<Rightarrow> ('a \<Rightarrow> ('s, 'b) action) \<Rightarrow> ('s, 'b) action" where
  "act_bind m f s = (case m s of (Inl e, s') \<Rightarrow> (Inl e, s') | (Inr x, s') \<Rightarrow> f x s')"

definition act_query :: "('s \<Rightarrow> 'a result) \<Rightarrow> ('s, 'a) action" where
  "act_query f s = (f s, s)"

definition act_update :: "('s \<Rightarrow> 's result) \<Rightarrow> ('s, unit) action" where
  "act_update f s = (case f s of Inr s' \<Rightarrow> (Inr (), s') | Inl e \<Rightarrow> (Inl e, s))"

text \<open>An operation that returns a value and the new state only when it succeeds.\<close>

definition act_lift :: "('s \<Rightarrow> ('a \<times> 's) result) \<Rightarrow> ('s, 'a) action" where
  "act_lift f s = (case f s of Inr (x, s') \<Rightarrow> (Inr x, s') | Inl e \<Rightarrow> (Inl e, s))"

fun act_collect :: "('x \<Rightarrow> ('s, 'a) action) \<Rightarrow> 'x list \<Rightarrow> ('s, 'a list) action" where
  "act_collect f [] = act_ret []"
| "act_collect f (x # xs) = act_bind (f x) (\<lambda>y. act_bind (act_collect f xs) (\<lambda>ys. act_ret (y # ys)))"

fun act_fold :: "('x \<Rightarrow> 'a \<Rightarrow> ('s, 'a) action) \<Rightarrow> 'x list \<Rightarrow> 'a \<Rightarrow> ('s, 'a) action" where
  "act_fold f [] a = act_ret a"
| "act_fold f (x # xs) a = act_bind (f x a) (act_fold f xs)"

section \<open>Lemmas\<close>

named_theorems act_simps \<open>inversion of successful runs of actions\<close>

lemma act_result_app [simp, act_simps]: "act_result r s = (r', s') \<longleftrightarrow> r = r' \<and> s' = s"
  by (auto simp: act_result_def)

lemma act_query_app [simp, act_simps]: "act_query f s = (r, s') \<longleftrightarrow> f s = r \<and> s' = s"
  by (auto simp: act_query_def)

lemma act_bind_Inr [act_simps]:
  "act_bind m f s = (Inr y, s') \<longleftrightarrow> (\<exists>x s1. m s = (Inr x, s1) \<and> f x s1 = (Inr y, s'))"
  by (auto simp: act_bind_def split: prod.splits sum.splits)

lemma act_bind_run: "m s = (Inr x, s1) \<Longrightarrow> act_bind m f s = f x s1"
  by (simp add: act_bind_def)

lemma act_bind_fail: "m s = (Inl e, s1) \<Longrightarrow> act_bind m f s = (Inl e, s1)"
  by (simp add: act_bind_def)

lemma act_bind_result [simp]:
  "act_bind (act_result (Inr x)) f = f x" "act_bind (act_result (Inl e)) f = act_result (Inl e)"
  by (simp_all add: act_bind_def act_result_def fun_eq_iff)

lemma act_bind_query: "act_bind (act_query g) f s = (case g s of Inl e \<Rightarrow> (Inl e, s) | Inr x \<Rightarrow> f x s)"
  by (simp add: act_bind_def act_query_def split: sum.split)

lemma act_bind_result_app: "act_bind (act_result r) f s = (case r of Inl e \<Rightarrow> (Inl e, s) | Inr x \<Rightarrow> f x s)"
  by (simp add: act_bind_def act_result_def split: sum.split)

lemma act_bind_assoc: "act_bind (act_bind m f) g = act_bind m (\<lambda>x. act_bind (f x) g)"
  by (auto simp: act_bind_def fun_eq_iff split: prod.splits sum.splits)

lemma act_update_Inr [act_simps]: "act_update f s = (Inr u, s') \<longleftrightarrow> f s = Inr s'"
  by (auto simp: act_update_def split: sum.splits)

lemma act_lift_Inr [act_simps]: "act_lift f s = (Inr x, s') \<longleftrightarrow> f s = Inr (x, s')"
  by (auto simp: act_lift_def split: sum.splits)

lemma act_collect_length: "act_collect f xs s = (Inr ys, s') \<Longrightarrow> length ys = length xs"
  by (induction xs arbitrary: s ys) (auto simp: act_simps)

text \<open>Every run of the action relates the state before to the state after.\<close>

definition leads :: "('s \<Rightarrow> 's \<Rightarrow> bool) \<Rightarrow> ('s, 'a) action \<Rightarrow> bool" where
  "leads R m \<longleftrightarrow> (\<forall>s. R s (snd (m s)))"

named_theorems leads_intros \<open>rules for what actions do to the state\<close>

lemma leadsD: "leads R m \<Longrightarrow> m s = (r, s') \<Longrightarrow> R s s'"
  by (metis leads_def snd_conv)

lemma leads_result [leads_intros]: "reflp R \<Longrightarrow> leads R (act_result r)"
  by (simp add: leads_def act_result_def reflpD)

lemma leads_query [leads_intros]: "reflp R \<Longrightarrow> leads R (act_query f)"
  by (simp add: leads_def act_query_def reflpD)

lemma leads_bind [leads_intros]:
  assumes "transp R" "leads R m" "\<And>x. leads R (f x)"
  shows "leads R (act_bind m f)"
  unfolding leads_def
proof
  fix s
  obtain r s1 where m: "m s = (r, s1)" by (cases "m s")
  then have R: "R s s1" by (rule leadsD [OF assms(2)])
  show "R s (snd (act_bind m f s))"
  proof (cases r)
    case (Inl e)
    with m R show ?thesis by (simp add: act_bind_fail)
  next
    case (Inr x)
    then show ?thesis
      using m R assms(3) [of x] transpD [OF assms(1) R] by (simp add: act_bind_run leads_def)
  qed
qed

lemma leads_update [leads_intros]:
  "reflp R \<Longrightarrow> (\<And>s s'. f s = Inr s' \<Longrightarrow> R s s') \<Longrightarrow> leads R (act_update f)"
  by (auto simp: leads_def act_update_def intro: reflpD split: sum.splits)

lemma leads_lift [leads_intros]:
  "reflp R \<Longrightarrow> (\<And>s x s'. f s = Inr (x, s') \<Longrightarrow> R s s') \<Longrightarrow> leads R (act_lift f)"
  by (auto simp: leads_def act_lift_def intro: reflpD split: sum.splits)

lemma leads_collect [leads_intros]:
  "reflp R \<Longrightarrow> transp R \<Longrightarrow> (\<And>x. x \<in> set xs \<Longrightarrow> leads R (f x)) \<Longrightarrow> leads R (act_collect f xs)"
  by (induction xs) (auto intro!: leads_intros)

lemma leads_fold [leads_intros]:
  "reflp R \<Longrightarrow> transp R \<Longrightarrow> (\<And>x a. x \<in> set xs \<Longrightarrow> leads R (f x a)) \<Longrightarrow> leads R (act_fold f xs a)"
  by (induction xs arbitrary: a) (auto intro!: leads_intros)

end
