(* ===== verification/TarWrite.thy ===== *)
theory TarWrite
  imports UPath Oci Action
begin

text \<open>
  Filtering a container layer before it is committed (\<^verbatim>\<open>lib/src/tar/write.rs\<close>).  The \<^verbatim>\<open>tar\<close> crate is
  third-party: an archive is the list of its entries, given by the fields the code reads, and a
  \<^verbatim>\<open>Builder\<close> is the list of the entries appended to it; writing to it does not fail in the model.
  Paths that are keys of a \<^verbatim>\<open>HashMap\<close> are their components, as \<^verbatim>\<open>Utf8PathBuf\<close> compares them.
  The \<^verbatim>\<open>ostree commit\<close> child process and the checkout of the SELinux policy are arguments of
  \<open>write_tar\<close>.
\<close>

section \<open>Definitions\<close>

type_synonym bytes = "nat list"

datatype entry_type = Regular | Link | Symlink | Char | Block | Directory | Fifo | OtherType nat

text \<open>\<open>te_header_link\<close> is the link name in the header itself, \<open>te_link\<close> the one that takes long names
  into account; a path that is not UTF-8 is \<open>None\<close>.  \<open>te_size\<close> is the size in the header, \<open>te_data\<close> what the
  stream then yields, which is shorter when the stream ends early.\<close>

record tar_entry =
  te_path :: "rstr option"
  te_type :: entry_type
  te_header_link :: "rstr option"
  te_link :: "rstr option"
  te_uid :: u64
  te_gid :: u64
  te_mode :: u32
  te_mtime :: "u64 option"
  te_size :: u64
  te_pax :: "(rstr \<times> bytes) list option"
  te_data :: bytes

definition EXCLUDED_TOPLEVEL_PATHS :: "rstr list" where
  "EXCLUDED_TOPLEVEL_PATHS = [str ''run'', str ''tmp'', str ''proc'', str ''sys'', str ''dev'']"

definition REPO_PREFIX :: rstr where
  "REPO_PREFIX = str ''sysroot/ostree/repo/''"

record write_tar_options =
  wo_base :: "rstr option"
  wo_selinux :: bool
  wo_allow_nonusr :: bool
  wo_retain_var :: bool

record write_tar_result =
  wr_commit :: rstr
  wr_filtered :: "(rstr, u32) kvmap"

datatype normalized_path_result = Filtered rstr | NormalPath rstr

record tar_import_config =
  allow_nonusr :: bool
  remap_factory_var :: bool

subsection \<open>Paths\<close>

definition remap_etc_path :: "rstr \<Rightarrow> rstr" where
  "remap_etc_path path =
     (case components path of
        [] \<Rightarrow> path
      | prefix # cs \<Rightarrow>
          (case (if prefix = CurDir \<or> prefix = RootDir
                 then (case cs of [] \<Rightarrow> None | next_c # cs' \<Rightarrow> Some ([prefix], next_c, cs'))
                 else Some ([], prefix, cs)) of
             None \<Rightarrow> path
           | Some (pre, first, rest) \<Rightarrow>
               if component_str first = str ''etc''
               then path_collect (pre @ [Normal (str ''usr''), first] @ rest)
               else path))"

fun normalize_loop ::
  "tar_import_config \<Rightarrow> component list \<Rightarrow> bool \<Rightarrow> bool \<Rightarrow> rstr \<Rightarrow> normalized_path_result result" where
  "normalize_loop config [] found_first excluded ret = Inr (NormalPath ret)"
| "normalize_loop config (p # parts) found_first excluded ret =
     (if p = ParentDir then Inl (Err ''Invalid path'')
      else
        let part = (if p = RootDir then CurDir else p)
        in if excluded then Inr (Filtered (component_str part))
           else if \<not> found_first then
             (case part of
                Normal name \<Rightarrow>
                  if name = str ''usr'' then normalize_loop config parts True excluded (path_push ret name)
                  else if name = str ''etc'' then normalize_loop config parts True excluded (path_push ret (str ''usr/etc''))
                  else if name = str ''var'' then
                    normalize_loop config parts True excluded
                      (path_push ret (if remap_factory_var config then str ''usr/share/factory/var'' else name))
                  else if name \<in> set EXCLUDED_TOPLEVEL_PATHS then
                    normalize_loop config parts True True (path_push ret name)
                  else if allow_nonusr config then normalize_loop config parts True excluded (path_push ret name)
                  else Inr (Filtered name)
              | _ \<Rightarrow> normalize_loop config parts False excluded (path_push ret (component_str part)))
           else normalize_loop config parts True excluded (path_push ret (component_str part)))"

definition normalize_validate_path :: "tar_import_config \<Rightarrow> rstr \<Rightarrow> normalized_path_result result" where
  "normalize_validate_path config path =
     (let cs = components path;
          ret = (case cs of Normal _ # _ \<Rightarrow> path_push [] dot | _ \<Rightarrow> [])
      in normalize_loop config cs False False ret)"

subsection \<open>Copying an entry\<close>

definition copy_entry :: "tar_entry \<Rightarrow> rstr option \<Rightarrow> tar_entry list \<Rightarrow> tar_entry list result" where
  "copy_entry entry path dest =
     and_then (case path of Some p \<Rightarrow> Inr p | None \<Rightarrow> ok_or (Err ''path'') (te_path entry)) (\<lambda>path.
     case te_type entry of
       Symlink \<Rightarrow>
         and_then (ok_or (Err ''Invalid link'') (te_link entry)) (\<lambda>target.
         Inr (dest @ [entry\<lparr>te_path := Some path, te_link := Some target, te_header_link := Some target\<rparr>]))
     | Link \<Rightarrow>
         and_then (ok_or (Err ''Invalid link'') (te_link entry)) (\<lambda>target.
         let target = remap_etc_path target
         in Inr (dest @ [entry\<lparr>te_path := Some path, te_link := Some target, te_header_link := Some target\<rparr>]))
     | _ \<Rightarrow> Inr (dest @ [entry\<lparr>te_path := Some path\<rparr>]))"

subsection \<open>Filtering\<close>

record filter_state =
  fs_dest :: "tar_entry list"
  fs_filtered :: "(rstr, u32) kvmap"
  fs_changed_sysroot_objects :: "component list \<Rightarrow> tar_entry option"
  fs_new_sysroot_link_targets :: "component list \<Rightarrow> rstr option"

definition is_in_repo :: "rstr \<Rightarrow> bool" where
  "is_in_repo path \<longleftrightarrow> path_strip_prefix REPO_PREFIX path \<noteq> None"

definition is_modified :: "tar_entry \<Rightarrow> bool" where
  "is_modified e \<longleftrightarrow> (case te_mtime e of None \<Rightarrow> 0 | Some t \<Rightarrow> t) > 0"

definition count_filtered :: "rstr \<Rightarrow> (rstr, u32) kvmap \<Rightarrow> (rstr, u32) kvmap" where
  "count_filtered path filtered =
     (case kv_lookup filtered path of
        Some v \<Rightarrow> kv_insert path (v + 1) filtered
      | None \<Rightarrow> kv_insert path 1 filtered)"

text \<open>The end of the loop body: validate, then count or copy.\<close>

definition filter_normal :: "tar_import_config \<Rightarrow> rstr \<Rightarrow> tar_entry \<Rightarrow> filter_state \<Rightarrow> filter_state result" where
  "filter_normal config path entry s =
     and_then (normalize_validate_path config path) (\<lambda>n.
     case n of
       Filtered p \<Rightarrow> Inr (s\<lparr>fs_filtered := count_filtered p (fs_filtered s)\<rparr>)
     | NormalPath normalized \<Rightarrow>
         and_then (copy_entry entry (Some normalized) (fs_dest s)) (\<lambda>dest. Inr (s\<lparr>fs_dest := dest\<rparr>)))"

text \<open>A modified hardlink into the repository: the first becomes the file, later ones link to it.\<close>

definition filter_sysroot_link :: "rstr \<Rightarrow> rstr \<Rightarrow> tar_entry \<Rightarrow> filter_state \<Rightarrow> filter_state" where
  "filter_sysroot_link path target entry s =
     (case fs_changed_sysroot_objects s (components target) of
        Some obj \<Rightarrow>
          s\<lparr>fs_changed_sysroot_objects := (fs_changed_sysroot_objects s)(components target := None),
            fs_dest := fs_dest s @ [obj\<lparr>te_path := Some path, te_pax := None\<rparr>],
            fs_new_sysroot_link_targets := (fs_new_sysroot_link_targets s)(components target \<mapsto> path)\<rparr>
      | None \<Rightarrow>
          (case fs_new_sysroot_link_targets s (components target) of
             Some real_target \<Rightarrow>
               s\<lparr>fs_dest := fs_dest s @ [entry\<lparr>te_path := Some path, te_pax := None,
                    te_link := Some real_target, te_header_link := Some real_target\<rparr>]\<rparr>
           | None \<Rightarrow> s))"

definition filter_entry :: "tar_import_config \<Rightarrow> tar_entry \<Rightarrow> filter_state \<Rightarrow> filter_state result" where
  "filter_entry config entry s =
     and_then (ok_or (Err ''path'') (te_path entry)) (\<lambda>path.
     let path = (case path_strip_prefix [slash] path of Some p \<Rightarrow> p | None \<Rightarrow> path)
     in if is_in_repo path then
          (if is_modified entry \<and> te_type entry = Regular
           then Inr (s\<lparr>fs_changed_sysroot_objects :=
                  (fs_changed_sysroot_objects s)(components path \<mapsto> entry)\<rparr>)
           else filter_normal config path entry s)
        else if te_type entry = Link \<and> is_modified entry then
          and_then (ok_or (Err ''Invalid empty hardlink'') (te_header_link entry)) (\<lambda>target.
          let target = (case path_strip_prefix [slash] path of Some p \<Rightarrow> p | None \<Rightarrow> target)
          in if is_in_repo target then Inr (filter_sysroot_link path target entry s)
             else filter_normal config path entry s)
        else filter_normal config path entry s)"

definition empty_filter_state :: filter_state where
  "empty_filter_state =
     \<lparr>fs_dest = [], fs_filtered = [], fs_changed_sysroot_objects = Map.empty,
      fs_new_sysroot_link_targets = Map.empty\<rparr>"

definition filter_tar ::
  "tar_import_config \<Rightarrow> tar_entry list \<Rightarrow> (tar_entry list \<times> (rstr, u32) kvmap) result" where
  "filter_tar config src =
     and_then (try_fold (filter_entry config) src empty_filter_state) (\<lambda>s.
     Inr (fs_dest s, fs_filtered s))"

subsection \<open>Writing a layer\<close>

definition is_whitespace :: "rchar \<Rightarrow> bool" where
  "is_whitespace c \<longleftrightarrow> (9 \<le> c \<and> c \<le> 13) \<or> c = 32 \<or> c = 0x85 \<or> c = 0xA0 \<or> c = 0x1680 \<or>
     (0x2000 \<le> c \<and> c \<le> 0x200A) \<or> c = 0x2028 \<or> c = 0x2029 \<or> c = 0x202F \<or> c = 0x205F \<or> c = 0x3000"

definition trim :: "rstr \<Rightarrow> rstr" where
  "trim s = rev (dropWhile is_whitespace (rev (dropWhile is_whitespace s)))"

record child_result =
  cr_success :: bool
  cr_stdout :: rstr
  cr_stderr :: rstr

definition write_tar_args :: "rstr option \<Rightarrow> rstr \<Rightarrow> rstr \<Rightarrow> rstr list" where
  "write_tar_args sepolicy version refname =
     [str ''commit'', str ''--repo=/proc/self/fd/3''] @
     (case sepolicy of Some p \<Rightarrow> [str ''--selinux-policy'', p] | None \<Rightarrow> []) @
     [str ''--add-metadata-string=ostree.importer.version='' @ version,
      str ''--no-bindings'', str ''--tar-autocreate-parents'', str ''--tree=tar=/proc/self/fd/0'',
      str ''--branch'', refname]"

text \<open>The child process reads the filtered stream and commits it to the repository, whose state it changes;
  it is killed when the filter fails, so that nothing is committed then.\<close>

definition write_tar ::
  "('s \<Rightarrow> rstr \<Rightarrow> rstr result) \<Rightarrow> (rstr list \<Rightarrow> tar_entry list \<Rightarrow> 's \<Rightarrow> child_result \<times> 's) \<Rightarrow> rstr \<Rightarrow>
   tar_entry list result \<Rightarrow> rstr \<Rightarrow> write_tar_options option \<Rightarrow> ('s, write_tar_result) action" where
  "write_tar sepolicy_from_base ostree_child version src refname options =
     (let options = (case options of Some opts \<Rightarrow> opts
                     | None \<Rightarrow> \<lparr>wo_base = None, wo_selinux = False, wo_allow_nonusr = False, wo_retain_var = False\<rparr>)
      in act_bind
           (if wo_selinux options
            then (case wo_base options of
                    Some base \<Rightarrow> act_query (\<lambda>s. and_then (sepolicy_from_base s base) (\<lambda>p. Inr (Some p)))
                  | None \<Rightarrow> act_ret None)
            else act_ret None) (\<lambda>sepolicy.
         let import_config = \<lparr>allow_nonusr = wo_allow_nonusr options, remap_factory_var = \<not> wo_retain_var options\<rparr>
         in act_bind (act_result (and_then src (filter_tar import_config))) (\<lambda>(dest, filtered) s.
            let (r, s') = ostree_child (write_tar_args sepolicy version refname) dest s
            in if \<not> cr_success r then (Inl (Err ''Failed to commit tar''), s')
               else (Inr \<lparr>wr_commit = trim (cr_stdout r), wr_filtered = filtered\<rparr>, s'))))"

section \<open>Lemmas\<close>

subsection \<open>Normalised paths\<close>

text \<open>Where the first name of a path is placed; \<open>None\<close> when the path is dropped.\<close>

definition top_names :: "tar_import_config \<Rightarrow> rstr \<Rightarrow> rstr list option" where
  "top_names config name =
     (if name = str ''usr'' then Some [name]
      else if name = str ''etc'' then Some [str ''usr'', name]
      else if name = str ''var'' then
        Some (if remap_factory_var config then [str ''usr'', str ''share'', str ''factory'', name] else [name])
      else if name \<in> set EXCLUDED_TOPLEVEL_PATHS \<or> allow_nonusr config then Some [name]
      else None)"

definition push_all :: "component list \<Rightarrow> rstr \<Rightarrow> rstr" where
  "push_all cs ret = fold (\<lambda>c p. path_push p (component_str c)) cs ret"

lemma push_all_simps [simp]:
  "push_all [] ret = ret"
  "push_all (c # cs) ret = push_all cs (path_push ret (component_str c))"
  "push_all (cs @ ds) ret = push_all ds (push_all cs ret)"
  by (simp_all add: push_all_def)

lemma path_collect_push_all: "path_collect cs = push_all cs []"
  by (simp add: path_collect_def push_all_def)

lemma normalize_loop_found:
  "list_all body_component parts \<Longrightarrow> normalize_loop config parts True False ret =
     (if ParentDir \<in> set parts then Inl (Err ''Invalid path'') else Inr (NormalPath (push_all parts ret)))"
proof (induction parts arbitrary: ret)
  case (Cons p parts)
  then show ?case by (cases p) auto
qed simp

lemma normalize_loop_excluded:
  "list_all body_component parts \<Longrightarrow> normalize_loop config parts True True ret =
     (case parts of [] \<Rightarrow> Inr (NormalPath ret)
      | p # _ \<Rightarrow> if p = ParentDir then Inl (Err ''Invalid path'') else Inr (Filtered (component_str p)))"
  by (cases parts) (auto split: component.splits)

lemma components_shape:
  obtains "components path = []"
  | pre where "components path = [pre]" "pre = RootDir \<or> pre = CurDir"
  | pre rest where "components path = pre @ ParentDir # rest" "pre = [] \<or> pre = [RootDir] \<or> pre = [CurDir]"
  | pre name rest where "components path = pre @ Normal name # rest" "plain_name name"
      "pre = [] \<or> pre = [RootDir] \<or> pre = [CurDir]" "list_all body_component rest"
proof (cases "components path")
  case (Cons c cs)
  then have wf: "c = RootDir \<or> c = CurDir \<or> body_component c" "list_all body_component cs"
    using wf_components_components [of path] by (simp_all add: wf_components_def)
  show ?thesis
  proof (cases c)
    case ParentDir
    then show ?thesis using that(3) [of "[]" cs] Cons by simp
  next
    case (Normal name)
    then show ?thesis using that(4) [of "[]" name cs] Cons wf by simp
  qed (cases cs; use Cons wf that(2) that(3) [of "[c]"] that(4) [of "[c]"] in
      \<open>auto elim: body_component.elims\<close>)+
qed (use that(1) in simp)

lemma push_dot [simp]: "path_push [] dot = dot"
  by (simp add: path_push_def path_consts is_absolute_def starts_with_def)

lemma path_collect_CurDir: "path_collect (CurDir # cs) = push_all cs dot"
  by (simp add: path_collect_push_all)

lemma push_multi:
  "path_push dot (str ''usr/etc'') = path_push (path_push dot (str ''usr'')) (str ''etc'')"
  "path_push dot (str ''usr/share/factory/var'') =
   path_push (path_push (path_push (path_push dot (str ''usr'')) (str ''share'')) (str ''factory'')) (str ''var'')"
  by code_simp+

lemma not_toplevel_excluded [simp]:
  "str ''usr'' \<notin> set EXCLUDED_TOPLEVEL_PATHS" "str ''etc'' \<notin> set EXCLUDED_TOPLEVEL_PATHS"
  "str ''var'' \<notin> set EXCLUDED_TOPLEVEL_PATHS"
  by (simp_all add: EXCLUDED_TOPLEVEL_PATHS_def)

text \<open>What the loop computes, for a path whose first name is \<open>name\<close>.\<close>

lemma normalize_validate_path_eq:
  assumes "components path = pre @ Normal name # rest" "pre = [] \<or> pre = [RootDir] \<or> pre = [CurDir]"
    and "list_all body_component rest"
  shows "normalize_validate_path config path =
    (if name \<in> set EXCLUDED_TOPLEVEL_PATHS \<and> rest \<noteq> [] then
       (if hd rest = ParentDir then Inl (Err ''Invalid path'') else Inr (Filtered (component_str (hd rest))))
     else case top_names config name of
            None \<Rightarrow> Inr (Filtered name)
          | Some ns \<Rightarrow>
              if ParentDir \<in> set rest then Inl (Err ''Invalid path'')
              else Inr (NormalPath (path_collect (CurDir # map Normal ns @ rest))))"
proof -
  have "normalize_validate_path config path = normalize_loop config (Normal name # rest) False False dot"
    using assms(1,2) by (auto simp: normalize_validate_path_def Let_def)
  then show ?thesis
    using assms(3)
    by (auto simp: normalize_loop_found normalize_loop_excluded top_names_def path_collect_CurDir push_multi
        split: list.splits)
qed

lemma normalize_validate_path_trivial:
  "components path = [] \<Longrightarrow> normalize_validate_path config path = Inr (NormalPath [])"
  "components path = [pre] \<Longrightarrow> pre = RootDir \<or> pre = CurDir \<Longrightarrow>
     normalize_validate_path config path = Inr (NormalPath dot)"
  "components path = pre' @ ParentDir # rest \<Longrightarrow> pre' = [] \<or> pre' = [RootDir] \<or> pre' = [CurDir] \<Longrightarrow>
     normalize_validate_path config path = Inl (Err ''Invalid path'')"
  by (auto simp: normalize_validate_path_def Let_def)

lemma components_dot: "components dot = [CurDir]"
  by (simp add: components_def path_consts starts_with_def part_component_def)

lemma top_names_props:
  assumes "top_names config name = Some ns" "plain_name name"
  shows "ns \<noteq> [] \<and> list_all plain_name ns \<and>
    (hd ns = str ''usr'' \<or> (hd ns = str ''var'' \<and> \<not> remap_factory_var config) \<or>
     (ns = [name] \<and> (name \<in> set EXCLUDED_TOPLEVEL_PATHS \<or> allow_nonusr config)))"
  using assms by (auto simp: top_names_def plain_name_def path_consts str_simps split: if_splits)

lemma all_normal: "list_all body_component cs \<Longrightarrow> ParentDir \<notin> set cs \<Longrightarrow> \<exists>ns. cs = map Normal ns \<and> list_all plain_name ns"
proof (induction cs)
  case (Cons c cs)
  then obtain ns where "cs = map Normal ns" "list_all plain_name ns" by auto
  with Cons.prems show ?case
    by (cases c) (auto intro: exI [of _ "_ # ns"])
qed simp

lemma top_names_fixed: "top_names config name = Some ns \<Longrightarrow> top_names config (hd ns) = Some [hd ns]"
  by (auto simp: top_names_def split: if_splits)

lemma top_names_excluded: "top_names config name = Some ns \<Longrightarrow> hd ns \<in> set EXCLUDED_TOPLEVEL_PATHS \<Longrightarrow> ns = [name]"
  by (auto simp: top_names_def split: if_splits)

text \<open>A normalised path consists of plain names below the current directory, and the placement of its
  first name is final.\<close>

lemma normalized_shape:
  assumes "normalize_validate_path config path = Inr (NormalPath q)" "components path \<noteq> []"
  shows "\<exists>ns. q = path_collect (CurDir # map Normal ns) \<and> list_all plain_name ns \<and>
    (ns = [] \<or> (top_names config (hd ns) = Some [hd ns] \<and>
       (hd ns \<in> set EXCLUDED_TOPLEVEL_PATHS \<longrightarrow> tl ns = [])))"
proof (cases path rule: components_shape)
  case 1
  with assms(2) show ?thesis by simp
next
  case (2 pre)
  with assms(1) normalize_validate_path_trivial(2) [OF 2, of config] show ?thesis
    by (intro exI [of _ "[]"]) (simp add: path_collect_CurDir)
next
  case (3 pre rest)
  with assms(1) normalize_validate_path_trivial(3) [OF 3, of config] show ?thesis by simp
next
  case (4 pre name rest)
  from assms(1) [unfolded normalize_validate_path_eq [OF 4(1,3,4)]] obtain ns where
    ns: "top_names config name = Some ns" "ParentDir \<notin> set rest"
      "q = path_collect (CurDir # map Normal ns @ rest)" "name \<in> set EXCLUDED_TOPLEVEL_PATHS \<longrightarrow> rest = []"
    by (auto split: if_splits option.splits)
  obtain ms where ms: "rest = map Normal ms" "list_all plain_name ms"
    using all_normal [OF 4(4) ns(2)] by blast
  note p = top_names_props [OF ns(1) 4(2)] top_names_fixed [OF ns(1)] top_names_excluded [OF ns(1)]
  have "q = path_collect (CurDir # map Normal (ns @ ms))" using ns(3) ms(1) by simp
  moreover have "hd (ns @ ms) = hd ns" using p(1) by simp
  moreover have "tl (ns @ ms) = []" if "hd ns \<in> set EXCLUDED_TOPLEVEL_PATHS"
    using p(3) [OF that] that ns(4) ms(1) by simp
  ultimately show ?thesis using p(1,2) ms(2) by (intro exI [of _ "ns @ ms"]) auto
qed

lemma components_normalized:
  "list_all plain_name ns \<Longrightarrow> components (path_collect (CurDir # map Normal ns)) = CurDir # map Normal ns"
  by (rule components_path_collect) (simp add: wf_components_def list_all_iff)

lemma normalize_fixed:
  assumes "list_all plain_name ns"
    and "ns = [] \<or> (top_names config (hd ns) = Some [hd ns] \<and>
       (hd ns \<in> set EXCLUDED_TOPLEVEL_PATHS \<longrightarrow> tl ns = []))"
  shows "normalize_validate_path config (path_collect (CurDir # map Normal ns)) =
    Inr (NormalPath (path_collect (CurDir # map Normal ns)))"
proof (cases ns)
  case Nil
  then show ?thesis
    by (simp add: path_collect_CurDir normalize_validate_path_trivial(2) [of _ CurDir] components_dot)
next
  case (Cons n ms)
  have "components (path_collect (CurDir # map Normal ns)) = [CurDir] @ Normal n # map Normal ms"
    using components_normalized [OF assms(1)] Cons by simp
  from normalize_validate_path_eq [OF this, of config] assms Cons show ?thesis
    by (auto simp: list_all_iff)
qed

lemma normalize_idempotent:
  assumes "normalize_validate_path config path = Inr (NormalPath q)"
  shows "normalize_validate_path config q = Inr (NormalPath q)"
proof (cases "components path = []")
  case True
  with assms have "q = []" by (simp add: normalize_validate_path_trivial)
  then show ?thesis by (simp add: normalize_validate_path_trivial)
next
  case False
  with normalized_shape [OF assms] normalize_fixed show ?thesis by blast
qed

subsection \<open>The filtered archive\<close>

definition normalized_entry :: "tar_import_config \<Rightarrow> tar_entry \<Rightarrow> bool" where
  "normalized_entry config e \<longleftrightarrow>
     (\<exists>p. te_path e = Some p \<and> normalize_validate_path config p = Inr (NormalPath p))"

definition entry_path :: "tar_entry \<Rightarrow> rstr" where
  "entry_path e = (case te_path e of None \<Rightarrow> [] | Some p \<Rightarrow> (case path_strip_prefix [slash] p of Some r \<Rightarrow> r | None \<Rightarrow> p))"

text \<open>A modified hardlink from outside the repository into it.\<close>

definition links_into_repo :: "tar_entry \<Rightarrow> bool" where
  "links_into_repo e \<longleftrightarrow> te_type e = Link \<and> is_modified e \<and>
     (case te_header_link e of None \<Rightarrow> False | Some t \<Rightarrow> is_in_repo t)"

definition stashed :: "tar_entry \<Rightarrow> bool" where
  "stashed e \<longleftrightarrow> is_in_repo (entry_path e) \<and> is_modified e \<and> te_type e = Regular"

definition n_filtered :: "(rstr, u32) kvmap \<Rightarrow> nat" where
  "n_filtered m = sum_list (map (\<lambda>e. unat (snd e)) m)"

lemma copy_entry_Inr:
  "copy_entry e (Some p) dest = Inr dest' \<Longrightarrow> \<exists>e'. dest' = dest @ [e'] \<and> te_path e' = Some p \<and>
     te_type e' = te_type e \<and> te_data e' = te_data e"
  by (auto simp: copy_entry_def result_simps Let_def split: entry_type.splits)

lemma n_filtered_count:
  assumes "kv_wf m" "n_filtered m + 1 < 2 ^ 32"
  shows "kv_wf (count_filtered p m) \<and> n_filtered (count_filtered p m) = n_filtered m + 1"
proof -
  have ins: "n_filtered (kv_insert k v m) + (case kv_lookup m k of None \<Rightarrow> 0 | Some w \<Rightarrow> unat w) =
      unat v + n_filtered m" if "kv_wf m" for k v m
    using that
  proof (induction k v m rule: kv_insert.induct)
    case (2 k v a b m)
    then have "kv_lookup m k = None" if "k \<le> a"
      using that by (force simp: kv_lookup_None kv_wf_def)
    with 2 show ?case
      by (auto simp: n_filtered_def kv_lookup_def kv_wf_def split: if_splits option.splits)
  qed (simp add: n_filtered_def)
  have le: "unat w \<le> n_filtered m" if "kv_lookup m p = Some w" for w
    using that ins [OF assms(1), of p 0] by simp
  show ?thesis
  proof (cases "kv_lookup m p")
    case None
    then show ?thesis
      using ins [OF assms(1), of p 1] assms by (simp add: count_filtered_def kv_wf_insert)
  next
    case (Some w)
    have "unat (w + 1) = unat w + 1"
      using le [OF Some] assms(2) by (simp add: unat_word_ariths)
    then show ?thesis
      using Some ins [OF assms(1), of p "w + 1"] assms by (simp add: count_filtered_def kv_wf_insert)
  qed
qed

lemma entry_path_relative: "path_strip_prefix [slash] (entry_path e) = None"
proof -
  have root: "components [slash] = [RootDir]"
    by (simp add: components_root)
  have none: "path_strip_prefix [slash] p = None \<longleftrightarrow> (\<nexists>cs. components p = RootDir # cs)" for p
    using strip_components_Some [of "[RootDir]" "components p"]
    by (cases "strip_components [RootDir] (components p)") (auto simp: path_strip_prefix_def root)
  have "path_strip_prefix [slash] r = None" if stripped: "path_strip_prefix [slash] p = Some r" for p r
  proof -
    obtain cs where cs: "components p = RootDir # cs" "r = path_collect cs"
      using stripped by (auto simp: path_strip_prefix_def root strip_components_Some simp del: strip_components.simps)
    then have "list_all body_component cs"
      using wf_components_components [of p] by (simp add: wf_components_def)
    then have "components r = cs" "\<forall>c \<in> set cs. c \<noteq> RootDir"
      using cs(2) by (auto simp: components_path_collect wf_components_body list_all_iff)
    then show ?thesis by (auto simp: none)
  qed
  then show ?thesis
    by (auto simp: entry_path_def none [of "[]"] split: option.splits)
qed

lemma filter_normal_step:
  assumes "filter_normal config path e s = Inr s'"
  shows "(\<exists>e'. s' = s\<lparr>fs_dest := fs_dest s @ [e']\<rparr> \<and> normalized_entry config e') \<or>
    (\<exists>p. s' = s\<lparr>fs_filtered := count_filtered p (fs_filtered s)\<rparr>)"
proof -
  obtain n where n: "normalize_validate_path config path = Inr n"
    using assms by (auto simp: filter_normal_def result_simps)
  show ?thesis
  proof (cases n)
    case (NormalPath q)
    with assms n obtain dest where "copy_entry e (Some q) (fs_dest s) = Inr dest" "s' = s\<lparr>fs_dest := dest\<rparr>"
      by (auto simp: filter_normal_def result_simps)
    moreover have "normalize_validate_path config q = Inr (NormalPath q)"
      using n NormalPath by (simp add: normalize_idempotent)
    ultimately show ?thesis
      by (auto simp: normalized_entry_def dest!: copy_entry_Inr)
  qed (use assms n in \<open>auto simp: filter_normal_def\<close>)
qed

lemma filter_entry_step:
  assumes "filter_entry config e s = Inr s'" "\<not> links_into_repo e"
  shows "if stashed e then fs_dest s' = fs_dest s \<and> fs_filtered s' = fs_filtered s
    else (\<exists>e'. s' = s\<lparr>fs_dest := fs_dest s @ [e']\<rparr> \<and> normalized_entry config e') \<or>
         (\<exists>p. s' = s\<lparr>fs_filtered := count_filtered p (fs_filtered s)\<rparr>)"
proof -
  obtain p where p: "te_path e = Some p"
    using assms(1) by (auto simp: filter_entry_def result_simps)
  have ep: "(case path_strip_prefix [slash] p of Some q \<Rightarrow> q | None \<Rightarrow> p) = entry_path e"
    by (simp add: entry_path_def p split: option.split)
  show ?thesis
  proof (cases "stashed e")
    case True
    with assms(1) show ?thesis
      unfolding filter_entry_def p ok_or_simps and_then_simps Let_def ep
      by (auto simp: stashed_def)
  next
    case False
    have "filter_normal config (entry_path e) e s = Inr s'"
      using assms False unfolding filter_entry_def p ok_or_simps and_then_simps Let_def ep
      by (auto simp: stashed_def links_into_repo_def entry_path_relative result_simps split: if_splits option.splits)
    with filter_normal_step [OF this] False show ?thesis by simp
  qed
qed

lemma filter_fold:
  assumes "try_fold (filter_entry config) src s = Inr s'" "\<forall>e \<in> set src. \<not> links_into_repo e"
    and "list_all (normalized_entry config) (fs_dest s)" "kv_wf (fs_filtered s)"
    and "n_filtered (fs_filtered s) + length src < 2 ^ 32"
  shows "list_all (normalized_entry config) (fs_dest s') \<and>
    length (fs_dest s') + n_filtered (fs_filtered s') + length (filter stashed src) =
    length (fs_dest s) + n_filtered (fs_filtered s) + length src"
  using assms
proof (induction src arbitrary: s)
  case (Cons e src)
  then obtain t where t: "filter_entry config e s = Inr t" "try_fold (filter_entry config) src t = Inr s'"
    by (auto simp: result_simps)
  note step = filter_entry_step [OF t(1)]
  have nf: "kv_wf (count_filtered p (fs_filtered s)) \<and> n_filtered (count_filtered p (fs_filtered s)) = n_filtered (fs_filtered s) + 1" for p
    using Cons.prems(4,5) by (intro n_filtered_count) auto
  show ?case
    using step Cons.IH [OF t(2)] Cons.prems nf by (auto split: if_splits)
qed simp

section \<open>Properties\<close>

text \<open>C12: a path that passes validation is a chain of plain names below \<^verbatim>\<open>.\<close> \<emdash> no parent directory, no
  absolute path \<emdash> that starts with \<^verbatim>\<open>usr\<close>, or with \<^verbatim>\<open>var\<close> when it is not remapped, or is itself one of the
  excluded toplevel directories, or content outside of \<^verbatim>\<open>/usr\<close> was allowed; and validating it once more
  leaves it as it is.\<close>

theorem normalized_path_safe:
  assumes "normalize_validate_path config path = Inr (NormalPath q)" "components path \<noteq> []"
  shows "(\<exists>ns. components q = CurDir # map Normal ns \<and> list_all plain_name ns \<and>
      (ns = [] \<or> hd ns = str ''usr'' \<or> (hd ns = str ''var'' \<and> \<not> remap_factory_var config) \<or>
       (hd ns \<in> set EXCLUDED_TOPLEVEL_PATHS \<and> tl ns = []) \<or> allow_nonusr config)) \<and>
    normalize_validate_path config q = Inr (NormalPath q)"
proof -
  obtain ns where ns: "q = path_collect (CurDir # map Normal ns)" "list_all plain_name ns"
    "ns = [] \<or> (top_names config (hd ns) = Some [hd ns] \<and> (hd ns \<in> set EXCLUDED_TOPLEVEL_PATHS \<longrightarrow> tl ns = []))"
    using normalized_shape [OF assms] by blast
  have "components q = CurDir # map Normal ns"
    using ns components_normalized by simp
  with ns normalize_idempotent [OF assms(1)] show ?thesis
    by (auto simp: top_names_def intro!: exI [of _ ns] split: if_splits)
qed

theorem normalized_path_safe_witness:
  "let config = \<lparr>allow_nonusr = False, remap_factory_var = True\<rparr>; q = str ''./usr/etc/a/b''
   in normalize_validate_path config (str ''/etc//a/./b'') = Inr (NormalPath q) \<and>
      normalize_validate_path config q = Inr (NormalPath q)"
proof -
  have "normalize_validate_path \<lparr>allow_nonusr = False, remap_factory_var = True\<rparr> (str ''/etc//a/./b'') =
      Inr (NormalPath (str ''./usr/etc/a/b''))" "components (str ''/etc//a/./b'') \<noteq> []"
    by code_simp+
  from normalized_path_safe [OF this] this(1) show ?thesis by simp
qed

text \<open>C32: unless the archive has a modified hardlink into the ostree repository, every entry that
  reaches the output has a validated path, and no entry is lost unaccounted: each input entry is
  written, counted as filtered, or was a modified repository object held back for later links.\<close>

theorem filter_tar_accounts_for_entries:
  assumes "filter_tar config src = Inr (dest, filtered)"
    and "\<forall>e \<in> set src. \<not> links_into_repo e" "length src < 2 ^ 32"
  shows "list_all (normalized_entry config) dest \<and>
    length dest + sum_list (map (\<lambda>e. unat (snd e)) filtered) + length (filter stashed src) = length src"
proof -
  obtain s where s: "try_fold (filter_entry config) src empty_filter_state = Inr s"
      "dest = fs_dest s" "filtered = fs_filtered s"
    using assms(1) by (auto simp: filter_tar_def result_simps)
  from filter_fold [OF s(1) assms(2)] assms(3) show ?thesis
    by (simp add: empty_filter_state_def n_filtered_def s)
qed

definition sample_entry :: "rstr \<Rightarrow> entry_type \<Rightarrow> rstr option \<Rightarrow> u64 \<Rightarrow> tar_entry" where
  "sample_entry p t l m =
     \<lparr>te_path = Some p, te_type = t, te_header_link = l, te_link = l, te_uid = 0, te_gid = 0,
      te_mode = 420, te_mtime = Some m, te_size = 0, te_pax = None, te_data = []\<rparr>"

definition default_import_config :: tar_import_config where
  "default_import_config = \<lparr>allow_nonusr = False, remap_factory_var = True\<rparr>"

theorem filter_tar_accounts_for_entries_witness:
  "filter_tar default_import_config
     [sample_entry (str ''/etc/passwd'') Regular None 0, sample_entry (str ''boot/x'') Regular None 0] =
   Inr ([sample_entry (str ''./usr/etc/passwd'') Regular None 0], [(str ''boot'', 1)]) \<and>
   normalized_entry default_import_config (sample_entry (str ''./usr/etc/passwd'') Regular None 0)"
proof -
  let ?src = "[sample_entry (str ''/etc/passwd'') Regular None 0, sample_entry (str ''boot/x'') Regular None 0]"
  have "filter_tar default_import_config ?src =
     Inr ([sample_entry (str ''./usr/etc/passwd'') Regular None 0], [(str ''boot'', 1)])"
    by code_simp
  moreover from filter_tar_accounts_for_entries [OF this]
  have "list_all (normalized_entry default_import_config) [sample_entry (str ''./usr/etc/passwd'') Regular None 0]"
    by (simp add: links_into_repo_def sample_entry_def)
  ultimately show ?thesis by simp
qed

text \<open>The part of a path below its root or current directory.\<close>

definition path_body :: "rstr \<Rightarrow> component list" where
  "path_body p = filter (\<lambda>c. c \<noteq> RootDir \<and> c \<noteq> CurDir) (components p)"

lemma filter_body: "list_all body_component cs \<Longrightarrow> filter (\<lambda>c. c \<noteq> RootDir \<and> c \<noteq> CurDir) cs = cs"
  by (induction cs) auto

lemma remap_etc_path_eq:
  assumes "components path = pre @ Normal name # rest" "pre = [] \<or> pre = [RootDir] \<or> pre = [CurDir]"
  shows "remap_etc_path path =
    (if name = str ''etc'' then path_collect (pre @ [Normal (str ''usr''), Normal name] @ rest) else path)"
  using assms by (auto simp: remap_etc_path_def)

lemma plain_usr: "plain_name (str ''usr'')" "plain_name (str ''etc'')"
  by (simp_all add: plain_name_def path_consts str_simps)

lemma remap_etc_path_body:
  assumes "components path = pre @ Normal name # rest" "pre = [] \<or> pre = [RootDir] \<or> pre = [CurDir]"
    and "list_all body_component rest" "plain_name name"
  shows "path_body (remap_etc_path path) =
    (if name = str ''etc'' then [Normal (str ''usr'')] else []) @ Normal name # rest"
proof (cases "name = str ''etc''")
  case True
  have "wf_components (pre @ [Normal (str ''usr''), Normal name] @ rest)"
    using assms plain_usr by (auto simp: wf_components_def True)
  then show ?thesis
    using True assms by (auto simp: remap_etc_path_eq [OF assms(1,2)] path_body_def components_path_collect filter_body)
next
  case False
  with assms show ?thesis
    by (auto simp: remap_etc_path_eq [OF assms(1,2)] path_body_def filter_body)
qed

text \<open>A hardlink target is rewritten consistently with the file it names: whenever the target's own
  path is accepted, and content of \<^verbatim>\<open>/var\<close> is not moved, the rewritten target names the place the file
  is written to.\<close>

theorem hardlink_target_consistent:
  assumes "normalize_validate_path config target = Inr (NormalPath q)" "components target \<noteq> []"
    and "\<not> remap_factory_var config"
  shows "path_body (remap_etc_path target) = path_body q"
proof (cases target rule: components_shape)
  case 1
  with assms show ?thesis by simp
next
  case (2 pre)
  then have "q = dot" using assms(1) by (simp add: normalize_validate_path_trivial(2))
  with 2 show ?thesis
    by (auto simp: remap_etc_path_def path_body_def components_dot)
next
  case (3 pre rest)
  with assms(1) normalize_validate_path_trivial(3) [OF 3, of config] show ?thesis by simp
next
  case (4 pre name rest)
  from assms(1) [unfolded normalize_validate_path_eq [OF 4(1,3,4)]] obtain ns where
    ns: "top_names config name = Some ns" "q = path_collect (CurDir # map Normal ns @ rest)"
    by (auto split: if_splits option.splits)
  have "list_all body_component (map Normal ns @ rest)"
    using top_names_props [OF ns(1) 4(2)] 4(4) by (auto simp: list_all_iff)
  then have "path_body q = map Normal ns @ rest"
    using ns(2) by (simp add: path_body_def components_path_collect wf_components_def filter_body)
  moreover have "ns = (if name = str ''etc'' then [str ''usr''] else []) @ [name]"
    using ns(1) assms(3) by (auto simp: top_names_def split: if_splits)
  ultimately show ?thesis
    using remap_etc_path_body [OF 4(1,3,4,2)] by simp
qed

theorem hardlink_target_consistent_witness:
  "path_body (remap_etc_path (str ''/etc/a'')) = path_body (str ''./usr/etc/a'')"
proof -
  have "normalize_validate_path \<lparr>allow_nonusr = False, remap_factory_var = False\<rparr> (str ''/etc/a'') =
      Inr (NormalPath (str ''./usr/etc/a''))" "components (str ''/etc/a'') \<noteq> []"
    by code_simp+
  from hardlink_target_consistent [OF this] show ?thesis by simp
qed

text \<open>With the default options, which move \<^verbatim>\<open>/var\<close>, a hardlink between two files of \<^verbatim>\<open>/var\<close> is moved but
  keeps naming the old place.\<close>

lemma var_hardlink_not_remapped:
  "filter_tar default_import_config
     [sample_entry (str ''var/a'') Regular None 0, sample_entry (str ''var/b'') Link (Some (str ''var/a'')) 0] =
   Inr ([sample_entry (str ''./usr/share/factory/var/a'') Regular None 0,
         sample_entry (str ''./usr/share/factory/var/b'') Link (Some (str ''var/a'')) 0], [])"
  by code_simp

text \<open>The first hardlink to a modified repository object is written under its own path, without
  validation: \<^verbatim>\<open>/etc\<close> content stays in \<^verbatim>\<open>/etc\<close>.\<close>

lemma sysroot_link_not_normalized:
  "filter_tar default_import_config
     [sample_entry (str ''sysroot/ostree/repo/objects/x'') Regular None 1,
      sample_entry (str ''etc/b'') Link (Some (str ''sysroot/ostree/repo/objects/x'')) 1] =
   Inr ([sample_entry (str ''etc/b'') Regular None 1], [])"
  by code_simp

text \<open>The same with an absolute link target: it is not recognised as a repository object, and the link
  is copied while the object is not.\<close>

lemma absolute_sysroot_link_dangles:
  "filter_tar default_import_config
     [sample_entry (str ''sysroot/ostree/repo/objects/x'') Regular None 1,
      sample_entry (str ''usr/b'') Link (Some (str ''/sysroot/ostree/repo/objects/x'')) 1] =
   Inr ([sample_entry (str ''./usr/b'') Link (Some (str ''/sysroot/ostree/repo/objects/x'')) 1], [])"
  by code_simp

text \<open>Content below an excluded toplevel directory is counted under its own name, not under the
  directory's.\<close>

lemma excluded_counted_by_child:
  "normalize_validate_path default_import_config (str ''run/foo'') = Inr (Filtered (str ''foo''))"
  by code_simp

end
