(* ===== verification/TarImport.thy ===== *)
theory TarImport
  imports TarWrite
begin

text \<open>
  The importer of ostree objects from a tar stream (\<^verbatim>\<open>lib/src/tar/import.rs\<close>): a state machine over the
  entries that caches extended attributes, associates them with the next file object, and writes
  objects to the repository.  The calls to libostree are events, in the order they are made;
  libostree's answer to each (the checksum it computed, or an error) is a function of the event, and
  the digest, the normal form of variants and the existing objects are given with it in an
  \<open>import_env\<close>.
\<close>

section \<open>Definitions\<close>

datatype object_type = ObjFile | ObjDirTree | ObjDirMeta | ObjCommit | ObjCommitMeta | ObjOther nat

definition MAX_XATTR_SIZE :: u64 where "MAX_XATTR_SIZE = 1024 * 1024"
definition MAX_METADATA_SIZE :: u64 where "MAX_METADATA_SIZE = 10 * 1024 * 1024"
definition SMALL_REGFILE_SIZE :: u64 where "SMALL_REGFILE_SIZE = 127 * 1024"
definition S_IFREG :: u32 where "S_IFREG = 0x8000"

record import_stats =
  st_dirtree :: u32
  st_dirmeta :: u32
  st_regfile_small :: u32
  st_regfile_large :: u32
  st_symlinks :: u32

datatype importer_mode = CommitMode "rstr option" | ObjectSet "rstr list"

datatype repo_event =
    TxnBegin
  | TxnCommit
  | VerifySignature rstr bytes bytes
  | MarkPartial rstr bool
  | WriteMetadata object_type "rstr option" bytes
  | WriteDetached rstr bytes
  | WriteRegfile rstr u32 u32 u32 bytes bytes
  | WriteSymlink rstr u32 u32 bytes rstr
  | WriteObjectSetCommit "rstr list" rstr

record import_env =
  ie_sha256 :: "bytes \<Rightarrow> rstr"
  ie_normal_form :: "object_type \<Rightarrow> bytes \<Rightarrow> bytes"
  ie_default_dirmeta :: bytes
  ie_has_file :: "repo_event list \<Rightarrow> rstr \<Rightarrow> bool result"
  ie_answer :: "repo_event \<Rightarrow> rstr result"

record importer =
  im_remote :: "rstr option"
  im_xattrs :: "(rstr, bytes) kvmap"
  im_next_xattrs :: "(rstr \<times> rstr) option"
  im_stats :: import_stats
  im_data :: importer_mode
  im_log :: "repo_event list"

text \<open>A call to libostree: its answer, and the event in the log if it succeeded.\<close>

definition call :: "import_env \<Rightarrow> repo_event \<Rightarrow> importer \<Rightarrow> (rstr \<times> importer) result" where
  "call env ev im = and_then (ie_answer env ev) (\<lambda>r. Inr (r, im\<lparr>im_log := im_log im @ [ev]\<rparr>))"

subsection \<open>Headers and paths\<close>

definition validate_metadata_header :: "tar_entry \<Rightarrow> u64 result" where
  "validate_metadata_header e =
     (if te_type e \<noteq> Regular then Inl (Err ''Invalid non-regular metadata object'')
      else if MAX_METADATA_SIZE < te_size e then Inl (Err ''object exceeds size limit'')
      else Inr (te_size e))"

definition u32_of :: "u64 \<Rightarrow> u32 result" where
  "u32_of n = (if n < 0x100000000 then Inr (ucast n) else Inl (Err ''out of range integral type conversion attempted''))"

definition header_attrs :: "tar_entry \<Rightarrow> (u32 \<times> u32 \<times> u32) result" where
  "header_attrs e =
     and_then (u32_of (te_uid e)) (\<lambda>uid.
     and_then (u32_of (te_gid e)) (\<lambda>gid.
     Inr (uid, gid, te_mode e)))"

definition objtype_from_string :: "rstr \<Rightarrow> object_type option" where
  "objtype_from_string t =
     (if t = str ''commit'' then Some ObjCommit
      else if t = str ''commitmeta'' then Some ObjCommitMeta
      else if t = str ''dirtree'' then Some ObjDirTree
      else if t = str ''dirmeta'' then Some ObjDirMeta
      else if t = str ''file'' then Some ObjFile
      else None)"

definition entry_to_variant :: "import_env \<Rightarrow> object_type \<Rightarrow> tar_entry \<Rightarrow> bytes result" where
  "entry_to_variant env ty e =
     and_then (validate_metadata_header e) (\<lambda>sz.
     and_then (ensure (int (length (te_data e)) = uint sz) (Panic ''assert_eq n size'')) (\<lambda>_.
     Inr (ie_normal_form env ty (te_data e))))"

text \<open>\<^verbatim>\<open>Path::extension\<close> and \<^verbatim>\<open>Path::file_stem\<close> of a file name.\<close>

definition split_last_dot :: "rstr \<Rightarrow> rstr \<times> rstr option" where
  "split_last_dot name =
     (case split_once 46 (rev name) of
        None \<Rightarrow> (name, None)
      | Some (ext_rev, stem_rev) \<Rightarrow>
          if stem_rev = [] \<or> name = dotdot then (name, None) else (rev stem_rev, Some (rev ext_rev)))"

definition parse_object_entry_path :: "rstr \<Rightarrow> (rstr \<times> rstr \<times> rstr) result" where
  "parse_object_entry_path path =
     and_then (ok_or (Err ''Invalid path (no parent)'')
                 (Option.bind (path_parent path) path_file_name)) (\<lambda>parentname.
     if str_len parentname \<noteq> 2 then Inl (Err ''Invalid checksum parent'')
     else and_then (ok_or (Err ''Invalid path (dir)'') (path_file_name path)) (\<lambda>name.
          and_then (ok_or (Err ''Invalid objpath'') (snd (split_last_dot name))) (\<lambda>objtype.
          Inr (parentname, name, objtype))))"

function trim_end_matches :: "rstr \<Rightarrow> rstr \<Rightarrow> rstr" where
  "trim_end_matches suffix s =
     (if suffix \<noteq> [] \<and> ends_with suffix s
      then trim_end_matches suffix (take (length s - length suffix) s) else s)"
  by pat_completeness auto
termination
  by (relation "measure (\<lambda>(suffix, s). length s)") (auto simp: ends_with_iff)

declare trim_end_matches.simps [simp del]

definition is_hex_lower :: "rchar \<Rightarrow> bool" where
  "is_hex_lower c \<longleftrightarrow> is_ascii_digit c \<or> (97 \<le> c \<and> c \<le> 102)"

definition validate_sha256 :: "rstr \<Rightarrow> rstr result" where
  "validate_sha256 input =
     (if str_len input \<noteq> 64 then Inl (Err ''Invalid sha256 checksum (len)'')
      else if \<not> list_all is_hex_lower input then Inl (Err ''Invalid sha256 checksum'')
      else Inr input)"

definition parse_checksum :: "rstr \<Rightarrow> rstr \<Rightarrow> rstr result" where
  "parse_checksum parent name =
     (let checksum_rest = trim_end_matches (str ''.file'') (fst (split_last_dot name))
      in if str_len checksum_rest \<noteq> 62 then Inl (Err ''Invalid checksum part'')
         else validate_sha256 (parent @ checksum_rest))"

definition parse_xattrs_link_target :: "rstr \<Rightarrow> rstr result" where
  "parse_xattrs_link_target path =
     and_then (parse_object_entry_path path) (\<lambda>(parent, rest, _). parse_checksum parent rest)"

definition parse_metadata_entry :: "rstr \<Rightarrow> (rstr \<times> object_type) result" where
  "parse_metadata_entry path =
     and_then (parse_object_entry_path path) (\<lambda>(parentname, name, objtype).
     and_then (parse_checksum parentname name) (\<lambda>checksum.
     and_then (ok_or (Err ''Invalid object type'') (objtype_from_string objtype)) (\<lambda>objtype.
     Inr (checksum, objtype))))"

subsection \<open>The importer\<close>

definition default_stats :: import_stats where
  "default_stats = \<lparr>st_dirtree = 0, st_dirmeta = 0, st_regfile_small = 0, st_regfile_large = 0, st_symlinks = 0\<rparr>"

definition new_for_commit :: "rstr option \<Rightarrow> importer" where
  "new_for_commit remote =
     \<lparr>im_remote = remote, im_xattrs = [], im_next_xattrs = None, im_stats = default_stats,
      im_data = CommitMode None, im_log = []\<rparr>"

definition new_for_object_set :: importer where
  "new_for_object_set =
     \<lparr>im_remote = None, im_xattrs = [], im_next_xattrs = None, im_stats = default_stats,
      im_data = ObjectSet [], im_log = []\<rparr>"

text \<open>\<open>None\<close>: the entry is not an object; otherwise the path below the repository prefix.\<close>

definition import_filter_entry :: "tar_entry \<Rightarrow> (tar_entry \<times> rstr) option result" where
  "import_filter_entry e =
     (if te_type e = Directory then Inr None
      else and_then (ok_or (Err ''Invalid non-utf8 path'') (te_path e)) (\<lambda>path.
           case path_strip_prefix REPO_PREFIX path of
             None \<Rightarrow> Inr None
           | Some p \<Rightarrow>
               if path_file_name p = Some (str ''config'') \<or> path_starts_with (str ''refs'') p
               then Inr None else Inr (Some (e, p))))"

definition import_metadata ::
  "import_env \<Rightarrow> tar_entry \<Rightarrow> rstr \<Rightarrow> object_type \<Rightarrow> importer \<Rightarrow> importer result" where
  "import_metadata env entry checksum objtype im =
     and_then
       (case objtype of
          ObjDirTree \<Rightarrow>
            let im = im\<lparr>im_stats := (im_stats im)\<lparr>st_dirtree := st_dirtree (im_stats im) + 1\<rparr>\<rparr>
            in and_then (entry_to_variant env ObjDirTree entry) (\<lambda>v. Inr (v, im))
        | ObjDirMeta \<Rightarrow>
            let im = im\<lparr>im_stats := (im_stats im)\<lparr>st_dirmeta := st_dirmeta (im_stats im) + 1\<rparr>\<rparr>
            in and_then (entry_to_variant env ObjDirMeta entry) (\<lambda>v. Inr (v, im))
        | _ \<Rightarrow> Inl (Err ''Invalid metadata object type''))
       (\<lambda>(v, im).
     and_then (call env (WriteMetadata objtype (Some checksum) v) im) (\<lambda>(actual, im).
     and_then (ensure (actual = checksum) (Panic ''assert_eq actual checksum'')) (\<lambda>_. Inr im)))"

definition import_large_regfile_object ::
  "import_env \<Rightarrow> tar_entry \<Rightarrow> rstr \<Rightarrow> bytes \<Rightarrow> importer \<Rightarrow> importer result" where
  "import_large_regfile_object env entry checksum xattrs im =
     and_then (header_attrs entry) (\<lambda>(uid, gid, mode).
     and_then (call env (WriteRegfile checksum uid gid (or S_IFREG mode) xattrs (te_data entry)) im) (\<lambda>(_, im).
     Inr (im\<lparr>im_stats := (im_stats im)\<lparr>st_regfile_large := st_regfile_large (im_stats im) + 1\<rparr>\<rparr>)))"

definition import_small_regfile_object ::
  "import_env \<Rightarrow> tar_entry \<Rightarrow> u64 \<Rightarrow> rstr \<Rightarrow> bytes \<Rightarrow> importer \<Rightarrow> importer result" where
  "import_small_regfile_object env entry sz checksum xattrs im =
     and_then (header_attrs entry) (\<lambda>(uid, gid, mode).
     and_then (ensure (sz \<le> SMALL_REGFILE_SIZE) (Panic ''size <= SMALL_REGFILE_SIZE'')) (\<lambda>_.
     and_then (ensure (uint sz \<le> int (length (te_data entry))) (Err ''failed to fill whole buffer'')) (\<lambda>_.
     and_then (call env (WriteRegfile checksum uid gid (or S_IFREG mode) xattrs (take (unat sz) (te_data entry))) im) (\<lambda>(_, im).
     Inr (im\<lparr>im_stats := (im_stats im)\<lparr>st_regfile_small := st_regfile_small (im_stats im) + 1\<rparr>\<rparr>)))))"

definition import_symlink_object ::
  "import_env \<Rightarrow> tar_entry \<Rightarrow> rstr \<Rightarrow> bytes \<Rightarrow> importer \<Rightarrow> importer result" where
  "import_symlink_object env entry checksum xattrs im =
     and_then (header_attrs entry) (\<lambda>(uid, gid, _).
     and_then (ok_or (Err ''Invalid symlink'') (te_link entry)) (\<lambda>target.
     and_then (call env (WriteSymlink checksum uid gid xattrs target) im) (\<lambda>(_, im).
     Inr (im\<lparr>im_stats := (im_stats im)\<lparr>st_symlinks := st_symlinks (im_stats im) + 1\<rparr>\<rparr>))))"

definition import_content_object ::
  "import_env \<Rightarrow> tar_entry \<Rightarrow> rstr \<Rightarrow> importer \<Rightarrow> importer result" where
  "import_content_object env entry checksum im =
     (let sz = te_size entry
      in and_then (ok_or (Err ''Missing xattrs reference'') (im_next_xattrs im)) (\<lambda>(file_csum, xattrs_csum).
         let im = im\<lparr>im_next_xattrs := None\<rparr>
         in if checksum \<noteq> file_csum then Inl (Err ''Object mismatch, found xattrs for'')
            else and_then (ie_has_file env (im_log im) checksum) (\<lambda>has.
                 if has then Inr im
                 else and_then (ok_or (Err ''Failed to find xattrs content'') (kv_lookup (im_xattrs im) xattrs_csum)) (\<lambda>xattrs.
                      case te_type entry of
                        Regular \<Rightarrow>
                          if SMALL_REGFILE_SIZE < sz then import_large_regfile_object env entry checksum xattrs im
                          else import_small_regfile_object env entry sz checksum xattrs im
                      | Symlink \<Rightarrow> import_symlink_object env entry checksum xattrs im
                      | _ \<Rightarrow> Inl (Err ''Invalid tar entry of type'')))))"

definition cache_xattrs_content ::
  "import_env \<Rightarrow> tar_entry \<Rightarrow> rstr option \<Rightarrow> importer \<Rightarrow> (rstr \<times> importer) result" where
  "cache_xattrs_content env entry expected_checksum im =
     (if te_type entry \<noteq> Regular then Inl (Err ''Invalid xattr entry of type'')
      else if MAX_XATTR_SIZE < te_size entry then Inl (Err ''Invalid xattr size'')
      else and_then (ensure (uint (te_size entry) \<le> int (length (te_data entry))) (Err ''failed to fill whole buffer'')) (\<lambda>_.
           let contents = take (unat (te_size entry)) (te_data entry);
               xattrs_checksum = ie_sha256 env contents
           in and_then (case expected_checksum of
                          Some input \<Rightarrow> ensure (input = xattrs_checksum) (Err ''Checksum mismatch'')
                        | None \<Rightarrow> Inr ()) (\<lambda>_.
              Inr (xattrs_checksum, im\<lparr>im_xattrs := kv_insert xattrs_checksum contents (im_xattrs im)\<rparr>))))"

definition process_file_xattrs :: "import_env \<Rightarrow> tar_entry \<Rightarrow> rstr \<Rightarrow> importer \<Rightarrow> importer result" where
  "process_file_xattrs env entry checksum im =
     and_then (cache_xattrs_content env entry (Some checksum) im) (\<lambda>(_, im). Inr im)"

definition process_file_xattrs_link :: "import_env \<Rightarrow> tar_entry \<Rightarrow> rstr \<Rightarrow> importer \<Rightarrow> importer result" where
  "process_file_xattrs_link env entry checksum im =
     and_then (ensure (im_next_xattrs im = None) (Err ''Found previous dangling xattrs for file object'')) (\<lambda>_.
     and_then
       (case te_type entry of
          Link \<Rightarrow>
            and_then (ok_or (Err ''No xattrs link content'') (te_link entry)) (\<lambda>xattr_target.
            and_then (parse_xattrs_link_target xattr_target) (\<lambda>c. Inr (c, im)))
        | Regular \<Rightarrow> cache_xattrs_content env entry None im
        | _ \<Rightarrow> Inl (Err ''Unexpected xattrs type''))
       (\<lambda>(xattrs_checksum, im).
     Inr (im\<lparr>im_next_xattrs := Some (checksum, xattrs_checksum)\<rparr>)))"

definition process_xattr_ref :: "tar_entry \<Rightarrow> rstr \<Rightarrow> importer \<Rightarrow> importer result" where
  "process_xattr_ref entry target im =
     and_then (ensure (im_next_xattrs im = None) (Err ''Found previous dangling xattrs for file object'')) (\<lambda>_.
     and_then (ensure (te_type entry = Link) (Err ''Non-hardlink xattrs reference found'')) (\<lambda>_.
     and_then (ok_or (Err ''No xattrs link content'') (te_link entry)) (\<lambda>xattr_target.
     and_then (ok_or (Err ''Invalid xattrs link'') (path_file_name xattr_target)) (\<lambda>xattr_target.
     and_then (validate_sha256 xattr_target) (\<lambda>xattrs_checksum.
     Inr (im\<lparr>im_next_xattrs := Some (target, xattrs_checksum)\<rparr>))))))"

definition process_split_xattrs_content :: "import_env \<Rightarrow> tar_entry \<Rightarrow> importer \<Rightarrow> importer result" where
  "process_split_xattrs_content env entry im =
     and_then (ok_or (Err ''Invalid xattrs dir'') (Option.bind (te_path entry) path_file_name)) (\<lambda>name.
     and_then (validate_sha256 name) (\<lambda>checksum.
     and_then (cache_xattrs_content env entry (Some checksum) im) (\<lambda>(_, im). Inr im)))"

text \<open>\<^verbatim>\<open>imported.replace(checksum)\<close> on the ordered set of an object set.\<close>

definition track_object :: "rstr \<Rightarrow> importer \<Rightarrow> importer result" where
  "track_object checksum im =
     (case im_data im of
        ObjectSet imported \<Rightarrow>
          if checksum \<in> set imported then Inl (Err ''Duplicate object'')
          else Inr (im\<lparr>im_data := ObjectSet (insort checksum imported)\<rparr>)
      | CommitMode _ \<Rightarrow> Inr im)"

definition import_by_suffix ::
  "import_env \<Rightarrow> tar_entry \<Rightarrow> rstr \<Rightarrow> rstr \<Rightarrow> importer \<Rightarrow> importer result" where
  "import_by_suffix env entry checksum suffix im =
     (if suffix = str ''commit'' then Inl (Err ''Found multiple commit objects'')
      else if suffix = str ''file'' then and_then (import_content_object env entry checksum im) (track_object checksum)
      else if suffix = str ''file-xattrs'' then process_file_xattrs env entry checksum im
      else if suffix = str ''file-xattrs-link'' then process_file_xattrs_link env entry checksum im
      else if suffix = str ''xattrs'' then process_xattr_ref entry checksum im
      else and_then (ok_or (Err ''Invalid object type'') (objtype_from_string suffix)) (\<lambda>objtype.
           case im_data im of
             ObjectSet _ \<Rightarrow> Inl (Err ''Found metadata object in object set mode'')
           | CommitMode _ \<Rightarrow> import_metadata env entry checksum objtype im))"

definition import_object :: "import_env \<Rightarrow> tar_entry \<Rightarrow> rstr \<Rightarrow> importer \<Rightarrow> importer result" where
  "import_object env entry path im =
     and_then (parse_object_entry_path path) (\<lambda>(parentname, name, suffix).
     and_then (parse_checksum parentname name) (\<lambda>checksum.
     import_by_suffix env entry checksum suffix im))"

definition import_step :: "import_env \<Rightarrow> tar_entry \<times> rstr \<Rightarrow> importer \<Rightarrow> importer result" where
  "import_step env = (\<lambda>(entry, path) im.
     case path_strip_prefix (str ''objects/'') path of
       Some p \<Rightarrow> import_object env entry p im
     | None \<Rightarrow>
         if path_strip_prefix (str ''xattrs/'') path \<noteq> None then process_split_xattrs_content env entry im
         else Inr im)"

text \<open>The loop over the entries, with the lazy filter in front of it.\<close>

fun import_objects_impl :: "import_env \<Rightarrow> tar_entry list \<Rightarrow> importer \<Rightarrow> importer result" where
  "import_objects_impl env [] im = Inr im"
| "import_objects_impl env (e # es) im =
     and_then (import_filter_entry e) (\<lambda>r.
     case r of
       None \<Rightarrow> import_objects_impl env es im
     | Some ep \<Rightarrow> and_then (import_step env ep im) (import_objects_impl env es))"

text \<open>\<^verbatim>\<open>ents.next()\<close>: the next object entry, and the entries after it.\<close>

fun next_entry :: "tar_entry list \<Rightarrow> ((tar_entry \<times> rstr) \<times> tar_entry list) option result" where
  "next_entry [] = Inr None"
| "next_entry (e # es) =
     and_then (import_filter_entry e) (\<lambda>r.
     case r of None \<Rightarrow> next_entry es | Some ep \<Rightarrow> Inr (Some (ep, es)))"

definition write_commit_checked ::
  "import_env \<Rightarrow> rstr \<Rightarrow> bytes \<Rightarrow> importer \<Rightarrow> importer result" where
  "write_commit_checked env checksum commit im =
     and_then (call env (MarkPartial checksum True) im) (\<lambda>(_, im).
     and_then (call env (WriteMetadata ObjCommit (Some checksum) commit) im) (\<lambda>(actual, im).
     and_then (ensure (actual = checksum) (Panic ''assert_eq actual_checksum checksum'')) (\<lambda>_. Inr im)))"

definition import_commit :: "import_env \<Rightarrow> tar_entry list \<Rightarrow> importer \<Rightarrow> importer result" where
  "import_commit env archive im =
     and_then (ensure (im_data im = CommitMode None) (Panic ''matches!(self.data, Commit(None))'')) (\<lambda>_.
     and_then (next_entry archive) (\<lambda>n.
     and_then (ok_or (Err ''Commit object not found'') n) (\<lambda>((commit_ent, commit_path), ents).
     and_then (ensure (te_type commit_ent = Regular) (Err ''Expected regular file for commit object'')) (\<lambda>_.
     and_then (parse_metadata_entry commit_path) (\<lambda>(checksum, objtype).
     and_then (ensure (objtype = ObjCommit) (Err ''Expected commit object'')) (\<lambda>_.
     and_then (entry_to_variant env ObjCommit commit_ent) (\<lambda>commit.
     and_then (next_entry ents) (\<lambda>n.
     and_then (ok_or (Err ''End of stream after commit object'') n) (\<lambda>((next_ent, nextent_path), ents).
     and_then (parse_metadata_entry nextent_path) (\<lambda>(next_checksum, next_objtype).
     and_then
       (case im_remote im of
          Some remote \<Rightarrow>
            and_then (ensure (next_objtype = ObjCommitMeta) (Err ''Expected commitmeta object'')) (\<lambda>_.
            and_then (ensure (next_checksum = checksum) (Err ''Expected commitmeta checksum'')) (\<lambda>_.
            and_then (entry_to_variant env ObjCommitMeta next_ent) (\<lambda>commitmeta.
            and_then (call env (VerifySignature remote commit commitmeta) im) (\<lambda>(_, im).
            and_then (write_commit_checked env checksum commit im) (\<lambda>im.
            and_then (call env (WriteDetached checksum commitmeta) im) (\<lambda>(_, im). Inr im))))))
        | None \<Rightarrow>
            and_then (write_commit_checked env checksum commit im) (\<lambda>im.
            if next_objtype = ObjCommitMeta then
              and_then (entry_to_variant env ObjCommitMeta next_ent) (\<lambda>commitmeta.
              and_then (call env (WriteDetached checksum commitmeta) im) (\<lambda>(_, im). Inr im))
            else import_object env next_ent nextent_path im))
       (\<lambda>im. import_objects_impl env ents (im\<lparr>im_data := CommitMode (Some checksum)\<rparr>))))))))))))"

definition finish_import_commit :: "importer \<Rightarrow> rstr result" where
  "finish_import_commit im =
     (case im_data im of
        CommitMode (Some c) \<Rightarrow> Inr c
      | CommitMode None \<Rightarrow> Inl (Panic ''unwrap'')
      | ObjectSet _ \<Rightarrow> Inl (Panic ''unreachable''))"

definition finish_import_object_set :: "import_env \<Rightarrow> importer \<Rightarrow> (rstr \<times> importer) result" where
  "finish_import_object_set env im =
     (case im_data im of
        CommitMode _ \<Rightarrow> Inl (Panic ''unreachable'')
      | ObjectSet objset \<Rightarrow>
          and_then (call env (WriteMetadata ObjDirMeta None (ie_default_dirmeta env)) im) (\<lambda>(dirmeta, im).
          call env (WriteObjectSetCommit objset dirmeta) im))"

definition import_tar :: "import_env \<Rightarrow> tar_entry list \<Rightarrow> rstr option \<Rightarrow> (rstr \<times> repo_event list) result" where
  "import_tar env src remote =
     and_then (call env TxnBegin (new_for_commit remote)) (\<lambda>(_, im).
     and_then (import_commit env src im) (\<lambda>im.
     and_then (finish_import_commit im) (\<lambda>checksum.
     and_then (call env TxnCommit im) (\<lambda>(_, im).
     and_then (call env (MarkPartial checksum False) im) (\<lambda>(_, im).
     Inr (checksum, im_log im))))))"

definition import_tar_objects :: "import_env \<Rightarrow> tar_entry list \<Rightarrow> (rstr \<times> repo_event list) result" where
  "import_tar_objects env src =
     and_then (call env TxnBegin new_for_object_set) (\<lambda>(_, im).
     and_then (import_objects_impl env src im) (\<lambda>im.
     and_then (finish_import_object_set env im) (\<lambda>(r, im).
     and_then (call env TxnCommit im) (\<lambda>(_, im).
     Inr (r, im_log im)))))"

section \<open>Lemmas\<close>

text \<open>The checksum of a written content object, and the events of metadata objects below a commit.\<close>

fun content_event :: "repo_event \<Rightarrow> rstr option" where
  "content_event (WriteRegfile c _ _ _ _ _) = Some c"
| "content_event (WriteSymlink c _ _ _ _) = Some c"
| "content_event _ = None"

fun event_xattrs :: "repo_event \<Rightarrow> bytes option" where
  "event_xattrs (WriteRegfile _ _ _ _ x _) = Some x"
| "event_xattrs (WriteSymlink _ _ _ x _) = Some x"
| "event_xattrs _ = None"

fun tree_event :: "repo_event \<Rightarrow> bool" where
  "tree_event (WriteMetadata t (Some _) _) \<longleftrightarrow> t = ObjDirTree \<or> t = ObjDirMeta"
| "tree_event _ \<longleftrightarrow> False"

definition object_event :: "repo_event \<Rightarrow> bool" where
  "object_event e \<longleftrightarrow> content_event e \<noteq> None \<or> tree_event e"

lemma call_Inr:
  "call env ev im = Inr (r, im') \<longleftrightarrow> ie_answer env ev = Inr r \<and> im' = im\<lparr>im_log := im_log im @ [ev]\<rparr>"
  by (auto simp: call_def result_simps)

text \<open>The three writers of content objects add one event and change the statistics only.\<close>

definition wrote_content :: "rstr \<Rightarrow> bytes \<Rightarrow> importer \<Rightarrow> importer \<Rightarrow> bool" where
  "wrote_content c x im im' \<longleftrightarrow> im_data im' = im_data im \<and> im_xattrs im' = im_xattrs im \<and>
     im_next_xattrs im' = im_next_xattrs im \<and>
     (\<exists>ev. im_log im' = im_log im @ [ev] \<and> content_event ev = Some c \<and> event_xattrs ev = Some x)"

lemma content_writers_Inr:
  "import_large_regfile_object env e c x im = Inr im' \<Longrightarrow> wrote_content c x im im'"
  "import_small_regfile_object env e n c x im = Inr im' \<Longrightarrow> wrote_content c x im im'"
  "import_symlink_object env e c x im = Inr im' \<Longrightarrow> wrote_content c x im im'"
  by (auto simp: import_large_regfile_object_def import_small_regfile_object_def import_symlink_object_def
      wrote_content_def result_simps call_Inr)

lemma import_content_object_Inr:
  assumes "import_content_object env e c im = Inr im'"
  shows "im_data im' = im_data im \<and> im_xattrs im' = im_xattrs im \<and> im_next_xattrs im' = None \<and>
    (\<exists>xc. im_next_xattrs im = Some (c, xc) \<and>
      (im_log im' = im_log im \<or>
       (\<exists>ev x. im_log im' = im_log im @ [ev] \<and> content_event ev = Some c \<and>
          event_xattrs ev = Some x \<and> kv_lookup (im_xattrs im) xc = Some x)))"
proof -
  obtain xc has where nx: "im_next_xattrs im = Some (c, xc)"
      and has: "ie_has_file env (im_log im) c = Inr has"
    using assms by (auto simp: import_content_object_def result_simps Let_def split: if_splits)
  show ?thesis
  proof (cases has)
    case True
    then show ?thesis using assms nx has by (auto simp: import_content_object_def)
  next
    case False
    let ?im = "im\<lparr>im_next_xattrs := None\<rparr>"
    obtain x where x: "kv_lookup (im_xattrs im) xc = Some x"
      using assms nx has False by (auto simp: import_content_object_def result_simps Let_def)
    then have "wrote_content c x ?im im'"
      using assms nx has False
      by (auto simp: import_content_object_def Let_def dest: content_writers_Inr split: entry_type.splits if_splits)
    with nx x show ?thesis by (auto simp: wrote_content_def)
  qed
qed

lemma cache_xattrs_content_Inr:
  assumes "cache_xattrs_content env e x im = Inr (c, im')"
  shows "\<exists>v. c = ie_sha256 env v \<and> im' = im\<lparr>im_xattrs := kv_insert c v (im_xattrs im)\<rparr> \<and>
    (x = None \<or> x = Some c)"
  using assms by (auto simp: cache_xattrs_content_def result_simps Let_def split: if_splits option.splits)

lemma import_metadata_Inr:
  assumes "import_metadata env e c t im = Inr im'"
  shows "im_data im' = im_data im \<and> im_xattrs im' = im_xattrs im \<and> im_next_xattrs im' = im_next_xattrs im \<and>
    (\<exists>ev. im_log im' = im_log im @ [ev] \<and> tree_event ev)"
  using assms by (auto simp: import_metadata_def result_simps call_Inr Let_def split: object_type.splits)

lemma process_file_xattrs_Inr:
  "process_file_xattrs env e c im = Inr im' \<Longrightarrow>
   \<exists>v. c = ie_sha256 env v \<and> im' = im\<lparr>im_xattrs := kv_insert c v (im_xattrs im)\<rparr>"
  by (auto simp: process_file_xattrs_def result_simps dest!: cache_xattrs_content_Inr)

lemma process_split_xattrs_content_Inr:
  "process_split_xattrs_content env e im = Inr im' \<Longrightarrow>
   \<exists>c v. c = ie_sha256 env v \<and> im' = im\<lparr>im_xattrs := kv_insert c v (im_xattrs im)\<rparr>"
  by (auto simp: process_split_xattrs_content_def result_simps dest!: cache_xattrs_content_Inr)

lemma process_file_xattrs_link_Inr:
  assumes "process_file_xattrs_link env e c im = Inr im'"
  shows "im_next_xattrs im = None \<and> (\<exists>xc. im' = im\<lparr>im_next_xattrs := Some (c, xc)\<rparr> \<or>
    (\<exists>v. xc = ie_sha256 env v \<and>
      im' = im\<lparr>im_xattrs := kv_insert xc v (im_xattrs im), im_next_xattrs := Some (c, xc)\<rparr>))"
  using assms
  by (auto simp: process_file_xattrs_link_def result_simps dest!: cache_xattrs_content_Inr split: entry_type.splits)

lemma process_xattr_ref_Inr:
  "process_xattr_ref e c im = Inr im' \<Longrightarrow>
   im_next_xattrs im = None \<and> (\<exists>xc. im' = im\<lparr>im_next_xattrs := Some (c, xc)\<rparr>)"
  by (auto simp: process_xattr_ref_def result_simps)

text \<open>The kinds of step an importer makes.\<close>

datatype step_kind = Skip | Cache | Queue | Content rstr | Tree

definition step_effect :: "import_env \<Rightarrow> step_kind \<Rightarrow> importer \<Rightarrow> importer \<Rightarrow> bool" where
  "step_effect env k im im' \<longleftrightarrow>
     (case k of
        Skip \<Rightarrow> im' = im
      | Cache \<Rightarrow> \<exists>v. im' = im\<lparr>im_xattrs := kv_insert (ie_sha256 env v) v (im_xattrs im)\<rparr>
      | Queue \<Rightarrow> im_next_xattrs im = None \<and> im_next_xattrs im' \<noteq> None \<and> im_log im' = im_log im \<and> im_data im' = im_data im \<and>
          (im_xattrs im' = im_xattrs im \<or> (\<exists>v. im_xattrs im' = kv_insert (ie_sha256 env v) v (im_xattrs im)))
      | Content c \<Rightarrow> im_xattrs im' = im_xattrs im \<and> im_next_xattrs im' = None \<and>
          (\<exists>xc. im_next_xattrs im = Some (c, xc)) \<and>
          (im_log im' = im_log im \<or> (\<exists>ev. im_log im' = im_log im @ [ev] \<and> content_event ev = Some c)) \<and>
          (case im_data im of
             CommitMode d \<Rightarrow> im_data im' = CommitMode d
           | ObjectSet s \<Rightarrow> c \<notin> set s \<and> im_data im' = ObjectSet (insort c s))
      | Tree \<Rightarrow> (\<exists>d. im_data im = CommitMode d) \<and> im_data im' = im_data im \<and> im_xattrs im' = im_xattrs im \<and>
          im_next_xattrs im' = im_next_xattrs im \<and> (\<exists>ev. im_log im' = im_log im @ [ev] \<and> tree_event ev))"

lemma track_object_Inr:
  "track_object c im = Inr im' \<Longrightarrow> im_xattrs im' = im_xattrs im \<and> im_next_xattrs im' = im_next_xattrs im \<and>
     im_log im' = im_log im \<and>
     (case im_data im of
        CommitMode d \<Rightarrow> im_data im' = CommitMode d
      | ObjectSet s \<Rightarrow> c \<notin> set s \<and> im_data im' = ObjectSet (insort c s))"
  by (auto simp: track_object_def split: importer_mode.splits if_splits)

lemma import_object_effect:
  assumes "import_object env e p im = Inr im'"
  shows "\<exists>k. step_effect env k im im'"
proof -
  obtain suffix c where "import_by_suffix env e c suffix im = Inr im'"
    using assms by (auto simp: import_object_def result_simps)
  then consider
      im1 where "import_content_object env e c im = Inr im1" "track_object c im1 = Inr im'"
    | "process_file_xattrs env e c im = Inr im'"
    | "process_file_xattrs_link env e c im = Inr im'"
    | "process_xattr_ref e c im = Inr im'"
    | t d where "import_metadata env e c t im = Inr im'" "im_data im = CommitMode d"
    unfolding import_by_suffix_def
    by (cases "im_data im") (auto simp: and_then_Inr_iff split: if_splits)
  then show ?thesis
  proof cases
    case 1
    from import_content_object_Inr [OF 1(1)] track_object_Inr [OF 1(2)] show ?thesis
      by (intro exI [of _ "Content c"]) (auto simp: step_effect_def split: importer_mode.splits)
  next
    case 2
    then show ?thesis
      by (intro exI [of _ Cache]) (auto simp: step_effect_def dest!: process_file_xattrs_Inr)
  next
    case 3
    then show ?thesis
      by (intro exI [of _ Queue]) (auto simp: step_effect_def dest!: process_file_xattrs_link_Inr)
  next
    case 4
    then show ?thesis
      by (intro exI [of _ Queue]) (auto simp: step_effect_def dest!: process_xattr_ref_Inr)
  next
    case 5
    from import_metadata_Inr [OF 5(1)] 5(2) show ?thesis
      by (intro exI [of _ Tree]) (auto simp: step_effect_def)
  qed
qed

lemma import_step_effect:
  assumes "import_step env ep im = Inr im'"
  shows "\<exists>k. step_effect env k im im'"
proof (cases ep)
  case (Pair e p)
  with assms consider q where "import_object env e q im = Inr im'"
    | "process_split_xattrs_content env e im = Inr im'" | "im' = im"
    by (cases "path_strip_prefix (str ''objects/'') p"; cases "path_strip_prefix (str ''xattrs/'') p")
       (simp_all add: import_step_def)
  then show ?thesis
  proof cases
    case 1
    then show ?thesis by (rule import_object_effect)
  next
    case 2
    then show ?thesis
      by (intro exI [of _ Cache]) (auto simp: step_effect_def dest!: process_split_xattrs_content_Inr)
  next
    case 3
    then show ?thesis by (intro exI [of _ Skip]) (simp add: step_effect_def)
  qed
qed

subsection \<open>Reachable importers\<close>

inductive importer_reach :: "import_env \<Rightarrow> importer \<Rightarrow> importer \<Rightarrow> bool" for env im0 where
  init: "importer_reach env im0 im0"
| step: "importer_reach env im0 im \<Longrightarrow> import_step env ep im = Inr im' \<Longrightarrow> importer_reach env im0 im'"

lemma import_objects_impl_reach:
  "import_objects_impl env es im = Inr im' \<Longrightarrow> importer_reach env im0 im \<Longrightarrow> importer_reach env im0 im'"
proof (induction env es im rule: import_objects_impl.induct)
  case (2 env e es im)
  from "2.prems"(1) obtain r where r: "import_filter_entry e = Inr r"
    by (auto simp: result_simps)
  show ?case
  proof (cases r)
    case None
    with 2 r show ?thesis by simp
  next
    case (Some ep)
    with "2.prems"(1) r obtain im1 where "import_step env ep im = Inr im1" "import_objects_impl env es im1 = Inr im'"
      by (auto simp: result_simps)
    moreover from this(1) "2.prems"(2) have "importer_reach env im0 im1"
      by (blast intro: importer_reach.step)
    ultimately show ?thesis using "2.IH"(2) by blast
  qed
qed simp

text \<open>Cached extended attributes are stored under their digest.\<close>

definition xattrs_ok :: "import_env \<Rightarrow> importer \<Rightarrow> bool" where
  "xattrs_ok env im \<longleftrightarrow> (\<forall>k v. kv_lookup (im_xattrs im) k = Some v \<longrightarrow> ie_sha256 env v = k)"

lemma step_effect_xattrs:
  assumes "step_effect env k im im'" "xattrs_ok env im"
  shows "xattrs_ok env im'"
proof -
  from assms(1) consider "im_xattrs im' = im_xattrs im"
    | v where "im_xattrs im' = kv_insert (ie_sha256 env v) v (im_xattrs im)"
    by (cases k) (auto simp: step_effect_def)
  then show ?thesis
  proof cases
    case 1
    with assms(2) show ?thesis unfolding xattrs_ok_def by metis
  next
    case (2 v)
    show ?thesis
      unfolding xattrs_ok_def
    proof (intro allI impI)
      fix k w
      assume "kv_lookup (im_xattrs im') k = Some w"
      then have "k = ie_sha256 env v \<and> w = v \<or> kv_lookup (im_xattrs im) k = Some w"
        by (auto simp: 2 kv_lookup_insert split: if_splits)
      with assms(2) show "ie_sha256 env w = k" unfolding xattrs_ok_def by blast
    qed
  qed
qed

text \<open>The entry \<open>e\<close> of a stream says that the file object \<open>c\<close> has the extended attributes with digest \<open>xc\<close>: its path
  names the object, and it links to the attributes or, for a regular \<^verbatim>\<open>.file-xattrs-link\<close>, holds them.\<close>

definition names_xattrs :: "import_env \<Rightarrow> tar_entry \<Rightarrow> rstr \<Rightarrow> rstr \<Rightarrow> bool" where
  "names_xattrs env e c xc \<longleftrightarrow>
     (\<exists>p q parent name suffix. import_filter_entry e = Inr (Some (e, p)) \<and>
        (q = p \<or> path_strip_prefix (str ''objects/'') p = Some q) \<and>
        parse_object_entry_path q = Inr (parent, name, suffix) \<and> parse_checksum parent name = Inr c \<and>
        (suffix = str ''file-xattrs-link'' \<and> te_type e = Link \<and>
           (\<exists>t. te_link e = Some t \<and> parse_xattrs_link_target t = Inr xc) \<or>
         suffix = str ''file-xattrs-link'' \<and> te_type e = Regular \<and> xc = ie_sha256 env (take (unat (te_size e)) (te_data e)) \<or>
         suffix = str ''xattrs'' \<and> te_type e = Link \<and> (\<exists>t. te_link e = Some t \<and> path_file_name t = Some xc)))"

text \<open>Every content object written so far, and the one whose attributes are queued, has a reference among
  the entries \<open>A\<close>.\<close>

definition refs_ok :: "import_env \<Rightarrow> tar_entry set \<Rightarrow> importer \<Rightarrow> bool" where
  "refs_ok env A im \<longleftrightarrow> xattrs_ok env im \<and>
     (\<forall>c xc. im_next_xattrs im = Some (c, xc) \<longrightarrow> (\<exists>e \<in> A. names_xattrs env e c xc)) \<and>
     (\<forall>ev \<in> set (im_log im). \<forall>c. content_event ev = Some c \<longrightarrow>
        (\<exists>x. event_xattrs ev = Some x \<and> (\<exists>e \<in> A. names_xattrs env e c (ie_sha256 env x))))"

lemma tree_event_content: "tree_event ev \<Longrightarrow> content_event ev = None"
  by (cases ev rule: tree_event.cases) simp_all

lemma refs_ok_same:
  "refs_ok env A im \<Longrightarrow> xattrs_ok env im' \<Longrightarrow> im_next_xattrs im' = im_next_xattrs im \<Longrightarrow>
   im_log im' = im_log im @ evs \<Longrightarrow> list_all (\<lambda>ev. content_event ev = None) evs \<Longrightarrow> refs_ok env A im'"
  by (auto simp: refs_ok_def list_all_iff)

lemma process_xattrs_names:
  assumes "import_filter_entry e = Inr (Some (e, p))" "q = p \<or> path_strip_prefix (str ''objects/'') p = Some q"
    and "parse_object_entry_path q = Inr (parent, name, suffix)" "parse_checksum parent name = Inr c"
    and "suffix = str ''file-xattrs-link'' \<and> process_file_xattrs_link env e c im = Inr im' \<or>
      suffix = str ''xattrs'' \<and> process_xattr_ref e c im = Inr im'"
  shows "im_log im' = im_log im \<and> (\<exists>xc. im_next_xattrs im' = Some (c, xc) \<and> names_xattrs env e c xc)"
  using assms(5)
proof
  assume a: "suffix = str ''file-xattrs-link'' \<and> process_file_xattrs_link env e c im = Inr im'"
  then consider t xc where "te_type e = Link" "te_link e = Some t" "parse_xattrs_link_target t = Inr xc"
      "im' = im\<lparr>im_next_xattrs := Some (c, xc)\<rparr>"
    | xc im1 where "te_type e = Regular" "cache_xattrs_content env e None im = Inr (xc, im1)" "im' = im1\<lparr>im_next_xattrs := Some (c, xc)\<rparr>"
    by (auto simp: process_file_xattrs_link_def result_simps split: entry_type.splits)
  then show ?thesis
  proof cases
    case 1
    with a assms(1-4) show ?thesis by (auto simp: names_xattrs_def)
  next
    case 2
    from 2(2) have "xc = ie_sha256 env (take (unat (te_size e)) (te_data e))" "im_log im1 = im_log im"
      by (auto simp: cache_xattrs_content_def result_simps Let_def split: if_splits)
    with 2 a assms(1-4) show ?thesis by (auto simp: names_xattrs_def)
  qed
next
  assume a: "suffix = str ''xattrs'' \<and> process_xattr_ref e c im = Inr im'"
  then obtain t xc where "te_type e = Link" "te_link e = Some t" "path_file_name t = Some xc"
      "im' = im\<lparr>im_next_xattrs := Some (c, xc)\<rparr>"
    by (auto simp: process_xattr_ref_def validate_sha256_def result_simps split: if_splits)
  with a assms(1-4) show ?thesis by (auto simp: names_xattrs_def)
qed

lemma import_object_refs:
  assumes "import_object env e q im = Inr im'" "e \<in> A" "import_filter_entry e = Inr (Some (e, p))"
    and "q = p \<or> path_strip_prefix (str ''objects/'') p = Some q" "refs_ok env A im"
  shows "refs_ok env A im'"
proof -
  obtain parent name suffix c where q: "parse_object_entry_path q = Inr (parent, name, suffix)" "parse_checksum parent name = Inr c"
      "import_by_suffix env e c suffix im = Inr im'"
    using assms(1) by (auto simp: import_object_def result_simps)
  have ok: "xattrs_ok env im'"
    using import_object_effect [OF assms(1)] step_effect_xattrs assms(5) unfolding refs_ok_def by blast
  from q(3) consider
      im1 where "import_content_object env e c im = Inr im1" "track_object c im1 = Inr im'"
    | "process_file_xattrs env e c im = Inr im'"
    | "suffix = str ''file-xattrs-link'' \<and> process_file_xattrs_link env e c im = Inr im' \<or>
        suffix = str ''xattrs'' \<and> process_xattr_ref e c im = Inr im'"
    | t where "import_metadata env e c t im = Inr im'"
    unfolding import_by_suffix_def
    by (cases "im_data im") (auto simp: and_then_Inr_iff split: if_splits)
  then show ?thesis
  proof cases
    case 1
    note im' = import_content_object_Inr [OF 1(1)] track_object_Inr [OF 1(2)]
    then obtain xc where xc: "im_next_xattrs im = Some (c, xc)" "im_next_xattrs im' = None" "im_log im' = im_log im1"
        "im_log im1 = im_log im \<or> (\<exists>ev x. im_log im1 = im_log im @ [ev] \<and> content_event ev = Some c \<and>
          event_xattrs ev = Some x \<and> kv_lookup (im_xattrs im) xc = Some x)"
      by auto
    have new: "\<exists>e \<in> A. names_xattrs env e c (ie_sha256 env x)" if "kv_lookup (im_xattrs im) xc = Some x" for x
      using that xc(1) assms(5) unfolding refs_ok_def xattrs_ok_def by metis
    from xc(4) show ?thesis
      using xc(2,3) ok new assms(5) unfolding refs_ok_def by auto
  next
    case 2
    then show ?thesis
      by (intro refs_ok_same [OF assms(5) ok, of "[]"]) (auto dest: process_file_xattrs_Inr)
  next
    case 3
    from process_xattrs_names [OF assms(3,4) q(1,2) 3] show ?thesis
      using ok assms(2,5) unfolding refs_ok_def by auto
  next
    case 4
    from import_metadata_Inr [OF this] obtain ev where "im_log im' = im_log im @ [ev]" "tree_event ev" "im_next_xattrs im' = im_next_xattrs im"
      by blast
    then show ?thesis
      by (intro refs_ok_same [OF assms(5) ok, of "[ev]"]) (simp_all add: tree_event_content)
  qed
qed

lemma import_step_refs:
  assumes "import_step env (e, p) im = Inr im'" "e \<in> A" "import_filter_entry e = Inr (Some (e, p))" "refs_ok env A im"
  shows "refs_ok env A im'"
proof (cases "path_strip_prefix (str ''objects/'') p")
  case (Some q)
  with assms(1) have "import_object env e q im = Inr im'" by (simp add: import_step_def)
  from import_object_refs [OF this assms(2,3) _ assms(4)] Some show ?thesis by blast
next
  case None
  with assms(1) consider "process_split_xattrs_content env e im = Inr im'" | "im' = im"
    by (cases "path_strip_prefix (str ''xattrs/'') p") (simp_all add: import_step_def)
  then show ?thesis
  proof cases
    case 1
    from import_step_effect [OF assms(1)] have "xattrs_ok env im'"
      using step_effect_xattrs assms(4) unfolding refs_ok_def by blast
    with 1 show ?thesis
      by (intro refs_ok_same [OF assms(4), of _ "[]"]) (auto dest: process_split_xattrs_content_Inr)
  qed (use assms(4) in simp)
qed

lemma import_filter_entry_same: "import_filter_entry e = Inr (Some (e', p)) \<Longrightarrow> e' = e"
  by (auto simp: import_filter_entry_def result_simps split: if_splits option.splits)

lemma import_objects_impl_refs:
  "import_objects_impl env es im = Inr im' \<Longrightarrow> set es \<subseteq> A \<Longrightarrow> refs_ok env A im \<Longrightarrow> refs_ok env A im'"
proof (induction env es im rule: import_objects_impl.induct)
  case (2 env e es im)
  from "2.prems"(1) obtain r where r: "import_filter_entry e = Inr r"
    by (auto simp: result_simps)
  show ?case
  proof (cases r)
    case None
    with 2 r show ?thesis by simp
  next
    case (Some ep)
    then obtain p where p: "ep = (e, p)" using import_filter_entry_same r by (cases ep) blast
    from "2.prems"(1) r Some obtain im1 where im1: "import_step env (e, p) im = Inr im1" "import_objects_impl env es im1 = Inr im'"
      by (auto simp: result_simps p)
    have "refs_ok env A im1"
      by (rule import_step_refs [OF im1(1)]) (use "2.prems" r Some p in auto)
    with "2.IH"(2) [of im1] im1(2) "2.prems"(2) show ?thesis using r Some by auto
  qed
qed simp

lemma next_entry_Inr:
  "next_entry es = Inr (Some ((e, p), rest)) \<Longrightarrow>
   e \<in> set es \<and> set rest \<subseteq> set es \<and> import_filter_entry e = Inr (Some (e, p))"
proof (induction es)
  case (Cons a es)
  then obtain x where x: "import_filter_entry a = Inr x" by (auto simp: result_simps)
  show ?case
  proof (cases x)
    case (Some y)
    with Cons.prems x have "import_filter_entry a = Inr (Some (e, p))" "rest = es" by simp_all
    with import_filter_entry_same [of a e p] show ?thesis by auto
  qed (use Cons x in auto)
qed simp

lemma write_commit_checked_Inr:
  "write_commit_checked env c commit im = Inr im' \<Longrightarrow>
   im' = im\<lparr>im_log := im_log im @ [MarkPartial c True, WriteMetadata ObjCommit (Some c) commit]\<rparr>"
  by (auto simp: write_commit_checked_def result_simps call_Inr)

lemma import_commit_refs:
  assumes "import_commit env src im = Inr im'" "refs_ok env (set src) im"
  shows "refs_ok env (set src) im'"
proof -
  have log: "refs_ok env A (im\<lparr>im_log := im_log im @ evs\<rparr>)" "refs_ok env A (im\<lparr>im_data := d\<rparr>)"
    if "refs_ok env A im" "list_all (\<lambda>ev. content_event ev = None) evs" for A im evs d
    using that by (auto simp: refs_ok_def xattrs_ok_def list_all_iff)
  obtain e1 p1 ents1 e2 p2 ents2 c im1 where n: "next_entry src = Inr (Some ((e1, p1), ents1))"
      "next_entry ents1 = Inr (Some ((e2, p2), ents2))"
      "import_objects_impl env ents2 (im1\<lparr>im_data := CommitMode (Some c)\<rparr>) = Inr im'"
    and im1: "(\<exists>evs. im1 = im\<lparr>im_log := im_log im @ evs\<rparr> \<and> list_all (\<lambda>ev. content_event ev = None) evs) \<or>
      (\<exists>commit. import_object env e2 p2
         (im\<lparr>im_log := im_log im @ [MarkPartial c True, WriteMetadata ObjCommit (Some c) commit]\<rparr>) = Inr im1)"
    using assms(1)
    by (auto simp: import_commit_def result_simps call_Inr dest!: write_commit_checked_Inr split: option.splits if_splits)
       fastforce+
  have src: "e2 \<in> set src" "set ents2 \<subseteq> set src" "import_filter_entry e2 = Inr (Some (e2, p2))"
    using next_entry_Inr [OF n(1)] next_entry_Inr [OF n(2)] by auto
  from im1 have "refs_ok env (set src) im1"
  proof (elim disjE exE conjE)
    fix commit assume "import_object env e2 p2
         (im\<lparr>im_log := im_log im @ [MarkPartial c True, WriteMetadata ObjCommit (Some c) commit]\<rparr>) = Inr im1"
    from import_object_refs [OF this src(1,3)] log(1) [OF assms(2)] show ?thesis by simp
  qed (use log(1) [OF assms(2)] in simp)
  with import_objects_impl_refs [OF n(3) src(2)] log(2) [of "set src" im1 "[]"] show ?thesis by simp
qed

text \<open>From a commit importer only tree and content objects are written; an object-set importer writes
  content objects only, each at most once, and remembers them in order.\<close>

definition log_grown :: "importer \<Rightarrow> importer \<Rightarrow> bool" where
  "log_grown im0 im \<longleftrightarrow> (\<exists>evs. im_log im = im_log im0 @ evs \<and> list_all object_event evs \<and>
     (case im_data im0 of
        CommitMode d \<Rightarrow> im_data im = CommitMode d
      | ObjectSet s \<Rightarrow> \<exists>s'. im_data im = ObjectSet s' \<and> (sorted s \<and> distinct s \<longrightarrow> sorted s' \<and> distinct s') \<and>
          set s \<subseteq> set s' \<and> distinct (map content_event evs) \<and>
          set (map content_event evs) \<subseteq> Some ` (set s' - set s)))"

lemma importer_reach_log: "importer_reach env im0 im \<Longrightarrow> log_grown im0 im"
proof (induction rule: importer_reach.induct)
  case init
  show ?case by (auto simp: log_grown_def split: importer_mode.splits)
next
  case (step im ep im')
  from import_step_effect [OF step(2)] obtain k where k: "step_effect env k im im'" by blast
  obtain evs where evs: "im_log im = im_log im0 @ evs" "list_all object_event evs"
    "case im_data im0 of
        CommitMode d \<Rightarrow> im_data im = CommitMode d
      | ObjectSet s \<Rightarrow> \<exists>s'. im_data im = ObjectSet s' \<and> (sorted s \<and> distinct s \<longrightarrow> sorted s' \<and> distinct s') \<and>
          set s \<subseteq> set s' \<and> distinct (map content_event evs) \<and>
          set (map content_event evs) \<subseteq> Some ` (set s' - set s)"
    using step.IH unfolding log_grown_def by blast
  consider "im_log im' = im_log im" "im_data im' = im_data im"
    | c where "k = Content c"
    | ev d where "im_log im' = im_log im @ [ev]" "tree_event ev" "im_data im = CommitMode d" "im_data im' = CommitMode d"
    using k by (cases k) (auto simp: step_effect_def)
  then show ?case
  proof cases
    case 1
    with evs show ?thesis unfolding log_grown_def by (cases "im_data im0"; intro exI [of _ evs]) simp_all
  next
    case (2 c)
    with k obtain new where new: "im_log im' = im_log im @ new" "new = [] \<or> (\<exists>ev. new = [ev] \<and> content_event ev = Some c)"
      by (auto simp: step_effect_def)
    show ?thesis
    proof (cases "im_data im0")
      case (CommitMode d)
      with evs 2 k new show ?thesis
        unfolding log_grown_def by (intro exI [of _ "evs @ new"]) (auto simp: step_effect_def object_event_def)
    next
      case (ObjectSet s)
      with evs(3) obtain s' where s': "im_data im = ObjectSet s'" "sorted s \<and> distinct s \<longrightarrow> sorted s' \<and> distinct s'"
          "set s \<subseteq> set s'" "distinct (map content_event evs)" "set (map content_event evs) \<subseteq> Some ` (set s' - set s)"
        by auto
      with 2 k have c: "c \<notin> set s'" "im_data im' = ObjectSet (insort c s')"
        by (simp_all add: step_effect_def)
      have "Some c \<notin> set (map content_event evs)" using s'(5) c(1) by blast
      then have "distinct (map content_event (evs @ new))"
        using s'(4) new(2) by (auto simp del: set_map simp add: set_map [symmetric])
      moreover have "set (map content_event (evs @ new)) \<subseteq> Some ` (set (insort c s') - set s)"
        using s'(3,5) c(1) new(2) by (auto simp: set_insort_key)
      ultimately show ?thesis
        using evs(1,2) new s'(2,3) c ObjectSet unfolding log_grown_def
        by (intro exI [of _ "evs @ new"])
           (auto simp: object_event_def sorted_insort distinct_insort set_insort_key)
    qed
  next
    case (3 ev d)
    then have "im_data im0 = CommitMode d"
      using evs(3) by (auto split: importer_mode.splits)
    with 3 evs show ?thesis
      unfolding log_grown_def by (intro exI [of _ "evs @ [ev]"]) (auto simp: object_event_def)
  qed
qed

lemma import_objects_impl_log:
  "import_objects_impl env es im = Inr im' \<Longrightarrow> log_grown im im'"
  by (rule importer_reach_log [OF import_objects_impl_reach [OF _ importer_reach.init]])

text \<open>What a commit importer with a remote does before it imports objects.\<close>

lemma import_commit_verified_log:
  assumes "import_commit env src (new_for_commit (Some remote)\<lparr>im_log := [TxnBegin]\<rparr>) = Inr im'"
    and "finish_import_commit im' = Inr checksum"
  shows "\<exists>commit commitmeta evs.
    im_log im' = [TxnBegin, VerifySignature remote commit commitmeta, MarkPartial checksum True,
           WriteMetadata ObjCommit (Some checksum) commit, WriteDetached checksum commitmeta] @ evs \<and>
    list_all object_event evs \<and> is_ok (ie_answer env (VerifySignature remote commit commitmeta))"
proof -
  let ?im = "new_for_commit (Some remote)\<lparr>im_log := [TxnBegin]\<rparr>"
  obtain c commit commitmeta ents where
    verified: "is_ok (ie_answer env (VerifySignature remote commit commitmeta))"
    and rest: "import_objects_impl env ents
      (?im\<lparr>im_log := [TxnBegin, VerifySignature remote commit commitmeta, MarkPartial c True,
           WriteMetadata ObjCommit (Some c) commit, WriteDetached c commitmeta],
           im_data := CommitMode (Some c)\<rparr>) = Inr im'"
    using assms(1)
    by (auto simp: import_commit_def write_commit_checked_def result_simps call_Inr new_for_commit_def) blast
  from import_objects_impl_log [OF rest]
  obtain evs where "im_data im' = CommitMode (Some c)" "list_all object_event evs"
      "im_log im' = [TxnBegin, VerifySignature remote commit commitmeta, MarkPartial c True,
           WriteMetadata ObjCommit (Some c) commit, WriteDetached c commitmeta] @ evs"
    by (auto simp: log_grown_def)
  with assms(2) verified show ?thesis
    by (auto simp: finish_import_commit_def)
qed

section \<open>Properties\<close>

text \<open>C6: a commit imported with a verification remote was verified before it was written: the log of a
  successful import begins with the transaction, the signature check of exactly the commit and
  detached metadata that are then stored, the partial mark, the commit and its metadata; after that
  only objects of the tree follow, and the partial mark is removed last, after the transaction.\<close>

theorem import_tar_verifies_first:
  assumes "import_tar env src (Some remote) = Inr (checksum, log)"
  shows "\<exists>commit commitmeta evs.
    log = [TxnBegin, VerifySignature remote commit commitmeta, MarkPartial checksum True,
           WriteMetadata ObjCommit (Some checksum) commit, WriteDetached checksum commitmeta]
          @ evs @ [TxnCommit, MarkPartial checksum False] \<and>
    list_all object_event evs \<and> is_ok (ie_answer env (VerifySignature remote commit commitmeta))"
proof -
  obtain im1 where im1: "import_commit env src (new_for_commit (Some remote)\<lparr>im_log := [TxnBegin]\<rparr>) = Inr im1"
      "finish_import_commit im1 = Inr checksum" "log = im_log im1 @ [TxnCommit, MarkPartial checksum False]"
    using assms by (auto simp: import_tar_def result_simps call_Inr new_for_commit_def)
  from import_commit_verified_log [OF im1(1,2)] im1(3) show ?thesis
    by auto
qed

definition sample_checksum :: "nat \<Rightarrow> rstr" where
  "sample_checksum c = replicate 64 c"

text \<open>A store that accepts everything under the checksum it is given.\<close>

definition sample_env :: import_env where
  "sample_env =
     \<lparr>ie_sha256 = (\<lambda>_. sample_checksum 98), ie_normal_form = (\<lambda>_ b. b), ie_default_dirmeta = [1],
      ie_has_file = (\<lambda>_ _. Inr False),
      ie_answer = (\<lambda>ev. case ev of WriteMetadata _ (Some c) _ \<Rightarrow> Inr c | _ \<Rightarrow> Inr [99])\<rparr>"

definition sample_object :: "nat \<Rightarrow> string \<Rightarrow> entry_type \<Rightarrow> rstr option \<Rightarrow> bytes \<Rightarrow> tar_entry" where
  "sample_object c suffix t l d =
     \<lparr>te_path = Some (str ''sysroot/ostree/repo/objects/'' @ replicate 2 c @ [47] @ replicate 62 c @ str suffix),
      te_type = t, te_header_link = l, te_link = l, te_uid = 0, te_gid = 0, te_mode = 420,
      te_mtime = Some 0, te_size = of_nat (length d), te_pax = None, te_data = d\<rparr>"

theorem import_tar_verifies_first_witness:
  "\<exists>evs. import_tar sample_env
     [sample_object 97 ''.commit'' Regular None [1, 2], sample_object 97 ''.commitmeta'' Regular None [3]]
     (Some (str ''fedora'')) = Inr (sample_checksum 97,
       [TxnBegin, VerifySignature (str ''fedora'') [1, 2] [3], MarkPartial (sample_checksum 97) True,
        WriteMetadata ObjCommit (Some (sample_checksum 97)) [1, 2], WriteDetached (sample_checksum 97) [3]]
       @ evs @ [TxnCommit, MarkPartial (sample_checksum 97) False]) \<and> list_all object_event evs"
proof -
  have "import_tar sample_env
     [sample_object 97 ''.commit'' Regular None [1, 2], sample_object 97 ''.commitmeta'' Regular None [3]]
     (Some (str ''fedora'')) = Inr (sample_checksum 97,
       [TxnBegin, VerifySignature (str ''fedora'') [1, 2] [3], MarkPartial (sample_checksum 97) True,
        WriteMetadata ObjCommit (Some (sample_checksum 97)) [1, 2], WriteDetached (sample_checksum 97) [3],
        TxnCommit, MarkPartial (sample_checksum 97) False])"
    by code_simp
  from import_tar_verifies_first [OF this] this show ?thesis by auto
qed

text \<open>Importing an object set writes nothing but content objects inside its transaction, each at most
  once; the synthetic commit made of it lists, in order and without repetition, at least the objects
  written, and no metadata object of the stream is accepted.\<close>

theorem import_tar_objects_writes_content:
  assumes "import_tar_objects env src = Inr (commit, log)"
  shows "\<exists>evs objset dirmeta.
    log = [TxnBegin] @ evs @
          [WriteMetadata ObjDirMeta None (ie_default_dirmeta env), WriteObjectSetCommit objset dirmeta, TxnCommit] \<and>
    sorted objset \<and> distinct objset \<and> distinct (map content_event evs) \<and>
    set (map content_event evs) \<subseteq> Some ` set objset \<and>
    ie_answer env (WriteObjectSetCommit objset dirmeta) = Inr commit"
proof -
  let ?im = "new_for_object_set\<lparr>im_log := [TxnBegin]\<rparr>"
  obtain im1 im2 where im1: "import_objects_impl env src ?im = Inr im1"
      "finish_import_object_set env im1 = Inr (commit, im2)" "log = im_log im2 @ [TxnCommit]"
    using assms by (auto simp: import_tar_objects_def result_simps call_Inr new_for_object_set_def)
  have "log_grown ?im im1" by (rule import_objects_impl_log [OF im1(1)])
  then obtain evs objset where "im_log im1 = [TxnBegin] @ evs" "im_data im1 = ObjectSet objset"
      "sorted objset" "distinct objset" "distinct (map content_event evs)"
      "set (map content_event evs) \<subseteq> Some ` set objset"
    by (auto simp: log_grown_def new_for_object_set_def)
  with im1(2,3) show ?thesis
    by (auto simp: finish_import_object_set_def result_simps call_Inr intro!: exI [of _ evs])
qed

definition sample_chunk_archive :: "tar_entry list" where
  "sample_chunk_archive =
     [sample_object 98 ''.file-xattrs'' Regular None [0],
      sample_object 97 ''.file-xattrs-link'' Link
        (Some (str ''sysroot/ostree/repo/objects/'' @ replicate 2 98 @ [47] @ replicate 62 98 @ str ''.file-xattrs'')) [],
      sample_object 97 ''.file'' Regular None [7, 8]]"

theorem import_tar_objects_writes_content_witness:
  "\<exists>log objset dirmeta. import_tar_objects sample_env sample_chunk_archive = Inr ([99], log) \<and>
     log = [TxnBegin, WriteRegfile (sample_checksum 97) 0 0 0x81A4 [0] [7, 8],
            WriteMetadata ObjDirMeta None [1], WriteObjectSetCommit objset dirmeta, TxnCommit] \<and>
     distinct objset \<and> sample_checksum 97 \<in> set objset"
proof -
  have run: "import_tar_objects sample_env sample_chunk_archive = Inr ([99],
      [TxnBegin, WriteRegfile (sample_checksum 97) 0 0 0x81A4 [0] [7, 8],
       WriteMetadata ObjDirMeta None [1], WriteObjectSetCommit [sample_checksum 97] [99], TxnCommit])"
    by code_simp
  from import_tar_objects_writes_content [OF this] obtain evs objset dirmeta where
    "[TxnBegin, WriteRegfile (sample_checksum 97) 0 0 0x81A4 [0] [7, 8],
      WriteMetadata ObjDirMeta None [1], WriteObjectSetCommit [sample_checksum 97] [99], TxnCommit] =
     [TxnBegin] @ evs @ [WriteMetadata ObjDirMeta None (ie_default_dirmeta sample_env), WriteObjectSetCommit objset dirmeta, TxnCommit]"
    "distinct objset" by blast
  then show ?thesis using run by (auto simp: append_eq_Cons_conv Cons_eq_append_conv)
qed

text \<open>C36: in a successful import of a tar stream, of a commit or of an object set, every content object written was
  written with the extended attributes the stream names for it: there is an entry for this very object that refers
  to the attributes by a digest (a link), or holds them, and the attributes written have this digest.\<close>

theorem content_written_with_its_xattrs:
  assumes "import_tar env src remote = Inr (r, log) \<or> import_tar_objects env src = Inr (r, log)"
    and "ev \<in> set log" "content_event ev = Some c"
  shows "\<exists>x e. event_xattrs ev = Some x \<and> e \<in> set src \<and> names_xattrs env e c (ie_sha256 env x)"
proof -
  have init: "refs_ok env A (new_for_commit remote\<lparr>im_log := [TxnBegin]\<rparr>)" "refs_ok env A (new_for_object_set\<lparr>im_log := [TxnBegin]\<rparr>)" for A
    by (simp_all add: refs_ok_def xattrs_ok_def new_for_commit_def new_for_object_set_def)
  from assms(1) obtain im evs where "refs_ok env (set src) im" "log = im_log im @ evs" "list_all (\<lambda>ev. content_event ev = None) evs"
  proof
    assume "import_tar env src remote = Inr (r, log)"
    then obtain im where "import_commit env src (new_for_commit remote\<lparr>im_log := [TxnBegin]\<rparr>) = Inr im"
        "log = im_log im @ [TxnCommit, MarkPartial r False]"
      by (auto simp: import_tar_def result_simps call_Inr new_for_commit_def)
    with import_commit_refs [OF _ init(1)] that show ?thesis by fastforce
  next
    assume "import_tar_objects env src = Inr (r, log)"
    then obtain im im2 where im: "import_objects_impl env src (new_for_object_set\<lparr>im_log := [TxnBegin]\<rparr>) = Inr im"
        "finish_import_object_set env im = Inr (r, im2)" "log = im_log im2 @ [TxnCommit]"
      by (auto simp: import_tar_objects_def result_simps call_Inr new_for_object_set_def)
    then obtain evs where "im_log im2 = im_log im @ evs" "list_all (\<lambda>ev. content_event ev = None) evs"
      by (auto simp: finish_import_object_set_def result_simps call_Inr split: importer_mode.splits)
    with im that [of im "evs @ [TxnCommit]"] import_objects_impl_refs [OF im(1) subset_refl init(2)] show ?thesis by simp
  qed
  with assms(2,3) show ?thesis unfolding refs_ok_def list_all_iff by fastforce
qed

theorem content_written_with_its_xattrs_witness:
  "\<exists>log e. import_tar_objects sample_env sample_chunk_archive = Inr ([99], log) \<and>
     WriteRegfile (sample_checksum 97) 0 0 0x81A4 [0] [7, 8] \<in> set log \<and> e \<in> set sample_chunk_archive \<and>
     names_xattrs sample_env e (sample_checksum 97) (ie_sha256 sample_env [0])"
proof -
  have run: "import_tar_objects sample_env sample_chunk_archive = Inr ([99],
      [TxnBegin, WriteRegfile (sample_checksum 97) 0 0 0x81A4 [0] [7, 8],
       WriteMetadata ObjDirMeta None [1], WriteObjectSetCommit [sample_checksum 97] [99], TxnCommit])"
    by code_simp
  from content_written_with_its_xattrs [OF disjI2 [OF this], of "WriteRegfile (sample_checksum 97) 0 0 0x81A4 [0] [7, 8]"] run
  show ?thesis by auto
qed

end
