(* ===== verification/RustFloat.thy ===== *)
theory RustFloat
  imports Prelude Complex_Main
begin

text \<open>
  The binary floating-point numbers of Rust (\<^verbatim>\<open>f32\<close> with 24 bits of precision, \<^verbatim>\<open>f64\<close> with 53), as the
  rationals they denote.  Every operation computes the exact result and rounds it to the nearest
  representable number, ties to even (IEEE 754).  The crate only feeds them non-negative machine
  integers and their means and deviations, so that neither overflow, subnormal numbers nor NaN
  occur; signed zeros compare equal.  The lemmas bound the relative error of a rounding and show
  that small integers are exact.
\<close>

section \<open>Definitions\<close>

type_synonym fl = rat

function blen :: "int \<Rightarrow> int" where
  "blen n = (if n \<le> 0 then 0 else 1 + blen (n div 2))"
  by pat_completeness auto
termination
  by (relation "measure nat") auto

declare blen.simps [simp del]

function two_pow :: "int \<Rightarrow> int" where
  "two_pow k = (if k \<le> 0 then 1 else 2 * two_pow (k - 1))"
  by pat_completeness auto
termination
  by (relation "measure nat") auto

declare two_pow.simps [simp del]

definition pow2 :: "int \<Rightarrow> rat" where
  "pow2 e = (if 0 \<le> e then of_int (two_pow e) else 1 / of_int (two_pow (- e)))"

text \<open>The exponent \<open>k\<close> with \<open>2\<^sup>k \<le> q < 2\<^sup>k\<^sup>+\<^sup>1\<close> of a positive rational.\<close>

definition floor_log2 :: "rat \<Rightarrow> int" where
  "floor_log2 q =
     (let (n, d) = quotient_of q;
          k = blen n - blen d
      in if pow2 k \<le> q then k else k - 1)"

definition round_half_even :: "rat \<Rightarrow> int" where
  "round_half_even x =
     (let f = \<lfloor>x\<rfloor>; r = x - of_int f
      in if r < 1 / 2 then f else if 1 / 2 < r then f + 1 else if even f then f else f + 1)"

definition rnd :: "nat \<Rightarrow> rat \<Rightarrow> fl" where
  "rnd p x =
     (if x = 0 then 0
      else let e = floor_log2 \<bar>x\<bar> - int p + 1
           in sgn x * of_int (round_half_even (\<bar>x\<bar> / pow2 e)) * pow2 e)"

abbreviation rnd64 :: "rat \<Rightarrow> fl" where
  "rnd64 \<equiv> rnd 53"

abbreviation rnd32 :: "rat \<Rightarrow> fl" where
  "rnd32 \<equiv> rnd 24"

text \<open>Square root: the integer square root of the radicand scaled to 106 bits, then rounded.\<close>

function isqrt :: "int \<Rightarrow> int" where
  "isqrt n = (if n \<le> 0 then 0
     else let r = 2 * isqrt (n div 4) in if (r + 1) * (r + 1) \<le> n then r + 1 else r)"
  by pat_completeness auto
termination
  by (relation "measure nat") auto

declare isqrt.simps [simp del]

definition sqrt_nearest :: "rat \<Rightarrow> int" where
  "sqrt_nearest y =
     (let s = isqrt \<lfloor>y\<rfloor>; h = of_int s + 1 / 2
      in if y < h * h then s else if h * h < y then s + 1 else if even s then s else s + 1)"

definition sqrt64 :: "fl \<Rightarrow> fl" where
  "sqrt64 x =
     (if x = 0 then 0
      else let e = floor_log2 x div 2 - 52
           in of_int (sqrt_nearest (x / (pow2 e * pow2 e))) * pow2 e)"

section \<open>Lemmas\<close>

lemma two_pow_eq [simp]: "two_pow k = 2 ^ nat k"
proof (induction k rule: two_pow.induct)
  case (1 k)
  show ?case
  proof (cases "k \<le> 0")
    case False
    then have "nat k = Suc (nat (k - 1))" by simp
    with 1 False show ?thesis by (simp add: two_pow.simps [of k])
  qed (simp add: two_pow.simps)
qed

lemma pow2_eq: "pow2 e = 2 powi e"
  by (simp add: pow2_def power_int_def field_simps)

lemma pow2_pos [simp]: "0 < pow2 e"
  by (simp add: pow2_def)

lemma pow2_add: "pow2 (a + b) = pow2 a * pow2 b"
  by (simp add: pow2_eq power_int_add)

lemma pow2_diff: "pow2 (a - b) = pow2 a / pow2 b"
  by (simp add: pow2_eq power_int_diff)

lemma pow2_nat: "pow2 (int n) = 2 ^ n"
  by (simp add: pow2_def)

lemma pow2_mono: "a \<le> b \<Longrightarrow> pow2 a \<le> pow2 b"
  by (simp add: pow2_eq power_int_increasing)

lemma pow2_less_iff: "pow2 a < pow2 b \<longleftrightarrow> a < b"
  using pow2_mono [of b a] power_int_strict_increasing [of a b "2 :: rat"]
  by (cases "a < b") (simp_all add: pow2_eq)

lemma blen_bounds: "0 < n \<Longrightarrow> pow2 (blen n - 1) \<le> of_int n \<and> of_int n < pow2 (blen n)"
proof (induction n rule: blen.induct)
  case (1 n)
  show ?case
  proof (cases "n div 2 = 0")
    case True
    with 1 have "n = 1" by auto
    then show ?thesis by (simp add: blen.simps pow2_def)
  next
    case False
    define h where "h = n div 2"
    have h: "0 < h" using 1 False unfolding h_def by linarith
    have nn: "0 \<le> blen m" for m
      by (induction m rule: blen.induct) (subst blen.simps, simp)
    define p :: int where "p = 2 ^ nat (blen h)"
    have p: "pow2 (blen h) = of_int p" using nn by (simp add: pow2_def p_def)
    have "of_int p \<le> (of_int (2 * h) :: rat)" "(of_int h :: rat) < of_int p"
      using 1 h by (simp_all add: pow2_diff pow2_def [of 1] p [symmetric] h_def)
    then have "p \<le> 2 * h" "h < p" by (simp_all only: of_int_le_iff of_int_less_iff)
    moreover have "2 * h \<le> n" "n < 2 * h + 2" by (auto simp: h_def)
    ultimately have "p \<le> n" "n < 2 * p" by linarith+
    then have "pow2 (blen h) \<le> of_int n" "of_int n < 2 * pow2 (blen h)"
      unfolding p by (simp_all flip: of_int_less_iff [where 'a = rat])
    moreover have "blen n = 1 + blen h"
      using 1 by (simp add: blen.simps [of n] h_def)
    ultimately show ?thesis by (simp add: pow2_add pow2_def [of 1])
  qed
qed

lemma floor_log2_bounds:
  assumes "0 < q"
  shows "pow2 (floor_log2 q) \<le> q \<and> q < pow2 (floor_log2 q + 1)"
proof -
  obtain n d where nd: "quotient_of q = (n, d)" by force
  then have d: "0 < d" and q: "q = of_int n / of_int d"
    by (simp_all add: quotient_of_denom_pos quotient_of_div)
  with assms have n: "0 < n" by (simp add: zero_less_divide_iff)
  have "pow2 (blen n - 1) / pow2 (blen d) \<le> q" "q < pow2 (blen n) / pow2 (blen d - 1)"
    unfolding q using blen_bounds [OF n] blen_bounds [OF d] d n
    by (auto intro!: frac_le frac_less simp: less_imp_le)
  then have "pow2 (blen n - blen d - 1) \<le> q" "q < pow2 (blen n - blen d + 1)"
    by (simp_all add: pow2_diff pow2_add pow2_nat pow2_def [of 1] field_simps)
  then show ?thesis by (auto simp: floor_log2_def nd Let_def)
qed

lemma round_half_even_error: "\<bar>of_int (round_half_even x) - x\<bar> \<le> 1 / 2"
proof -
  have "of_int \<lfloor>x\<rfloor> \<le> x" "x < of_int \<lfloor>x\<rfloor> + 1" by linarith+
  then show ?thesis
    unfolding round_half_even_def Let_def abs_le_iff by (simp split: if_split) linarith
qed

lemma round_half_even_int [simp]: "round_half_even (of_int k) = k"
  by (simp add: round_half_even_def)

lemma rnd_0 [simp]: "rnd p 0 = 0"
  by (simp add: rnd_def)

lemma rnd_error:
  assumes "0 < p"
  shows "\<bar>rnd p x - x\<bar> \<le> \<bar>x\<bar> / 2 ^ p"
proof (cases "x = 0")
  case False
  define e where "e = floor_log2 \<bar>x\<bar> - int p + 1"
  define m where "m = round_half_even (\<bar>x\<bar> / pow2 e)"
  have "pow2 e * 2 ^ p = 2 * pow2 (floor_log2 \<bar>x\<bar>)"
    by (simp add: e_def pow2_add pow2_diff pow2_nat pow2_def [of 1])
  with floor_log2_bounds [of "\<bar>x\<bar>"] False have ulp: "pow2 e / 2 \<le> \<bar>x\<bar> / 2 ^ p"
    by (simp add: field_simps)
  have "x = sgn x * (\<bar>x\<bar> / pow2 e) * pow2 e"
    by (simp add: sgn_mult_abs less_imp_neq [OF pow2_pos, symmetric])
  then have "rnd p x - x = sgn x * (of_int m - \<bar>x\<bar> / pow2 e) * pow2 e"
    using False by (simp add: rnd_def Let_def m_def e_def algebra_simps)
  then have "\<bar>rnd p x - x\<bar> = \<bar>of_int m - \<bar>x\<bar> / pow2 e\<bar> * pow2 e"
    using False by (simp add: abs_mult abs_sgn_eq abs_of_pos)
  also have "\<dots> \<le> 1 / 2 * pow2 e"
    using round_half_even_error [of "\<bar>x\<bar> / pow2 e"]
    by (intro mult_right_mono) (simp_all add: m_def less_imp_le)
  also have "\<dots> \<le> \<bar>x\<bar> / 2 ^ p" using ulp by simp
  finally show ?thesis .
qed simp

lemma rnd_exact:
  assumes "\<bar>k\<bar> < 2 ^ p"
  shows "rnd p (of_int k) = of_int k"
proof (cases "k = 0")
  case False
  define e where "e = floor_log2 \<bar>of_int k\<bar> - int p + 1"
  have "pow2 (floor_log2 \<bar>of_int k\<bar>) \<le> of_int \<bar>k\<bar>"
    using floor_log2_bounds [of "\<bar>of_int k\<bar>"] False by simp
  also have "\<dots> < pow2 (int p)"
    using assms by (simp only: pow2_nat flip: of_int_less_iff [where 'a = rat]) simp
  finally have "e \<le> 0" by (simp add: pow2_less_iff e_def)
  then have "\<bar>of_int k\<bar> / pow2 e = of_int (\<bar>k\<bar> * 2 ^ nat (- e))"
    by (auto simp: pow2_def)
  then have "rnd p (of_int k) = sgn (of_int k) * (\<bar>of_int k\<bar> / pow2 e) * pow2 e"
    using False by (simp only: rnd_def Let_def e_def [symmetric] round_half_even_int) simp
  then show ?thesis
    by (simp add: sgn_mult_abs less_imp_neq [OF pow2_pos, symmetric])
qed simp

lemma rnd_nonneg: "0 \<le> x \<Longrightarrow> 0 \<le> rnd p x"
proof -
  assume x: "0 \<le> x"
  have "0 \<le> round_half_even y" if "0 \<le> y" for y
    using that by (auto simp: round_half_even_def Let_def)
  with x show ?thesis by (simp add: rnd_def Let_def less_imp_le)
qed

lemma isqrt_correct:
  "0 \<le> n \<Longrightarrow> 0 \<le> isqrt n \<and> isqrt n * isqrt n \<le> n \<and> n < (isqrt n + 1) * (isqrt n + 1)"
proof (induction n rule: isqrt.induct)
  case (1 n)
  show ?case
  proof (cases "n = 0")
    case False
    with 1 have pos: "\<not> n \<le> 0" by simp
    let ?s = "isqrt (n div 4)"
    have IH: "0 \<le> ?s" "?s * ?s \<le> n div 4" "n div 4 < (?s + 1) * (?s + 1)"
      using "1.IH" [OF pos] pos by auto
    moreover have "4 * (n div 4) \<le> n" "n < 4 * (n div 4) + 4" by auto
    ultimately have "(2 * ?s) * (2 * ?s) \<le> n" "n < (2 * ?s + 2) * (2 * ?s + 2)"
      by (simp_all add: algebra_simps)
    then show ?thesis using IH(1) pos
      by (auto simp: isqrt.simps [of n] Let_def algebra_simps)
  qed (simp add: isqrt.simps)
qed

lemma sqrt_nearest_nonneg: "0 \<le> sqrt_nearest y"
  using isqrt_correct [of "\<lfloor>y\<rfloor>"]
  by (cases "0 \<le> \<lfloor>y\<rfloor>") (auto simp: sqrt_nearest_def Let_def isqrt.simps [of "\<lfloor>y\<rfloor>"])

lemma sqrt64_nonneg: "0 \<le> sqrt64 x"
  by (simp add: sqrt64_def Let_def sqrt_nearest_nonneg less_imp_le)

lemma sqrt_nearest_correct:
  assumes "1 \<le> y"
  shows "(of_int (sqrt_nearest y) - 1 / 2)\<^sup>2 \<le> y \<and> y \<le> (of_int (sqrt_nearest y) + 1 / 2)\<^sup>2"
proof -
  define s where "s = isqrt \<lfloor>y\<rfloor>"
  have "0 \<le> s" "s * s \<le> \<lfloor>y\<rfloor>" "\<lfloor>y\<rfloor> < (s + 1) * (s + 1)"
    using isqrt_correct [of "\<lfloor>y\<rfloor>"] assms by (auto simp: s_def)
  then have "of_int s * of_int s \<le> y" "y < (of_int s + 1) * (of_int s + 1)" "0 \<le> s"
    by (simp_all add: le_floor_iff floor_less_iff)
  moreover from this have "s \<noteq> 0" using assms by auto
  moreover define t :: rat where "t = of_int s"
  ultimately have "t * t \<le> y" "y < (t + 1) * (t + 1)" "1 \<le> t" by auto
  moreover have "of_int (sqrt_nearest y) = (if y < (t + 1 / 2) * (t + 1 / 2) then t
      else if (t + 1 / 2) * (t + 1 / 2) < y then t + 1 else if even s then t else t + 1)"
    by (simp add: sqrt_nearest_def Let_def s_def [symmetric] t_def)
  ultimately show ?thesis
    by (simp add: power2_eq_square algebra_simps split: if_split)
qed

text \<open>The computed root lies within half a unit in the last place of the exact one.\<close>

lemma sqrt64_correct:
  assumes "0 < x"
  defines "u \<equiv> pow2 (floor_log2 x div 2 - 52)"
  shows "(sqrt64 x - u / 2)\<^sup>2 \<le> x \<and> x \<le> (sqrt64 x + u / 2)\<^sup>2"
proof -
  define y where "y = x / (u * u)"
  have u: "0 < u" by (simp add: u_def)
  have "u * u \<le> pow2 (floor_log2 x)"
    unfolding u_def pow2_add [symmetric] by (intro pow2_mono) simp
  also have "\<dots> \<le> x"
    using floor_log2_bounds [OF assms(1)] by simp
  finally have y: "1 \<le> y" and x: "x = y * (u * u)"
    using u by (simp_all add: y_def)
  have "sqrt64 x = of_int (sqrt_nearest y) * u"
    using assms(1) by (simp add: sqrt64_def Let_def y_def u_def)
  moreover have "(of_int (sqrt_nearest y) - 1 / 2)\<^sup>2 * (u * u) \<le> x"
    and "x \<le> (of_int (sqrt_nearest y) + 1 / 2)\<^sup>2 * (u * u)"
    unfolding x using u sqrt_nearest_correct [OF y] by (auto intro: mult_right_mono)
  ultimately show ?thesis
    by (simp add: power2_eq_square algebra_simps)
qed

end
