(* ===== verification/Statistics.thy ===== *)
theory Statistics
  imports RustFloat
begin

text \<open>
  Mean, standard deviation and median absolute deviation (\<^verbatim>\<open>lib/src/statistics.rs\<close>), with the
  roundings of \<^verbatim>\<open>f64\<close> and the wrapping \<^verbatim>\<open>u64\<close> sums of the source.
\<close>

section \<open>Definitions\<close>

definition u64_as_f64 :: "u64 \<Rightarrow> fl" where
  "u64_as_f64 v = rnd64 (of_int (uint v))"

definition usize_as_f64 :: "nat \<Rightarrow> fl" where
  "usize_as_f64 n = rnd64 (of_int (int n))"

definition mean :: "u64 list \<Rightarrow> fl option" where
  "mean data =
     (if data = [] then None
      else Some (rnd64 (u64_as_f64 (sum_list data) / usize_as_f64 (length data))))"

definition f64_sum :: "fl list \<Rightarrow> fl" where
  "f64_sum xs = fold (\<lambda>x acc. rnd64 (acc + x)) xs 0"

definition std_deviation :: "u64 list \<Rightarrow> fl option" where
  "std_deviation data =
     (case mean data of
        None \<Rightarrow> None
      | Some data_mean \<Rightarrow>
          let squares = map (\<lambda>v. let diff = rnd64 (data_mean - u64_as_f64 v) in rnd64 (diff * diff)) data;
              variance = rnd64 (f64_sum squares / usize_as_f64 (length data))
          in Some (sqrt64 variance))"

definition median_absolute_deviation :: "u64 list \<Rightarrow> (fl \<times> fl) option" where
  "median_absolute_deviation data =
     (if data = [] then None
      else let n = length data;
               median_data =
                 (if n mod 2 = 1 then u64_as_f64 (data ! (n div 2))
                  else rnd64 (1 / 2 * u64_as_f64 (data ! (n div 2 - 1) + data ! (n div 2))));
               absolute_deviations = sort (map (\<lambda>v. \<bar>rnd64 (u64_as_f64 v - median_data)\<bar>) data);
               l = length absolute_deviations;
               mad =
                 (if l mod 2 = 1 then absolute_deviations ! (l div 2)
                  else rnd64 (1 / 2 * rnd64 (absolute_deviations ! (l div 2 - 1) + absolute_deviations ! (l div 2))))
           in Some (median_data, mad))"

section \<open>Lemmas\<close>

lemma mean_None [simp]: "mean data = None \<longleftrightarrow> data = []"
  by (simp add: mean_def)

lemma std_deviation_None [simp]: "std_deviation data = None \<longleftrightarrow> data = []"
  by (simp add: std_deviation_def Let_def split: option.split) (simp add: mean_def)

lemma mad_None [simp]: "median_absolute_deviation data = None \<longleftrightarrow> data = []"
  by (simp add: median_absolute_deviation_def Let_def)

lemma u64_as_f64_nonneg: "0 \<le> u64_as_f64 v"
  unfolding u64_as_f64_def by (rule rnd_nonneg) (simp only: of_int_0_le_iff uint_ge_0)

lemma u64_as_f64_exact: "unat v < 2 ^ 53 \<Longrightarrow> u64_as_f64 v = of_nat (unat v)"
proof -
  assume v: "unat v < 2 ^ 53"
  have "rnd64 (of_int (int (unat v))) = of_int (int (unat v))"
  proof (rule rnd_exact)
    have "int (unat v) < int (2 ^ 53)" using v by (simp only: of_nat_less_iff)
    then show "\<bar>int (unat v)\<bar> < 2 ^ 53" by (simp only: abs_of_nat) simp
  qed
  then show ?thesis by (simp add: u64_as_f64_def)
qed

lemma usize_as_f64_exact: "n < 2 ^ 53 \<Longrightarrow> usize_as_f64 n = of_nat n"
  using rnd_exact [of "int n" 53] by (simp add: usize_as_f64_def)

lemma unat_sum_list:
  fixes data :: "u64 list"
  shows "sum_list (map unat data) < 2 ^ 64 \<Longrightarrow> unat (sum_list data) = sum_list (map unat data)"
  by (induction data) (auto simp: unat_word_ariths)

text \<open>Each statistic exists exactly for non-empty data; as long as the sum of the data stays below
  \<open>2\<^sup>5\<^sup>3\<close>, the computed mean is the exact mean with one correctly rounded division, so its relative error
  is at most \<open>2\<^sup>-\<^sup>5\<^sup>3\<close>, and the standard deviation is not negative.\<close>

theorem statistics_defined:
  assumes "data \<noteq> []" "sum_list (map unat data) < 2 ^ 53" "length data < 2 ^ 53"
  shows "\<exists>m s md mad. mean data = Some m \<and> std_deviation data = Some s \<and>
      median_absolute_deviation data = Some (md, mad) \<and>
      \<bar>m - of_nat (sum_list (map unat data)) / of_nat (length data)\<bar>
        \<le> of_nat (sum_list (map unat data)) / of_nat (length data) / 2 ^ 53 \<and> 0 \<le> s"
proof -
  have s: "unat (sum_list data) = sum_list (map unat data)"
    using assms(2) by (intro unat_sum_list) simp
  have "mean data = Some (rnd64 (of_nat (sum_list (map unat data)) / of_nat (length data)))"
    using assms s u64_as_f64_exact [of "sum_list data"] by (simp add: mean_def usize_as_f64_exact)
  moreover obtain sd where "std_deviation data = Some sd" "0 \<le> sd"
    using assms(1) by (cases "mean data") (simp_all add: std_deviation_def Let_def sqrt64_nonneg)
  moreover obtain md mad where "median_absolute_deviation data = Some (md, mad)"
    using assms(1) mad_None [of data] by (metis not_None_eq surj_pair)
  ultimately show ?thesis
    using rnd_error [of 53 "of_nat (sum_list (map unat data)) / of_nat (length data)"] by auto
qed

theorem statistics_defined_witness:
  "\<exists>m s md mad. mean [1, 2, 3, 6] = Some m \<and> std_deviation [1, 2, 3, 6] = Some s \<and>
      median_absolute_deviation [1, 2, 3, 6] = Some (md, mad) \<and> \<bar>m - 3\<bar> \<le> 3 / 2 ^ 53 \<and> 0 \<le> s"
  using statistics_defined [of "[1, 2, 3, 6]"] by simp

end
