(* ===== verification/Packing.thy ===== *)
theory Packing
  imports Statistics Oci
begin

text \<open>
  The assignment of components to bins, i.e. to image layers: \<^verbatim>\<open>get_partitions_with_threshold\<close>,
  \<^verbatim>\<open>basic_packing_with_prior_build\<close> and \<^verbatim>\<open>basic_packing\<close> of \<^verbatim>\<open>lib/src/chunking.rs\<close>, and the component
  metadata of \<^verbatim>\<open>lib/src/objectsource.rs\<close>.  \<open>usize\<close> subtractions wrap at 64 bits as in a release
  build.  The lemmas show that a packing is a rearrangement of the components into at most the
  requested number of bins, that the merge loop ends, and when the code panics.
\<close>

section \<open>Definitions\<close>

record object_source_meta =
  osm_identifier :: rstr
  osm_name :: rstr
  osm_srcid :: rstr
  osm_change_time_offset :: u32
  osm_change_frequency :: u32

record object_source_meta_sized =
  oms_meta :: object_source_meta
  oms_size :: u64

type_synonym bin = "object_source_meta_sized list"

definition MAX_CHUNKS :: nat where
  "MAX_CHUNKS = 64"

definition MIN_CHUNKED_LAYERS :: nat where
  "MIN_CHUNKED_LAYERS = 4"

definition CONTENT_ANNOTATION :: rstr where
  "CONTENT_ANNOTATION = str ''ostree.components''"

definition COMPONENT_SEPARATOR :: rchar where
  "COMPONENT_SEPARATOR = 44"

definition LOW_PARTITION :: rstr where
  "LOW_PARTITION = str ''2ls''"

definition HIGH_PARTITION :: rstr where
  "HIGH_PARTITION = str ''1hs''"

subsection \<open>Vectors and entry API of the standard library\<close>

definition vec_get :: "nat \<Rightarrow> 'a list \<Rightarrow> 'a result" where
  "vec_get i xs = (if i < length xs then Inr (xs ! i) else Inl (Panic ''index out of bounds''))"

definition vec_remove :: "nat \<Rightarrow> 'a list \<Rightarrow> 'a list result" where
  "vec_remove i xs =
     (if i < length xs then Inr (take i xs @ drop (Suc i) xs) else Inl (Panic ''removal index''))"

definition vec_insert :: "nat \<Rightarrow> 'a \<Rightarrow> 'a list \<Rightarrow> 'a list result" where
  "vec_insert i x xs =
     (if i \<le> length xs then Inr (take i xs @ x # drop i xs) else Inl (Panic ''insertion index''))"

text \<open>\<^verbatim>\<open>entry(k).and_modify(|b| b.push(x)).or_insert_with(|| vec![x])\<close>.\<close>

definition kv_push :: "'k::linorder \<Rightarrow> 'a \<Rightarrow> ('k, 'a list) kvmap \<Rightarrow> ('k, 'a list) kvmap" where
  "kv_push k x m = kv_insert k (case kv_lookup m k of None \<Rightarrow> [x] | Some b \<Rightarrow> b @ [x]) m"

definition usize_sub :: "int \<Rightarrow> int \<Rightarrow> int" where
  "usize_sub a b = (a - b) mod 2 ^ 64"

text \<open>The indices of \<^verbatim>\<open>(lo..hi).step_by(2)\<close>.\<close>

definition step_by_2 :: "nat \<Rightarrow> nat \<Rightarrow> nat list" where
  "step_by_2 lo hi = map (\<lambda>k. lo + 2 * k) [0..<(hi - lo + 1) div 2]"

subsection \<open>Partitions by size and change frequency\<close>

type_synonym partitions = "(rstr, bin) kvmap"

text \<open>The limits \<open>0.5 * |c - t * d|\<close> and \<open>c + t * d\<close> of a distribution.\<close>

definition low_limit :: "fl \<Rightarrow> fl \<Rightarrow> fl \<Rightarrow> fl" where
  "low_limit threshold centre dev = rnd64 (1 / 2 * \<bar>rnd64 (centre - rnd64 (threshold * dev))\<bar>)"

definition high_limit :: "fl \<Rightarrow> fl \<Rightarrow> fl \<Rightarrow> fl" where
  "high_limit threshold centre dev = rnd64 (centre + rnd64 (threshold * dev))"

text \<open>One iteration of the first loop; the state is \<open>(partitions, med_size, high_size)\<close>.\<close>

definition split_by_size ::
  "fl \<Rightarrow> fl \<Rightarrow> object_source_meta_sized \<Rightarrow> partitions \<times> bin \<times> bin \<Rightarrow> partitions \<times> bin \<times> bin" where
  "split_by_size size_low_limit size_high_limit pkg = (\<lambda>(partitions, med_size, high_size).
     let size = u64_as_f64 (oms_size pkg)
     in if size_high_limit \<le> size then (partitions, med_size, high_size @ [pkg])
        else if size \<le> size_low_limit then (kv_push LOW_PARTITION pkg partitions, med_size, high_size)
        else (partitions, med_size @ [pkg], high_size))"

definition change_frequency :: "object_source_meta_sized \<Rightarrow> u32" where
  "change_frequency pkg = osm_change_frequency (oms_meta pkg)"

definition freq_u64 :: "object_source_meta_sized \<Rightarrow> u64" where
  "freq_u64 pkg = ucast (change_frequency pkg)"

definition bucket_name :: "fl \<Rightarrow> fl \<Rightarrow> fl \<Rightarrow> fl \<Rightarrow> object_source_meta_sized \<Rightarrow> rstr" where
  "bucket_name med_size_low med_size_high med_freq_low med_freq_high pkg =
     (let size = u64_as_f64 (oms_size pkg);
          freq = u64_as_f64 (freq_u64 pkg);
          size_name = (if med_size_high \<le> size then str ''hs''
                       else if size \<le> med_size_low then str ''ls'' else str ''ms'');
          freq_name = (if med_freq_high \<le> freq then str ''3hf''
                       else if freq \<le> med_freq_low then str ''5lf'' else str ''4mf'')
      in freq_name @ str ''_'' @ size_name)"

definition get_partitions_with_threshold ::
  "bin \<Rightarrow> nat \<Rightarrow> fl \<Rightarrow> partitions option" where
  "get_partitions_with_threshold components limit_hs_bins threshold =
     Option.bind (median_absolute_deviation (map oms_size components)) (\<lambda>(median_size, mad_size).
     let size_low_limit = low_limit threshold median_size mad_size;
         size_high_limit = high_limit threshold median_size mad_size;
         (partitions, med_size, high_size) =
           fold (split_by_size size_low_limit size_high_limit) components ([], [], []);
         extra = drop limit_hs_bins high_size;
         high_size = take limit_hs_bins high_size;
         partitions = kv_insert HIGH_PARTITION high_size partitions;
         remaining_pkgs = sort_key change_frequency (extra @ med_size);
         med_sizes = map oms_size remaining_pkgs;
         med_frequencies = map freq_u64 remaining_pkgs
     in Option.bind (mean med_frequencies) (\<lambda>med_mean_freq.
        Option.bind (std_deviation med_frequencies) (\<lambda>med_stddev_freq.
        Option.bind (mean med_sizes) (\<lambda>med_mean_size.
        Option.bind (std_deviation med_sizes) (\<lambda>med_stddev_size.
        let bucket = bucket_name (low_limit threshold med_mean_size med_stddev_size)
                                 (high_limit threshold med_mean_size med_stddev_size)
                                 (low_limit threshold med_mean_freq med_stddev_freq)
                                 (high_limit threshold med_mean_freq med_stddev_freq)
        in Some (fold (\<lambda>pkg. kv_push (bucket pkg) pkg) remaining_pkgs partitions))))))"

subsection \<open>Packing from a prior build\<close>

definition btree_set :: "'a::linorder list \<Rightarrow> 'a list" where
  "btree_set xs = sort (remdups xs)"

definition layer_components :: "descriptor \<Rightarrow> rstr list result" where
  "layer_components layer =
     and_then (ok_or (Err ''Missing ostree.components on prior build'')
                 (Option.bind (d_annotations layer) (\<lambda>annos. kv_lookup annos CONTENT_ANNOTATION)))
       (\<lambda>a. Inr (split_char COMPONENT_SEPARATOR a))"

text \<open>The map from a name to its first component (\<^verbatim>\<open>entry(..).or_insert\<close>).\<close>

fun name_to_component :: "bin \<Rightarrow> rstr \<Rightarrow> object_source_meta_sized option" where
  "name_to_component [] n = None"
| "name_to_component (c # cs) n = (if osm_name (oms_meta c) = n then Some c else name_to_component cs n)"

definition basic_packing_with_prior_build ::
  "bin \<Rightarrow> nat \<Rightarrow> image_manifest \<Rightarrow> bin list result" where
  "basic_packing_with_prior_build components bin_size prior_build =
     and_then (try_map layer_components (drop 1 (m_layers prior_build))) (\<lambda>curr_build.
     let prev_pkgs_set = btree_set (filter (\<lambda>name. name \<noteq> []) (concat curr_build));
         curr_pkgs_set = btree_set (map (\<lambda>pkg. osm_name (oms_meta pkg)) components)
     in if curr_build = [] then Inl (Panic ''No empty last bin for added packages'')
        else
          let added = filter (\<lambda>n. n \<notin> set prev_pkgs_set) curr_pkgs_set;
              last_bin = filter (\<lambda>name. name \<noteq> []) (last curr_build) @ added;
              curr_build = butlast curr_build @ [last_bin];
              removed = filter (\<lambda>n. n \<notin> set curr_pkgs_set) prev_pkgs_set;
              curr_build = map (filter (\<lambda>pkg. pkg \<notin> set removed)) curr_build
          in and_then
               (try_map (\<lambda>bin. try_map
                   (\<lambda>pkg. ok_or (Panic ''no entry found for key'') (name_to_component components pkg))
                   (filter (\<lambda>pkg. pkg \<noteq> []) bin)) curr_build) (\<lambda>modified_build.
             and_then (ensure (sum_list (map length modified_build) = length components)
                         (Panic ''after_processing_pkgs_len'')) (\<lambda>_.
             and_then (ensure (length modified_build \<le> bin_size) (Panic ''modified_build.len()''))
             (\<lambda>_. Inr modified_build))))"

subsection \<open>A new packing\<close>

definition HIGH_SIZE_CUTOFF :: fl where
  "HIGH_SIZE_CUTOFF = rnd32 (6 / 10)"

definition limit_hs :: "nat \<Rightarrow> nat" where
  "limit_hs n = nat \<lfloor>rnd32 (HIGH_SIZE_CUTOFF * rnd32 (of_int (int n)))\<rfloor>"

text \<open>The loop over one medium partition: the current bin and the bins pushed so far.\<close>

fun ms_bins :: "int \<Rightarrow> bin \<Rightarrow> bin \<Rightarrow> bin list \<Rightarrow> bin list" where
  "ms_bins pkg_per_bin_ms [] bin r = r"
| "ms_bins pkg_per_bin_ms (pkg # pkgs) bin r =
     (let (r, bin) = (if int (length bin) < pkg_per_bin_ms then (r, bin @ [pkg]) else (r @ [bin], [pkg]))
      in if pkgs = [] \<and> bin \<noteq> [] then ms_bins pkg_per_bin_ms pkgs [] (r @ [bin])
         else ms_bins pkg_per_bin_ms pkgs bin r)"

definition assign_partition :: "int \<Rightarrow> rstr \<times> bin \<Rightarrow> bin list \<Rightarrow> bin list" where
  "assign_partition pkg_per_bin_ms = (\<lambda>(partition, pkgs) r.
     if partition = HIGH_PARTITION then r @ map (\<lambda>pkg. [pkg]) pkgs
     else if partition = LOW_PARTITION then r @ [pkgs]
     else ms_bins pkg_per_bin_ms pkgs [] r)"

definition merge_at :: "nat \<Rightarrow> bin list \<Rightarrow> bin list result" where
  "merge_at i r =
     and_then (vec_get (i - 1) r) (\<lambda>prev.
     and_then (vec_get i r) (\<lambda>curr.
     and_then (vec_remove i r) (\<lambda>r.
     and_then (vec_remove (i - 1) r) (\<lambda>r.
     vec_insert i (prev @ curr) r))))"

fun merge_pass :: "nat \<Rightarrow> nat list \<Rightarrow> bin list \<Rightarrow> bin list result" where
  "merge_pass limit [] r = Inr r"
| "merge_pass limit (i # is) r =
     (if length r \<le> limit then Inr r else and_then (merge_at i r) (merge_pass limit is))"

text \<open>The \<^verbatim>\<open>while\<close> loop.  Each pass removes at least one bin, so that the number of bins is enough
  fuel; running out of it stands for a loop that does not end.\<close>

fun merge_loop :: "nat \<Rightarrow> nat \<Rightarrow> nat \<Rightarrow> bin list \<Rightarrow> bin list result" where
  "merge_loop 0 lo limit r = Inl (Panic ''merge loop does not end'')"
| "merge_loop (Suc fuel) lo limit r =
     (if length r \<le> limit then Inr r
      else and_then (merge_pass limit (rev (step_by_2 lo (length r - 1))) r) (merge_loop fuel lo limit))"

text \<open>The part of \<^verbatim>\<open>basic_packing\<close> for the components that are not of maximal frequency.\<close>

definition pack_partitions :: "bin \<Rightarrow> nat \<Rightarrow> nat \<Rightarrow> bin list result" where
  "pack_partitions components bin_size limit_max_frequency_bins =
     (let limit_ls_bins = 1;
          limit_new_bins = 1;
          low_and_other_bin_limit = limit_ls_bins + limit_new_bins + limit_max_frequency_bins;
          limit_hs_bins = limit_hs (bin_size - low_and_other_bin_limit);
          limit_ms_bins = bin_size - (limit_hs_bins + low_and_other_bin_limit)
      in and_then (ok_or (Panic ''Partitioning components into sets'')
                     (get_partitions_with_threshold components limit_hs_bins 2)) (\<lambda>partitions.
         let low_sized_component_count =
               (case kv_lookup partitions LOW_PARTITION of None \<Rightarrow> 0 | Some p \<Rightarrow> length p)
         in and_then (if limit_ms_bins = 0 then Inl (Err ''number of bins should be >= 4'')
                      else Inr (usize_sub (usize_sub (int (length components)) (int limit_hs_bins))
                                  (int low_sized_component_count) div int limit_ms_bins)) (\<lambda>pkg_per_bin_ms.
            let r = fold (assign_partition pkg_per_bin_ms) partitions []
            in merge_loop (Suc (length r)) (limit_ls_bins + limit_hs_bins)
                 (bin_size - limit_new_bins - limit_max_frequency_bins) r)))"

definition basic_packing :: "bin \<Rightarrow> nat \<Rightarrow> image_manifest option \<Rightarrow> bin list result" where
  "basic_packing components bin_size prior_build_metadata =
     and_then (ensure (MIN_CHUNKED_LAYERS \<le> bin_size) (Err ''bin_size.get() >= MIN_CHUNKED_LAYERS'')) (\<lambda>_.
     case prior_build_metadata of
       Some prior_build \<Rightarrow> basic_packing_with_prior_build components bin_size prior_build
     | None \<Rightarrow>
         if length components < bin_size then
           Inr (map (\<lambda>pkg. [pkg]) components @ (if components \<noteq> [] then [[]] else []))
         else
           let max_freq_components = filter (\<lambda>pkg. change_frequency pkg = - 1) components;
               others = filter (\<lambda>pkg. change_frequency pkg \<noteq> - 1) components
           in and_then
                (if others \<noteq> []
                 then pack_partitions others bin_size (min (length max_freq_components) 1)
                 else Inr []) (\<lambda>r.
              let r = r @ (if max_freq_components \<noteq> [] then [max_freq_components] else []) @ [[]]
              in and_then (ensure (sum_list (map length r) = length components)
                             (Panic ''after_processing_pkgs_len'')) (\<lambda>_.
                 and_then (ensure (length r \<le> bin_size) (Panic ''r.len()'')) (\<lambda>_.
                 Inr r))))"

section \<open>Lemmas\<close>

subsection \<open>Partitions\<close>

definition bins_mset :: "'a list list \<Rightarrow> 'a multiset" where
  "bins_mset r = mset (concat r)"

lemma bins_mset_simps [simp]:
  "bins_mset [] = {#}"
  "bins_mset (b # r) = mset b + bins_mset r"
  "bins_mset (r @ r') = bins_mset r + bins_mset r'"
  by (simp_all add: bins_mset_def)

lemma bins_mset_singletons [simp]: "bins_mset (map (\<lambda>x. [x]) xs) = mset xs"
  by (induction xs) auto

lemma kv_insert_mset:
  assumes "kv_wf m"
  shows "bins_mset (map snd (kv_insert k v m)) + (case kv_lookup m k of None \<Rightarrow> {#} | Some b \<Rightarrow> mset b) =
    mset v + bins_mset (map snd m)"
  using assms
proof (induction k v m rule: kv_insert.induct)
  case (2 k v a b m)
  then have wf: "kv_wf m" "\<forall>x \<in> fst ` set m. a < x" by (auto simp: kv_wf_def)
  have "kv_lookup m k = None" if "k \<le> a"
    using wf(2) that by (force simp: kv_lookup_None)
  with 2 wf show ?case
    by (auto simp: kv_lookup_def add_ac split: if_splits option.splits)
qed simp

lemma kv_push_mset: "kv_wf m \<Longrightarrow> bins_mset (map snd (kv_push k x m)) = add_mset x (bins_mset (map snd m))"
  using kv_insert_mset [of m k "case kv_lookup m k of None \<Rightarrow> [x] | Some b \<Rightarrow> b @ [x]"]
  by (auto simp: kv_push_def split: option.splits)

lemma kv_push_wf: "kv_wf m \<Longrightarrow> kv_wf (kv_push k x m)"
  by (simp add: kv_push_def kv_wf_insert)

lemma kv_push_dom: "fst ` set (kv_push k x m) = insert k (fst ` set m)"
  using set_fst_kv_insert [of k _ m] by (simp add: kv_push_def)

lemma fold_kv_push:
  "kv_wf m \<Longrightarrow> kv_wf (fold (\<lambda>x. kv_push (f x) x) xs m) \<and>
    bins_mset (map snd (fold (\<lambda>x. kv_push (f x) x) xs m)) = mset xs + bins_mset (map snd m)"
  by (induction xs arbitrary: m) (simp_all add: kv_push_wf kv_push_mset)

lemma fold_split_by_size:
  assumes "fold (split_by_size l h) cs (p, med, high) = (p', med', high')"
    and "kv_wf p" "fst ` set p \<subseteq> {LOW_PARTITION}"
  shows "kv_wf p' \<and> fst ` set p' \<subseteq> {LOW_PARTITION} \<and>
    bins_mset (map snd p') + mset med' + mset high' = mset cs + (bins_mset (map snd p) + mset med + mset high)"
  using assms
proof (induction cs arbitrary: p med high)
  case (Cons c cs)
  obtain q md hg where step: "split_by_size l h c (p, med, high) = (q, md, hg)"
    by (metis prod_cases3)
  moreover have "fst ` set (kv_push LOW_PARTITION c p) \<subseteq> {LOW_PARTITION}"
    using Cons.prems(3) by (simp add: kv_push_dom)
  ultimately have "kv_wf q \<and> fst ` set q \<subseteq> {LOW_PARTITION} \<and>
      bins_mset (map snd q) + mset md + mset hg = add_mset c (bins_mset (map snd p) + mset med + mset high)"
    using Cons.prems(2,3)
    by (auto simp: split_by_size_def Let_def kv_push_wf kv_push_mset split: if_splits)
  with Cons.IH [of q md hg] Cons.prems(1) step show ?case by auto
qed simp

lemma LOW_HIGH_distinct [simp]: "LOW_PARTITION \<noteq> HIGH_PARTITION" "HIGH_PARTITION \<noteq> LOW_PARTITION"
  by (simp_all add: LOW_PARTITION_def HIGH_PARTITION_def)

text \<open>The partitions hold exactly the components.\<close>

lemma get_partitions_mset:
  assumes "get_partitions_with_threshold cs n t = Some ps"
  shows "bins_mset (map snd ps) = mset cs"
proof -
  obtain md mad where mad: "median_absolute_deviation (map oms_size cs) = Some (md, mad)"
    using assms by (auto simp: get_partitions_with_threshold_def bind_eq_Some_conv)
  obtain p med high where f: "fold (split_by_size (low_limit t md mad) (high_limit t md mad)) cs ([], [], []) = (p, med, high)"
    by (metis prod_cases3)
  note sp = fold_split_by_size [OF f]
  let ?rem = "sort_key change_frequency (drop n high @ med)"
  let ?p = "kv_insert HIGH_PARTITION (take n high) p"
  obtain b where ps: "ps = fold (\<lambda>x. kv_push (b x) x) ?rem ?p"
    using assms by (auto simp: get_partitions_with_threshold_def mad f Let_def bind_eq_Some_conv)
  have "kv_lookup p HIGH_PARTITION = None"
    using sp by (auto simp: kv_lookup_None)
  then have "bins_mset (map snd ?p) = mset (take n high) + bins_mset (map snd p)"
    using kv_insert_mset [of p HIGH_PARTITION "take n high"] sp by simp
  moreover have high: "mset high = mset (take n high) + mset (drop n high)"
    by (metis append_take_drop_id mset_append)
  ultimately show ?thesis
    using fold_kv_push [of ?p b ?rem] sp unfolding high by (simp add: ps kv_wf_insert add_ac)
qed

lemma ms_bins_concat:
  "pkgs \<noteq> [] \<or> bin = [] \<Longrightarrow> bins_mset (ms_bins n pkgs bin r) = bins_mset r + mset bin + mset pkgs"
proof (induction n pkgs bin r rule: ms_bins.induct)
  case (2 n pkg pkgs bin r)
  show ?case
    using "2.IH" by (cases "pkgs = []"; cases "int (length bin) < n") (simp_all add: Let_def)
qed simp

lemma assign_partition_mset:
  "bins_mset (assign_partition n p r) = bins_mset r + mset (snd p)"
  by (cases p) (simp add: assign_partition_def ms_bins_concat)

lemma fold_assign_partition:
  "bins_mset (fold (assign_partition n) ps r) = bins_mset r + bins_mset (map snd ps)"
  by (induction ps arbitrary: r) (simp_all add: assign_partition_mset)

subsection \<open>Merging\<close>

lemma merge_at_ok:
  assumes "1 \<le> i" "i + 2 \<le> length r"
  shows "\<exists>r'. merge_at i r = Inr r' \<and> length r' = length r - 1 \<and> bins_mset r' = bins_mset r"
proof -
  obtain k where k: "i = Suc k" using assms(1) by (cases i) auto
  define a where "a = take k r"
  obtain x y c where "drop k r = x # y # c"
    using assms k by (metis Suc_eq_plus1 Suc_leD add_2_eq_Suc' add_Suc Cons_nth_drop_Suc Suc_le_eq)
  then have r: "r = a @ x # y # c" by (metis a_def append_take_drop_id)
  have a: "length a = k" using assms k by (simp add: a_def)
  then have "c \<noteq> []" using assms k r by auto
  then show ?thesis
    using a by (auto simp: merge_at_def vec_get_def vec_remove_def vec_insert_def r k nth_append
        take_Cons' drop_Cons' add_ac neq_Nil_conv)
qed

definition merge_indices :: "nat list \<Rightarrow> nat \<Rightarrow> bool" where
  "merge_indices is n \<longleftrightarrow> sorted_wrt (\<lambda>a b. b + 2 \<le> a) is \<and> (\<forall>i \<in> set is. 1 \<le> i \<and> i + 2 \<le> n)"

lemma merge_pass_ok:
  assumes "merge_indices is (length r)"
  shows "\<exists>r'. merge_pass limit is r = Inr r' \<and> bins_mset r' = bins_mset r \<and> length r' \<le> length r \<and>
    (is \<noteq> [] \<and> limit < length r \<longrightarrow> length r' < length r)"
  using assms
proof (induction "is" arbitrary: r)
  case (Cons i "is")
  show ?case
  proof (cases "length r \<le> limit")
    case False
    obtain q where q: "merge_at i r = Inr q" "length q = length r - 1" "bins_mset q = bins_mset r"
      using merge_at_ok [of i r] Cons.prems by (auto simp: merge_indices_def)
    have "merge_indices is (length q)"
      using Cons.prems q(2) by (fastforce simp: merge_indices_def)
    from Cons.IH [OF this] obtain r' where
      "merge_pass limit is q = Inr r'" "bins_mset r' = bins_mset q" "length r' \<le> length q"
      by auto
    moreover have "0 < length r" using Cons.prems by (auto simp: merge_indices_def)
    ultimately show ?thesis using False q by auto
  qed simp
qed simp

lemma step_by_2_indices:
  assumes "1 \<le> lo"
  shows "merge_indices (rev (step_by_2 lo (n - 1))) n"
proof -
  have "sorted_wrt (\<lambda>a b. a + 2 \<le> b) (step_by_2 lo (n - 1))"
    by (auto simp: step_by_2_def sorted_wrt_map intro!: sorted_wrt_mono_rel [OF _ sorted_wrt_upt])
  then show ?thesis
    using assms by (auto simp: merge_indices_def step_by_2_def sorted_wrt_rev)
qed

lemma step_by_2_nonempty: "lo < hi \<Longrightarrow> step_by_2 lo hi \<noteq> []"
  by (simp add: step_by_2_def)

lemma merge_loop_ok:
  assumes "1 \<le> lo" "lo < limit" "length r < fuel"
  shows "\<exists>r'. merge_loop fuel lo limit r = Inr r' \<and> bins_mset r' = bins_mset r \<and> length r' \<le> limit"
  using assms(3)
proof (induction fuel arbitrary: r)
  case (Suc fuel)
  show ?case
  proof (cases "length r \<le> limit")
    case False
    let ?is = "rev (step_by_2 lo (length r - 1))"
    have "?is \<noteq> []" using assms(2) False by (simp add: step_by_2_nonempty)
    with merge_pass_ok [of ?is r limit] step_by_2_indices [OF assms(1), of "length r"] False
    obtain q where q: "merge_pass limit ?is r = Inr q" "bins_mset q = bins_mset r" "length q < length r"
      by auto
    with Suc.IH [of q] Suc.prems show ?thesis using False by auto
  qed simp
qed simp

subsection \<open>The bin limits\<close>

lemma rnd_upper: "0 < p \<Longrightarrow> 0 \<le> x \<Longrightarrow> rnd p x \<le> x * (1 + 1 / 2 ^ p)"
  using rnd_error [of p x] by (simp add: algebra_simps)

lemma limit_hs_less:
  assumes "0 < n"
  shows "limit_hs n < n"
proof -
  let ?e = "1 + 1 / 2 ^ 24 :: rat" and ?n = "rat_of_nat n"
  have n: "0 \<le> rnd32 ?n" "rnd32 ?n \<le> ?n * ?e"
    by (rule rnd_nonneg, simp) (rule rnd_upper; simp)
  have c: "0 \<le> HIGH_SIZE_CUTOFF" "HIGH_SIZE_CUTOFF \<le> 6 / 10 * ?e"
    unfolding HIGH_SIZE_CUTOFF_def by (rule rnd_nonneg, simp) (rule rnd_upper; simp)
  have "HIGH_SIZE_CUTOFF * rnd32 ?n \<le> (6 / 10 * ?e) * (?n * ?e)"
    using n c by (intro mult_mono) auto
  moreover have "rnd32 (HIGH_SIZE_CUTOFF * rnd32 ?n) \<le> HIGH_SIZE_CUTOFF * rnd32 ?n * ?e"
    using n c by (intro rnd_upper) auto
  ultimately have "rnd32 (HIGH_SIZE_CUTOFF * rnd32 ?n) \<le> (6 / 10 * ?e * ?e * ?e) * ?n"
    by (simp add: field_simps)
  also have "\<dots> < 1 * ?n"
    using assms by (intro mult_strict_right_mono) simp_all
  finally have "\<lfloor>rnd32 (HIGH_SIZE_CUTOFF * rnd32 ?n)\<rfloor> < int n"
    by (simp add: floor_less_iff)
  then show ?thesis using assms by (simp add: limit_hs_def nat_less_iff)
qed

lemma pack_partitions_ok:
  assumes "MIN_CHUNKED_LAYERS \<le> n" "mf \<le> 1"
    and ps: "get_partitions_with_threshold cs (limit_hs (n - (2 + mf))) 2 = Some ps"
  shows "\<exists>r. pack_partitions cs n mf = Inr r \<and> bins_mset r = mset cs \<and> length r \<le> n - 1 - mf"
proof -
  have "limit_hs (n - (2 + mf)) < n - (2 + mf)"
    using assms(1,2) by (intro limit_hs_less) (simp add: MIN_CHUNKED_LAYERS_def)
  then have lims: "1 \<le> 1 + limit_hs (n - (2 + mf))" "1 + limit_hs (n - (2 + mf)) < n - 1 - mf"
      "n - (limit_hs (n - (2 + mf)) + (2 + mf)) \<noteq> 0"
    by linarith+
  define per where "per = usize_sub (usize_sub (int (length cs)) (int (limit_hs (n - (2 + mf)))))
      (int (case kv_lookup ps LOW_PARTITION of None \<Rightarrow> 0 | Some p \<Rightarrow> length p))
      div int (n - (limit_hs (n - (2 + mf)) + (2 + mf)))"
  let ?r = "fold (assign_partition per) ps []"
  have "pack_partitions cs n mf =
      merge_loop (Suc (length ?r)) (1 + limit_hs (n - (2 + mf))) (n - 1 - mf) ?r"
    using ps lims(3) by (simp add: pack_partitions_def Let_def per_def)
  with merge_loop_ok [OF lims(1,2), of ?r "Suc (length ?r)"] show ?thesis
    using get_partitions_mset [OF ps] by (simp add: fold_assign_partition)
qed

lemma basic_packing_new_ok:
  assumes "MIN_CHUNKED_LAYERS \<le> n"
    and "basic_packing cs n None \<noteq> Inl (Panic ''Partitioning components into sets'')"
  shows "\<exists>r. basic_packing cs n None = Inr r \<and> bins_mset r = mset cs \<and> length r \<le> n \<and>
    (cs = [] \<or> last r = [])"
proof (cases "length cs < n")
  case True
  with assms(1) show ?thesis by (auto simp: basic_packing_def)
next
  case False
  let ?mf = "filter (\<lambda>pkg. change_frequency pkg = - 1) cs"
  let ?others = "filter (\<lambda>pkg. change_frequency pkg \<noteq> - 1) cs"
  let ?k = "min (length ?mf) 1"
  have part: "mset ?others + mset ?mf = mset cs"
    by (induction cs) auto
  have "\<exists>r. (if ?others \<noteq> [] then pack_partitions ?others n ?k else Inr []) = Inr r \<and>
      bins_mset r = mset ?others \<and> length r \<le> n - 1 - ?k"
  proof (cases "?others = []")
    case ne: False
    have "get_partitions_with_threshold ?others (limit_hs (n - (2 + ?k))) 2 \<noteq> None"
    proof
      assume "get_partitions_with_threshold ?others (limit_hs (n - (2 + ?k))) 2 = None"
      then have "pack_partitions ?others n ?k = Inl (Panic ''Partitioning components into sets'')"
        by (simp add: pack_partitions_def Let_def)
      with assms False ne show False by (simp add: basic_packing_def Let_def)
    qed
    then show ?thesis
      using pack_partitions_ok [OF assms(1), of ?k ?others] ne by auto
  qed simp
  then obtain r where r: "(if ?others \<noteq> [] then pack_partitions ?others n ?k else Inr []) = Inr r"
      "bins_mset r = mset ?others" "length r \<le> n - 1 - ?k"
    by blast
  let ?r = "r @ (if ?mf \<noteq> [] then [?mf] else []) @ [[]]"
  have m: "bins_mset ?r = mset cs"
    using r(2) part by (cases "?mf = []") (simp_all del: mset_filter)
  then have "sum_list (map length ?r) = length cs"
    by (metis bins_mset_def length_concat size_mset)
  moreover have "length ?r \<le> n"
    using r(3) assms(1) by (auto simp: MIN_CHUNKED_LAYERS_def Suc_le_eq neq_Nil_conv split: if_splits)
  ultimately have "basic_packing cs n None = Inr ?r"
    using assms(1) False r(1) by (simp add: basic_packing_def Let_def)
  with m \<open>length ?r \<le> n\<close> show ?thesis by auto
qed

subsection \<open>Packing from a prior build\<close>

abbreviation pkg_name :: "object_source_meta_sized \<Rightarrow> rstr" where
  "pkg_name c \<equiv> osm_name (oms_meta c)"

lemma name_to_component_Some:
  "name_to_component cs n = Some c \<Longrightarrow> c \<in> set cs \<and> pkg_name c = n"
  by (induction cs) (auto split: if_splits)

lemma name_to_component_None: "name_to_component cs n = None \<longleftrightarrow> n \<notin> pkg_name ` set cs"
  by (induction cs) auto

lemma set_btree_set [simp]: "set (btree_set xs) = set xs"
  by (simp add: btree_set_def)

lemma distinct_btree_set [simp]: "distinct (btree_set xs)"
  by (simp add: btree_set_def)

text \<open>The names each bin holds after an update: the names of its old components that still exist, and
  in the last bin the new ones as well.\<close>

definition updated_names :: "rstr set \<Rightarrow> rstr list list \<Rightarrow> rstr list list" where
  "updated_names names build =
     map (filter (\<lambda>p. p \<in> names \<and> p \<noteq> [])) (butlast build) @
     [filter (\<lambda>p. p \<in> names \<and> p \<noteq> []) (last build) @
      sorted_list_of_set (names - set (concat build) - {[]})]"

lemma updated_names_no_additions:
  assumes "build \<noteq> []" "names \<subseteq> set (concat build)"
  shows "updated_names names build = map (filter (\<lambda>p. p \<in> names \<and> p \<noteq> [])) build"
proof -
  have none: "names - set (concat build) - {[]} = {}" using assms(2) by blast
  show ?thesis
    unfolding updated_names_def none using assms(1) by (cases build rule: rev_cases) simp_all
qed

lemma set_concat_updated_names:
  "build \<noteq> [] \<Longrightarrow> finite names \<Longrightarrow> set (concat (updated_names names build)) = names - {[]}"
proof -
  assume b: "build \<noteq> []" "finite names"
  have "concat build = concat (butlast build) @ last build"
    using b by (metis append_butlast_last_id concat.simps(1) concat_append concat.simps(2) append_Nil2)
  with b show ?thesis by (auto simp: updated_names_def)
qed

lemma distinct_concat_updated_names:
  assumes "build \<noteq> []" "finite names" "distinct (filter (\<lambda>p. p \<noteq> []) (concat build))"
  shows "distinct (concat (updated_names names build))"
proof -
  have b: "concat build = concat (butlast build) @ last build"
    using assms by (metis append_butlast_last_id concat.simps(1) concat_append concat.simps(2) append_Nil2)
  have "concat (updated_names names build) =
      filter (\<lambda>p. p \<in> names) (filter (\<lambda>p. p \<noteq> []) (concat build)) @
      sorted_list_of_set (names - set (concat build) - {[]})"
    by (simp add: b updated_names_def filter_concat comp_def conj_commute)
  with assms(2) distinct_filter [OF assms(3), of "\<lambda>p. p \<in> names"] show ?thesis
    by (auto simp del: filter_filter)
qed

lemma prior_bins:
  fixes cs :: bin
  assumes "build \<noteq> []"
  defines "prev \<equiv> btree_set (filter (\<lambda>name. name \<noteq> []) (concat build))"
    and "cur \<equiv> btree_set (map pkg_name cs)"
  shows "map (filter (\<lambda>p. p \<noteq> [])) (map (filter (\<lambda>p. p \<notin> set (filter (\<lambda>n. n \<notin> set cur) prev)))
      (butlast build @ [filter (\<lambda>name. name \<noteq> []) (last build) @ filter (\<lambda>n. n \<notin> set prev) cur])) =
    updated_names (pkg_name ` set cs) build"
proof -
  have sub: "set b \<subseteq> set (concat build)" if "b \<in> set (butlast build) \<or> b = last build" for b
    using that assms(1) by (auto dest: in_set_butlastD intro!: bexI [OF _ last_in_set])
  have f: "filter (\<lambda>p. p \<noteq> []) (filter (\<lambda>p. p \<notin> set (filter (\<lambda>n. n \<notin> set cur) prev)) b) =
      filter (\<lambda>p. p \<in> pkg_name ` set cs \<and> p \<noteq> []) b" if "b \<in> set (butlast build) \<or> b = last build" for b
    using sub [OF that] by (auto simp: prev_def cur_def intro!: filter_cong)
  have "filter (\<lambda>p. p \<noteq> []) (filter (\<lambda>p. p \<notin> set (filter (\<lambda>n. n \<notin> set cur) prev))
      (filter (\<lambda>n. n \<notin> set prev) cur)) = sorted_list_of_set (pkg_name ` set cs - set (concat build) - {[]})"
    (is "?l = _")
  proof -
    have "sorted ?l" "distinct ?l"
      by (simp_all add: cur_def btree_set_def sorted_wrt_filter)
    moreover have "set ?l = pkg_name ` set cs - set (concat build) - {[]}"
      by (auto simp: prev_def cur_def)
    ultimately show ?thesis
      by (metis sorted_list_of_set.idem_if_sorted_distinct)
  qed
  moreover have "filter (\<lambda>p. p \<noteq> []) (filter g (filter (\<lambda>name. name \<noteq> []) b)) =
      filter (\<lambda>p. p \<noteq> []) (filter g b)" for g and b :: "rstr list"
    by (simp add: conj_commute conj_left_commute)
  ultimately show ?thesis
    using f by (simp add: updated_names_def del: filter_filter)
qed

lemma prior_packing_eq:
  assumes "try_map layer_components (drop 1 (m_layers prior)) = Inr build" "build \<noteq> []"
  shows "basic_packing_with_prior_build cs n prior =
    and_then (try_map (try_map (\<lambda>pkg. ok_or (Panic ''no entry found for key'') (name_to_component cs pkg)))
        (updated_names (pkg_name ` set cs) build)) (\<lambda>r.
    and_then (ensure (sum_list (map length r) = length cs) (Panic ''after_processing_pkgs_len'')) (\<lambda>_.
    and_then (ensure (length r \<le> n) (Panic ''modified_build.len()'')) (\<lambda>_. Inr r)))"
proof -
  have try_map_map: "try_map f (map g xs) = try_map (\<lambda>x. f (g x)) xs" for f :: "'x \<Rightarrow> 'y result" and g :: "'z \<Rightarrow> 'x" and xs
    by (induction xs) auto
  show ?thesis
    unfolding basic_packing_with_prior_build_def assms(1) and_then_simps prior_bins [OF assms(2), symmetric]
      try_map_map Let_def if_not_P [OF assms(2)] by simp
qed

lemma updated_names_resolve:
  assumes "build \<noteq> []"
  shows "\<exists>r. try_map (try_map (\<lambda>pkg. ok_or (Panic ''no entry found for key'') (name_to_component cs pkg)))
      (updated_names (pkg_name ` set cs) build) = Inr r \<and>
    map (map pkg_name) r = updated_names (pkg_name ` set cs) build \<and> set (concat r) \<subseteq> set cs"
proof -
  let ?look = "\<lambda>pkg. the (name_to_component cs pkg)"
  let ?r = "map (map ?look) (updated_names (pkg_name ` set cs) build)"
  have mem: "\<exists>c. name_to_component cs p = Some c" if "b \<in> set (updated_names (pkg_name ` set cs) build)" "p \<in> set b" for b p
  proof -
    have "p \<in> pkg_name ` set cs"
      using set_concat_updated_names [OF assms, of "pkg_name ` set cs"] that by auto
    then show ?thesis using name_to_component_None [of cs p] by auto
  qed
  have "try_map (try_map (\<lambda>pkg. ok_or (Panic ''no entry found for key'') (name_to_component cs pkg)))
      (updated_names (pkg_name ` set cs) build) = Inr ?r"
    by (intro try_map_Inr) (use mem in force)
  moreover have "map (map pkg_name) ?r = updated_names (pkg_name ` set cs) build"
    unfolding map_map by (intro map_idI) (auto intro!: map_idI dest!: mem dest: name_to_component_Some)
  moreover have "set (concat ?r) \<subseteq> set cs"
    using mem name_to_component_Some by fastforce
  ultimately show ?thesis by blast
qed

lemma same_names_mset:
  assumes "distinct (map pkg_name cs)" "length (concat r) = length cs"
    and "set (map pkg_name (concat r)) = set (map pkg_name cs)" "set (concat r) \<subseteq> set cs"
  shows "bins_mset r = mset (cs :: bin)"
proof -
  have d: "distinct (map pkg_name (concat r))"
    using assms(1,2,3) by (metis card_distinct distinct_card length_map)
  have inj: "inj_on pkg_name (set cs)"
    using assms(1) by (simp add: distinct_map)
  have "set (concat r) = set cs"
    using assms(3,4) inj_on_image_eq_iff [OF inj assms(4) order_refl] by simp
  moreover have "distinct (concat r)" "distinct cs"
    using d assms(1) by (auto simp: distinct_map)
  ultimately show ?thesis
    unfolding bins_mset_def using set_eq_iff_mset_eq_distinct by blast
qed

section \<open>The interface of a packing\<close>

locale bin_packer =
  fixes pack :: "'c list \<Rightarrow> nat \<Rightarrow> 'c list list result"
    and admissible :: "'c list \<Rightarrow> bool"
  assumes pack_mset: "admissible cs \<Longrightarrow> pack cs n = Inr r \<Longrightarrow> mset (concat r) = mset cs"
    and pack_limit: "pack cs n = Inr r \<Longrightarrow> length r \<le> n"
begin

lemma packed_set: "admissible cs \<Longrightarrow> pack cs n = Inr r \<Longrightarrow> set (concat r) = set cs"
  by (metis pack_mset set_mset_mset)

lemma packed_distinct: "admissible cs \<Longrightarrow> pack cs n = Inr r \<Longrightarrow> distinct cs \<Longrightarrow> distinct (concat r)"
  using pack_mset mset_eq_imp_distinct_iff by blast

lemma packed_weight:
  "admissible cs \<Longrightarrow> pack cs n = Inr r \<Longrightarrow> sum_list (map (\<lambda>b. sum_list (map f b)) r) = (sum_list (map f cs) :: 'w::comm_monoid_add)"
proof -
  assume a: "admissible cs" "pack cs n = Inr r"
  have "sum_list (map (\<lambda>b. sum_list (map f b)) r) = sum_list (map f (concat r))"
    by (induction r) auto
  also have "\<dots> = sum_list (map f cs)"
    using pack_mset [OF a] by (metis mset_map sum_mset_sum_list)
  finally show ?thesis .
qed

end

definition components_ok :: "bin \<Rightarrow> bool" where
  "components_ok cs \<longleftrightarrow> distinct (map pkg_name cs) \<and> [] \<notin> pkg_name ` set cs"

lemma basic_packing_new_InrD:
  assumes "basic_packing cs n None = Inr r"
  shows "bins_mset r = mset cs \<and> length r \<le> n"
proof -
  have "MIN_CHUNKED_LAYERS \<le> n"
    using assms by (auto simp: basic_packing_def result_simps)
  with basic_packing_new_ok [of n cs] assms show ?thesis by auto
qed

lemma basic_packing_prior_InrD:
  assumes "basic_packing cs n (Some prior) = Inr r"
  obtains build where "try_map layer_components (drop 1 (m_layers prior)) = Inr build" "build \<noteq> []"
    "map (map pkg_name) r = updated_names (pkg_name ` set cs) build" "set (concat r) \<subseteq> set cs"
    "length (concat r) = length cs" "length r \<le> n"
proof -
  have p: "basic_packing_with_prior_build cs n prior = Inr r"
    using assms by (auto simp: basic_packing_def result_simps)
  then obtain build where b: "try_map layer_components (drop 1 (m_layers prior)) = Inr build" "build \<noteq> []"
    by (auto simp: basic_packing_with_prior_build_def result_simps Let_def split: if_splits)
  from updated_names_resolve [OF b(2), of cs] p b show ?thesis
    by (intro that [of build]) (auto simp: prior_packing_eq result_simps length_concat)
qed

interpretation new_packing: bin_packer "\<lambda>cs n. basic_packing cs n None" "\<lambda>_. True"
  by unfold_locales (auto dest!: basic_packing_new_InrD simp: bins_mset_def)

interpretation prior_packing: bin_packer "\<lambda>cs n. basic_packing cs n (Some prior)" components_ok for prior
proof (unfold_locales, goal_cases)
  case (1 cs n r)
  obtain build where "build \<noteq> []" "map (map pkg_name) r = updated_names (pkg_name ` set cs) build"
      and r: "set (concat r) \<subseteq> set cs" "length (concat r) = length cs"
    using basic_packing_prior_InrD [OF 1(2)] by metis
  then have "set (map pkg_name (concat r)) = set (map pkg_name cs)"
    using set_concat_updated_names [of build "pkg_name ` set cs"] 1(1)
    by (simp only: map_concat) (simp add: components_ok_def)
  with r 1 same_names_mset [of cs r] show ?case
    by (simp add: components_ok_def bins_mset_def)
next
  case (2 cs n r)
  then show ?case by (rule basic_packing_prior_InrD)
qed

section \<open>Properties\<close>

text \<open>C29: with at least four bins, a new packing is a rearrangement of exactly the given components
  into at most that many bins, the last one empty and reserved for later additions.  The merge loop
  always ends, no index is out of bounds and neither final assertion fails: the only failure is the
  panic of the partitioning step.\<close>

theorem basic_packing_correct:
  assumes "4 \<le> n"
  shows "case basic_packing cs n None of
      Inl f \<Rightarrow> f = Panic ''Partitioning components into sets''
    | Inr r \<Rightarrow> mset (concat r) = mset cs \<and> length r \<le> n \<and> (cs = [] \<or> last r = [])"
  using basic_packing_new_ok [of n cs] assms
  by (cases "basic_packing cs n None = Inl (Panic ''Partitioning components into sets'')")
     (auto simp: MIN_CHUNKED_LAYERS_def bins_mset_def)

definition sample_pkg :: "nat \<Rightarrow> u32 \<Rightarrow> u64 \<Rightarrow> object_source_meta_sized" where
  "sample_pkg k f sz =
     \<lparr>oms_meta = \<lparr>osm_identifier = [112, 48 + k], osm_name = [112, 48 + k], osm_srcid = [115],
        osm_change_time_offset = 0, osm_change_frequency = f\<rparr>, oms_size = sz\<rparr>"

lemma sample_packing:
  "basic_packing (map (\<lambda>k. sample_pkg k 3 5) [1, 2, 3, 4]) 4 None =
   Inr [[sample_pkg 1 3 5], map (\<lambda>k. sample_pkg k 3 5) [2, 3, 4], []]"
  by code_simp

theorem basic_packing_correct_witness:
  "basic_packing (map (\<lambda>k. sample_pkg k 3 5) [1, 2, 3, 4]) 4 None =
     Inr [[sample_pkg 1 3 5], map (\<lambda>k. sample_pkg k 3 5) [2, 3, 4], []] \<and>
   mset (concat [[sample_pkg 1 3 5], map (\<lambda>k. sample_pkg k 3 5) [2, 3, 4], []]) =
     mset (map (\<lambda>k. sample_pkg k 3 5) [1, 2, 3, 4])"
  using basic_packing_correct [of 4 "map (\<lambda>k. sample_pkg k 3 5) [1, 2, 3, 4]"] sample_packing
  by simp

text \<open>A single component that changes less often than always, among six: it alone forms the
  high-size partition, nothing is left to partition further, and the code panics.\<close>

lemma packing_panics_without_medium:
  "basic_packing (sample_pkg 0 3 5 # map (\<lambda>k. sample_pkg k (- 1) 5) [1, 2, 3, 4, 5]) 6 None =
   Inl (Panic ''Partitioning components into sets'')"
  by code_simp

lemma prior_build_packs:
  assumes "4 \<le> n" "try_map layer_components (drop 1 (m_layers prior)) = Inr build"
    and "build \<noteq> []" "length build \<le> n" "distinct (filter (\<lambda>p. p \<noteq> []) (concat build))"
    and "distinct (map (\<lambda>c. osm_name (oms_meta c)) cs)" "[] \<notin> (\<lambda>c. osm_name (oms_meta c)) ` set cs"
  shows "\<exists>r. basic_packing cs n (Some prior) = Inr r \<and> mset (concat r) = mset cs \<and>
    map (map (\<lambda>c. osm_name (oms_meta c))) r =
      updated_names ((\<lambda>c. osm_name (oms_meta c)) ` set cs) build"
proof -
  from updated_names_resolve [OF assms(3), of cs] obtain r where
    r: "try_map (try_map (\<lambda>pkg. ok_or (Panic ''no entry found for key'') (name_to_component cs pkg)))
          (updated_names (pkg_name ` set cs) build) = Inr r"
      "map (map pkg_name) r = updated_names (pkg_name ` set cs) build"
    by blast
  have names: "map pkg_name (concat r) = concat (updated_names (pkg_name ` set cs) build)"
    using r(2) by (simp add: map_concat)
  have "distinct (map pkg_name (concat r))"
    unfolding names by (intro distinct_concat_updated_names assms) simp
  moreover have "set (map pkg_name (concat r)) = set (map pkg_name cs)"
    unfolding names using set_concat_updated_names [OF assms(3), of "pkg_name ` set cs"] assms(7) by simp
  ultimately have "length (concat r) = length cs"
    using assms(6) by (metis distinct_card length_map)
  moreover have "length r = length build"
    using arg_cong [OF r(2), of length] assms(3) by (simp add: updated_names_def)
  ultimately have "basic_packing cs n (Some prior) = Inr r"
    using assms r by (simp add: basic_packing_def MIN_CHUNKED_LAYERS_def prior_packing_eq length_concat)
  with r(2) prior_packing.pack_mset [where prior = prior and cs = cs and n = n and r = r] assms(6,7) show ?thesis
    by (auto simp: components_ok_def)
qed

text \<open>Given the manifest of a prior build whose layers name distinct components, and components
  with distinct names, packing succeeds; it uses as many bins as the prior build had layers after
  the first, every surviving component stays in the bin it had, the removed ones disappear and the
  new ones join the last bin; the bins together hold exactly the given components.\<close>

theorem prior_build_keeps_bins:
  assumes "4 \<le> n" "try_map layer_components (drop 1 (m_layers prior)) = Inr build"
    and "build \<noteq> []" "length build \<le> n" "distinct (filter (\<lambda>p. p \<noteq> []) (concat build))"
    and "distinct (map (\<lambda>c. osm_name (oms_meta c)) cs)" "[] \<notin> (\<lambda>c. osm_name (oms_meta c)) ` set cs"
  shows "\<exists>r. basic_packing cs n (Some prior) = Inr r \<and> mset (concat r) = mset cs \<and>
    map (map (\<lambda>c. osm_name (oms_meta c))) r =
      updated_names ((\<lambda>c. osm_name (oms_meta c)) ` set cs) build"
  by (rule prior_build_packs [OF assms])

definition sample_layer :: "rstr \<Rightarrow> descriptor" where
  "sample_layer a =
     \<lparr>d_media_type = ImageLayerGzip, d_digest = \<lparr>dg_algorithm = str ''sha256'', dg_hex = [48]\<rparr>,
      d_size = 100, d_annotations = Some [(CONTENT_ANNOTATION, a)], d_other = []\<rparr>"

definition sample_manifest :: image_manifest where
  "sample_manifest =
     \<lparr>m_config = sample_layer [], m_layers = map sample_layer [[], str ''p1,p2'', str ''p3'', []],
      m_annotations = None\<rparr>"

theorem prior_build_keeps_bins_witness:
  "\<exists>r. basic_packing [sample_pkg 2 3 5, sample_pkg 3 3 5, sample_pkg 4 3 5] 4 (Some sample_manifest) = Inr r \<and>
    map (map (\<lambda>c. osm_name (oms_meta c))) r = [[str ''p2''], [str ''p3''], [str ''p4'']]"
proof -
  have b: "try_map layer_components (drop 1 (m_layers sample_manifest)) = Inr [[str ''p1'', str ''p2''], [str ''p3''], [[]]]"
    by code_simp
  have names: "(\<lambda>c. osm_name (oms_meta c)) ` set [sample_pkg 2 3 5, sample_pkg 3 3 5, sample_pkg 4 3 5] =
      {str ''p2'', str ''p3'', str ''p4''}"
    by (auto simp: sample_pkg_def str_simps)
  have "{str ''p2'', str ''p3'', str ''p4''} - {str ''p1'', str ''p2'', str ''p3'', []} - {[]} = {str ''p4''}"
    by auto
  then show ?thesis
    using prior_build_keeps_bins [OF _ b, of 4 "[sample_pkg 2 3 5, sample_pkg 3 3 5, sample_pkg 4 3 5]"]
    unfolding names by (auto simp: updated_names_def sample_pkg_def str_simps)
qed

text \<open>Components are looked up by name, so two of them with the same name abort the packing at its own check of the
  number of components.\<close>

lemma prior_build_repeated_name:
  "basic_packing [sample_pkg 2 3 5, sample_pkg 2 3 7] 4 (Some sample_manifest) = Inl (Panic ''after_processing_pkgs_len'')"
  by code_simp

end
