(* ===== verification/Repo.thy ===== *)
theory Repo
  imports UPath
begin

text \<open>
  The object store of libostree as the crate sees it.  libostree is not part of this repository: an
  \<open>object_store\<close> is a record of functions that stand for its calls, an argument of every definition
  that uses it.  Checksums are hexadecimal strings; the byte arrays inside dirtree objects are their
  hexadecimal form.  A dirtree or dirmeta is given with the number of bytes of its serialised variant.
\<close>

datatype file_type = FRegular | FDirectory | FSymbolicLink | FSpecial | FOther

record file_info =
  fi_type :: file_type
  fi_size :: u64
  fi_uid :: u32
  fi_gid :: u32
  fi_mode :: u32
  fi_symlink_target :: "rstr option"

record dirtree =
  dt_files :: "(rstr \<times> rstr) list"
  dt_dirs :: "(rstr \<times> rstr \<times> rstr) list"

record dirmeta =
  dm_uid :: u32
  dm_gid :: u32
  dm_mode :: u32
  dm_xattrs :: "(rstr \<times> rstr) list"

text \<open>Metadata dictionaries (\<^verbatim>\<open>glib::VariantDict\<close>).  The typed lookup of a string fails on a value of
  another type and is \<open>None\<close> for an absent key.\<close>

datatype variant =
    VString rstr
  | VBool bool
  | VStrings "rstr list"
  | VFiltered "(rstr, (rstr, u32) kvmap) kvmap"
  | VOther nat

type_synonym vardict = "(rstr, variant) kvmap"

definition lookup_string :: "vardict \<Rightarrow> rstr \<Rightarrow> rstr option result" where
  "lookup_string d k =
     (case kv_lookup d k of
        None \<Rightarrow> Inr None
      | Some (VString s) \<Rightarrow> Inr (Some s)
      | Some _ \<Rightarrow> Inl (Err ''variant type mismatch''))"

definition lookup_filtered :: "vardict \<Rightarrow> rstr \<Rightarrow> (rstr, (rstr, u32) kvmap) kvmap option result" where
  "lookup_filtered d k =
     (case kv_lookup d k of
        None \<Rightarrow> Inr None
      | Some (VFiltered f) \<Rightarrow> Inr (Some f)
      | Some _ \<Rightarrow> Inl (Err ''variant type mismatch''))"

definition lookup_bool :: "vardict \<Rightarrow> rstr \<Rightarrow> bool option result" where
  "lookup_bool d k =
     (case kv_lookup d k of
        None \<Rightarrow> Inr None
      | Some (VBool b) \<Rightarrow> Inr (Some b)
      | Some _ \<Rightarrow> Inl (Err ''variant type mismatch''))"

definition lookup_strings :: "vardict \<Rightarrow> rstr \<Rightarrow> rstr list option result" where
  "lookup_strings d k =
     (case kv_lookup d k of
        None \<Rightarrow> Inr None
      | Some (VStrings l) \<Rightarrow> Inr (Some l)
      | Some _ \<Rightarrow> Inl (Err ''variant type mismatch''))"

text \<open>The string of an untyped value (\<^verbatim>\<open>Variant::str\<close>).\<close>

fun variant_str :: "variant \<Rightarrow> rstr option" where
  "variant_str (VString s) = Some s"
| "variant_str _ = None"

text \<open>The fields of a commit object that are used: its metadata dictionary, the root dirtree and the
  root dirmeta.\<close>

record commit_object =
  co_metadata :: vardict
  co_parent :: "rstr option"
  co_subject :: rstr
  co_body :: rstr
  co_timestamp :: u64
  co_tree :: rstr
  co_meta :: rstr

record object_store =
  query_file :: "rstr \<Rightarrow> file_info result"
  file_xattrs :: "rstr \<Rightarrow> (rstr \<times> rstr) list result"
  load_dirtree :: "rstr \<Rightarrow> (nat \<times> dirtree) result"
  load_dirmeta :: "rstr \<Rightarrow> (nat \<times> dirmeta) result"
  require_rev :: "rstr \<Rightarrow> rstr result"
  load_commit :: "rstr \<Rightarrow> commit_object result"

text \<open>A directory tree of depth at most \<open>d\<close> below a checksum, all of whose objects can be loaded.
  Dirtrees refer to each other by content hash, so that every tree of a repository has a depth.\<close>

fun tree_loadable :: "object_store \<Rightarrow> nat \<Rightarrow> rstr \<Rightarrow> bool" where
  "tree_loadable repo 0 csum = False"
| "tree_loadable repo (Suc d) csum =
     (case load_dirtree repo csum of
        Inl _ \<Rightarrow> False
      | Inr (n, dt) \<Rightarrow>
          list_all (\<lambda>(name, c). plain_name name \<and> is_ok (query_file repo c)) (dt_files dt) \<and>
          list_all (\<lambda>(name, c, m). plain_name name \<and> is_ok (load_dirmeta repo m) \<and> tree_loadable repo d c)
            (dt_dirs dt))"

end
