(* ===== verification/Chunking.thy ===== *)
theory Chunking
  imports Packing Repo
begin

text \<open>
  Splitting a commit into chunks (\<^verbatim>\<open>lib/src/chunking.rs\<close>): the initial single chunk gathered from the
  directory trees, moving objects between chunks, the sizes of the components, and the distribution
  of the objects over the bins of a packing.  Sizes are 64-bit words and wrap.
\<close>

section \<open>Definitions\<close>

type_synonym chunk_mapping = "(rstr, u64 \<times> rstr list) kvmap"

record chunk =
  ck_name :: rstr
  ck_content :: chunk_mapping
  ck_size :: u64
  ck_packages :: "rstr list"

definition chunk_new :: "rstr \<Rightarrow> chunk" where
  "chunk_new name = \<lparr>ck_name = name, ck_content = [], ck_size = 0, ck_packages = []\<rparr>"

definition move_obj :: "rstr \<Rightarrow> chunk \<times> chunk \<Rightarrow> (chunk \<times> chunk) \<times> bool" where
  "move_obj checksum = (\<lambda>(self, dest).
     case kv_lookup (ck_content self) checksum of
       Some (sz, paths) \<Rightarrow>
         ((self\<lparr>ck_content := kv_remove checksum (ck_content self), ck_size := ck_size self - sz\<rparr>,
           dest\<lparr>ck_content := kv_insert checksum (sz, paths) (ck_content dest),
                ck_size := ck_size dest + sz\<rparr>), True)
     | None \<Rightarrow> ((self, dest), False))"

text \<open>\<^verbatim>\<open>ObjectMeta\<close>: the component set, and the map from a content object to its component, in
  insertion order.\<close>

record object_meta =
  om_set :: "object_source_meta list"
  om_map :: "(rstr \<times> rstr) list"

record object_meta_sized =
  oz_map :: "(rstr \<times> rstr) list"
  oz_sizes :: "object_source_meta_sized list"

definition add_size :: "object_store \<Rightarrow> rstr \<times> rstr \<Rightarrow> (rstr, u64) kvmap \<Rightarrow> (rstr, u64) kvmap result" where
  "add_size repo = (\<lambda>(checksum, contentid) sizes.
     and_then (query_file repo checksum) (\<lambda>finfo.
     let sz = (case kv_lookup sizes contentid of None \<Rightarrow> 0 | Some s \<Rightarrow> s)
     in Inr (kv_insert contentid (sz + fi_size finfo) sizes)))"

definition compute_sizes :: "object_store \<Rightarrow> object_meta \<Rightarrow> object_meta_sized result" where
  "compute_sizes repo meta =
     and_then (try_fold (add_size repo) (om_map meta) []) (\<lambda>sizes.
     and_then (try_map (\<lambda>(cid, sz).
         and_then (ok_or (Err ''Failed to find in content set'')
                     (find (\<lambda>m. osm_identifier m = cid) (om_set meta)))
           (\<lambda>meta. Inr \<lparr>oms_meta = meta, oms_size = sz\<rparr>)) sizes) (\<lambda>sized.
     Inr \<lparr>oz_map = om_map meta, oz_sizes = rev (sort_key oms_size (rev sized))\<rparr>))"

record chunking =
  metadata_size :: u64
  remainder :: chunk
  chunks :: "chunk list"
  max_chunks :: nat
  processed_mapping :: bool
  n_provided_components :: nat
  n_sized_components :: nat

subsection \<open>The initial chunk\<close>

record generation =
  g_path :: rstr
  g_metadata_size :: u64
  g_dirtree_found :: "rstr set"
  g_dirmeta_found :: "rstr set"

definition push_dirmeta :: "object_store \<Rightarrow> rstr \<Rightarrow> generation \<Rightarrow> generation result" where
  "push_dirmeta repo checksum gen =
     (if checksum \<in> g_dirtree_found gen then Inr gen
      else let gen = gen\<lparr>g_dirmeta_found := insert checksum (g_dirmeta_found gen)\<rparr>
           in and_then (load_dirmeta repo checksum) (\<lambda>(len, _).
              Inr (gen\<lparr>g_metadata_size := g_metadata_size gen + of_nat len\<rparr>)))"

definition push_dirtree :: "object_store \<Rightarrow> rstr \<Rightarrow> generation \<Rightarrow> (generation \<times> dirtree) result" where
  "push_dirtree repo checksum gen =
     and_then (load_dirtree repo checksum) (\<lambda>(len, dt).
     if checksum \<notin> g_dirtree_found gen
     then Inr (gen\<lparr>g_metadata_size := g_metadata_size gen + of_nat len\<rparr>, dt)
     else Inr (gen\<lparr>g_dirtree_found := insert checksum (g_dirtree_found gen)\<rparr>, dt))"

definition add_file :: "object_store \<Rightarrow> rstr \<Rightarrow> rstr \<times> rstr \<Rightarrow> chunk \<Rightarrow> chunk result" where
  "add_file repo path = (\<lambda>(name, checksum) chunk.
     and_then (query_file repo checksum) (\<lambda>meta.
     let fpath = path_push path name;
         sz = fi_size meta;
         paths = (case kv_lookup (ck_content chunk) checksum of None \<Rightarrow> [] | Some (_, ps) \<Rightarrow> ps)
     in Inr (chunk\<lparr>ck_content := kv_insert checksum (sz, paths @ [fpath]) (ck_content chunk),
                   ck_size := (if paths = [] then ck_size chunk + sz else ck_size chunk)\<rparr>)))"

definition path_pop :: "generation \<Rightarrow> generation result" where
  "path_pop gen =
     (case path_parent (g_path gen) of
        None \<Rightarrow> Inl (Panic ''gen.path.pop()'')
      | Some p \<Rightarrow> Inr (gen\<lparr>g_path := p\<rparr>))"

text \<open>The recursion over the directories; fuel bounds the depth, and running out of it stands for
  the overflow of the stack.\<close>

fun generate_chunking_recurse ::
  "object_store \<Rightarrow> nat \<Rightarrow> dirtree \<Rightarrow> generation \<times> chunk \<Rightarrow> (generation \<times> chunk) result" where
  "generate_chunking_recurse repo 0 dt s = Inl (Panic ''stack overflow'')"
| "generate_chunking_recurse repo (Suc fuel) dt s =
     and_then (try_fold (add_file repo (g_path (fst s))) (dt_files dt) (snd s)) (\<lambda>chunk.
     try_fold (\<lambda>(name, contents_csum, meta_csum) (gen, chunk).
         and_then (push_dirtree repo contents_csum (gen\<lparr>g_path := path_push (g_path gen) name\<rparr>)) (\<lambda>(gen, dirtree_v).
         and_then (generate_chunking_recurse repo fuel dirtree_v (gen, chunk)) (\<lambda>(gen, chunk).
         and_then (push_dirmeta repo meta_csum gen) (\<lambda>gen.
         and_then (path_pop gen) (\<lambda>gen. Inr (gen, chunk))))))
       (dt_dirs dt) (fst s, chunk))"

definition chunking_new :: "object_store \<Rightarrow> nat \<Rightarrow> rstr \<Rightarrow> chunking result" where
  "chunking_new repo fuel refspec =
     and_then (require_rev repo refspec) (\<lambda>checksum.
     and_then (load_commit repo checksum) (\<lambda>commit.
     let gen = \<lparr>g_path = [slash], g_metadata_size = 0, g_dirtree_found = {}, g_dirmeta_found = {}\<rparr>;
         chunk = chunk_new []
     in and_then (load_dirtree repo (co_tree commit)) (\<lambda>(_, contents_v).
        and_then (push_dirtree repo (co_tree commit) gen) (\<lambda>(gen, _).
        and_then (push_dirmeta repo (co_meta commit) gen) (\<lambda>gen.
        and_then (generate_chunking_recurse repo fuel contents_v (gen, chunk)) (\<lambda>(gen, chunk).
        Inr \<lparr>metadata_size = g_metadata_size gen, remainder = chunk, chunks = [], max_chunks = 0,
             processed_mapping = False, n_provided_components = 0, n_sized_components = 0\<rparr>))))))"

subsection \<open>Distributing the objects\<close>

definition remaining :: "chunking \<Rightarrow> nat" where
  "remaining c = max_chunks c - length (chunks c)"

text \<open>\<^verbatim>\<open>contentmeta.map\<close> reversed: the objects of each component.\<close>

definition reverse_map :: "(rstr \<times> rstr) list \<Rightarrow> (rstr, rstr list) kvmap" where
  "reverse_map m = fold (\<lambda>(checksum, contentid). kv_push contentid checksum) m []"

definition bin_name :: "bin \<Rightarrow> rstr" where
  "bin_name bin =
     (let ident = (\<lambda>v. osm_identifier (oms_meta v)); n = length bin
      in if n = 0 then str ''Reserved for new packages''
         else if n \<le> 5 then fold (\<lambda>v acc. acc @ str '' and '' @ ident v) (tl bin) (ident (hd bin))
         else fmt_dec n @ str '' components'')"

definition move_component ::
  "(rstr, rstr list) kvmap \<Rightarrow> object_source_meta_sized \<Rightarrow> chunk \<times> chunk \<Rightarrow> (chunk \<times> chunk) result" where
  "move_component rmap szmeta s =
     and_then (ok_or (Panic ''rmap.get().unwrap()'') (kv_lookup rmap (osm_identifier (oms_meta szmeta)))) (\<lambda>objs.
     Inr (fold (\<lambda>obj s. fst (move_obj obj s)) objs s))"

definition process_bin ::
  "(rstr, rstr list) kvmap \<Rightarrow> bin \<Rightarrow> chunking \<Rightarrow> chunking result" where
  "process_bin rmap bin self =
     (let chunk = (chunk_new (bin_name bin))\<lparr>ck_packages := map (\<lambda>v. osm_name (oms_meta v)) bin\<rparr>
      in and_then (try_fold (move_component rmap) bin (remainder self, chunk)) (\<lambda>(rest, chunk).
         Inr (self\<lparr>remainder := rest, chunks := chunks self @ [chunk]\<rparr>)))"

definition process_mapping ::
  "object_meta_sized \<Rightarrow> nat option \<Rightarrow> image_manifest option \<Rightarrow> chunking \<Rightarrow> chunking result" where
  "process_mapping meta max_layers prior_build_metadata self =
     (let self = self\<lparr>max_chunks := (case max_layers of None \<Rightarrow> MAX_CHUNKS | Some m \<Rightarrow> m)\<rparr>
      in and_then (ensure (\<not> processed_mapping self) (Panic ''!self.processed_mapping'')) (\<lambda>_.
         let self = self\<lparr>processed_mapping := True\<rparr>
         in if remaining self = 0 then Inr self
            else
              let rmap = reverse_map (oz_map meta);
                  self = self\<lparr>n_provided_components := length (oz_sizes meta),
                              n_sized_components := length (filter (\<lambda>v. 0 < oms_size v) (oz_sizes meta))\<rparr>
              in and_then (basic_packing (oz_sizes meta) (max_chunks self) prior_build_metadata) (\<lambda>packing.
                 and_then (try_fold (process_bin rmap) packing self) (\<lambda>self.
                 and_then (ensure (ck_content (remainder self) = []) (Panic ''self.remainder.content.len()'')) (\<lambda>_.
                 Inr self)))))"

definition from_mapping ::
  "object_store \<Rightarrow> nat \<Rightarrow> rstr \<Rightarrow> object_meta_sized \<Rightarrow> nat option \<Rightarrow> image_manifest option \<Rightarrow> chunking result" where
  "from_mapping repo fuel refspec meta max_layers prior_build_metadata =
     and_then (chunking_new repo fuel refspec) (process_mapping meta max_layers prior_build_metadata)"

definition take_chunks :: "chunking \<Rightarrow> chunking \<times> chunk list" where
  "take_chunks self = (self\<lparr>chunks := []\<rparr>, chunks self)"

section \<open>Lemmas\<close>

subsection \<open>Chunks\<close>

definition content_size :: "chunk_mapping \<Rightarrow> u64" where
  "content_size m = sum_list (map (\<lambda>e. fst (snd e)) m)"

text \<open>The invariant of a chunk: its size is the sum of the sizes of its objects, and every object has
  a path.\<close>

definition chunk_inv :: "chunk \<Rightarrow> bool" where
  "chunk_inv c \<longleftrightarrow> kv_wf (ck_content c) \<and> ck_size c = content_size (ck_content c) \<and>
     list_all (\<lambda>e. snd (snd e) \<noteq> []) (ck_content c)"

lemma content_size_mset: "content_size m = sum_mset (image_mset (\<lambda>e. fst (snd e)) (mset m))"
  by (induction m) (simp_all add: content_size_def)

lemma chunk_new_inv [simp]: "chunk_inv (chunk_new n)" "ck_content (chunk_new n) = []"
  by (simp_all add: chunk_inv_def chunk_new_def content_size_def)

lemma kv_insert_mset_new:
  assumes "kv_wf m" "kv_lookup m k = None"
  shows "mset (kv_insert k v m) = add_mset (k, v) (mset m)"
  using assms by (induction k v m rule: kv_insert.induct) (auto simp: kv_wf_def kv_lookup_def split: if_splits)

lemma kv_remove_mset:
  assumes "kv_wf m" "kv_lookup m k = Some v"
  shows "add_mset (k, v) (mset (kv_remove k m)) = mset m"
  using assms
proof (induction m)
  case (Cons e m)
  have "kv_remove k m = m" if "fst e = k"
    using Cons.prems that by (auto simp: kv_remove_def kv_wf_def filter_id_conv)
  with Cons show ?case
    by (cases e) (auto simp: kv_wf_def kv_lookup_def kv_remove_def split: if_splits)
qed (simp add: kv_lookup_def)

lemma chunk_inv_mset:
  "chunk_inv c \<longleftrightarrow> kv_wf (ck_content c) \<and>
     ck_size c = sum_mset (image_mset (\<lambda>e. fst (snd e)) (mset (ck_content c))) \<and>
     (\<forall>e \<in># mset (ck_content c). snd (snd e) \<noteq> [])"
  by (simp add: chunk_inv_def content_size_mset list_all_iff)

text \<open>Moving an object keeps both invariants, the objects of the two chunks together, and makes the
  destination hold the object if the source did.\<close>

lemma move_obj_correct:
  assumes "chunk_inv a" "chunk_inv b" "distinct (map fst (ck_content a @ ck_content b))"
    and "move_obj k (a, b) = ((a', b'), moved)"
  shows "chunk_inv a' \<and> chunk_inv b' \<and>
    mset (ck_content a') + mset (ck_content b') = mset (ck_content a) + mset (ck_content b) \<and>
    moved = (k \<in> fst ` set (ck_content a)) \<and>
    kv_lookup (ck_content a') = (kv_lookup (ck_content a))(k := None) \<and>
    fst ` set (ck_content b') \<subseteq> insert k (fst ` set (ck_content b))"
proof (cases "kv_lookup (ck_content a) k")
  case None
  with assms show ?thesis by (auto simp: move_obj_def kv_lookup_None fun_upd_idem)
next
  case (Some v)
  obtain sz paths where v: "v = (sz, paths)" by force
  have wf: "kv_wf (ck_content a)" "kv_wf (ck_content b)" using assms by (simp_all add: chunk_inv_def)
  have "k \<in> fst ` set (ck_content a)" using Some by (metis kv_lookup_None option.distinct(1))
  then have nb: "kv_lookup (ck_content b) k = None"
    using assms(3) by (auto simp: kv_lookup_None)
  have ra: "add_mset (k, v) (mset (kv_remove k (ck_content a))) = mset (ck_content a)"
    by (rule kv_remove_mset [OF wf(1) Some])
  have ib: "mset (kv_insert k v (ck_content b)) = add_mset (k, v) (mset (ck_content b))"
    by (rule kv_insert_mset_new [OF wf(2) nb])
  have eqs: "a' = a\<lparr>ck_content := kv_remove k (ck_content a), ck_size := ck_size a - sz\<rparr>"
      "b' = b\<lparr>ck_content := kv_insert k v (ck_content b), ck_size := ck_size b + sz\<rparr>" "moved"
    using assms(4) Some v by (auto simp: move_obj_def)
  have "chunk_inv a'"
    using assms(1) wf unfolding chunk_inv_mset ra [symmetric]
    by (auto simp: eqs v kv_wf_remove chunk_inv_mset)
  moreover have "chunk_inv b'"
    using assms(1,2) wf unfolding chunk_inv_mset ra [symmetric]
    by (auto simp: eqs v ib [unfolded v] kv_wf_insert chunk_inv_mset)
  moreover have "fst ` set (kv_insert k v (ck_content b)) = insert k (fst ` set (ck_content b))"
    using set_fst_kv_insert [of k v "ck_content b"] by simp
  ultimately show ?thesis
    using ra ib \<open>k \<in> _\<close> by (simp add: eqs kv_lookup_remove)
qed

subsection \<open>Distributing the objects\<close>

text \<open>All objects of a chunking with their sizes and paths.\<close>

definition all_objects :: "chunking \<Rightarrow> (rstr \<times> u64 \<times> rstr list) multiset" where
  "all_objects c = mset (ck_content (remainder c)) + bins_mset (map ck_content (chunks c))"

definition objects_distinct :: "(rstr \<times> 'a) multiset \<Rightarrow> bool" where
  "objects_distinct M \<longleftrightarrow> (\<exists>xs. mset xs = M \<and> distinct (map fst xs))"

lemma objects_distinct_list: "objects_distinct (mset xs) \<longleftrightarrow> distinct (map fst xs)"
  unfolding objects_distinct_def by (metis mset_eq_imp_distinct_iff mset_map)

lemma objects_distinct_union: "objects_distinct (mset xs + M) \<Longrightarrow> distinct (map fst xs)"
proof -
  assume a: "objects_distinct (mset xs + M)"
  obtain ys where "M = mset ys" using ex_mset by metis
  with a show ?thesis
    using objects_distinct_list [of "xs @ ys"] by auto
qed

definition pair_inv :: "(rstr \<times> u64 \<times> rstr list) multiset \<Rightarrow> chunk \<times> chunk \<Rightarrow> bool" where
  "pair_inv M s \<longleftrightarrow> chunk_inv (fst s) \<and> chunk_inv (snd s) \<and> objects_distinct M \<and>
     mset (ck_content (fst s)) + mset (ck_content (snd s)) = M"

lemma move_obj_pair:
  assumes "pair_inv M s"
  shows "pair_inv M (fst (move_obj k s)) \<and>
    kv_lookup (ck_content (fst (fst (move_obj k s)))) = (kv_lookup (ck_content (fst s)))(k := None) \<and>
    ck_packages (snd (fst (move_obj k s))) = ck_packages (snd s)"
proof -
  obtain a b where s: "s = (a, b)" by force
  obtain a' b' m where m: "move_obj k (a, b) = ((a', b'), m)" by (metis surj_pair)
  have "distinct (map fst (ck_content a @ ck_content b))"
    using assms objects_distinct_list [of "ck_content a @ ck_content b"] by (auto simp: pair_inv_def s)
  note correct = move_obj_correct [OF _ _ this m]
  have "ck_packages b' = ck_packages b"
    using m by (auto simp: move_obj_def split: option.splits)
  then show ?thesis
    using assms correct by (simp add: pair_inv_def s m)
qed

lemma move_objs_pair:
  assumes "pair_inv M s"
  shows "pair_inv M (fold (\<lambda>obj s. fst (move_obj obj s)) objs s) \<and>
    kv_lookup (ck_content (fst (fold (\<lambda>obj s. fst (move_obj obj s)) objs s))) =
      (\<lambda>k. if k \<in> set objs then None else kv_lookup (ck_content (fst s)) k) \<and>
    ck_packages (snd (fold (\<lambda>obj s. fst (move_obj obj s)) objs s)) = ck_packages (snd s)"
  using assms
proof (induction objs arbitrary: s)
  case (Cons k objs)
  with move_obj_pair [OF Cons.prems, of k] show ?case by (auto simp: fun_eq_iff)
qed simp

lemma move_component_pair:
  assumes "pair_inv M s" "move_component rmap c s = Inr s'"
  shows "pair_inv M s' \<and>
    kv_lookup (ck_content (fst s')) =
      (\<lambda>k. if k \<in> set (the (kv_lookup rmap (osm_identifier (oms_meta c)))) then None
           else kv_lookup (ck_content (fst s)) k) \<and>
    ck_packages (snd s') = ck_packages (snd s)"
  using assms move_objs_pair [OF assms(1)] by (auto simp: move_component_def result_simps)

lemma move_components_pair:
  assumes "pair_inv M s" "try_fold (move_component rmap) bin s = Inr s'"
  shows "pair_inv M s' \<and>
    kv_lookup (ck_content (fst s')) =
      (\<lambda>k. if \<exists>c \<in> set bin. k \<in> set (the (kv_lookup rmap (osm_identifier (oms_meta c)))) then None
           else kv_lookup (ck_content (fst s)) k) \<and>
    ck_packages (snd s') = ck_packages (snd s)"
  using assms
proof (induction bin arbitrary: s)
  case (Cons c bin)
  then obtain t where t: "move_component rmap c s = Inr t" "try_fold (move_component rmap) bin t = Inr s'"
    by (auto simp: result_simps)
  from move_component_pair [OF Cons.prems(1) t(1)] Cons.IH [OF _ t(2)] show ?case
    by (auto simp: fun_eq_iff)
qed simp

definition chunking_inv :: "(rstr \<times> u64 \<times> rstr list) multiset \<Rightarrow> chunking \<Rightarrow> bool" where
  "chunking_inv M c \<longleftrightarrow> chunk_inv (remainder c) \<and> list_all chunk_inv (chunks c) \<and>
     objects_distinct M \<and> all_objects c = M"

lemma process_bin_inv:
  assumes "chunking_inv M c" "process_bin rmap bin c = Inr c'"
  shows "chunking_inv M c' \<and> length (chunks c') = Suc (length (chunks c)) \<and>
    map ck_packages (chunks c') = map ck_packages (chunks c) @ [map (\<lambda>v. osm_name (oms_meta v)) bin] \<and>
    kv_lookup (ck_content (remainder c')) =
      (\<lambda>k. if \<exists>c \<in> set bin. k \<in> set (the (kv_lookup rmap (osm_identifier (oms_meta c)))) then None
           else kv_lookup (ck_content (remainder c)) k)"
proof -
  let ?chunk = "(chunk_new (bin_name bin))\<lparr>ck_packages := map (\<lambda>v. osm_name (oms_meta v)) bin\<rparr>"
  obtain rest ck where f: "try_fold (move_component rmap) bin (remainder c, ?chunk) = Inr (rest, ck)"
      and c': "c' = c\<lparr>remainder := rest, chunks := chunks c @ [ck]\<rparr>"
    using assms(2) by (auto simp: process_bin_def result_simps Let_def)
  have "objects_distinct (mset (ck_content (remainder c)))"
    using assms(1) objects_distinct_union objects_distinct_list
    by (auto simp: chunking_inv_def all_objects_def)
  then have "pair_inv (mset (ck_content (remainder c))) (remainder c, ?chunk)"
    using assms(1) chunk_new_inv [of "bin_name bin"]
    by (simp add: pair_inv_def chunking_inv_def chunk_inv_def)
  from move_components_pair [OF this f] assms(1) show ?thesis
    by (auto simp: c' chunking_inv_def pair_inv_def all_objects_def ac_simps)
qed

lemma process_bins_inv:
  assumes "chunking_inv M c" "try_fold (process_bin rmap) bins c = Inr c'"
  shows "chunking_inv M c' \<and> length (chunks c') = length (chunks c) + length bins \<and>
    map ck_packages (chunks c') =
      map ck_packages (chunks c) @ map (map (\<lambda>v. osm_name (oms_meta v))) bins \<and>
    kv_lookup (ck_content (remainder c')) =
      (\<lambda>k. if \<exists>c \<in> set (concat bins). k \<in> set (the (kv_lookup rmap (osm_identifier (oms_meta c)))) then None
           else kv_lookup (ck_content (remainder c)) k)"
  using assms
proof (induction bins arbitrary: c)
  case (Cons b bins)
  then obtain d where d: "process_bin rmap b c = Inr d" "try_fold (process_bin rmap) bins d = Inr c'"
    by (auto simp: result_simps)
  from process_bin_inv [OF Cons.prems(1) d(1)] Cons.IH [OF _ d(2)] show ?case
    by (auto simp: fun_eq_iff)
qed simp

text \<open>The reversed map lists exactly the objects of each component.\<close>

lemma kv_push_lookup:
  "kv_lookup (kv_push k x m) = (kv_lookup m)(k \<mapsto> (case kv_lookup m k of None \<Rightarrow> [x] | Some b \<Rightarrow> b @ [x]))"
  by (simp add: kv_push_def kv_lookup_insert)

lemma reverse_map_lookup:
  "kv_lookup (fold (\<lambda>(checksum, contentid). kv_push contentid checksum) m r) i =
     (let objs = map fst (filter (\<lambda>e. snd e = i) m)
      in case kv_lookup r i of None \<Rightarrow> if objs = [] then None else Some objs | Some b \<Rightarrow> Some (b @ objs))"
proof (induction m arbitrary: r)
  case (Cons e m)
  obtain a b where "e = (a, b)" by force
  with Cons show ?case
    by (cases "b = i"; cases "kv_lookup r i") (simp_all add: kv_push_lookup Let_def)
qed (simp add: Let_def split: option.split)

lemma reverse_map_Some:
  "kv_lookup (reverse_map m) i = Some objs \<longleftrightarrow> objs = map fst (filter (\<lambda>e. snd e = i) m) \<and> objs \<noteq> []"
  by (auto simp: reverse_map_def reverse_map_lookup Let_def)

lemma try_fold_total:
  assumes "\<And>x s. x \<in> set xs \<Longrightarrow> \<exists>s'. f x s = Inr s'"
  shows "\<exists>s'. try_fold f xs s = Inr s'"
  using assms
proof (induction xs arbitrary: s)
  case (Cons x xs)
  obtain t where "f x s = Inr t" using Cons.prems by (meson list.set_intros(1))
  with Cons show ?case by auto
qed simp

lemma process_bins_total:
  assumes "\<forall>c \<in> set (concat bins). osm_identifier (oms_meta c) \<in> snd ` set m"
  shows "\<exists>c'. try_fold (process_bin (reverse_map m)) bins c = Inr c'"
proof (rule try_fold_total)
  fix b and s :: chunking
  assume b: "b \<in> set bins"
  have "\<exists>s'. try_fold (move_component (reverse_map m)) b s0 = Inr s'" for s0
  proof (rule try_fold_total)
    fix c s1
    assume "c \<in> set b"
    then have "osm_identifier (oms_meta c) \<in> snd ` set m" using assms b by auto
    then obtain objs where "kv_lookup (reverse_map m) (osm_identifier (oms_meta c)) = Some objs"
      by (force simp: reverse_map_Some filter_empty_conv)
    then show "\<exists>s'. move_component (reverse_map m) c s1 = Inr s'"
      by (simp add: move_component_def)
  qed
  from this [of "(remainder s, (chunk_new (bin_name b))\<lparr>ck_packages := map (\<lambda>v. osm_name (oms_meta v)) b\<rparr>)"]
  obtain p where "try_fold (move_component (reverse_map m)) b
      (remainder s, (chunk_new (bin_name b))\<lparr>ck_packages := map (\<lambda>v. osm_name (oms_meta v)) b\<rparr>) = Inr p"
    by blast
  then show "\<exists>s'. process_bin (reverse_map m) b s = Inr s'"
    by (cases p) (simp add: process_bin_def Let_def)
qed

text \<open>The state in which \<open>process_mapping\<close> starts to pack.\<close>

lemma process_mapping_eq:
  assumes "\<not> processed_mapping c" "chunks c = []" "m \<noteq> 0"
  shows "\<exists>c0. remainder c0 = remainder c \<and> chunks c0 = [] \<and>
    process_mapping meta (Some m) prior c =
      and_then (basic_packing (oz_sizes meta) m prior) (\<lambda>packing.
      and_then (try_fold (process_bin (reverse_map (oz_map meta))) packing c0) (\<lambda>self.
      and_then (ensure (ck_content (remainder self) = []) (Panic ''self.remainder.content.len()'')) (\<lambda>_.
      Inr self)))"
  using assms
  by (intro exI [of _ "c\<lparr>max_chunks := m, processed_mapping := True,
        n_provided_components := length (oz_sizes meta),
        n_sized_components := length (filter (\<lambda>v. 0 < oms_size v) (oz_sizes meta))\<rparr>"])
     (simp add: process_mapping_def remaining_def Let_def)

lemma process_mapping_InrD:
  assumes "\<not> processed_mapping c" "chunks c = []" "chunk_inv (remainder c)" "m \<noteq> 0"
    and "process_mapping meta (Some m) prior c = Inr c'"
  shows "ck_content (remainder c') = [] \<and>
    mset (concat (map ck_content (chunks c'))) = mset (ck_content (remainder c)) \<and>
    list_all chunk_inv (chunks c') \<and>
    sum_list (map ck_size (chunks c')) = ck_size (remainder c) \<and> length (chunks c') \<le> m"
proof -
  obtain c0 where c0: "remainder c0 = remainder c" "chunks c0 = []"
    and eq: "process_mapping meta (Some m) prior c =
      and_then (basic_packing (oz_sizes meta) m prior) (\<lambda>packing.
      and_then (try_fold (process_bin (reverse_map (oz_map meta))) packing c0) (\<lambda>self.
      and_then (ensure (ck_content (remainder self) = []) (Panic ''self.remainder.content.len()'')) (\<lambda>_.
      Inr self)))"
    using process_mapping_eq [OF assms(1,2,4), of meta prior] by blast
  from assms(5) [unfolded eq] obtain bins where
    bins: "basic_packing (oz_sizes meta) m prior = Inr bins"
      "try_fold (process_bin (reverse_map (oz_map meta))) bins c0 = Inr c'"
    and empty: "ck_content (remainder c') = []"
    by (auto simp: result_simps)
  have len: "length bins \<le> m"
    using bins(1) new_packing.pack_limit prior_packing.pack_limit by (cases prior) auto
  have "objects_distinct (mset (ck_content (remainder c)))"
    using assms(3) by (simp add: objects_distinct_list chunk_inv_def kv_wf_distinct)
  then have "chunking_inv (mset (ck_content (remainder c))) c0"
    using assms(3) c0 by (simp add: chunking_inv_def all_objects_def)
  note inv = process_bins_inv [OF this bins(2)]
  then have m: "mset (concat (map ck_content (chunks c'))) = mset (ck_content (remainder c))"
      and all: "list_all chunk_inv (chunks c')"
    using empty by (auto simp: chunking_inv_def all_objects_def bins_mset_def)
  have "list_all chunk_inv cs \<Longrightarrow> sum_list (map ck_size cs) = content_size (concat (map ck_content cs))" for cs
    by (induction cs) (auto simp: chunk_inv_def content_size_def)
  with all have "sum_list (map ck_size (chunks c')) = content_size (concat (map ck_content (chunks c')))"
    by blast
  then have "sum_list (map ck_size (chunks c')) = ck_size (remainder c)"
    using m assms(3) by (simp add: content_size_mset chunk_inv_def)
  with m all inv empty len c0 show ?thesis by simp
qed


subsection \<open>The initial chunk\<close>

text \<open>The file objects below a directory tree.\<close>

fun tree_files :: "object_store \<Rightarrow> nat \<Rightarrow> dirtree \<Rightarrow> rstr set" where
  "tree_files repo 0 dt = {}"
| "tree_files repo (Suc d) dt = snd ` set (dt_files dt) \<union>
     (\<Union>e \<in> set (dt_dirs dt). case load_dirtree repo (fst (snd e)) of
        Inl _ \<Rightarrow> {} | Inr (_, sub) \<Rightarrow> tree_files repo d sub)"

text \<open>A chunk whose recorded object sizes are those of the repository.\<close>

definition chunk_of :: "object_store \<Rightarrow> chunk \<Rightarrow> bool" where
  "chunk_of repo c \<longleftrightarrow> chunk_inv c \<and>
     (\<forall>k s ps. kv_lookup (ck_content c) k = Some (s, ps) \<longrightarrow>
        (\<exists>fi. query_file repo k = Inr fi \<and> fi_size fi = s))"

lemma kv_insert_mset_upd:
  assumes "kv_wf m" "kv_lookup m k = Some w"
  shows "add_mset (k, w) (mset (kv_insert k v m)) = add_mset (k, v) (mset m)"
  using assms
proof (induction k v m rule: kv_insert.induct)
  case (2 k v a b m)
  have "kv_lookup m k = None" if "k < a"
    using that 2 by (force simp: kv_lookup_None kv_wf_def)
  with 2 show ?case
    by (auto simp: kv_lookup_def kv_wf_def add_mset_commute split: if_splits)
qed (simp add: kv_lookup_def)

lemma add_file_ok:
  assumes "chunk_of repo c" "query_file repo k = Inr fi"
  shows "\<exists>c'. add_file repo path (n, k) c = Inr c' \<and> chunk_of repo c' \<and>
    fst ` set (ck_content c') = insert k (fst ` set (ck_content c))"
proof -
  have wf: "kv_wf (ck_content c)" using assms by (simp add: chunk_of_def chunk_inv_def)
  have dom: "fst ` set (kv_insert k v (ck_content c)) = insert k (fst ` set (ck_content c))" for v
    using set_fst_kv_insert [of k v "ck_content c"] by simp
  show ?thesis
  proof (cases "kv_lookup (ck_content c) k")
    case None
    let ?v = "(fi_size fi, [path_push path n])"
    let ?c = "c\<lparr>ck_content := kv_insert k ?v (ck_content c), ck_size := ck_size c + fi_size fi\<rparr>"
    have "chunk_inv ?c"
      using assms(1) wf kv_insert_mset_new [OF wf None, of ?v]
      by (simp add: chunk_of_def chunk_inv_mset kv_wf_insert)
    then have "chunk_of repo ?c"
      using assms by (auto simp: chunk_of_def kv_lookup_insert)
    moreover have "add_file repo path (n, k) c = Inr ?c"
      using None assms(2) by (simp add: add_file_def Let_def)
    ultimately show ?thesis using dom by auto
  next
    case (Some w)
    obtain s ps where w: "w = (s, ps)" by force
    with Some assms(1) obtain fi' where "query_file repo k = Inr fi'" "fi_size fi' = s"
      unfolding chunk_of_def by blast
    with assms(2) have s: "s = fi_size fi" by simp
    have "(k, w) \<in> set (ck_content c)" using Some wf by (simp add: kv_lookup_mem)
    then have ps: "ps \<noteq> []" using assms(1) w by (auto simp: chunk_of_def chunk_inv_def list_all_iff)
    let ?v = "(s, ps @ [path_push path n])"
    let ?c = "c\<lparr>ck_content := kv_insert k ?v (ck_content c)\<rparr>"
    note upd = kv_insert_mset_upd [OF wf Some, of ?v]
    have size: "sum_mset (image_mset (\<lambda>e. fst (snd e)) (mset (kv_insert k ?v (ck_content c)))) =
        sum_mset (image_mset (\<lambda>e. fst (snd e)) (mset (ck_content c)))"
      using arg_cong [OF upd, of "\<lambda>M. sum_mset (image_mset (\<lambda>e. fst (snd e)) M)"] w by simp
    have "set_mset (mset (kv_insert k ?v (ck_content c))) \<subseteq> insert (k, ?v) (set (ck_content c))"
      using arg_cong [OF upd, of set_mset] unfolding set_mset_add_mset_insert set_mset_mset by blast
    then have "chunk_inv ?c"
      using assms(1) wf size by (auto simp: chunk_of_def chunk_inv_mset kv_wf_insert)
    then have "chunk_of repo ?c"
      using assms s by (auto simp: chunk_of_def kv_lookup_insert)
    moreover have "add_file repo path (n, k) c = Inr ?c"
      using Some assms(2) w s ps by (simp add: add_file_def Let_def)
    ultimately show ?thesis using dom by auto
  qed
qed

lemma add_files_ok:
  assumes "chunk_of repo c" "list_all (\<lambda>(name, k). plain_name name \<and> is_ok (query_file repo k)) fs"
  shows "\<exists>c'. try_fold (add_file repo path) fs c = Inr c' \<and> chunk_of repo c' \<and>
    fst ` set (ck_content c') = snd ` set fs \<union> fst ` set (ck_content c)"
  using assms
proof (induction fs arbitrary: c)
  case (Cons f fs)
  obtain n k where f: "f = (n, k)" by force
  with Cons.prems obtain fi where "query_file repo k = Inr fi" by (auto simp: is_ok_iff)
  from add_file_ok [OF Cons.prems(1) this, of path n] obtain c1 where
    "add_file repo path (n, k) c = Inr c1" "chunk_of repo c1"
    "fst ` set (ck_content c1) = insert k (fst ` set (ck_content c))" by blast
  with Cons.IH [of c1] Cons.prems(2) f show ?case by auto
qed simp

text \<open>The result of visiting directories: the path is back where it was, the set of visited
  dirtrees is unchanged and the files have been added.\<close>

definition visited :: "object_store \<Rightarrow> rstr set \<Rightarrow> generation \<times> chunk \<Rightarrow> generation \<times> chunk \<Rightarrow> bool" where
  "visited repo files s s' \<longleftrightarrow> chunk_of repo (snd s') \<and>
     components (g_path (fst s')) = components (g_path (fst s)) \<and>
     g_dirtree_found (fst s') = g_dirtree_found (fst s) \<and>
     fst ` set (ck_content (snd s')) = files \<union> fst ` set (ck_content (snd s))"

lemma push_dirtree_ok:
  "load_dirtree repo csum = Inr (n, dt) \<Longrightarrow>
   \<exists>gen'. push_dirtree repo csum gen = Inr (gen', dt) \<and> g_path gen' = g_path gen \<and>
     g_dirtree_found gen' = g_dirtree_found gen"
  by (auto simp: push_dirtree_def insert_absorb)

lemma push_dirmeta_ok:
  "is_ok (load_dirmeta repo csum) \<Longrightarrow>
   \<exists>gen'. push_dirmeta repo csum gen = Inr gen' \<and> g_path gen' = g_path gen \<and>
     g_dirtree_found gen' = g_dirtree_found gen"
  by (auto simp: push_dirmeta_def is_ok_iff Let_def)

lemma path_pop_ok:
  assumes "components (g_path gen) = components p @ [Normal n]"
  shows "\<exists>gen'. path_pop gen = Inr gen' \<and> components (g_path gen') = components p \<and>
    g_dirtree_found gen' = g_dirtree_found gen"
  using assms wf_components_components [of p]
  by (simp add: path_pop_def path_parent_def components_path_collect)

text \<open>One subdirectory, and then all subdirectories, given what the recursion into them does.\<close>

abbreviation recurse_step ::
  "object_store \<Rightarrow> nat \<Rightarrow> rstr \<times> rstr \<times> rstr \<Rightarrow> generation \<times> chunk \<Rightarrow> (generation \<times> chunk) result" where
  "recurse_step repo d \<equiv> \<lambda>(name, contents_csum, meta_csum) (gen, chunk).
     and_then (push_dirtree repo contents_csum (gen\<lparr>g_path := path_push (g_path gen) name\<rparr>)) (\<lambda>(gen, dirtree_v).
     and_then (generate_chunking_recurse repo d dirtree_v (gen, chunk)) (\<lambda>(gen, chunk).
     and_then (push_dirmeta repo meta_csum gen) (\<lambda>gen.
     and_then (path_pop gen) (\<lambda>gen. Inr (gen, chunk)))))"

abbreviation subdir_files :: "object_store \<Rightarrow> nat \<Rightarrow> rstr \<times> rstr \<times> rstr \<Rightarrow> rstr set" where
  "subdir_files repo d e \<equiv> (case load_dirtree repo (fst (snd e)) of Inl _ \<Rightarrow> {} | Inr (_, sub) \<Rightarrow> tree_files repo d sub)"

definition recursion_ok :: "object_store \<Rightarrow> nat \<Rightarrow> bool" where
  "recursion_ok repo d \<longleftrightarrow> (\<forall>c k sub s. tree_loadable repo d c \<and> load_dirtree repo c = Inr (k, sub) \<and> chunk_of repo (snd s) \<longrightarrow>
     (\<exists>s'. generate_chunking_recurse repo d sub s = Inr s' \<and> visited repo (tree_files repo d sub) s s'))"

lemma recurse_step_ok:
  assumes "recursion_ok repo d"
    and "plain_name (fst e)" "is_ok (load_dirmeta repo (snd (snd e)))" "tree_loadable repo d (fst (snd e))" "chunk_of repo (snd s)"
  shows "\<exists>t. recurse_step repo d e s = Inr t \<and> visited repo (subdir_files repo d e) s t"
proof -
  obtain name c m where e: "e = (name, c, m)" by (cases e) auto
  obtain gen chunk where s: "s = (gen, chunk)" by force
  from assms(4) e obtain k sub where ld: "load_dirtree repo c = Inr (k, sub)"
    by (cases d) (auto split: sum.splits)
  let ?gen = "gen\<lparr>g_path := path_push (g_path gen) name\<rparr>"
  from push_dirtree_ok [OF ld, of ?gen] obtain g1 where
    g1: "push_dirtree repo c ?gen = Inr (g1, sub)" "g_path g1 = path_push (g_path gen) name"
      "g_dirtree_found g1 = g_dirtree_found gen" by auto
  have "\<exists>s'. generate_chunking_recurse repo d sub (g1, chunk) = Inr s' \<and> visited repo (tree_files repo d sub) (g1, chunk) s'"
    using assms(1,4,5) ld e s by (simp add: recursion_ok_def)
  then obtain g2 c2 where
    g2: "generate_chunking_recurse repo d sub (g1, chunk) = Inr (g2, c2)"
      "visited repo (tree_files repo d sub) (g1, chunk) (g2, c2)" by auto
  from push_dirmeta_ok [of repo m g2] assms(3) e obtain g3 where
    g3: "push_dirmeta repo m g2 = Inr g3" "g_path g3 = g_path g2" "g_dirtree_found g3 = g_dirtree_found g2"
    by auto
  have "components (g_path g3) = components (g_path gen) @ [Normal name]"
    using g2(2) g3(2) g1(2) components_push [of name "g_path gen"] assms(2) e by (simp add: visited_def)
  from path_pop_ok [OF this] obtain g4 where
    "path_pop g3 = Inr g4" "components (g_path g4) = components (g_path gen)"
    "g_dirtree_found g4 = g_dirtree_found g3" by blast
  then show ?thesis
    using g1 g2 g3 ld by (simp add: e s visited_def)
qed

lemma recurse_steps_ok:
  assumes "recursion_ok repo d"
    and "list_all (\<lambda>(name, c, m). plain_name name \<and> is_ok (load_dirmeta repo m) \<and> tree_loadable repo d c) ds"
    and "chunk_of repo (snd s)"
  shows "\<exists>t. try_fold (recurse_step repo d) ds s = Inr t \<and> visited repo (\<Union>e \<in> set ds. subdir_files repo d e) s t"
  using assms(2,3)
proof (induction ds arbitrary: s)
  case Nil
  then show ?case by (simp add: visited_def)
next
  case (Cons e ds)
  from recurse_step_ok [OF assms(1), of e s] Cons.prems obtain t where
    t: "recurse_step repo d e s = Inr t" "visited repo (subdir_files repo d e) s t"
    by (auto split: prod.splits)
  moreover from this(2) have "chunk_of repo (snd t)" by (simp add: visited_def)
  moreover from Cons.IH [OF _ this] Cons.prems obtain u where
    "try_fold (recurse_step repo d) ds t = Inr u" "visited repo (\<Union>e \<in> set ds. subdir_files repo d e) t u" by auto
  ultimately show ?case by (auto simp: visited_def)
qed

lemma generate_chunking_recurse_ok:
  assumes "tree_loadable repo d csum" "load_dirtree repo csum = Inr (n, dt)" "chunk_of repo (snd s)"
  shows "\<exists>s'. generate_chunking_recurse repo d dt s = Inr s' \<and> visited repo (tree_files repo d dt) s s'"
  using assms
proof (induction d arbitrary: csum n dt s)
  case (Suc d)
  obtain gen chunk where s: "s = (gen, chunk)" by force
  from Suc.prems have files: "list_all (\<lambda>(name, k). plain_name name \<and> is_ok (query_file repo k)) (dt_files dt)"
    and ds: "list_all (\<lambda>(name, c, m). plain_name name \<and> is_ok (load_dirmeta repo m) \<and> tree_loadable repo d c) (dt_dirs dt)"
    by auto
  from add_files_ok [OF _ files, of chunk "g_path gen"] Suc.prems(3) s obtain c1 where
    c1: "try_fold (add_file repo (g_path gen)) (dt_files dt) chunk = Inr c1" "chunk_of repo c1"
      "fst ` set (ck_content c1) = snd ` set (dt_files dt) \<union> fst ` set (ck_content chunk)" by auto
  have "recursion_ok repo d" using Suc.IH unfolding recursion_ok_def by blast
  from recurse_steps_ok [OF this ds, of "(gen, c1)"] c1 obtain t where
    "try_fold (recurse_step repo d) (dt_dirs dt) (gen, c1) = Inr t"
    "visited repo (\<Union>e \<in> set (dt_dirs dt). subdir_files repo d e) (gen, c1) t"
    by auto
  with c1 show ?case by (auto simp: s visited_def)
qed simp

lemma chunking_new_ok:
  assumes "require_rev repo r = Inr commit" "load_commit repo commit = Inr co"
    and "tree_loadable repo d (co_tree co)" "load_dirtree repo (co_tree co) = Inr (n, dt)"
    and "is_ok (load_dirmeta repo (co_meta co))"
  shows "\<exists>ck. chunking_new repo d r = Inr ck \<and> chunks ck = [] \<and> \<not> processed_mapping ck \<and>
    chunk_inv (remainder ck) \<and> fst ` set (ck_content (remainder ck)) = tree_files repo d dt"
proof -
  let ?gen = "\<lparr>g_path = [slash], g_metadata_size = 0, g_dirtree_found = {}, g_dirmeta_found = {}\<rparr>"
  obtain g1 where g1: "push_dirtree repo (co_tree co) ?gen = Inr (g1, dt)"
    using push_dirtree_ok [OF assms(4)] by blast
  obtain g2 where g2: "push_dirmeta repo (co_meta co) g1 = Inr g2"
    using push_dirmeta_ok [OF assms(5)] by blast
  have "chunk_of repo (snd (g2, chunk_new []))"
    by (simp add: chunk_of_def)
  from generate_chunking_recurse_ok [OF assms(3,4) this] obtain g3 ck where
    "generate_chunking_recurse repo d dt (g2, chunk_new []) = Inr (g3, ck)"
    "visited repo (tree_files repo d dt) (g2, chunk_new []) (g3, ck)" by auto
  then show ?thesis
    using assms g1 g2 by (simp add: chunking_new_def Let_def visited_def chunk_of_def)
qed

text \<open>The set of visited dirtrees never grows, so that a dirtree that occurs twice is counted twice.\<close>

lemma push_dirtree_counts_again:
  assumes "load_dirtree repo csum = Inr (n, dt)" "csum \<notin> g_dirtree_found gen"
  shows "\<exists>g1 g2. push_dirtree repo csum gen = Inr (g1, dt) \<and> push_dirtree repo csum g1 = Inr (g2, dt) \<and>
    g_metadata_size g2 = g_metadata_size gen + of_nat n + of_nat n"
  using assms by (simp add: push_dirtree_def)

subsection \<open>The sizes of components\<close>

definition object_size :: "object_store \<Rightarrow> rstr \<Rightarrow> u64" where
  "object_size repo k = (case query_file repo k of Inr fi \<Rightarrow> fi_size fi | Inl _ \<Rightarrow> 0)"

definition component_size :: "object_store \<Rightarrow> (rstr \<times> rstr) list \<Rightarrow> rstr \<Rightarrow> u64" where
  "component_size repo es cid = sum_list (map (\<lambda>(k, _). object_size repo k) (filter (\<lambda>(_, c). c = cid) es))"

lemma component_size_simps [simp]:
  "component_size repo [] cid = 0"
  "component_size repo ((k, c) # es) cid = (if c = cid then object_size repo k else 0) + component_size repo es cid"
  by (simp_all add: component_size_def)

lemma component_size_other [simp]: "cid \<notin> snd ` set es \<Longrightarrow> component_size repo es cid = 0"
  by (induction es) auto

lemma add_sizes_Inr:
  assumes "try_fold (add_size repo) es sizes = Inr sizes'" "kv_wf sizes"
  shows "\<forall>e \<in> set es. is_ok (query_file repo (fst e))" "kv_wf sizes'"
    "kv_lookup sizes' c = (if c \<in> snd ` set es
      then Some ((case kv_lookup sizes c of None \<Rightarrow> 0 | Some s \<Rightarrow> s) + component_size repo es c) else kv_lookup sizes c)"
proof -
  have "(\<forall>e \<in> set es. is_ok (query_file repo (fst e))) \<and> kv_wf sizes' \<and>
    kv_lookup sizes' c = (if c \<in> snd ` set es
      then Some ((case kv_lookup sizes c of None \<Rightarrow> 0 | Some s \<Rightarrow> s) + component_size repo es c) else kv_lookup sizes c)"
    using assms
  proof (induction es arbitrary: sizes)
    case (Cons e es)
    obtain k d where e: "e = (k, d)" by force
    let ?sizes = "\<lambda>fi. kv_insert d ((case kv_lookup sizes d of None \<Rightarrow> 0 | Some s \<Rightarrow> s) + fi_size fi) sizes"
    from Cons.prems(1) obtain fi where fi: "query_file repo k = Inr fi"
      and rest: "try_fold (add_size repo) es (?sizes fi) = Inr sizes'"
      by (auto simp: e add_size_def result_simps Let_def)
    have size: "object_size repo k = fi_size fi" using fi by (simp add: object_size_def)
    have "kv_wf (?sizes fi)" using Cons.prems(2) by (rule kv_wf_insert)
    from Cons.IH [OF rest this] fi show ?case
      by (cases "c = d") (auto simp: e kv_lookup_insert size is_ok_iff add.assoc)
  qed simp
  then show "\<forall>e \<in> set es. is_ok (query_file repo (fst e))" "kv_wf sizes'"
    "kv_lookup sizes' c = (if c \<in> snd ` set es
      then Some ((case kv_lookup sizes c of None \<Rightarrow> 0 | Some s \<Rightarrow> s) + component_size repo es c) else kv_lookup sizes c)"
    by simp_all
qed

lemma add_sizes_ok:
  "\<forall>e \<in> set es. is_ok (query_file repo (fst e)) \<Longrightarrow> is_ok (try_fold (add_size repo) es sizes)"
  by (induction es arbitrary: sizes) (auto simp: add_size_def is_ok_iff Let_def)

lemma sized_component:
  "and_then (ok_or e (find (\<lambda>m. osm_identifier m = cid) ms)) (\<lambda>m. Inr \<lparr>oms_meta = m, oms_size = sz\<rparr>) = Inr c \<longleftrightarrow>
   find (\<lambda>m. osm_identifier m = cid) ms = Some (oms_meta c) \<and> oms_size c = sz"
  by (cases c) (auto simp: result_simps)

lemma compute_sizes_Inr:
  assumes "compute_sizes repo meta = Inr sized"
  shows "oz_map sized = om_map meta" "sorted (rev (map oms_size (oz_sizes sized)))"
    "distinct (map (\<lambda>c. osm_identifier (oms_meta c)) (oz_sizes sized))"
    "(\<lambda>c. osm_identifier (oms_meta c)) ` set (oz_sizes sized) = snd ` set (om_map meta)"
    "\<And>c. c \<in> set (oz_sizes sized) \<Longrightarrow> oms_meta c \<in> set (om_set meta) \<and>
       oms_size c = component_size repo (om_map meta) (osm_identifier (oms_meta c))"
proof -
  obtain sizes cs where s: "try_fold (add_size repo) (om_map meta) [] = Inr sizes"
    and cs: "try_map (\<lambda>(cid, sz). and_then (ok_or (Err ''Failed to find in content set'')
        (find (\<lambda>m. osm_identifier m = cid) (om_set meta))) (\<lambda>meta. Inr \<lparr>oms_meta = meta, oms_size = sz\<rparr>)) sizes = Inr cs"
    and sized: "sized = \<lparr>oz_map = om_map meta, oz_sizes = rev (sort_key oms_size (rev cs))\<rparr>"
    using assms by (auto simp: compute_sizes_def result_simps)
  have lookup: "kv_lookup sizes c = (if c \<in> snd ` set (om_map meta) then Some (component_size repo (om_map meta) c) else None)" for c
    using add_sizes_Inr(3) [OF s, of c] by simp
  have wf: "kv_wf sizes" using add_sizes_Inr(2) [OF s] by simp
  have c2: "list_all2 (\<lambda>e c. osm_identifier (oms_meta c) = fst e \<and> oms_meta c \<in> set (om_set meta) \<and> oms_size c = snd e) sizes cs"
    using cs unfolding try_map_Inr_iff
    by (rule list_all2_mono) (auto simp: sized_component find_Some_iff split: prod.splits)
  then have ids: "map (\<lambda>c. osm_identifier (oms_meta c)) cs = map fst sizes"
    by (induction rule: list_all2_induct) auto
  show "oz_map sized = om_map meta" "sorted (rev (map oms_size (oz_sizes sized)))"
    by (simp_all add: sized rev_map)
  show "distinct (map (\<lambda>c. osm_identifier (oms_meta c)) (oz_sizes sized))"
    using kv_wf_distinct [OF wf] by (simp add: sized distinct_map flip: ids)
  have "k \<in> fst ` set sizes \<longleftrightarrow> k \<in> snd ` set (om_map meta)" for k
    using kv_lookup_None [of sizes k] lookup [of k] by (cases "k \<in> snd ` set (om_map meta)") simp_all
  then have "fst ` set sizes = snd ` set (om_map meta)" by blast
  then show "(\<lambda>c. osm_identifier (oms_meta c)) ` set (oz_sizes sized) = snd ` set (om_map meta)"
    using arg_cong [OF ids, of set] by (simp add: sized)
  fix c assume "c \<in> set (oz_sizes sized)"
  then have "c \<in> set cs" by (simp add: sized)
  with c2 have "\<exists>e \<in> set sizes. osm_identifier (oms_meta c) = fst e \<and> oms_meta c \<in> set (om_set meta) \<and> oms_size c = snd e"
    by (induction rule: list_all2_induct) auto
  then obtain e where e: "e \<in> set sizes" "osm_identifier (oms_meta c) = fst e" "oms_meta c \<in> set (om_set meta)" "oms_size c = snd e"
    by blast
  then have "kv_lookup sizes (fst e) = Some (snd e)" using wf by (simp add: kv_lookup_mem)
  with e lookup show "oms_meta c \<in> set (om_set meta) \<and>
      oms_size c = component_size repo (om_map meta) (osm_identifier (oms_meta c))"
    by (auto split: if_splits)
qed

lemma compute_sizes_ok_iff:
  "is_ok (compute_sizes repo meta) \<longleftrightarrow>
   (\<forall>(k, cid) \<in> set (om_map meta). is_ok (query_file repo k) \<and> cid \<in> osm_identifier ` set (om_set meta))" (is "?l \<longleftrightarrow> ?r")
proof
  assume ?l
  then obtain sized where sized: "compute_sizes repo meta = Inr sized" by (auto simp: is_ok_iff)
  then obtain sizes where "try_fold (add_size repo) (om_map meta) [] = Inr sizes"
    by (auto simp: compute_sizes_def result_simps)
  then have ok: "\<forall>e \<in> set (om_map meta). is_ok (query_file repo (fst e))" by (rule add_sizes_Inr(1)) simp
  have "osm_identifier (oms_meta c) \<in> osm_identifier ` set (om_set meta)" if "c \<in> set (oz_sizes sized)" for c
    using compute_sizes_Inr(5) [OF sized that] by blast
  then have "snd ` set (om_map meta) \<subseteq> osm_identifier ` set (om_set meta)"
    unfolding compute_sizes_Inr(4) [OF sized, symmetric] by blast
  with ok show ?r by (metis (no_types, lifting) case_prodI2 fst_conv image_eqI snd_conv subsetD)
next
  assume r: ?r
  then have "is_ok (try_fold (add_size repo) (om_map meta) [])" by (intro add_sizes_ok) auto
  then obtain sizes where s: "try_fold (add_size repo) (om_map meta) [] = Inr sizes" by (auto simp: is_ok_iff)
  have key: "cid \<in> osm_identifier ` set (om_set meta)" if "(cid, sz) \<in> set sizes" for cid sz
  proof -
    have "cid \<in> fst ` set sizes" using that by (rule rev_image_eqI) simp
    then have "kv_lookup sizes cid \<noteq> None" using kv_lookup_None [of sizes cid] by blast
    then have "cid \<in> snd ` set (om_map meta)" using add_sizes_Inr(3) [OF s, of cid] by (auto split: if_splits)
    with r show ?thesis by auto
  qed
  have "find (\<lambda>m. osm_identifier m = cid) (om_set meta) \<noteq> None" if "(cid, sz) \<in> set sizes" for cid sz
    using key [OF that] by (auto simp: find_None_iff)
  then have "try_map (\<lambda>(cid, sz). and_then (ok_or (Err ''Failed to find in content set'')
        (find (\<lambda>m. osm_identifier m = cid) (om_set meta))) (\<lambda>meta. Inr \<lparr>oms_meta = meta, oms_size = sz\<rparr>)) sizes =
      Inr (map (\<lambda>(cid, sz). \<lparr>oms_meta = the (find (\<lambda>m. osm_identifier m = cid) (om_set meta)), oms_size = sz\<rparr>) sizes)"
    by (intro try_map_Inr) (force simp: result_simps split: prod.splits)
  with s show ?l by (simp add: compute_sizes_def is_ok_iff)
qed

lemma process_mapping_total:
  assumes "\<not> processed_mapping c" "chunks c = []" "chunk_inv (remainder c)" "m \<noteq> 0"
    and "basic_packing (oz_sizes meta) m None = Inr bins"
    and "\<forall>s \<in> set (oz_sizes meta). osm_identifier (oms_meta s) \<in> snd ` set (oz_map meta)"
    and "\<forall>k \<in> fst ` set (ck_content (remainder c)). \<exists>s \<in> set (oz_sizes meta).
           (k, osm_identifier (oms_meta s)) \<in> set (oz_map meta)"
  shows "\<exists>c'. process_mapping meta (Some m) None c = Inr c' \<and>
    map ck_packages (chunks c') = map (map (\<lambda>v. osm_name (oms_meta v))) bins"
proof -
  obtain c0 where c0: "remainder c0 = remainder c" "chunks c0 = []"
    and eq: "process_mapping meta (Some m) None c =
      and_then (try_fold (process_bin (reverse_map (oz_map meta))) bins c0) (\<lambda>self.
      and_then (ensure (ck_content (remainder self) = []) (Panic ''self.remainder.content.len()'')) (\<lambda>_.
      Inr self))"
    using process_mapping_eq [OF assms(1,2,4), of meta None] assms(5) by auto
  have sb: "set (concat bins) = set (oz_sizes meta)"
    using new_packing.packed_set [OF _ assms(5)] by simp
  then obtain c' where c': "try_fold (process_bin (reverse_map (oz_map meta))) bins c0 = Inr c'"
    using process_bins_total [of bins "oz_map meta" c0] assms(6) by auto
  have "chunking_inv (mset (ck_content (remainder c))) c0"
    using assms(3) c0
    by (simp add: chunking_inv_def all_objects_def objects_distinct_list chunk_inv_def kv_wf_distinct)
  note inv = process_bins_inv [OF this c']
  have "kv_lookup (ck_content (remainder c')) k = None" for k
  proof (cases "k \<in> fst ` set (ck_content (remainder c))")
    case True
    with assms(7) obtain s where s: "s \<in> set (oz_sizes meta)" "(k, osm_identifier (oms_meta s)) \<in> set (oz_map meta)"
      by blast
    then obtain objs where o: "kv_lookup (reverse_map (oz_map meta)) (osm_identifier (oms_meta s)) = Some objs"
      by (force simp: reverse_map_Some filter_empty_conv)
    then have "k \<in> set objs"
      using s(2) by (force simp: reverse_map_Some)
    with s(1) sb o have "\<exists>c \<in> set (concat bins). k \<in> set (the (kv_lookup (reverse_map (oz_map meta)) (osm_identifier (oms_meta c))))"
      by (intro bexI [of _ s]) simp_all
    with inv show ?thesis by simp
  next
    case False
    with inv c0 show ?thesis by (simp add: kv_lookup_None [symmetric])
  qed
  then have "k \<notin> fst ` set (ck_content (remainder c'))" for k
    using kv_lookup_None [of "ck_content (remainder c')" k] by simp
  then have "fst ` set (ck_content (remainder c')) = {}"
    by (intro equals0I) simp
  then have "ck_content (remainder c') = []" by simp
  with eq c' inv c0 show ?thesis by simp
qed

section \<open>Properties\<close>

text \<open>C4: when the mapping of a chunking with one initial chunk has been processed, the remainder is
  empty and every object, with its size and all its paths, is in exactly one of the new chunks; each
  chunk's recorded size is the sum of its objects' sizes, and there are at most as many chunks as
  requested.\<close>

theorem process_mapping_partitions_objects:
  assumes "\<not> processed_mapping c" "chunks c = []" "chunk_inv (remainder c)" "m \<noteq> 0"
    and "process_mapping meta (Some m) prior c = Inr c'"
  shows "ck_content (remainder c') = [] \<and>
    mset (concat (map ck_content (chunks c'))) = mset (ck_content (remainder c)) \<and>
    list_all chunk_inv (chunks c') \<and>
    sum_list (map ck_size (chunks c')) = ck_size (remainder c) \<and> length (chunks c') \<le> m"
  by (rule process_mapping_InrD [OF assms])

definition sample_chunking :: chunking where
  "sample_chunking =
     \<lparr>metadata_size = 7,
      remainder = \<lparr>ck_name = [], ck_content = [([49], 5, [str ''/usr/a'']), ([50], 6, [str ''/usr/b'', str ''/usr/c''])],
                   ck_size = 11, ck_packages = []\<rparr>,
      chunks = [], max_chunks = 0, processed_mapping = False, n_provided_components = 0,
      n_sized_components = 0\<rparr>"

definition sample_meta :: object_meta_sized where
  "sample_meta = \<lparr>oz_map = [([49], str ''p1''), ([50], str ''p2'')],
                  oz_sizes = [sample_pkg 2 3 6, sample_pkg 1 3 5]\<rparr>"

lemma sample_chunking_inv: "chunk_inv (remainder sample_chunking)"
  by (simp add: sample_chunking_def chunk_inv_def kv_wf_def content_size_def)

theorem process_mapping_partitions_objects_witness:
  "\<exists>c'. process_mapping sample_meta (Some 4) None sample_chunking = Inr c' \<and>
     ck_content (remainder c') = [] \<and>
     mset (concat (map ck_content (chunks c'))) =
       {#([49], 5, [str ''/usr/a'']), ([50], 6, [str ''/usr/b'', str ''/usr/c''])#} \<and>
     map ck_name (chunks c') = [str ''p2'', str ''p1'', str ''Reserved for new packages'']"
proof -
  have ex: "map_sum id (\<lambda>c. map ck_name (chunks c)) (process_mapping sample_meta (Some 4) None sample_chunking) =
      Inr [str ''p2'', str ''p1'', str ''Reserved for new packages'']"
    by code_simp
  then obtain c' where c': "process_mapping sample_meta (Some 4) None sample_chunking = Inr c'"
      "map ck_name (chunks c') = [str ''p2'', str ''p1'', str ''Reserved for new packages'']"
    by (cases "process_mapping sample_meta (Some 4) None sample_chunking") auto
  from process_mapping_partitions_objects [OF _ _ sample_chunking_inv _ c'(1)] c' show ?thesis
    by (intro exI [of _ c']) (simp add: sample_chunking_def)
qed

text \<open>Processing succeeds, for every packing that exists, when each component owns an object and
  each object of the commit belongs to a component: no lookup and no assertion panics.  The chunks
  carry the component names of their bins.\<close>

theorem process_mapping_succeeds:
  assumes "\<not> processed_mapping c" "chunks c = []" "chunk_inv (remainder c)" "m \<noteq> 0"
    and "basic_packing (oz_sizes meta) m None = Inr bins"
    and "\<forall>s \<in> set (oz_sizes meta). osm_identifier (oms_meta s) \<in> snd ` set (oz_map meta)"
    and "\<forall>k \<in> fst ` set (ck_content (remainder c)). \<exists>s \<in> set (oz_sizes meta).
           (k, osm_identifier (oms_meta s)) \<in> set (oz_map meta)"
  shows "\<exists>c'. process_mapping meta (Some m) None c = Inr c' \<and>
    map ck_packages (chunks c') = map (map (\<lambda>v. osm_name (oms_meta v))) bins"
  by (rule process_mapping_total [OF assms])

theorem process_mapping_succeeds_witness:
  "\<exists>c'. process_mapping sample_meta (Some 4) None sample_chunking = Inr c' \<and>
     map ck_packages (chunks c') = [[str ''p2''], [str ''p1''], []]"
proof -
  have "basic_packing (oz_sizes sample_meta) 4 None = Inr [[sample_pkg 2 3 6], [sample_pkg 1 3 5], []]"
    by code_simp
  from process_mapping_succeeds [OF _ _ sample_chunking_inv _ this] show ?thesis
    by (simp add: sample_chunking_def sample_meta_def sample_pkg_def str_simps)
qed

definition sample_store :: object_store where
  "sample_store =
     \<lparr>query_file = (\<lambda>c. if c = [49] then Inr \<lparr>fi_type = FRegular, fi_size = 5, fi_uid = 0, fi_gid = 0,
                                  fi_mode = 33188, fi_symlink_target = None\<rparr>
                       else if c = [50] then Inr \<lparr>fi_type = FRegular, fi_size = 6, fi_uid = 0, fi_gid = 0,
                                  fi_mode = 33188, fi_symlink_target = None\<rparr>
                       else Inl (Err ''no such file''))
      , file_xattrs = (\<lambda>_. Inr [])
      , load_dirtree = (\<lambda>c. if c = [114] then Inr (40, \<lparr>dt_files = [(str ''a'', [49])], dt_dirs = [(str ''usr'', [117], [109])]\<rparr>)
                          else if c = [117] then Inr (30, \<lparr>dt_files = [(str ''b'', [50]), (str ''c'', [50])], dt_dirs = []\<rparr>)
                          else Inl (Err ''no such dirtree''))
      , load_dirmeta = (\<lambda>c. Inr (12, \<lparr>dm_uid = 0, dm_gid = 0, dm_mode = 16877, dm_xattrs = []\<rparr>))
      , require_rev = (\<lambda>r. Inr [99])
      , load_commit = (\<lambda>c. Inr \<lparr>co_metadata = [], co_parent = None, co_subject = [], co_body = [],
                                co_timestamp = 0, co_tree = [114], co_meta = [109]\<rparr>)\<rparr>"

text \<open>C25: the sizes of components.  They can be computed exactly when every object of the map can be queried and its
  component is in the set.  The result has each component that owns an object once, the largest first, with the sum of
  the sizes of its objects as a 64-bit word.\<close>

theorem compute_sizes_correct:
  "(is_ok (compute_sizes repo meta) \<longleftrightarrow>
      (\<forall>(k, cid) \<in> set (om_map meta). is_ok (query_file repo k) \<and> cid \<in> osm_identifier ` set (om_set meta)))
   \<and> (compute_sizes repo meta = Inr sized \<longrightarrow>
        sorted (rev (map oms_size (oz_sizes sized)))
        \<and> distinct (map (\<lambda>c. osm_identifier (oms_meta c)) (oz_sizes sized))
        \<and> (\<lambda>c. osm_identifier (oms_meta c)) ` set (oz_sizes sized) = snd ` set (om_map meta)
        \<and> (\<forall>c \<in> set (oz_sizes sized). oms_size c = component_size repo (om_map meta) (osm_identifier (oms_meta c))))"
  using compute_sizes_ok_iff [of repo meta] compute_sizes_Inr [of repo meta sized] by simp

theorem compute_sizes_correct_witness:
  "\<exists>sized. compute_sizes sample_store \<lparr>om_set = map oms_meta (oz_sizes sample_meta), om_map = oz_map sample_meta\<rparr> = Inr sized \<and>
     map oms_size (oz_sizes sized) = [6, 5] \<and> sorted (rev (map oms_size (oz_sizes sized)))"
proof -
  let ?meta = "\<lparr>om_set = map oms_meta (oz_sizes sample_meta), om_map = oz_map sample_meta\<rparr>"
  define sized where "sized = (case compute_sizes sample_store ?meta of Inr x \<Rightarrow> x | Inl _ \<Rightarrow> undefined)"
  have run: "compute_sizes sample_store ?meta = Inr sized"
    unfolding sized_def by code_simp
  have "map_option (\<lambda>x. map oms_size (oz_sizes x)) (case compute_sizes sample_store ?meta of Inr x \<Rightarrow> Some x | Inl _ \<Rightarrow> None) = Some [6, 5]"
    by code_simp
  with run compute_sizes_correct [of sample_store ?meta sized] show ?thesis by simp
qed

text \<open>C31: chunking a loadable commit with a component map.  When it succeeds, each file object reachable from the root
  of the commit is in exactly one chunk, and the chunks hold nothing else.  Without a prior build it does succeed when
  the components can be packed, each of them has objects in the map, and each file object of the commit belongs to one
  of them.  So when it cannot place an object it fails, and never returns chunks that miss one.\<close>

theorem from_mapping_covers_commit:
  assumes "require_rev repo r = Inr commit" "load_commit repo commit = Inr co"
    and "tree_loadable repo d (co_tree co)" "load_dirtree repo (co_tree co) = Inr (n, dt)"
    and "is_ok (load_dirmeta repo (co_meta co))" "m \<noteq> 0"
  shows "(\<forall>c. from_mapping repo d r meta (Some m) prior = Inr c \<longrightarrow>
       distinct (map fst (concat (map ck_content (chunks c)))) \<and>
       set (map fst (concat (map ck_content (chunks c)))) = tree_files repo d dt) \<and>
    (is_ok (basic_packing (oz_sizes meta) m None) \<and>
     (\<forall>s \<in> set (oz_sizes meta). osm_identifier (oms_meta s) \<in> snd ` set (oz_map meta)) \<and>
     (\<forall>k \<in> tree_files repo d dt. \<exists>s \<in> set (oz_sizes meta). (k, osm_identifier (oms_meta s)) \<in> set (oz_map meta)) \<longrightarrow>
     is_ok (from_mapping repo d r meta (Some m) None))"
proof -
  obtain ck where ck: "chunking_new repo d r = Inr ck" "chunks ck = []" "\<not> processed_mapping ck"
    "chunk_inv (remainder ck)" "fst ` set (ck_content (remainder ck)) = tree_files repo d dt"
    using chunking_new_ok [OF assms(1-5)] by blast
  have "distinct (map fst (concat (map ck_content (chunks c)))) \<and>
      set (map fst (concat (map ck_content (chunks c)))) = tree_files repo d dt"
    if "from_mapping repo d r meta (Some m) prior = Inr c" for c
  proof -
    have "process_mapping meta (Some m) prior ck = Inr c"
      using that ck(1) by (simp add: from_mapping_def)
    from process_mapping_InrD [OF ck(3,2,4) assms(6) this]
    have "mset (concat (map ck_content (chunks c))) = mset (ck_content (remainder ck))" by simp
    moreover have "distinct (map fst (ck_content (remainder ck)))"
      using ck(4) by (simp add: chunk_inv_def kv_wf_distinct)
    ultimately show ?thesis
      using ck(5) objects_distinct_list [of "concat (map ck_content (chunks c))"]
        objects_distinct_list [of "ck_content (remainder ck)"]
      by (metis list.set_map set_mset_mset)
  qed
  moreover have "is_ok (from_mapping repo d r meta (Some m) None)"
    if pack: "is_ok (basic_packing (oz_sizes meta) m None)"
      and has: "\<forall>s \<in> set (oz_sizes meta). osm_identifier (oms_meta s) \<in> snd ` set (oz_map meta)"
      and owned: "\<forall>k \<in> tree_files repo d dt. \<exists>s \<in> set (oz_sizes meta). (k, osm_identifier (oms_meta s)) \<in> set (oz_map meta)"
  proof -
    obtain bins where "basic_packing (oz_sizes meta) m None = Inr bins" using pack by (auto simp: is_ok_iff)
    from process_mapping_total [OF ck(3,2,4) assms(6) this has] owned ck(1) show ?thesis
      unfolding ck(5) by (auto simp: from_mapping_def is_ok_iff)
  qed
  ultimately show ?thesis by blast
qed

theorem from_mapping_covers_commit_witness:
  "\<exists>c. from_mapping sample_store 2 (str ''main'') sample_meta (Some 4) None = Inr c \<and>
     set (map fst (concat (map ck_content (chunks c)))) = {[49], [50]}"
proof -
  have load: "load_dirtree sample_store [114] = Inr (40, \<lparr>dt_files = [(str ''a'', [49])], dt_dirs = [(str ''usr'', [117], [109])]\<rparr>)"
    "load_dirtree sample_store [117] = Inr (30, \<lparr>dt_files = [(str ''b'', [50]), (str ''c'', [50])], dt_dirs = []\<rparr>)"
    by (simp_all add: sample_store_def)
  have ok: "tree_loadable sample_store 2 [114]"
    by (simp add: load numeral_2_eq_2) (simp add: sample_store_def plain_name_def path_consts str_simps)
  have files: "tree_files sample_store 2 \<lparr>dt_files = [(str ''a'', [49])], dt_dirs = [(str ''usr'', [117], [109])]\<rparr> = {[49], [50]}"
    by (auto simp: load numeral_2_eq_2)
  have co: "load_commit sample_store [99] = Inr \<lparr>co_metadata = [], co_parent = None, co_subject = [], co_body = [],
      co_timestamp = 0, co_tree = [114], co_meta = [109]\<rparr>" "require_rev sample_store (str ''main'') = Inr [99]"
      "is_ok (load_dirmeta sample_store [109])"
    by (simp_all add: sample_store_def)
  have "is_ok (basic_packing (oz_sizes sample_meta) 4 None)"
      "\<forall>s \<in> set (oz_sizes sample_meta). osm_identifier (oms_meta s) \<in> snd ` set (oz_map sample_meta)"
      "\<forall>k \<in> {[49], [50]}. \<exists>s \<in> set (oz_sizes sample_meta). (k, osm_identifier (oms_meta s)) \<in> set (oz_map sample_meta)"
    by code_simp+
  with from_mapping_covers_commit [OF co(2,1), of 2 40 "\<lparr>dt_files = [(str ''a'', [49])], dt_dirs = [(str ''usr'', [117], [109])]\<rparr>"
      4 sample_meta None] co(3) ok load(1)
  show ?thesis unfolding files by (auto simp: is_ok_iff)
qed

end
