(* ===== verification/Refescape.thy ===== *)
theory Refescape
  imports Prelude
begin

text \<open>
  Escaping of arbitrary names into ostree refs (\<^verbatim>\<open>lib/src/refescape.rs\<close>).

  \<open>escape_for_ref\<close> and \<open>unescape_for_ref\<close> follow the two loops of the source: the escaper
  threads \<^verbatim>\<open>previous_alphanumeric\<close> and looks one char ahead for \<^verbatim>\<open>has_next\<close>; the unescaper reads
  \<^verbatim>\<open>_XX_\<close> groups up to the closing underscore (or the end of the string).  The lemmas show that
  every escaped name is read back, that escaping is injective, and that its output is a sequence of
  non-empty components over the characters ostree accepts.
\<close>

section \<open>Definitions\<close>

subsection \<open>Hexadecimal numbers of the standard library\<close>

definition hex_upper :: "nat \<Rightarrow> rchar" where
  "hex_upper d = (if d < 10 then 48 + d else 55 + d)"

fun hex_digits :: "nat \<Rightarrow> rstr" where
  "hex_digits n = (if n < 16 then [hex_upper n] else hex_digits (n div 16) @ [hex_upper (n mod 16)])"

declare hex_digits.simps [simp del]

text \<open>The format \<^verbatim>\<open>{:02X}\<close>.\<close>

definition fmt_02X :: "nat \<Rightarrow> rstr" where
  "fmt_02X n = (let d = hex_digits n in replicate (2 - length d) 48 @ d)"

text \<open>\<^verbatim>\<open>char::to_digit(16)\<close> and \<^verbatim>\<open>u32::from_str_radix(_, 16)\<close>, with its optional leading \<^verbatim>\<open>+\<close> and
  its overflow check.\<close>

definition to_digit16 :: "rchar \<Rightarrow> nat option" where
  "to_digit16 c =
     (if is_ascii_digit c then Some (c - 48)
      else if 65 \<le> c \<and> c \<le> 70 then Some (c - 55)
      else if 97 \<le> c \<and> c \<le> 102 then Some (c - 87)
      else None)"

fun parse_hex_digits :: "nat \<Rightarrow> rstr \<Rightarrow> nat result" where
  "parse_hex_digits acc [] = Inr acc"
| "parse_hex_digits acc (c # cs) =
     (case to_digit16 c of
        None \<Rightarrow> Inl (Err ''invalid digit found in string'')
      | Some d \<Rightarrow> if acc * 16 + d < 2 ^ 32 then parse_hex_digits (acc * 16 + d) cs
                  else Inl (Err ''number too large to fit in target type''))"

definition u32_from_str_radix16 :: "rstr \<Rightarrow> nat result" where
  "u32_from_str_radix16 s =
     (case s of
        [] \<Rightarrow> Inl (Err ''cannot parse integer from empty string'')
      | c # cs \<Rightarrow> if c = 43 \<and> cs \<noteq> [] then parse_hex_digits 0 cs else parse_hex_digits 0 s)"

text \<open>\<^verbatim>\<open>char::try_from(u32)\<close>.\<close>

definition char_from_u32 :: "nat \<Rightarrow> rchar result" where
  "char_from_u32 v = (if is_scalar v then Inr v else Inl (Err ''converted integer out of range for `char`''))"

subsection \<open>Escaping\<close>

definition escape_c :: "rchar \<Rightarrow> rstr" where
  "escape_c c = [95] @ fmt_02X c @ [95]"

definition escape_one :: "bool \<Rightarrow> bool \<Rightarrow> rchar \<Rightarrow> rstr" where
  "escape_one previous_alphanumeric has_next c =
     (if is_ascii_alphanumeric c then [c]
      else if c = 47 \<and> previous_alphanumeric \<and> has_next then [c]
      else if c = 45 then [c]
      else if c = 95 then [95, 95]
      else escape_c c)"

fun escape_loop :: "bool \<Rightarrow> rstr \<Rightarrow> rstr result" where
  "escape_loop previous_alphanumeric [] = Inr []"
| "escape_loop previous_alphanumeric (c # it) =
     (if c = 0 then Inl (Err ''Invalid embedded NUL in string for ostree ref'')
      else and_then (escape_loop (is_ascii_alphanumeric c) it)
             (\<lambda>r. Inr (escape_one previous_alphanumeric (it \<noteq> []) c @ r)))"

definition escape_for_ref :: "rstr \<Rightarrow> rstr result" where
  "escape_for_ref s =
     (if s = [] then Inl (Err ''Invalid empty string for ref'') else escape_loop False s)"

definition prefix_escape_for_ref :: "rstr \<Rightarrow> rstr \<Rightarrow> rstr result" where
  "prefix_escape_for_ref prefix s = and_then (escape_for_ref s) (\<lambda>e. Inr (prefix @ [47] @ e))"

subsection \<open>Unescaping\<close>

function unescape_for_ref :: "rstr \<Rightarrow> rstr result" where
  "unescape_for_ref [] = Inr []"
| "unescape_for_ref (c # it) =
     (if is_ascii_alphanumeric c \<or> c = 45 \<or> c = 47 then
        and_then (unescape_for_ref it) (\<lambda>r. Inr (c # r))
      else if c = 95 then
        (case it of
           [] \<Rightarrow> Inr []
         | n # it2 \<Rightarrow>
             if n = 95 then and_then (unescape_for_ref it2) (\<lambda>r. Inr (95 # r))
             else and_then (u32_from_str_radix16 (n # takeWhile (\<lambda>x. x \<noteq> 95) it2)) (\<lambda>v.
                  and_then (char_from_u32 v) (\<lambda>u.
                  and_then (unescape_for_ref (drop 1 (dropWhile (\<lambda>x. x \<noteq> 95) it2))) (\<lambda>r.
                  Inr (u # r)))))
      else Inl (Err ''Invalid character''))"
  by pat_completeness auto
termination
  by (relation "measure length")
     (auto simp: le_imp_less_Suc length_dropWhile_le trans_le_add1 le_SucI
        intro!: le_imp_less_Suc le_SucI diff_le_self [THEN order_trans] length_dropWhile_le)

definition unprefix_unescape_ref :: "rstr \<Rightarrow> rstr \<Rightarrow> rstr result" where
  "unprefix_unescape_ref prefix ostree_ref =
     and_then
       (ok_or (Err ''ref does not match expected prefix'')
          (Option.bind (strip_prefix prefix ostree_ref) (strip_prefix [47])))
       unescape_for_ref"

section \<open>Lemmas\<close>

declare unescape_for_ref.simps [simp del]

lemma is_ascii_alphanumeric_bounds:
  "is_ascii_alphanumeric c \<Longrightarrow> c \<noteq> 0 \<and> c \<noteq> 45 \<and> c \<noteq> 47 \<and> c \<noteq> 95 \<and> c < 128"
  by (auto simp: is_ascii_alphanumeric_def is_ascii_digit_def)

lemma hex_upper_to_digit: "d < 16 \<Longrightarrow> to_digit16 (hex_upper d) = Some d"
  by (auto simp: hex_upper_def to_digit16_def is_ascii_digit_def)

lemma hex_upper_alphanumeric: "d < 16 \<Longrightarrow> is_ascii_alphanumeric (hex_upper d)"
  by (auto simp: hex_upper_def is_ascii_alphanumeric_def is_ascii_digit_def)

lemma hex_digits_alphanumeric: "x \<in> set (hex_digits n) \<Longrightarrow> is_ascii_alphanumeric x"
proof (induction n rule: hex_digits.induct)
  case (1 n)
  then show ?case
    by (cases "n < 16") (auto simp: hex_digits.simps [of n] hex_upper_alphanumeric)
qed

lemma hex_digits_nonempty: "hex_digits n \<noteq> []"
  by (subst hex_digits.simps) simp

lemma fmt_02X_alphanumeric: "x \<in> set (fmt_02X n) \<Longrightarrow> is_ascii_alphanumeric x"
  by (auto simp: fmt_02X_def Let_def is_ascii_alphanumeric_def is_ascii_digit_def
      dest!: hex_digits_alphanumeric)

lemma fmt_02X_nonempty: "fmt_02X n \<noteq> []"
  by (simp add: fmt_02X_def Let_def hex_digits_nonempty)

lemma parse_hex_append:
  "parse_hex_digits acc (xs @ ys) = and_then (parse_hex_digits acc xs) (\<lambda>a. parse_hex_digits a ys)"
  by (induction acc xs rule: parse_hex_digits.induct) (auto split: option.splits)

lemma parse_hex_digits_hex: "n < 2 ^ 32 \<Longrightarrow> parse_hex_digits 0 (hex_digits n) = Inr n"
proof (induction n rule: hex_digits.induct)
  case (1 n)
  show ?case
  proof (cases "n < 16")
    case True
    then show ?thesis by (simp add: hex_digits.simps [of n] hex_upper_to_digit)
  next
    case False
    then have "parse_hex_digits 0 (hex_digits (n div 16)) = Inr (n div 16)"
      using "1" by simp
    with False "1.prems" show ?thesis
      by (simp add: hex_digits.simps [of n] parse_hex_append hex_upper_to_digit)
  qed
qed

lemma parse_hex_zeros: "parse_hex_digits 0 (replicate k 48 @ s) = parse_hex_digits 0 s"
  by (induction k) (auto simp: to_digit16_def is_ascii_digit_def)

lemma from_str_radix_fmt: "n < 2 ^ 32 \<Longrightarrow> u32_from_str_radix16 (fmt_02X n) = Inr n"
proof -
  assume n: "n < 2 ^ 32"
  have "parse_hex_digits 0 (fmt_02X n) = Inr n"
    using n by (simp add: fmt_02X_def Let_def parse_hex_zeros parse_hex_digits_hex)
  moreover have "\<forall>x \<in> set (fmt_02X n). x \<noteq> 43"
    using fmt_02X_alphanumeric by (fastforce simp: is_ascii_alphanumeric_def is_ascii_digit_def)
  ultimately show ?thesis
    using fmt_02X_nonempty [of n] by (auto simp: u32_from_str_radix16_def split: list.splits)
qed

lemma is_scalar_u32: "is_scalar c \<Longrightarrow> c < 2 ^ 32"
  by (auto simp: is_scalar_def)

lemma unescape_plain:
  "is_ascii_alphanumeric c \<or> c = 45 \<or> c = 47 \<Longrightarrow>
   unescape_for_ref (c # s) = and_then (unescape_for_ref s) (\<lambda>r. Inr (c # r))"
  by (simp add: unescape_for_ref.simps)

lemma unescape_underscore:
  "unescape_for_ref (95 # 95 # s) = and_then (unescape_for_ref s) (\<lambda>r. Inr (95 # r))"
  by (simp add: unescape_for_ref.simps is_ascii_alphanumeric_def is_ascii_digit_def)

lemma unescape_escape_c:
  assumes "is_scalar c"
  shows "unescape_for_ref (escape_c c @ s) = and_then (unescape_for_ref s) (\<lambda>r. Inr (c # r))"
proof -
  obtain n h where h: "fmt_02X c = n # h"
    using fmt_02X_nonempty [of c] by (cases "fmt_02X c") auto
  have no95: "x \<noteq> 95" if "x \<in> set (n # h)" for x
    using fmt_02X_alphanumeric [of x c] that h
    by (auto simp: is_ascii_alphanumeric_def is_ascii_digit_def)
  have "takeWhile (\<lambda>x. x \<noteq> 95) (h @ 95 # s) = h"
    and "dropWhile (\<lambda>x. x \<noteq> 95) (h @ 95 # s) = 95 # s"
    using no95 by (simp_all add: takeWhile_append dropWhile_append)
  moreover have "u32_from_str_radix16 (n # h) = Inr c"
    using from_str_radix_fmt [OF is_scalar_u32 [OF assms]] h by simp
  ultimately show ?thesis
    using no95 [of n] assms
    by (simp add: escape_c_def h unescape_for_ref.simps(2) [of 95] char_from_u32_def
        is_ascii_alphanumeric_def is_ascii_digit_def)
qed

lemma unescape_escape_one:
  assumes "is_scalar c"
  shows "unescape_for_ref (escape_one p h c @ s) = and_then (unescape_for_ref s) (\<lambda>r. Inr (c # r))"
  using unescape_escape_c [OF assms]
  by (auto simp: escape_one_def unescape_plain unescape_underscore)

lemma unescape_escape_loop:
  assumes "valid_str s" "escape_loop p s = Inr e"
  shows "unescape_for_ref e = Inr s"
  using assms
proof (induction s arbitrary: p e)
  case Nil
  then show ?case by (simp add: unescape_for_ref.simps)
next
  case (Cons c s)
  then obtain r where "escape_loop (is_ascii_alphanumeric c) s = Inr r"
      and "e = escape_one p (s \<noteq> []) c @ r"
    by (auto simp: result_simps split: if_splits)
  with Cons show ?case by (simp add: unescape_escape_one)
qed

lemma escape_loop_ok_iff: "is_ok (escape_loop p s) \<longleftrightarrow> 0 \<notin> set s"
proof (induction s arbitrary: p)
  case (Cons c s)
  then show ?case by (simp add: is_ok_and_then flip: is_ok_iff)
qed simp

lemma escape_for_ref_ok_iff: "is_ok (escape_for_ref s) \<longleftrightarrow> s \<noteq> [] \<and> 0 \<notin> set s"
  by (simp add: escape_for_ref_def escape_loop_ok_iff)

lemma prefix_escape_ok_iff: "is_ok (prefix_escape_for_ref p s) \<longleftrightarrow> s \<noteq> [] \<and> 0 \<notin> set s"
  using escape_for_ref_ok_iff [of s]
  by (cases "escape_for_ref s") (auto simp: prefix_escape_for_ref_def)

subsection \<open>The shape of escaped names\<close>

fun comps_ok :: "bool \<Rightarrow> rstr \<Rightarrow> bool" where
  "comps_ok at_start [] \<longleftrightarrow> \<not> at_start"
| "comps_ok at_start (c # cs) \<longleftrightarrow>
     (if c = 47 then \<not> at_start \<and> comps_ok True cs else comps_ok False cs)"

lemma comps_ok_split:
  "comps_ok True s \<longleftrightarrow> [] \<notin> set (split_char 47 s)"
  "comps_ok False s \<longleftrightarrow> [] \<notin> set (tl (split_char 47 s))"
proof (induction s)
  case (Cons c cs)
  {
    case 1
    with Cons show ?case by (cases "split_char 47 cs") auto
  next
    case 2
    with Cons show ?case by (cases "split_char 47 cs") auto
  }
qed auto

lemma comps_ok_append:
  "\<forall>x \<in> set t. x \<noteq> 47 \<Longrightarrow> t \<noteq> [] \<Longrightarrow> comps_ok b (t @ r) = comps_ok False r"
proof (induction t arbitrary: b)
  case (Cons x t)
  then show ?case by (cases t) auto
qed simp

lemma escape_one_chars:
  "x \<in> set (escape_one p h c) \<Longrightarrow> is_ascii_alphanumeric x \<or> x \<in> {45, 47, 95}"
  by (auto simp: escape_one_def escape_c_def dest: fmt_02X_alphanumeric split: if_splits)

lemma escape_one_no_slash:
  assumes "c \<noteq> 47 \<or> \<not> p"
  shows "escape_one p h c \<noteq> [] \<and> (\<forall>x \<in> set (escape_one p h c). x \<noteq> 47)"
  using assms
  by (auto simp: escape_one_def escape_c_def dest: fmt_02X_alphanumeric is_ascii_alphanumeric_bounds
      split: if_splits)

lemma escape_one_last: "escape_one p False 47 = escape_one False False 47"
  by (simp add: escape_one_def)

lemma escape_loop_chars:
  "escape_loop p s = Inr e \<Longrightarrow> x \<in> set e \<Longrightarrow> is_ascii_alphanumeric x \<or> x \<in> {45, 47, 95}"
proof (induction s arbitrary: p e)
  case (Cons c s)
  then obtain r where "escape_loop (is_ascii_alphanumeric c) s = Inr r"
      and "e = escape_one p (s \<noteq> []) c @ r"
    by (auto simp: result_simps split: if_splits)
  with Cons show ?case by (metis Un_iff escape_one_chars set_append)
qed simp

lemma escape_loop_comps:
  "escape_loop p s = Inr e \<Longrightarrow> comps_ok False e \<and> (\<not> p \<and> s \<noteq> [] \<longrightarrow> comps_ok True e)"
proof (induction s arbitrary: p e)
  case (Cons c s)
  then obtain r where r: "escape_loop (is_ascii_alphanumeric c) s = Inr r"
      and e: "e = escape_one p (s \<noteq> []) c @ r"
    by (auto simp: result_simps split: if_splits)
  show ?case
  proof (cases "c = 47 \<and> p \<and> s \<noteq> []")
    case True
    moreover from this have "comps_ok True r"
      using Cons.IH [OF r] by (simp add: is_ascii_alphanumeric_def is_ascii_digit_def)
    ultimately show ?thesis
      by (simp add: e escape_one_def is_ascii_alphanumeric_def is_ascii_digit_def)
  next
    case False
    then have "escape_one p (s \<noteq> []) c \<noteq> [] \<and> (\<forall>x \<in> set (escape_one p (s \<noteq> []) c). x \<noteq> 47)"
      using escape_one_no_slash [of c p "s \<noteq> []"] escape_one_no_slash [of c False False] escape_one_last [of p]
      by (cases "s = []"; cases "c = 47") auto
    then have "comps_ok b e = comps_ok False r" for b
      unfolding e by (intro comps_ok_append) auto
    then show ?thesis
      using Cons.IH [OF r] by simp
  qed
qed simp

definition ref_name_ok :: "rstr \<Rightarrow> bool" where
  "ref_name_ok s \<longleftrightarrow> valid_str s \<and> s \<noteq> [] \<and> 0 \<notin> set s"

text \<open>For each prefix, escaping and unescaping form a codec.\<close>

interpretation ref_codec: text_codec "prefix_escape_for_ref p" "unprefix_unescape_ref p" ref_name_ok
  for p
proof (unfold_locales, goal_cases)
  case (1 x)
  then show ?case
    using prefix_escape_ok_iff [of p x] by (auto simp: ref_name_ok_def is_ok_iff)
next
  case (2 x s)
  then obtain e where e: "escape_loop False x = Inr e" and s: "s = p @ 47 # e"
    by (auto simp: prefix_escape_for_ref_def escape_for_ref_def result_simps split: if_splits)
  with 2 show ?case
    using unescape_escape_loop [OF _ e]
    by (simp add: unprefix_unescape_ref_def ref_name_ok_def)
qed

lemmas prefix_escape_unescape = ref_codec.dec_enc

section \<open>Properties\<close>

text \<open>C27: every valid string without NUL that is not empty can be escaped under any prefix, and
  removing the prefix and unescaping gives back exactly that string.\<close>

theorem escape_unescape_round_trip:
  assumes "valid_str s" "s \<noteq> []" "0 \<notin> set s"
  shows "\<exists>e. prefix_escape_for_ref p s = Inr e \<and> unprefix_unescape_ref p e = Inr s"
  using assms ref_codec.enc_total [of s p] ref_codec.dec_enc [of s p]
  by (auto simp: ref_name_ok_def)

theorem escape_unescape_round_trip_witness:
  "\<exists>e. prefix_escape_for_ref (str ''container'') (str ''registry:quay.io/coreos/fedora:latest'') = Inr e \<and>
       unprefix_unescape_ref (str ''container'') e = Inr (str ''registry:quay.io/coreos/fedora:latest'')"
  by (rule escape_unescape_round_trip) (simp_all only: valid_str_str, simp_all add: str_simps)

text \<open>An escaped name consists of ASCII letters and digits, \<^verbatim>\<open>-\<close>, \<^verbatim>\<open>_\<close> and \<^verbatim>\<open>/\<close> only, and none of its
  slash-separated components is empty, so it can stand in an ostree ref.  Escaping fails exactly on
  the empty string and on strings with an embedded NUL.\<close>

theorem escape_for_ref_shape:
  "(is_ok (escape_for_ref s) \<longleftrightarrow> s \<noteq> [] \<and> 0 \<notin> set s) \<and>
   (case escape_for_ref s of
      Inl f \<Rightarrow> \<not> is_panic (escape_for_ref s)
    | Inr e \<Rightarrow> filter (\<lambda>x. \<not> (is_ascii_alphanumeric x \<or> x = 45 \<or> x = 95 \<or> x = 47)) e = []
              \<and> [] \<notin> set (split_char 47 e))"
proof (cases "escape_for_ref s")
  case (Inl f)
  have "\<not> is_panic (escape_loop p s)" for p
    by (induction s arbitrary: p) (auto simp: is_panic_and_then)
  then have "\<not> is_panic (escape_for_ref s)"
    by (simp add: escape_for_ref_def)
  with Inl show ?thesis
    using escape_for_ref_ok_iff [of s] by simp
next
  case (Inr e)
  then have "escape_loop False s = Inr e" "s \<noteq> []"
    by (auto simp: escape_for_ref_def split: if_splits)
  then have "comps_ok True e" "\<forall>x \<in> set e. is_ascii_alphanumeric x \<or> x \<in> {45, 47, 95}"
    using escape_loop_comps escape_loop_chars by blast+
  with Inr show ?thesis
    using escape_for_ref_ok_iff [of s] by (auto simp: comps_ok_split filter_empty_conv)
qed

text \<open>Two different names never share a ref: escaping under a prefix is injective.\<close>

theorem prefix_escape_injective:
  assumes "valid_str s" "valid_str t"
    and "prefix_escape_for_ref p s = Inr e" "prefix_escape_for_ref p t = Inr e"
  shows "s = t"
proof (rule ref_codec.enc_inj [OF _ _ assms(3,4)])
  show "ref_name_ok s" "ref_name_ok t"
    using assms prefix_escape_ok_iff [of p s] prefix_escape_ok_iff [of p t]
    by (auto simp: ref_name_ok_def)
qed

theorem prefix_escape_injective_witness:
  "prefix_escape_for_ref (str ''p'') (str ''a:b'') = Inr (str ''p/a_3A_b'') \<and> str ''a:b'' = [97, 58, 98]"
proof -
  have e: "prefix_escape_for_ref (str ''p'') (str ''a:b'') = Inr (str ''p/a_3A_b'')"
    by code_simp
  then have e2: "prefix_escape_for_ref (str ''p'') [97, 58, 98] = Inr (str ''p/a_3A_b'')"
    by (simp add: str_simps)
  have "str ''a:b'' = [97, 58, 98]"
    by (rule prefix_escape_injective [OF _ _ e e2]) (simp_all add: is_scalar_def)
  with e show ?thesis by simp
qed

end
