(* ===== verification/TarExport.thy ===== *)
theory TarExport
  imports TarImport Chunking Refescape
begin

text \<open>
  Writing commits and chunks as tar streams (\<^verbatim>\<open>lib/src/tar/export.rs\<close>): the paths of objects, the
  writer with its sets of already written objects, the recursion over a commit, the writing of a
  chunk, and the replacement of detached metadata in an existing stream.  The repository is an
  \<open>export_env\<close>; a header field that was never set is \<open>None\<close>, and what \<^verbatim>\<open>Header::size\<close> then returns is
  part of the environment, as is the link name the tar crate stores for a target given to
  \<^verbatim>\<open>Builder::append_link\<close>.  Entry paths are those given to the builder.
\<close>

section \<open>Definitions\<close>

definition S_IFMT :: u32 where "S_IFMT = 0xF000"

record export_env =
  xe_store :: object_store
  xe_commit_bytes :: "rstr \<Rightarrow> bytes"
  xe_dirtree_bytes :: "rstr \<Rightarrow> bytes"
  xe_dirmeta_bytes :: "rstr \<Rightarrow> bytes"
  xe_commitmeta :: "rstr \<Rightarrow> bytes option result"
  xe_load_file :: "rstr \<Rightarrow> (bytes option \<times> file_info \<times> bytes) result"
  xe_sha256 :: "bytes \<Rightarrow> rstr"
  xe_link_name :: "rstr \<Rightarrow> rstr"
  xe_unset_size :: "u64 result"

record tar_header =
  h_type :: entry_type
  h_uid :: u64
  h_gid :: u64
  h_mode :: u32
  h_size :: "u64 option"

definition OSTREEDIR :: rstr where "OSTREEDIR = str ''sysroot/ostree''"
definition SYSROOT :: rstr where "SYSROOT = str ''sysroot''"
definition TAR_PATH_PREFIX_V0 :: rstr where "TAR_PATH_PREFIX_V0 = str ''./''"

definition REPO_CONFIG :: bytes where
  "REPO_CONFIG = str ''[core]'' @ [10] @ str ''repo_version=1'' @ [10] @ str ''mode=bare-split-xattrs'' @ [10]"

definition map_path :: "rstr \<Rightarrow> rstr" where
  "map_path p =
     (case path_strip_prefix (str ''./usr/etc'') p of
        Some r \<Rightarrow> path_push (str ''./etc'') r
      | None \<Rightarrow> p)"

definition map_path_v1 :: "rstr \<Rightarrow> rstr result" where
  "map_path_v1 p =
     (if path_starts_with (str ''usr/etc'') p
      then ok_or (Panic ''strip_prefix.unwrap()'') (path_strip_prefix (str ''usr/'') p)
      else Inr p)"

subsection \<open>Object paths\<close>

definition split_at_2 :: "rstr \<Rightarrow> (rstr \<times> rstr) result" where
  "split_at_2 s =
     (if 2 \<le> length s \<and> str_len (take 2 s) = 2 then Inr (take 2 s, drop 2 s)
      else Inl (Panic ''failed to slice string''))"

definition object_file_path :: "rstr \<Rightarrow> rstr \<Rightarrow> rstr result" where
  "object_file_path suffix checksum =
     and_then (split_at_2 checksum) (\<lambda>(first, rest).
     Inr (OSTREEDIR @ str ''/repo/objects/'' @ first @ str ''/'' @ rest @ str ''.'' @ suffix))"

definition object_path :: "object_type \<Rightarrow> rstr \<Rightarrow> rstr result" where
  "object_path objtype checksum =
     and_then
       (case objtype of
          ObjCommit \<Rightarrow> Inr (str ''commit'')
        | ObjCommitMeta \<Rightarrow> Inr (str ''commitmeta'')
        | ObjDirTree \<Rightarrow> Inr (str ''dirtree'')
        | ObjDirMeta \<Rightarrow> Inr (str ''dirmeta'')
        | ObjFile \<Rightarrow> Inr (str ''file'')
        | ObjOther _ \<Rightarrow> Inl (Panic ''Unexpected object type''))
       (\<lambda>suffix. object_file_path suffix checksum)"

definition v1_xattrs_object_path :: "rstr \<Rightarrow> rstr result" where
  "v1_xattrs_object_path checksum = object_file_path (str ''file-xattrs'') checksum"

definition v1_xattrs_link_object_path :: "rstr \<Rightarrow> rstr result" where
  "v1_xattrs_link_object_path checksum = object_file_path (str ''file-xattrs-link'') checksum"

fun symlink_is_denormal :: "rstr \<Rightarrow> bool" where
  "symlink_is_denormal (a # b # s) \<longleftrightarrow> (a = slash \<and> b = slash) \<or> symlink_is_denormal (b # s)"
| "symlink_is_denormal _ \<longleftrightarrow> False"

subsection \<open>Entries\<close>

definition header_entry :: "tar_header \<Rightarrow> rstr \<Rightarrow> rstr option \<Rightarrow> bytes \<Rightarrow> tar_entry" where
  "header_entry h path link d =
     \<lparr>te_path = Some path, te_type = h_type h, te_header_link = link, te_link = link,
      te_uid = h_uid h, te_gid = h_gid h, te_mode = h_mode h, te_mtime = Some 0,
      te_size = (case h_size h of None \<Rightarrow> 0 | Some n \<Rightarrow> n), te_pax = None, te_data = d\<rparr>"

definition default_header :: "entry_type \<Rightarrow> u32 \<Rightarrow> u64 \<Rightarrow> tar_header" where
  "default_header t mode n = \<lparr>h_type = t, h_uid = 0, h_gid = 0, h_mode = mode, h_size = Some n\<rparr>"

definition default_data_entry :: "rstr \<Rightarrow> bytes \<Rightarrow> tar_entry" where
  "default_data_entry path buf = header_entry (default_header Regular 0x1A4 (of_nat (length buf))) path None buf"

definition default_dir_entry :: "rstr \<Rightarrow> tar_entry" where
  "default_dir_entry path = header_entry (default_header Directory 0x1ED 0) path None []"

definition default_hardlink_entry :: "rstr \<Rightarrow> rstr \<Rightarrow> tar_entry" where
  "default_hardlink_entry path target = header_entry (default_header Link 0x1A4 0) path (Some target) []"

subsection \<open>The writer\<close>

record tar_writer =
  ow_commit_checksum :: rstr
  ow_out :: "tar_entry list"
  ow_wrote_initdirs :: bool
  ow_structure_only :: bool
  ow_wrote_vartmp :: bool
  ow_wrote_dirtree :: "rstr set"
  ow_wrote_dirmeta :: "rstr set"
  ow_wrote_content :: "rstr set"
  ow_wrote_xattrs :: "rstr set"

definition emit :: "tar_entry \<Rightarrow> tar_writer \<Rightarrow> tar_writer" where
  "emit e w = w\<lparr>ow_out := ow_out w @ [e]\<rparr>"

definition tar_writer_new :: "export_env \<Rightarrow> rstr \<Rightarrow> tar_writer result" where
  "tar_writer_new env checksum =
     and_then (load_commit (xe_store env) checksum) (\<lambda>_.
     Inr \<lparr>ow_commit_checksum = checksum, ow_out = [], ow_wrote_initdirs = False, ow_structure_only = False,
          ow_wrote_vartmp = False, ow_wrote_dirtree = {}, ow_wrote_dirmeta = {}, ow_wrote_content = {},
          ow_wrote_xattrs = {}\<rparr>)"

definition filter_mode :: "u32 \<Rightarrow> u32" where
  "filter_mode mode = and mode (not S_IFMT)"

definition hex_lower :: "nat \<Rightarrow> rchar" where
  "hex_lower d = (if d < 10 then 48 + d else 87 + d)"

definition repo_structure :: "tar_entry list" where
  "repo_structure =
     map default_dir_entry
       ([str ''sysroot'', str ''sysroot/ostree'', str ''sysroot/ostree/repo'', str ''sysroot/ostree/repo/objects''] @
        map (\<lambda>d. OSTREEDIR @ str ''/repo/objects/'' @ [hex_lower (d div 16), hex_lower (d mod 16)]) [0..<256] @
        map (\<lambda>d. OSTREEDIR @ str ''/repo/'' @ d)
          [str ''extensions'', str ''refs'', str ''refs/heads'', str ''refs/mirrors'', str ''refs/remotes'',
           str ''state'', str ''tmp'', str ''tmp/cache'']) @
     [default_data_entry (OSTREEDIR @ str ''/repo/config'') REPO_CONFIG]"

definition write_repo_structure :: "tar_writer \<Rightarrow> tar_writer" where
  "write_repo_structure w =
     (if ow_wrote_initdirs w then w
      else w\<lparr>ow_out := ow_out w @ repo_structure, ow_wrote_initdirs := True\<rparr>)"

definition append_object :: "object_type \<Rightarrow> rstr \<Rightarrow> bytes \<Rightarrow> tar_writer \<Rightarrow> tar_writer result" where
  "append_object objtype checksum v w =
     (let write = (\<lambda>w. and_then (object_path objtype checksum) (\<lambda>path. Inr (emit (default_data_entry path v) w)))
      in case objtype of
           ObjCommit \<Rightarrow> write w
         | ObjCommitMeta \<Rightarrow> write w
         | ObjDirTree \<Rightarrow>
             if checksum \<in> ow_wrote_dirtree w then Inr w
             else write (w\<lparr>ow_wrote_dirtree := insert checksum (ow_wrote_dirtree w)\<rparr>)
         | ObjDirMeta \<Rightarrow>
             if checksum \<in> ow_wrote_dirmeta w then Inr w
             else write (w\<lparr>ow_wrote_dirmeta := insert checksum (ow_wrote_dirmeta w)\<rparr>)
         | _ \<Rightarrow> Inl (Panic ''Unexpected object type''))"

definition append_commit_object :: "export_env \<Rightarrow> tar_writer \<Rightarrow> tar_writer result" where
  "append_commit_object env w =
     (let c = ow_commit_checksum w
      in and_then (append_object ObjCommit c (xe_commit_bytes env c) w) (\<lambda>w.
         and_then (xe_commitmeta env c) (\<lambda>m.
         case m of None \<Rightarrow> Inr w | Some commitmeta \<Rightarrow> append_object ObjCommitMeta c commitmeta w)))"

definition append_xattrs :: "export_env \<Rightarrow> rstr \<Rightarrow> bytes \<Rightarrow> tar_writer \<Rightarrow> tar_writer result" where
  "append_xattrs env checksum xattrs_data w =
     (let xattrs_checksum = xe_sha256 env xattrs_data
      in and_then (v1_xattrs_object_path xattrs_checksum) (\<lambda>path.
         let w = (if xattrs_checksum \<in> ow_wrote_xattrs w then w
                  else emit (default_data_entry path xattrs_data)
                         (w\<lparr>ow_wrote_xattrs := insert xattrs_checksum (ow_wrote_xattrs w)\<rparr>))
         in and_then (v1_xattrs_link_object_path checksum) (\<lambda>link_obj_path.
            Inr (emit (default_hardlink_entry link_obj_path path) w))))"

definition append_content ::
  "export_env \<Rightarrow> rstr \<Rightarrow> tar_writer \<Rightarrow> ((rstr \<times> tar_header) \<times> tar_writer) result" where
  "append_content env checksum w =
     and_then (object_path ObjFile checksum) (\<lambda>path.
     and_then (xe_load_file env checksum) (\<lambda>(instream, meta, xattrs).
     let h = \<lparr>h_type = Regular, h_uid = ucast (fi_uid meta), h_gid = ucast (fi_gid meta),
              h_mode = filter_mode (fi_mode meta),
              h_size = (case instream of None \<Rightarrow> None | Some _ \<Rightarrow> Some (fi_size meta))\<rparr>
     in if checksum \<in> ow_wrote_content w then Inr ((path, h), w)
        else
          let w = w\<lparr>ow_wrote_content := insert checksum (ow_wrote_content w)\<rparr>
          in and_then (append_xattrs env checksum xattrs w) (\<lambda>w.
             case instream of
               Some d \<Rightarrow>
                 and_then (ensure (fi_type meta = FRegular) (Err ''meta.file_type() == Regular'')) (\<lambda>_.
                 let h = h\<lparr>h_type := Regular, h_size := Some (fi_size meta)\<rparr>
                 in Inr ((path, h), emit (header_entry h path None d) w))
             | None \<Rightarrow>
                 and_then (ensure (fi_type meta = FSymbolicLink) (Err ''meta.file_type() == SymbolicLink'')) (\<lambda>_.
                 and_then (ok_or (Err ''Missing symlink target'') (fi_symlink_target meta)) (\<lambda>target.
                 let h = h\<lparr>h_type := Symlink, h_size := Some 0\<rparr>;
                     link = (if symlink_is_denormal target then target else xe_link_name env target)
                 in Inr ((path, h), emit (header_entry h path (Some link) []) w))))))"

definition append_dir :: "rstr \<Rightarrow> dirmeta \<Rightarrow> tar_writer \<Rightarrow> tar_writer" where
  "append_dir dirpath meta w =
     emit (header_entry \<lparr>h_type = Directory, h_uid = ucast (dm_uid meta), h_gid = ucast (dm_gid meta),
                         h_mode = filter_mode (dm_mode meta), h_size = Some 0\<rparr> dirpath None []) w"

definition append_content_hardlink ::
  "export_env \<Rightarrow> rstr \<Rightarrow> tar_header \<Rightarrow> rstr \<Rightarrow> tar_writer \<Rightarrow> tar_writer result" where
  "append_content_hardlink env srcpath h dest w =
     and_then (case h_size h of Some n \<Rightarrow> Inr n | None \<Rightarrow> xe_unset_size env) (\<lambda>n.
     let h = h\<lparr>h_size := Some 0\<rparr>
     in if h_type h = Regular \<and> n = 0 then Inr (emit (header_entry h dest None []) w)
        else Inr (emit (header_entry (h\<lparr>h_type := Link\<rparr>) dest (Some srcpath) []) w))"

fun append_dirtree ::
  "export_env \<Rightarrow> nat \<Rightarrow> rstr \<Rightarrow> rstr \<Rightarrow> bool \<Rightarrow> tar_writer \<Rightarrow> tar_writer result" where
  "append_dirtree env 0 dirpath checksum is_root w = Inl (Panic ''stack overflow'')"
| "append_dirtree env (Suc fuel) dirpath checksum is_root w =
     and_then (load_dirtree (xe_store env) checksum) (\<lambda>(_, v).
     and_then (append_object ObjDirTree checksum (xe_dirtree_bytes env checksum) w) (\<lambda>w.
     and_then
       (if ow_structure_only w then Inr w
        else try_fold (\<lambda>(name, csum) w.
               and_then (append_content env csum w) (\<lambda>((objpath, h), w).
               append_content_hardlink env objpath h (map_path (path_push dirpath name)) w))
             (dt_files v) w) (\<lambda>w.
     let w = (if path_eq dirpath (str ''var/tmp'') then w\<lparr>ow_wrote_vartmp := True\<rparr> else w)
     in try_fold (\<lambda>(name, contents_csum, meta_csum) w.
          and_then (load_dirmeta (xe_store env) meta_csum) (\<lambda>(_, metadata).
          and_then (append_object ObjDirMeta meta_csum (xe_dirmeta_bytes env meta_csum) w) (\<lambda>w.
          if is_root \<and> name = SYSROOT then Inr w
          else
            let subpath = map_path (path_push dirpath name)
            in append_dirtree env fuel subpath contents_csum False (append_dir subpath metadata w))))
        (dt_dirs v) w)))"

definition append_standard_var :: "tar_writer \<Rightarrow> tar_writer" where
  "append_standard_var w =
     (if ow_wrote_vartmp w then w
      else emit (header_entry \<lparr>h_type = Directory, h_uid = 0, h_gid = 0, h_mode = filter_mode 0x43FF,
                   h_size = Some 0\<rparr> (str ''var/tmp'') None []) w)"

definition write_commit :: "export_env \<Rightarrow> nat \<Rightarrow> tar_writer \<Rightarrow> tar_writer result" where
  "write_commit env fuel w =
     and_then (load_commit (xe_store env) (ow_commit_checksum w)) (\<lambda>commit.
     and_then (load_dirmeta (xe_store env) (co_meta commit)) (\<lambda>(_, metadata).
     let w = write_repo_structure (append_dir TAR_PATH_PREFIX_V0 metadata w)
     in and_then (append_commit_object env w) (\<lambda>w.
        and_then (append_object ObjDirMeta (co_meta commit) (xe_dirmeta_bytes env (co_meta commit)) w) (\<lambda>w.
        and_then (append_dirtree env fuel TAR_PATH_PREFIX_V0 (co_tree commit) True w) (\<lambda>w.
        Inr (append_standard_var w))))))"

definition export_commit :: "export_env \<Rightarrow> nat \<Rightarrow> rstr \<Rightarrow> tar_entry list result" where
  "export_commit env fuel refspec =
     and_then (require_rev (xe_store env) refspec) (\<lambda>commit.
     and_then (tar_writer_new env commit) (\<lambda>w.
     and_then (write_commit env fuel w) (\<lambda>w. Inr (ow_out w))))"

subsection \<open>Chunks\<close>

definition path_for_tar_v1 :: "rstr \<Rightarrow> rstr result" where
  "path_for_tar_v1 p = map_path_v1 (case path_strip_prefix [slash] p of Some r \<Rightarrow> r | None \<Rightarrow> p)"

definition write_chunk_object ::
  "export_env \<Rightarrow> rstr \<times> u64 \<times> rstr list \<Rightarrow> tar_writer \<Rightarrow> tar_writer result" where
  "write_chunk_object env = (\<lambda>(checksum, _, paths) w.
     and_then (append_content env checksum w) (\<lambda>((objpath, h), w).
     try_fold (\<lambda>path w.
         and_then (path_for_tar_v1 path) (\<lambda>path. append_content_hardlink env objpath h path w)) paths w))"

definition write_chunk :: "export_env \<Rightarrow> chunk_mapping \<Rightarrow> tar_writer \<Rightarrow> tar_writer result" where
  "write_chunk env chunk w = try_fold (write_chunk_object env) chunk w"

definition export_chunk :: "export_env \<Rightarrow> rstr \<Rightarrow> chunk_mapping \<Rightarrow> tar_entry list result" where
  "export_chunk env commit chunk =
     and_then (tar_writer_new env commit) (\<lambda>w.
     and_then (write_chunk env chunk (write_repo_structure w)) (\<lambda>w. Inr (ow_out w)))"

definition export_final_chunk :: "export_env \<Rightarrow> nat \<Rightarrow> rstr \<Rightarrow> chunk \<Rightarrow> tar_entry list result" where
  "export_final_chunk env fuel commit_checksum last_chunk =
     and_then (tar_writer_new env commit_checksum) (\<lambda>w.
     and_then (write_commit env fuel (w\<lparr>ow_structure_only := True\<rparr>)) (\<lambda>w.
     and_then (write_chunk env (ck_content last_chunk) (w\<lparr>ow_structure_only := False\<rparr>)) (\<lambda>w.
     Inr (ow_out w))))"

subsection \<open>Replacing the detached metadata\<close>

text \<open>The entries up to the commit object, copied; the commit object and the entries after it.\<close>

fun copy_until_commit :: "tar_entry list \<Rightarrow> tar_entry list \<Rightarrow> (tar_entry list \<times> (tar_entry \<times> tar_entry list) option) result" where
  "copy_until_commit [] dest = Inr (dest, None)"
| "copy_until_commit (e # es) dest =
     and_then (ok_or (Err ''path'') (te_path e)) (\<lambda>path.
     if \<not> (te_type e = Regular \<and> ends_with (str ''.commit'') path)
     then and_then (copy_entry e None dest) (copy_until_commit es)
     else Inr (dest, Some (e, es)))"

definition reinject_detached_metadata :: "tar_entry list \<Rightarrow> bytes option \<Rightarrow> tar_entry list result" where
  "reinject_detached_metadata src detached_buf =
     and_then (copy_until_commit src []) (\<lambda>(dest, c).
     and_then (ok_or (Err ''Missing commit object'') c) (\<lambda>(commit_ent, entries).
     and_then (ok_or (Err ''Invalid non-utf8 path'') (te_path commit_ent)) (\<lambda>commit_path.
     and_then (parse_metadata_entry commit_path) (\<lambda>(checksum, objtype).
     and_then (ensure (objtype = ObjCommit) (Panic ''assert_eq objtype Commit'')) (\<lambda>_.
     and_then (copy_entry commit_ent None dest) (\<lambda>dest.
     and_then
       (case detached_buf of
          Some buf \<Rightarrow> and_then (object_path ObjCommitMeta checksum) (\<lambda>p. Inr (dest @ [default_data_entry p buf]))
        | None \<Rightarrow> Inr dest) (\<lambda>dest.
     case entries of
       [] \<Rightarrow> Inl (Err ''Expected metadata object after commit'')
     | next_ent # rest \<Rightarrow>
         and_then (ok_or (Err ''path'') (te_path next_ent)) (\<lambda>next_ent_path.
         and_then (parse_metadata_entry next_ent_path) (\<lambda>(_, objtype).
         and_then (if objtype \<noteq> ObjCommitMeta then copy_entry next_ent None dest else Inr dest) (\<lambda>dest.
         try_fold (\<lambda>e. copy_entry e None) rest dest))))))))))"

section \<open>Lemmas\<close>

subsection \<open>Object paths\<close>

definition sha256_ok :: "rstr \<Rightarrow> bool" where
  "sha256_ok c \<longleftrightarrow> length c = 64 \<and> list_all is_hex_lower c"

lemma is_hex_lower_bounds: "is_hex_lower c \<Longrightarrow> c < 0x80 \<and> c \<noteq> 46 \<and> c \<noteq> 47"
  by (auto simp: is_hex_lower_def is_ascii_digit_def)

lemma sha256_ok_chars: "sha256_ok c \<Longrightarrow> x \<in> set c \<Longrightarrow> x < 0x80 \<and> x \<noteq> 46 \<and> x \<noteq> 47"
  using is_hex_lower_bounds by (auto simp: sha256_ok_def list_all_iff)

lemma validate_sha256_ok: "sha256_ok c \<Longrightarrow> validate_sha256 c = Inr c"
proof -
  assume ok: "sha256_ok c"
  then have "str_len c = length c"
    using sha256_ok_chars by (intro str_len_ascii) blast
  with ok show ?thesis by (simp add: validate_sha256_def sha256_ok_def)
qed

lemma validate_sha256_Inr: "validate_sha256 s = Inr c \<Longrightarrow> c = s \<and> sha256_ok c"
proof -
  assume a: "validate_sha256 s = Inr c"
  then have hex: "list_all is_hex_lower s" "str_len s = 64" "c = s"
    by (auto simp: validate_sha256_def split: if_splits)
  then have "str_len s = length s"
    using is_hex_lower_bounds by (intro str_len_ascii) (auto simp: list_all_iff)
  with hex show ?thesis by (simp add: sha256_ok_def)
qed

text \<open>The parts of an object path: a two-character directory and a file name with one dot.\<close>

lemma object_file_path_eq:
  assumes "sha256_ok c"
  shows "object_file_path suffix c =
    Inr (str ''sysroot/ostree/repo/objects'' @ slash # take 2 c @ slash # drop 2 c @ 46 # suffix)"
proof -
  have "str_len (take 2 c) = length (take 2 c)"
    using sha256_ok_chars [OF assms] by (intro str_len_ascii) (auto dest: in_set_takeD)
  with assms show ?thesis
    by (simp add: object_file_path_def split_at_2_def sha256_ok_def OSTREEDIR_def str_simps path_consts)
qed

lemma components_repo_objects:
  "components (str ''sysroot/ostree/repo/objects'') =
   map Normal [str ''sysroot'', str ''ostree'', str ''repo'', str ''objects'']"
  "components REPO_PREFIX = map Normal [str ''sysroot'', str ''ostree'', str ''repo'']"
  "components (str ''objects/'') = [Normal (str ''objects'')]"
  "components (str ''xattrs/'') = [Normal (str ''xattrs'')]"
  "components (str ''refs'') = [Normal (str ''refs'')]"
  by code_simp+

lemma plain_parts:
  assumes "sha256_ok c" "slash \<notin> set suffix"
  shows "plain_name (take 2 c)" "plain_name (drop 2 c @ 46 # suffix)"
proof -
  have l: "length (take 2 c) = 2" "length (drop 2 c) = 62"
    using assms(1) by (simp_all add: sha256_ok_def)
  have no: "46 \<notin> set c" "slash \<notin> set c"
    using sha256_ok_chars [OF assms(1)] by (auto simp: path_consts)
  have "take 2 c \<noteq> dotdot"
    using no(1) by (metis dotdot_def in_set_takeD list.set_intros(1))
  moreover have "take 2 c \<noteq> dot"
  proof
    assume "take 2 c = dot"
    then have "length (take 2 c) = 1" by (simp add: dot_def)
    with l(1) show False by simp
  qed
  ultimately show "plain_name (take 2 c)"
    using l(1) no(2) by (auto simp: plain_name_def dest: in_set_takeD)
  have "length (drop 2 c @ 46 # suffix) \<ge> 63" using l(2) by simp
  then have "drop 2 c @ 46 # suffix \<noteq> dot" "drop 2 c @ 46 # suffix \<noteq> dotdot"
    by (auto simp only: path_consts list.size)
  then show "plain_name (drop 2 c @ 46 # suffix)"
    using no(2) assms(2) by (auto simp: plain_name_def path_consts dest: in_set_dropD)
qed

definition object_components :: "rstr \<Rightarrow> rstr \<Rightarrow> component list" where
  "object_components c suffix = [Normal (take 2 c), Normal (drop 2 c @ 46 # suffix)]"

lemma components_object_path:
  assumes "sha256_ok c" "slash \<notin> set suffix" "object_file_path suffix c = Inr p"
  shows "components p = map Normal [str ''sysroot'', str ''ostree'', str ''repo'', str ''objects''] @ object_components c suffix"
proof -
  note pl = plain_parts [OF assms(1,2)]
  have sp: "split_char slash (take 2 c @ slash # drop 2 c @ 46 # suffix) = [take 2 c, drop 2 c @ 46 # suffix]"
    using pl by (simp add: split_char_append split_char_no_sep plain_name_def)
  have p: "p = str ''sysroot/ostree/repo/objects'' @ slash # (take 2 c @ slash # drop 2 c @ 46 # suffix)"
    using assms(3) object_file_path_eq [OF assms(1), of suffix] by simp
  show ?thesis
    unfolding p using pl
    by (subst components_append_part)
       (simp_all add: components_repo_objects sp part_component_plain object_components_def)
qed

lemma wf_object_components:
  "sha256_ok c \<Longrightarrow> slash \<notin> set suffix \<Longrightarrow> list_all body_component (object_components c suffix)"
  using plain_parts by (simp add: object_components_def)

lemma split_last_dot_object:
  "46 \<notin> set suffix \<Longrightarrow> rest \<noteq> [] \<Longrightarrow> rest @ 46 # suffix \<noteq> dotdot \<Longrightarrow>
   split_last_dot (rest @ 46 # suffix) = (rest, Some suffix)"
  by (simp add: split_last_dot_def)

lemma trim_end_matches_hex: "46 \<notin> set s \<Longrightarrow> trim_end_matches (str ''.file'') s = s"
  by (subst trim_end_matches.simps) (auto simp: ends_with_iff str_simps)

text \<open>Any path that ends in the components of an object is parsed back to it.\<close>

lemma parse_object_components:
  assumes "sha256_ok c" "slash \<notin> set suffix" "46 \<notin> set suffix" "suffix \<noteq> []"
    and "components p = pre @ object_components c suffix" "list_all body_component pre"
  shows "parse_object_entry_path p = Inr (take 2 c, drop 2 c @ 46 # suffix, suffix)"
    and "parse_checksum (take 2 c) (drop 2 c @ 46 # suffix) = Inr c"
proof -
  have pl: "plain_name (take 2 c)" "plain_name (drop 2 c @ 46 # suffix)"
    by (rule plain_parts [OF assms(1,2)])+
  have "components (path_collect (pre @ [Normal (take 2 c)])) = pre @ [Normal (take 2 c)]"
    using assms(6) pl by (intro components_path_collect wf_components_body) simp
  then have parent: "Option.bind (path_parent p) path_file_name = Some (take 2 c)"
    using assms(5) by (simp add: path_parent_def path_file_name_def object_components_def)
  have no: "46 \<notin> set c"
    using sha256_ok_chars [OF assms(1)] by auto
  have len: "length (take 2 c) = 2" "length (drop 2 c) = 62"
    using assms(1) by (simp_all add: sha256_ok_def)
  have sl: "str_len (take 2 c) = 2" "str_len (drop 2 c) = 62"
    using len str_len_ascii [of "take 2 c"] str_len_ascii [of "drop 2 c"] sha256_ok_chars [OF assms(1)]
    by (auto dest: in_set_takeD in_set_dropD)
  have "drop 2 c \<noteq> []" using len(2) by auto
  then have dot: "split_last_dot (drop 2 c @ 46 # suffix) = (drop 2 c, Some suffix)"
    using assms(3) pl(2) by (intro split_last_dot_object) (auto simp: plain_name_def)
  show "parse_object_entry_path p = Inr (take 2 c, drop 2 c @ 46 # suffix, suffix)"
    using parent sl dot assms(5)
    by (simp add: parse_object_entry_path_def path_file_name_def object_components_def)
  have "46 \<notin> set (drop 2 c)" using no by (auto dest: in_set_dropD)
  then show "parse_checksum (take 2 c) (drop 2 c @ 46 # suffix) = Inr c"
    using sl validate_sha256_ok [OF assms(1)]
    by (simp add: parse_checksum_def dot trim_end_matches_hex)
qed

definition known_type :: "object_type \<Rightarrow> bool" where
  "known_type t \<longleftrightarrow> t \<in> {ObjFile, ObjDirTree, ObjDirMeta, ObjCommit, ObjCommitMeta}"

fun type_suffix :: "object_type \<Rightarrow> rstr" where
  "type_suffix ObjCommit = str ''commit''"
| "type_suffix ObjCommitMeta = str ''commitmeta''"
| "type_suffix ObjDirTree = str ''dirtree''"
| "type_suffix ObjDirMeta = str ''dirmeta''"
| "type_suffix ObjFile = str ''file''"
| "type_suffix (ObjOther _) = []"

lemma object_path_suffix: "known_type t \<Longrightarrow> object_path t c = object_file_path (type_suffix t) c"
  by (cases t) (simp_all add: known_type_def object_path_def)

lemma type_suffix_props:
  "slash \<notin> set (type_suffix t)" "46 \<notin> set (type_suffix t)" "known_type t \<Longrightarrow> type_suffix t \<noteq> []"
  "known_type t \<Longrightarrow> objtype_from_string (type_suffix t) = Some t"
  by (cases t; simp add: known_type_def str_simps path_consts objtype_from_string_def)+

lemma objtype_suffix: "objtype_from_string (type_suffix t) = Some t \<longleftrightarrow> known_type t"
  by (cases t) (simp_all add: known_type_def objtype_from_string_def)

lemma repo_prefix_body:
  "list_all body_component (map Normal [str ''sysroot'', str ''ostree'', str ''repo'', str ''objects''])"
  by (simp add: plain_name_def path_consts str_simps)

lemma parse_metadata_object_path:
  assumes "sha256_ok c" "known_type t" "object_path t c = Inr p"
  shows "parse_metadata_entry p = Inr (c, t)"
proof -
  note ts = type_suffix_props(1,2) [of t] type_suffix_props(3,4) [OF assms(2)]
  have "components p = map Normal [str ''sysroot'', str ''ostree'', str ''repo'', str ''objects''] @ object_components c (type_suffix t)"
    using assms ts by (intro components_object_path) (simp_all add: object_path_suffix)
  from parse_object_components [OF assms(1) ts(1,2,3) this repo_prefix_body] ts(4) show ?thesis
    by (simp add: parse_metadata_entry_def)
qed

interpretation object_codec: text_codec "\<lambda>(c, t). object_path t c" parse_metadata_entry
    "\<lambda>(c, t). sha256_ok c \<and> known_type t"
proof (unfold_locales, goal_cases)
  case (1 x)
  then show ?case
    by (cases x) (auto simp: object_path_suffix object_file_path_eq)
next
  case (2 x s)
  then show ?case
    by (cases x) (auto simp: parse_metadata_object_path)
qed

subsection \<open>Copying entries unchanged\<close>

text \<open>What \<open>copy_entry\<close> appends when it keeps the entry's path.\<close>

definition copied :: "tar_entry \<Rightarrow> tar_entry result" where
  "copied e = and_then (copy_entry e None []) (\<lambda>es. Inr (hd es))"

lemma copy_entry_copied: "copy_entry e None dest = and_then (copied e) (\<lambda>e'. Inr (dest @ [e']))"
  by (cases "te_path e"; cases "te_link e") (simp_all add: copied_def copy_entry_def Let_def split: entry_type.split)

text \<open>A path that leads into \<^verbatim>\<open>etc\<close>, absolute or relative; moving it leads into \<^verbatim>\<open>usr/etc\<close>.\<close>

definition leads_into_etc :: "rstr \<Rightarrow> component list \<Rightarrow> component list \<Rightarrow> bool" where
  "leads_into_etc t pre rest \<longleftrightarrow> components t = pre @ Normal (str ''etc'') # rest \<and> pre \<in> {[], [RootDir], [CurDir]}"

lemma remap_etc_path_changes:
  assumes "remap_etc_path p \<noteq> p"
  shows "\<exists>pre rest. leads_into_etc p pre rest"
proof -
  have etc: "component_str c = str ''etc'' \<longleftrightarrow> c = Normal (str ''etc'')" for c
    by (cases c) (simp_all add: path_consts str_simps)
  have into: "components p = pre @ Normal (str ''etc'') # rest \<Longrightarrow> pre \<in> {[], [RootDir], [CurDir]} \<Longrightarrow> ?thesis" for pre rest
    unfolding leads_into_etc_def by blast
  from assms show ?thesis
    using into [of "[RootDir]"] into [of "[CurDir]"] into [of "[]"]
    by (auto simp: remap_etc_path_def etc split: list.splits if_splits)
qed

lemma remap_etc_path_moves:
  assumes "leads_into_etc p pre rest"
  shows "components (remap_etc_path p) = pre @ Normal (str ''usr'') # Normal (str ''etc'') # rest"
proof -
  have p: "components p = pre @ Normal (str ''etc'') # rest" "pre = [] \<or> pre = [RootDir] \<or> pre = [CurDir]"
    using assms by (auto simp: leads_into_etc_def)
  have "wf_components (pre @ [Normal (str ''usr''), Normal (str ''etc'')] @ rest)"
    using wf_components_components [of p] p plain_usr by (auto simp: wf_components_def)
  then show ?thesis
    using p components_path_collect by (simp add: remap_etc_path_eq [OF p])
qed

lemma remap_etc_path_idem: "remap_etc_path (remap_etc_path p) = remap_etc_path p"
proof (cases "remap_etc_path p = p")
  case False
  then obtain pre rest where p: "leads_into_etc p pre rest" using remap_etc_path_changes by blast
  then have "pre = [] \<or> pre = [RootDir] \<or> pre = [CurDir]" by (auto simp: leads_into_etc_def)
  from remap_etc_path_eq [OF remap_etc_path_moves [OF p] this] show ?thesis by (simp add: str_simps)
qed simp

lemma copied_idem:
  assumes "copied e = Inr e'"
  shows "copied e' = Inr e'" "te_path e' = te_path e" "te_type e' = te_type e"
  using assms
  by (cases "te_path e"; cases "te_type e"; cases "te_link e"; auto simp: copied_def copy_entry_def Let_def remap_etc_path_idem)+

text \<open>What it means that an entry is kept: all is the same, only that the target of a hard link that leads into
  \<^verbatim>\<open>etc\<close> leads into \<^verbatim>\<open>usr/etc\<close>, and that the link target of the header is the full one.\<close>

definition kept_target :: "rstr \<Rightarrow> rstr \<Rightarrow> bool" where
  "kept_target t t' \<longleftrightarrow>
     (\<nexists>pre rest. leads_into_etc t pre rest) \<and> t' = t \<or>
     (\<exists>pre rest. leads_into_etc t pre rest \<and> components t' = pre @ Normal (str ''usr'') # Normal (str ''etc'') # rest)"

definition kept_entry :: "tar_entry \<Rightarrow> tar_entry \<Rightarrow> bool" where
  "kept_entry e e' \<longleftrightarrow>
     (case te_type e of
        Link \<Rightarrow> \<exists>t t'. te_link e = Some t \<and> kept_target t t' \<and> e' = e\<lparr>te_link := Some t', te_header_link := Some t'\<rparr>
      | Symlink \<Rightarrow> \<exists>t. te_link e = Some t \<and> e' = e\<lparr>te_header_link := Some t\<rparr>
      | _ \<Rightarrow> e' = e)"

lemma kept_target_remap: "kept_target t (remap_etc_path t)"
  using remap_etc_path_changes [of t] remap_etc_path_moves [of t] unfolding kept_target_def by blast

lemma copied_kept:
  assumes "copied e = Inr e'"
  shows "kept_entry e e'"
proof -
  obtain p where p: "te_path e = Some p" using assms by (cases "te_path e") (simp_all add: copied_def copy_entry_def)
  then have same: "e\<lparr>te_path := Some p\<rparr> = e" "e\<lparr>te_path := Some p, te_link := l, te_header_link := h\<rparr> = e\<lparr>te_link := l, te_header_link := h\<rparr>" for l h
    by (cases e; simp)+
  have sym: "te_link e = Some t \<Longrightarrow> e\<lparr>te_link := Some t, te_header_link := h\<rparr> = e\<lparr>te_header_link := h\<rparr>" for t h
    by (cases e) simp
  show ?thesis
    using assms p kept_target_remap
    by (cases "te_link e"; cases "te_type e") (auto simp: kept_entry_def copied_def copy_entry_def Let_def same sym)
qed

lemma try_map_kept: "try_map copied es = Inr es' \<Longrightarrow> list_all2 kept_entry es es'"
  by (induction es arbitrary: es') (auto simp: result_simps intro: copied_kept)

lemma try_map_copied:
  assumes "try_map copied es = Inr es'"
  shows "try_map copied es' = Inr es'" "map te_path es' = map te_path es" "map te_type es' = map te_type es"
  using assms copied_idem
  by (induction es arbitrary: es') (fastforce simp: result_simps)+

lemma copy_all_copied: "try_fold (\<lambda>e. copy_entry e None) es dest = and_then (try_map copied es) (\<lambda>es'. Inr (dest @ es'))"
proof (induction es arbitrary: dest)
  case (Cons e es)
  then show ?case by (cases "copied e"; cases "try_map copied es") (simp_all add: copy_entry_copied)
qed simp

definition is_commit_entry :: "tar_entry \<Rightarrow> bool" where
  "is_commit_entry e \<longleftrightarrow> te_type e = Regular \<and> (\<exists>p. te_path e = Some p \<and> ends_with (str ''.commit'') p)"

lemma commit_entry_copied:
  "copied e = Inr e' \<Longrightarrow> is_commit_entry e' = is_commit_entry e"
  "try_map copied es = Inr es' \<Longrightarrow> list_all (\<lambda>e. \<not> is_commit_entry e) es' = list_all (\<lambda>e. \<not> is_commit_entry e) es"
proof -
  show one: "is_commit_entry e' = is_commit_entry e" if "copied e = Inr e'" for e e'
    using copied_idem [OF that] by (simp add: is_commit_entry_def)
  show "try_map copied es = Inr es' \<Longrightarrow> list_all (\<lambda>e. \<not> is_commit_entry e) es' = list_all (\<lambda>e. \<not> is_commit_entry e) es"
    by (induction es arbitrary: es') (auto simp: result_simps one)
qed

lemma copy_until_commit_Some:
  assumes "list_all (\<lambda>e. \<not> is_commit_entry e) pre" "try_map copied pre = Inr pre'" "is_commit_entry e"
  shows "copy_until_commit (pre @ e # es) dest = Inr (dest @ pre', Some (e, es))"
  using assms
proof (induction pre arbitrary: pre' dest)
  case (Cons a pre)
  then obtain p where "te_path a = Some p"
    by (cases "te_path a") (auto simp: copied_def copy_entry_def)
  with Cons show ?case by (auto simp: result_simps copy_entry_copied is_commit_entry_def)
qed (auto simp: is_commit_entry_def)

lemma copy_until_commit_Inr:
  assumes "copy_until_commit src dest = Inr (d, Some (e, es))"
  shows "\<exists>pre pre'. src = pre @ e # es \<and> list_all (\<lambda>e. \<not> is_commit_entry e) pre \<and> is_commit_entry e \<and>
    try_map copied pre = Inr pre' \<and> d = dest @ pre'"
  using assms
proof (induction src arbitrary: dest)
  case (Cons a src)
  obtain p where p: "te_path a = Some p" using Cons.prems by (auto simp: result_simps)
  show ?case
  proof (cases "is_commit_entry a")
    case True
    with p Cons.prems show ?thesis
      by (intro exI [of _ "[]"]) (auto simp: is_commit_entry_def)
  next
    case False
    with p Cons.prems obtain a' where a': "copied a = Inr a'" "copy_until_commit src (dest @ [a']) = Inr (d, Some (e, es))"
      by (auto simp: is_commit_entry_def copy_entry_copied result_simps)
    from Cons.IH [OF a'(2)] obtain pre pre' where "src = pre @ e # es" "list_all (\<lambda>e. \<not> is_commit_entry e) pre"
        "is_commit_entry e" "try_map copied pre = Inr pre'" "d = (dest @ [a']) @ pre'" by blast
    with False a'(1) show ?thesis by (intro exI [of _ "a # pre"] exI [of _ "a' # pre'"]) auto
  qed
qed simp

text \<open>The parts of a stream whose metadata can be replaced, and of the result.\<close>

definition reinject_parts :: "tar_entry list \<Rightarrow> tar_entry list \<Rightarrow> tar_entry \<Rightarrow> rstr \<Rightarrow> tar_entry \<Rightarrow> tar_entry list \<Rightarrow> bool" where
  "reinject_parts src pre e checksum nxt rest \<longleftrightarrow> src = pre @ e # nxt # rest \<and>
     list_all (\<lambda>e. \<not> is_commit_entry e) pre \<and> is_commit_entry e \<and>
     and_then (ok_or (Err ''path'') (te_path e)) parse_metadata_entry = Inr (checksum, ObjCommit)"

definition is_commitmeta :: "tar_entry \<Rightarrow> bool result" where
  "is_commitmeta e = and_then (ok_or (Err ''path'') (te_path e)) (\<lambda>p.
     and_then (parse_metadata_entry p) (\<lambda>(_, t). Inr (t = ObjCommitMeta)))"

lemma parse_metadata_entry_sha256:
  assumes "parse_metadata_entry p = Inr (c, t)"
  shows "sha256_ok c"
proof -
  obtain parent name objtype where "parse_checksum parent name = Inr c"
    using assms by (auto simp: parse_metadata_entry_def result_simps split: prod.splits option.splits)
  then show ?thesis
    by (auto simp: parse_checksum_def result_simps Let_def split: if_splits prod.splits option.splits dest: validate_sha256_Inr)
qed

text \<open>The metadata entry that is added for a checksum.\<close>

definition metadata_entries :: "rstr \<Rightarrow> bytes option \<Rightarrow> tar_entry list" where
  "metadata_entries c buf =
     (case (buf, object_path ObjCommitMeta c) of (Some b, Inr p) \<Rightarrow> [default_data_entry p b] | _ \<Rightarrow> [])"

lemma commitmeta_path: "sha256_ok c \<Longrightarrow> \<exists>p. object_path ObjCommitMeta c = Inr p \<and> parse_metadata_entry p = Inr (c, ObjCommitMeta)"
  using object_codec.enc_total [of "(c, ObjCommitMeta)"] object_codec.dec_enc [of "(c, ObjCommitMeta)"]
  by (auto simp: known_type_def)

lemma metadata_entries_new:
  assumes "sha256_ok c"
  shows "case buf of
       None \<Rightarrow> metadata_entries c buf = []
     | Some data \<Rightarrow> \<exists>m path. metadata_entries c buf = [m] \<and> te_path m = Some path \<and>
         parse_metadata_entry path = Inr (c, ObjCommitMeta) \<and> te_type m = Regular \<and> te_size m = of_nat (length data) \<and> te_data m = data"
  using commitmeta_path [OF assms]
  by (auto simp: metadata_entries_def default_data_entry_def header_entry_def default_header_def split: option.split)

lemma reinject_forward:
  assumes "reinject_parts src pre e c nxt rest" "try_map copied pre = Inr pre'" "copied e = Inr e'"
    and "is_commitmeta nxt = Inr b" "try_map copied (if b then rest else nxt # rest) = Inr tail'"
  shows "reinject_detached_metadata src buf = Inr (pre' @ e' # metadata_entries c buf @ tail')"
proof -
  obtain path where path: "te_path e = Some path" "parse_metadata_entry path = Inr (c, ObjCommit)"
    using assms(1) by (auto simp: reinject_parts_def result_simps)
  obtain p where p: "object_path ObjCommitMeta c = Inr p"
    using commitmeta_path parse_metadata_entry_sha256 [OF path(2)] by blast
  obtain np nc t where nxt: "te_path nxt = Some np" "parse_metadata_entry np = Inr (nc, t)" "b \<longleftrightarrow> t = ObjCommitMeta"
    using assms(4) by (auto simp: is_commitmeta_def result_simps)
  have run: "copy_until_commit src [] = Inr (pre', Some (e, nxt # rest))"
    using copy_until_commit_Some [of pre pre' e "nxt # rest" "[]"] assms(1,2) by (simp add: reinject_parts_def)
  have tail: "and_then (if t \<noteq> ObjCommitMeta then copy_entry nxt None d else Inr d) (try_fold (\<lambda>e. copy_entry e None) rest) =
      Inr (d @ tail')" for d
    using assms(5) nxt(3) by (auto simp: copy_entry_copied copy_all_copied result_simps)
  show ?thesis
    using run path p nxt(1,2) assms(3) tail
    by (cases buf) (simp_all add: reinject_detached_metadata_def copy_entry_copied metadata_entries_def)
qed

lemma reinject_backward:
  assumes "reinject_detached_metadata src buf = Inr dest"
  obtains pre e c nxt rest pre' e' b tail' where "reinject_parts src pre e c nxt rest" "try_map copied pre = Inr pre'"
    "copied e = Inr e'" "is_commitmeta nxt = Inr b" "try_map copied (if b then rest else nxt # rest) = Inr tail'"
proof -
  obtain d e es path c dest1 where r: "copy_until_commit src [] = Inr (d, Some (e, es))" "te_path e = Some path"
      "parse_metadata_entry path = Inr (c, ObjCommit)" "copy_entry e None d = Inr dest1" "es \<noteq> []"
    using assms by (auto simp: reinject_detached_metadata_def result_simps split: list.splits)
  obtain nxt rest where es: "es = nxt # rest" using r(5) by (cases es) auto
  obtain np nc t dest2 dest3 where n: "te_path nxt = Some np" "parse_metadata_entry np = Inr (nc, t)"
      "(if t \<noteq> ObjCommitMeta then copy_entry nxt None dest2 else Inr dest2) = Inr dest3"
      "try_fold (\<lambda>e. copy_entry e None) rest dest3 = Inr dest"
    using assms r by (auto simp: reinject_detached_metadata_def result_simps es split: list.splits)
  obtain pre pre' where pre: "src = pre @ e # es" "list_all (\<lambda>e. \<not> is_commit_entry e) pre" "is_commit_entry e"
      "try_map copied pre = Inr pre'" using copy_until_commit_Inr [OF r(1)] by blast
  obtain e' where e': "copied e = Inr e'" using r(4) by (auto simp: copy_entry_copied result_simps)
  have "\<exists>tail'. try_map copied (if t = ObjCommitMeta then rest else nxt # rest) = Inr tail'"
    using n(3,4) by (auto simp: copy_all_copied copy_entry_copied result_simps split: if_splits)
  then show thesis
    using that [of pre e c nxt rest pre' e' "t = ObjCommitMeta"] pre e' n(1,2) r(2,3) es
    by (auto simp: reinject_parts_def is_commitmeta_def)
qed

subsection \<open>Importing what was exported\<close>

lemma import_filter_object:
  assumes "sha256_ok c" "slash \<notin> set suffix" "object_file_path suffix c = Inr p"
    and "te_path e = Some p" "te_type e \<noteq> Directory"
  shows "import_filter_entry e = Inr (Some (e, path_collect (Normal (str ''objects'') # object_components c suffix)))"
proof -
  let ?cs = "Normal (str ''objects'') # object_components c suffix"
  have cs: "components (path_collect ?cs) = ?cs"
    using wf_object_components [OF assms(1,2)]
    by (intro components_path_collect wf_components_body) (simp add: plain_name_def path_consts str_simps)
  have strip: "path_strip_prefix REPO_PREFIX p = Some (path_collect ?cs)"
    using components_object_path [OF assms(1-3)]
    by (simp add: path_strip_prefix_def components_repo_objects)
  have "46 \<notin> set (str ''config'')" by (simp add: str_simps)
  then have "drop 2 c @ 46 # suffix \<noteq> str ''config''" by (metis in_set_conv_decomp)
  then have "path_file_name (path_collect ?cs) \<noteq> Some (str ''config'')"
    using cs by (simp add: path_file_name_def object_components_def)
  moreover have "\<not> path_starts_with (str ''refs'') (path_collect ?cs)"
    using cs by (simp add: path_starts_with_def components_repo_objects)
  ultimately show ?thesis
    using assms(4,5) strip by (simp add: import_filter_entry_def)
qed

lemma import_step_object:
  assumes "sha256_ok c" "slash \<notin> set suffix" "46 \<notin> set suffix" "suffix \<noteq> []"
  shows "import_step env (e, path_collect (Normal (str ''objects'') # object_components c suffix)) im =
    import_by_suffix env e c suffix im"
proof -
  let ?cs = "Normal (str ''objects'') # object_components c suffix"
  have wf: "list_all body_component (object_components c suffix)"
    by (rule wf_object_components [OF assms(1,2)])
  have cs: "components (path_collect ?cs) = ?cs"
    using wf by (intro components_path_collect wf_components_body) (simp add: plain_name_def path_consts str_simps)
  have "path_strip_prefix (str ''objects/'') (path_collect ?cs) = Some (path_collect (object_components c suffix))"
    using cs by (simp add: path_strip_prefix_def components_repo_objects)
  moreover have body: "components (path_collect (object_components c suffix)) = [] @ object_components c suffix"
    using wf by (simp add: components_path_collect wf_components_body)
  ultimately show ?thesis
    using parse_object_components [OF assms body] by (simp add: import_step_def import_object_def)
qed

lemma import_object_entry:
  assumes "sha256_ok c" "slash \<notin> set suffix" "46 \<notin> set suffix" "suffix \<noteq> []"
    and "object_file_path suffix c = Inr p" "te_path e = Some p" "te_type e \<noteq> Directory"
  shows "import_objects_impl env (e # es) im =
    and_then (import_by_suffix env e c suffix im) (import_objects_impl env es)"
  using import_filter_object [OF assms(1,2,5,6,7)] import_step_object [OF assms(1-4)] by simp

lemma import_skipped:
  "import_filter_entry e = Inr None \<Longrightarrow> import_objects_impl env (e # es) im = import_objects_impl env es im"
  by simp

lemma import_objects_append:
  "import_objects_impl env (xs @ ys) im = and_then (import_objects_impl env xs im) (import_objects_impl env ys)"
proof (induction env xs im rule: import_objects_impl.induct)
  case (2 env e es im)
  then show ?case
    by (cases "import_filter_entry e") (auto simp: and_then_assoc split: option.split intro!: arg_cong2 [of _ _ _ _ and_then])
qed simp

lemma import_objects_nil [simp]: "import_objects_impl env [] = Inr"
  by (rule ext) simp

declare import_objects_impl.simps(2) [simp del]

text \<open>The content object a checksum stands for, as the importer writes it.\<close>

definition file_event :: "export_env \<Rightarrow> rstr \<Rightarrow> repo_event" where
  "file_event env c =
     (case xe_load_file env c of
        Inr (Some d, meta, x) \<Rightarrow>
          WriteRegfile c (fi_uid meta) (fi_gid meta) (or S_IFREG (filter_mode (fi_mode meta))) x d
      | Inr (None, meta, x) \<Rightarrow>
          WriteSymlink c (fi_uid meta) (fi_gid meta) x (case fi_symlink_target meta of Some t \<Rightarrow> t | None \<Rightarrow> [])
      | Inl _ \<Rightarrow> TxnBegin)"

definition file_xattrs_of :: "export_env \<Rightarrow> rstr \<Rightarrow> bytes" where
  "file_xattrs_of env c = (case xe_load_file env c of Inr (_, _, x) \<Rightarrow> x | Inl _ \<Rightarrow> [])"

text \<open>A content object that can be exported: a regular file whose data has the recorded size, or a
  symbolic link whose target a tar header can hold unchanged, with extended attributes of acceptable size and digest.\<close>

definition exportable :: "export_env \<Rightarrow> rstr \<Rightarrow> bool" where
  "exportable env c \<longleftrightarrow> sha256_ok c \<and>
     (case xe_load_file env c of
        Inl _ \<Rightarrow> False
      | Inr (instream, meta, x) \<Rightarrow>
          sha256_ok (xe_sha256 env x) \<and> length x \<le> 1048576 \<and>
          (case instream of
             Some d \<Rightarrow> fi_type meta = FRegular \<and> uint (fi_size meta) = int (length d)
           | None \<Rightarrow> fi_type meta = FSymbolicLink \<and>
               (case fi_symlink_target meta of None \<Rightarrow> False
                | Some t \<Rightarrow> symlink_is_denormal t \<or> xe_link_name env t = t)))"

text \<open>An import environment that uses the same digest and a repository that holds the file objects \<open>P\<close> when the import
  starts: it has those and the ones written since, and it accepts each of the objects \<open>C\<close> it does not hold yet.\<close>

definition accepts_content :: "export_env \<Rightarrow> import_env \<Rightarrow> rstr set \<Rightarrow> rstr set \<Rightarrow> bool" where
  "accepts_content env ienv P C \<longleftrightarrow> ie_sha256 ienv = xe_sha256 env \<and>
     (\<forall>log c. ie_has_file ienv log c = Inr (c \<in> P \<or> Some c \<in> content_event ` set log)) \<and>
     (\<forall>c \<in> C - P. is_ok (ie_answer ienv (file_event env c)))"

text \<open>The calls around the objects succeed: the transaction, and the synthetic commit of the objects \<open>objset\<close>.\<close>

definition accepts_set :: "import_env \<Rightarrow> rstr list \<Rightarrow> bool" where
  "accepts_set ienv objset \<longleftrightarrow> is_ok (ie_answer ienv TxnBegin) \<and> is_ok (ie_answer ienv TxnCommit) \<and>
     (case ie_answer ienv (WriteMetadata ObjDirMeta None (ie_default_dirmeta ienv)) of
        Inl _ \<Rightarrow> False | Inr dirmeta \<Rightarrow> is_ok (ie_answer ienv (WriteObjectSetCommit objset dirmeta)))"

lemma suffix_props:
  "slash \<notin> set (str ''file-xattrs'')" "46 \<notin> set (str ''file-xattrs'')"
  "slash \<notin> set (str ''file-xattrs-link'')" "46 \<notin> set (str ''file-xattrs-link'')"
  "slash \<notin> set (str ''file'')" "46 \<notin> set (str ''file'')"
  by (simp_all add: path_consts str_simps)

lemma u32_of_ucast: "u32_of (ucast (x :: u32)) = Inr x"
proof -
  have lt: "unat x < 2 ^ 32"
    using unsigned_less [of x, where 'a = nat] by simp
  then have "unat (ucast x :: u64) = unat x"
    by (simp add: unsigned_ucast_eq take_bit_nat_eq_self)
  with lt have "ucast x < (0x100000000 :: u64)"
    by (simp add: word_less_nat_alt)
  then show ?thesis by (simp add: u32_of_def ucast_up_ucast_id is_up)
qed

lemma parse_xattrs_link_object:
  "sha256_ok c \<Longrightarrow> v1_xattrs_object_path c = Inr p \<Longrightarrow> parse_xattrs_link_target p = Inr c"
  using components_object_path [of c "str ''file-xattrs''" p]
    parse_object_components [of c "str ''file-xattrs''" p, OF _ suffix_props(1,2) _ _ repo_prefix_body]
  by (simp add: v1_xattrs_object_path_def parse_xattrs_link_target_def suffix_props)

text \<open>Importing the attributes of a file object.\<close>

lemma import_xattrs_entry:
  assumes "accepts_content env ienv P C" "sha256_ok (xe_sha256 env x)" "length x \<le> 1048576"
    and "v1_xattrs_object_path (xe_sha256 env x) = Inr p"
  shows "import_objects_impl ienv [default_data_entry p x] im =
    Inr (im\<lparr>im_xattrs := kv_insert (xe_sha256 env x) x (im_xattrs im)\<rparr>)"
proof -
  let ?e = "default_data_entry p x"
  have small: "uint (word_of_nat (length x) :: u64) = int (length x)" "unat (word_of_nat (length x) :: u64) = length x"
    using assms(3) by (simp_all add: unsigned_of_nat take_bit_nat_eq_self)
  then have "\<not> MAX_XATTR_SIZE < (word_of_nat (length x) :: u64)"
    using assms(3) by (simp add: MAX_XATTR_SIZE_def word_less_nat_alt)
  then have "import_by_suffix ienv ?e (xe_sha256 env x) (str ''file-xattrs'') im =
      Inr (im\<lparr>im_xattrs := kv_insert (xe_sha256 env x) x (im_xattrs im)\<rparr>)"
    using assms(1) small
    by (simp add: import_by_suffix_def process_file_xattrs_def cache_xattrs_content_def accepts_content_def
        default_data_entry_def header_entry_def default_header_def Let_def)
  then show ?thesis
    using import_object_entry [OF assms(2) suffix_props(1,2), of p ?e ienv "[]" im] assms(4)
    by (simp add: v1_xattrs_object_path_def default_data_entry_def header_entry_def default_header_def)
qed

lemma import_xattrs_link_entry:
  assumes "sha256_ok c" "sha256_ok xc" "v1_xattrs_object_path xc = Inr xp"
    and "v1_xattrs_link_object_path c = Inr p" "im_next_xattrs im = None"
  shows "import_objects_impl ienv [default_hardlink_entry p xp] im = Inr (im\<lparr>im_next_xattrs := Some (c, xc)\<rparr>)"
proof -
  let ?e = "default_hardlink_entry p xp"
  have "import_by_suffix ienv ?e c (str ''file-xattrs-link'') im = Inr (im\<lparr>im_next_xattrs := Some (c, xc)\<rparr>)"
    using assms parse_xattrs_link_object [OF assms(2,3)]
    by (simp add: import_by_suffix_def process_file_xattrs_link_def default_hardlink_entry_def header_entry_def default_header_def)
  then show ?thesis
    using import_object_entry [OF assms(1) suffix_props(3,4), of p ?e ienv "[]" im] assms(4)
    by (simp add: v1_xattrs_link_object_path_def default_hardlink_entry_def header_entry_def default_header_def)
qed

text \<open>The importer after one more content object of an object set.\<close>

definition imported_one :: "rstr \<Rightarrow> repo_event list \<Rightarrow> importer \<Rightarrow> importer \<Rightarrow> bool" where
  "imported_one c evs im im' \<longleftrightarrow> im_next_xattrs im' = None \<and> im_xattrs im' = im_xattrs im \<and>
     im_log im' = im_log im @ evs \<and>
     (\<forall>s. im_data im = ObjectSet s \<longrightarrow> im_data im' = ObjectSet (insort c s))"

text \<open>The events of one object, given the objects the repository held before.\<close>

definition file_events :: "export_env \<Rightarrow> rstr set \<Rightarrow> rstr \<Rightarrow> repo_event list" where
  "file_events env P c = (if c \<in> P then [] else [file_event env c])"

lemma file_event_content: "exportable env c \<Longrightarrow> content_event (file_event env c) = Some c"
  by (auto simp: exportable_def file_event_def split: sum.splits option.splits)

definition file_entry :: "export_env \<Rightarrow> rstr \<Rightarrow> rstr \<Rightarrow> tar_entry" where
  "file_entry env c p =
     (case xe_load_file env c of
        Inr (Some d, meta, x) \<Rightarrow>
          header_entry \<lparr>h_type = Regular, h_uid = ucast (fi_uid meta), h_gid = ucast (fi_gid meta),
            h_mode = filter_mode (fi_mode meta), h_size = Some (fi_size meta)\<rparr> p None d
      | Inr (None, meta, x) \<Rightarrow>
          header_entry \<lparr>h_type = Symlink, h_uid = ucast (fi_uid meta), h_gid = ucast (fi_gid meta),
            h_mode = filter_mode (fi_mode meta), h_size = Some 0\<rparr> p (fi_symlink_target meta) []
      | Inl _ \<Rightarrow> default_dir_entry p)"

lemma import_file_entry:
  assumes "exportable env c" "accepts_content env ienv P C" "c \<in> C" "object_path ObjFile c = Inr p"
    and "im_next_xattrs im = Some (c, xc)" "kv_lookup (im_xattrs im) xc = Some (file_xattrs_of env c)"
    and "im_data im = ObjectSet s" "c \<notin> set s" "Some c \<notin> content_event ` set (im_log im)"
  shows "\<exists>im'. import_objects_impl ienv [file_entry env c p] im = Inr im' \<and>
    imported_one c (file_events env P c) im im'"
proof -
  obtain ins meta x where l: "xe_load_file env c = Inr (ins, meta, x)"
    using assms(1) by (auto simp: exportable_def split: sum.splits)
  let ?e = "file_entry env c p"
  have has: "ie_has_file ienv (im_log im) c = Inr (c \<in> P)"
    using assms(2,9) by (simp add: accepts_content_def)
  have written: "\<exists>im1. import_content_object ienv ?e c im = Inr im1 \<and> im_data im1 = im_data im \<and>
      im_next_xattrs im1 = None \<and> im_xattrs im1 = im_xattrs im \<and> im_log im1 = im_log im @ [file_event env c]"
    if new: "c \<notin> P" and r: "ie_answer ienv (file_event env c) = Inr r" for r
  proof (cases ins)
    case (Some d)
    then have e: "?e = header_entry \<lparr>h_type = Regular, h_uid = ucast (fi_uid meta), h_gid = ucast (fi_gid meta),
            h_mode = filter_mode (fi_mode meta), h_size = Some (fi_size meta)\<rparr> p None d"
      using l by (simp add: file_entry_def)
    have sz: "uint (fi_size meta) = int (length d)" "unat (fi_size meta) = length d"
      using assms(1) l Some by (auto simp: exportable_def unat_eq_nat_uint)
    have ev: "file_event env c = WriteRegfile c (fi_uid meta) (fi_gid meta) (or S_IFREG (filter_mode (fi_mode meta))) x d"
      using l Some by (simp add: file_event_def)
    show ?thesis
      using has new assms(5,6) l r sz unfolding e
      by (auto simp: import_content_object_def import_large_regfile_object_def import_small_regfile_object_def
          header_attrs_def u32_of_ucast not_less call_def ev file_xattrs_of_def Let_def header_entry_def [of _ p])
  next
    case None
    then obtain t where t: "fi_symlink_target meta = Some t"
      using assms(1) l by (auto simp: exportable_def split: option.splits)
    have e: "?e = header_entry \<lparr>h_type = Symlink, h_uid = ucast (fi_uid meta), h_gid = ucast (fi_gid meta),
            h_mode = filter_mode (fi_mode meta), h_size = Some 0\<rparr> p (Some t) []"
      using l None t by (simp add: file_entry_def)
    have ev: "file_event env c = WriteSymlink c (fi_uid meta) (fi_gid meta) x t"
      using l None t by (simp add: file_event_def)
    show ?thesis
      using has new assms(5,6) l r unfolding e
      by (auto simp: import_content_object_def import_symlink_object_def header_attrs_def u32_of_ucast call_def ev
          file_xattrs_of_def Let_def header_entry_def [of _ p])
  qed
  have "\<exists>im1. import_content_object ienv ?e c im = Inr im1 \<and> im_data im1 = im_data im \<and>
      im_next_xattrs im1 = None \<and> im_xattrs im1 = im_xattrs im \<and> im_log im1 = im_log im @ file_events env P c"
  proof (cases "c \<in> P")
    case True
    with has assms(5) show ?thesis by (simp add: import_content_object_def file_events_def)
  next
    case False
    with assms(2,3) obtain r where "ie_answer ienv (file_event env c) = Inr r"
      unfolding accepts_content_def is_ok_iff by blast
    with written False show ?thesis by (simp add: file_events_def)
  qed
  then obtain im1 where im1: "import_content_object ienv ?e c im = Inr im1" "im_data im1 = im_data im"
      "im_next_xattrs im1 = None" "im_xattrs im1 = im_xattrs im" "im_log im1 = im_log im @ file_events env P c"
    by blast
  have "te_path ?e = Some p" "te_type ?e \<noteq> Directory"
    using l by (cases ins; simp add: file_entry_def header_entry_def)+
  then have "import_objects_impl ienv [?e] im = import_by_suffix ienv ?e c (str ''file'') im"
    using import_object_entry [of c "str ''file''" p ?e ienv "[]" im] assms(1,4) suffix_props(5,6)
    by (simp add: exportable_def object_path_def)
  then show ?thesis
    using im1 assms(7,8)
    by (simp add: import_by_suffix_def track_object_def imported_one_def)
qed

text \<open>The relation between a writer and an importer that has read its output so far.\<close>

definition in_step :: "export_env \<Rightarrow> bytes set \<Rightarrow> tar_writer \<Rightarrow> importer \<Rightarrow> bool" where
  "in_step env X w im \<longleftrightarrow> im_next_xattrs im = None \<and> ow_wrote_xattrs w \<subseteq> xe_sha256 env ` X \<and>
     (\<forall>x \<in> X. xe_sha256 env x \<in> ow_wrote_xattrs w \<longrightarrow> kv_lookup (im_xattrs im) (xe_sha256 env x) = Some x)"

lemma append_content_imported:
  assumes "exportable env c" "accepts_content env ienv P C" "c \<notin> ow_wrote_content w"
    and "in_step env X w im" "file_xattrs_of env c \<in> X" "inj_on (xe_sha256 env) X"
    and "im_data im = ObjectSet s" "c \<notin> set s" "c \<in> C" "Some c \<notin> content_event ` set (im_log im)"
  shows "\<exists>p h w' es im'. append_content env c w = Inr ((p, h), w') \<and> ow_out w' = ow_out w @ es \<and>
    import_objects_impl ienv es im = Inr im' \<and> in_step env X w' im' \<and>
    im_log im' = im_log im @ file_events env P c \<and> im_data im' = ObjectSet (insort c s) \<and>
    ow_wrote_content w' = insert c (ow_wrote_content w) \<and> h_size h \<noteq> None"
proof -
  obtain ins meta x where l: "xe_load_file env c = Inr (ins, meta, x)"
    using assms(1) by (auto simp: exportable_def split: sum.splits)
  then have x: "file_xattrs_of env c = x" by (simp add: file_xattrs_of_def)
  have ok: "sha256_ok c" "sha256_ok (xe_sha256 env x)" "length x \<le> 1048576"
    using assms(1) l by (auto simp: exportable_def)
  obtain p xp lp where paths: "object_path ObjFile c = Inr p" "v1_xattrs_object_path (xe_sha256 env x) = Inr xp"
      "v1_xattrs_link_object_path c = Inr lp"
    using ok by (simp add: object_path_def v1_xattrs_object_path_def v1_xattrs_link_object_path_def object_file_path_eq)
  define new where "new = (if xe_sha256 env x \<in> ow_wrote_xattrs w then [] else [default_data_entry xp x])"
  define im1 where "im1 = (if xe_sha256 env x \<in> ow_wrote_xattrs w then im
      else im\<lparr>im_xattrs := kv_insert (xe_sha256 env x) x (im_xattrs im)\<rparr>)"
  let ?es = "new @ [default_hardlink_entry lp xp, file_entry env c p]"
  have "\<exists>h w'. append_content env c w = Inr ((p, h), w') \<and> ow_out w' = ow_out w @ ?es \<and>
      ow_wrote_xattrs w' = insert (xe_sha256 env x) (ow_wrote_xattrs w) \<and>
      ow_wrote_content w' = insert c (ow_wrote_content w) \<and> h_size h \<noteq> None"
    using assms(1,3) l paths
    by (cases ins)
       (auto simp: append_content_def append_xattrs_def exportable_def emit_def file_entry_def insert_absorb new_def Let_def
         split: option.splits)
  then obtain h w' where w': "append_content env c w = Inr ((p, h), w')" "ow_out w' = ow_out w @ ?es"
      "ow_wrote_xattrs w' = insert (xe_sha256 env x) (ow_wrote_xattrs w)"
      "ow_wrote_content w' = insert c (ow_wrote_content w)" "h_size h \<noteq> None"
    by blast
  have i1: "import_objects_impl ienv new im = Inr im1"
    using import_xattrs_entry [OF assms(2) ok(2,3) paths(2), of im] by (simp add: new_def im1_def)
  have nx: "im_next_xattrs im1 = None" "im_data im1 = ObjectSet s" "im_log im1 = im_log im"
    using assms(4,7) by (auto simp: in_step_def im1_def)
  have look: "kv_lookup (im_xattrs im1) (xe_sha256 env x) = Some x"
    using assms(4,5) x by (auto simp: in_step_def im1_def kv_lookup_insert)
  have i2: "import_objects_impl ienv [default_hardlink_entry lp xp] im1 =
      Inr (im1\<lparr>im_next_xattrs := Some (c, xe_sha256 env x)\<rparr>)"
    by (rule import_xattrs_link_entry [OF ok(1,2) paths(2,3) nx(1)])
  from import_file_entry [OF assms(1,2,9) paths(1), of "im1\<lparr>im_next_xattrs := Some (c, xe_sha256 env x)\<rparr>" "xe_sha256 env x" s]
    look x nx assms(8,10)
  obtain im' where im': "import_objects_impl ienv [file_entry env c p] (im1\<lparr>im_next_xattrs := Some (c, xe_sha256 env x)\<rparr>) = Inr im'"
      "imported_one c (file_events env P c) (im1\<lparr>im_next_xattrs := Some (c, xe_sha256 env x)\<rparr>) im'"
    by auto
  have "import_objects_impl ienv ?es im = Inr im'"
    using i1 i2 im'(1) import_objects_append [of ienv new "[default_hardlink_entry lp xp, file_entry env c p]" im]
      import_objects_append [of ienv "[default_hardlink_entry lp xp]" "[file_entry env c p]" im1]
    by simp
  moreover have "kv_lookup (im_xattrs im1) (xe_sha256 env y) = Some y"
    if "y \<in> X" "xe_sha256 env y \<in> ow_wrote_xattrs w'" for y
  proof (cases "y = x")
    case False
    then have "xe_sha256 env y \<noteq> xe_sha256 env x"
      using assms(5,6) that(1) x by (auto dest: inj_onD)
    with that w'(3) assms(4) show ?thesis by (auto simp: in_step_def im1_def kv_lookup_insert)
  qed (use look in simp)
  then have "in_step env X w' im'"
    using assms(4,5) im'(2) x w'(3) by (auto simp: in_step_def imported_one_def)
  ultimately show ?thesis
    using w' im'(2) nx(2,3) by (auto simp: imported_one_def)
qed

lemma import_all_skipped:
  "\<forall>e \<in> set es. import_filter_entry e = Inr None \<Longrightarrow> import_objects_impl env es im = Inr im"
  by (induction es) (simp_all add: import_objects_impl.simps(2))

lemma repo_structure_skipped: "\<forall>e \<in> set repo_structure. import_filter_entry e = Inr None"
proof -
  have "import_filter_entry (default_data_entry (OSTREEDIR @ str ''/repo/config'') REPO_CONFIG) = Inr None"
    by code_simp
  moreover have "import_filter_entry (default_dir_entry p) = Inr None" for p
    by (simp add: import_filter_entry_def default_dir_entry_def header_entry_def default_header_def)
  ultimately show ?thesis
    unfolding repo_structure_def set_append set_map by auto
qed

definition outside_repo :: "rstr \<Rightarrow> bool" where
  "outside_repo path \<longleftrightarrow> (case path_for_tar_v1 path of Inl _ \<Rightarrow> False | Inr q \<Rightarrow> path_strip_prefix REPO_PREFIX q = None)"

lemma hardlinks_skipped:
  assumes "list_all outside_repo paths" "h_size h \<noteq> None" "h_type h \<noteq> Directory"
  shows "\<exists>es. try_fold (\<lambda>path w. and_then (path_for_tar_v1 path) (\<lambda>path. append_content_hardlink env objpath h path w)) paths w =
      Inr (w\<lparr>ow_out := ow_out w @ es\<rparr>) \<and> (\<forall>e \<in> set es. import_filter_entry e = Inr None)"
  using assms(1)
proof (induction paths arbitrary: w)
  case Nil
  show ?case by (intro exI [of _ "[]"]) simp
next
  case (Cons path paths)
  then obtain q where q: "path_for_tar_v1 path = Inr q" "path_strip_prefix REPO_PREFIX q = None"
    by (auto simp: outside_repo_def split: sum.splits)
  obtain n where n: "h_size h = Some n" using assms(2) by blast
  have "\<exists>e. append_content_hardlink env objpath h q w = Inr (w\<lparr>ow_out := ow_out w @ [e]\<rparr>) \<and> import_filter_entry e = Inr None"
  proof (cases "h_type h = Regular \<and> n = 0")
    case True
    with q(2) n show ?thesis
      by (intro exI [of _ "header_entry (h\<lparr>h_size := Some 0\<rparr>) q None []"])
        (simp add: append_content_hardlink_def emit_def import_filter_entry_def header_entry_def Let_def)
  next
    case False
    with q(2) n show ?thesis
      by (intro exI [of _ "header_entry (h\<lparr>h_size := Some 0, h_type := Link\<rparr>) q (Some objpath) []"])
        (auto simp: append_content_hardlink_def emit_def import_filter_entry_def header_entry_def Let_def)
  qed
  then obtain e where e: "append_content_hardlink env objpath h q w = Inr (w\<lparr>ow_out := ow_out w @ [e]\<rparr>)"
      "import_filter_entry e = Inr None" by blast
  obtain es where "try_fold (\<lambda>path w. and_then (path_for_tar_v1 path) (\<lambda>path. append_content_hardlink env objpath h path w)) paths
      (w\<lparr>ow_out := ow_out w @ [e]\<rparr>) = Inr (w\<lparr>ow_out := ow_out w @ [e] @ es\<rparr>)"
      "\<forall>e \<in> set es. import_filter_entry e = Inr None"
    using Cons.IH [of "w\<lparr>ow_out := ow_out w @ [e]\<rparr>"] Cons.prems by auto
  with q(1) e show ?case by (intro exI [of _ "e # es"]) simp
qed

lemma append_content_header_type: "append_content env c w = Inr ((p, h), w') \<Longrightarrow> h_type h \<noteq> Directory"
  by (auto simp: append_content_def result_simps Let_def split: if_splits option.splits)

lemma write_chunk_imported:
  assumes "accepts_content env ienv P C" "inj_on (xe_sha256 env) X" "distinct (map fst chunk)"
    and "\<forall>e \<in> set chunk. exportable env (fst e) \<and> file_xattrs_of env (fst e) \<in> X \<and> list_all outside_repo (snd (snd e))"
    and "in_step env X w im" "im_data im = ObjectSet s" "sorted s" "distinct s"
    and "\<forall>e \<in> set chunk. fst e \<notin> set s \<and> fst e \<notin> ow_wrote_content w \<and> fst e \<in> C \<and>
      Some (fst e) \<notin> content_event ` set (im_log im)"
  shows "\<exists>w' es im' s'. write_chunk env chunk w = Inr w' \<and> ow_out w' = ow_out w @ es \<and>
    import_objects_impl ienv es im = Inr im' \<and>
    im_log im' = im_log im @ map (file_event env) (filter (\<lambda>c. c \<notin> P) (map fst chunk)) \<and>
    im_data im' = ObjectSet s' \<and> sorted s' \<and> distinct s' \<and> set s' = set s \<union> fst ` set chunk"
  using assms(3-9)
proof (induction chunk arbitrary: w im s)
  case Nil
  then show ?case by (simp add: write_chunk_def)
next
  case (Cons e chunk)
  obtain c sz paths where e: "e = (c, sz, paths)" by (cases e) auto
  have prems: "exportable env c" "file_xattrs_of env c \<in> X" "list_all outside_repo paths" "c \<notin> set s" "c \<notin> ow_wrote_content w"
      "c \<in> C" "Some c \<notin> content_event ` set (im_log im)"
    using Cons.prems(2,7) e by simp_all
  from append_content_imported [OF prems(1) assms(1) prems(5) Cons.prems(3) prems(2) assms(2) Cons.prems(4) prems(4,6,7)]
  obtain p h w1 es1 im1 where s1: "append_content env c w = Inr ((p, h), w1)" "ow_out w1 = ow_out w @ es1"
      "import_objects_impl ienv es1 im = Inr im1" "in_step env X w1 im1" "im_log im1 = im_log im @ file_events env P c"
      "im_data im1 = ObjectSet (insort c s)" "ow_wrote_content w1 = insert c (ow_wrote_content w)" "h_size h \<noteq> None"
    by blast
  from hardlinks_skipped [OF prems(3) s1(8) append_content_header_type [OF s1(1)], of env p w1]
  obtain es2 where s2: "try_fold (\<lambda>path w. and_then (path_for_tar_v1 path) (\<lambda>path. append_content_hardlink env p h path w)) paths w1 =
      Inr (w1\<lparr>ow_out := ow_out w1 @ es2\<rparr>)" "\<forall>e \<in> set es2. import_filter_entry e = Inr None"
    by blast
  let ?w2 = "w1\<lparr>ow_out := ow_out w1 @ es2\<rparr>"
  have step: "write_chunk_object env e w = Inr ?w2"
    using s1(1) s2(1) by (simp add: write_chunk_object_def e)
  have "\<exists>w' es im' s'. write_chunk env chunk ?w2 = Inr w' \<and> ow_out w' = ow_out ?w2 @ es \<and>
    import_objects_impl ienv es im1 = Inr im' \<and>
    im_log im' = im_log im1 @ map (file_event env) (filter (\<lambda>c. c \<notin> P) (map fst chunk)) \<and>
    im_data im' = ObjectSet s' \<and> sorted s' \<and> distinct s' \<and> set s' = set (insort c s) \<union> fst ` set chunk"
  proof (rule Cons.IH)
    show "in_step env X ?w2 im1" using s1(4) by (simp add: in_step_def)
    have neq: "fst x \<noteq> c" if "x \<in> set chunk" for x
      using that Cons.prems(1) e by auto
    have "Some (fst x) \<notin> content_event ` set (im_log im1)" if "x \<in> set chunk" for x
      using that neq [OF that] Cons.prems(7) s1(5) file_event_content [OF prems(1)] by (auto simp: file_events_def)
    then show "\<forall>x \<in> set chunk. fst x \<notin> set (insort c s) \<and> fst x \<notin> ow_wrote_content ?w2 \<and> fst x \<in> C \<and>
        Some (fst x) \<notin> content_event ` set (im_log im1)"
      using Cons.prems(7) s1(7) neq by (simp add: set_insort_key)
    show "sorted (insort c s)" "distinct (insort c s)"
      using Cons.prems(5,6) prems(4) by (simp_all add: sorted_insort distinct_insort)
  qed (use Cons.prems s1(6) in auto)
  then obtain w' es im' s' where r: "write_chunk env chunk ?w2 = Inr w'" "ow_out w' = ow_out ?w2 @ es"
    "import_objects_impl ienv es im1 = Inr im'"
    "im_log im' = im_log im1 @ map (file_event env) (filter (\<lambda>c. c \<notin> P) (map fst chunk))"
    "im_data im' = ObjectSet s'" "sorted s'" "distinct s'" "set s' = set (insort c s) \<union> fst ` set chunk"
    by blast
  have "import_objects_impl ienv (es1 @ es2 @ es) im = Inr im'"
    using s1(3) r(3) import_all_skipped [OF s2(2)] by (simp add: import_objects_append)
  moreover have "ow_out w' = ow_out w @ es1 @ es2 @ es" using r(2) s1(2) by simp
  moreover have "write_chunk env (e # chunk) w = Inr w'" using step r(1) by (simp add: write_chunk_def)
  ultimately show ?case
    using r(4-8) s1(5) by (intro exI [of _ w'] exI [of _ "es1 @ es2 @ es"] exI [of _ im'] exI [of _ s'])
      (simp add: e set_insort_key file_events_def)
qed

section \<open>Properties\<close>

lemma sample_checksum_ok: "sha256_ok (sample_checksum 97)" "sha256_ok (sample_checksum 98)"
  by code_simp+

text \<open>The path under which an object is written to an archive is read back by the importer as the
  same checksum and object type, for every checksum of 64 lower-case hexadecimal digits.\<close>

theorem object_path_round_trip:
  assumes "sha256_ok c" "t \<in> {ObjCommit, ObjCommitMeta, ObjDirTree, ObjDirMeta, ObjFile}"
  shows "\<exists>p. object_path t c = Inr p \<and> parse_metadata_entry p = Inr (c, t)"
proof -
  have wf: "case (c, t) of (c, t) \<Rightarrow> sha256_ok c \<and> known_type t" using assms by (auto simp: known_type_def)
  from object_codec.enc_total [OF wf] object_codec.dec_enc [OF wf] show ?thesis by auto
qed

theorem object_path_round_trip_witness:
  "\<exists>p. object_path ObjFile (sample_checksum 97) = Inr p \<and> parse_metadata_entry p = Inr (sample_checksum 97, ObjFile)"
  by (rule object_path_round_trip) (simp_all add: sample_checksum_ok)

text \<open>C1: a chunk survives the way through an archive.  Take a commit that can be loaded, a chunk of distinct exportable content objects whose
  paths lie outside the embedded repository and whose different extended attributes have different digests, and a
  repository that already holds the file objects \<open>P\<close> and accepts the other objects of the chunk and the calls of this
  import.  Then writing the chunk succeeds, importing the written archive succeeds, and the importer writes exactly
  the chunk's objects that are not in \<open>P\<close>, in its order, each with its own metadata, extended attributes and content;
  the synthetic commit lists exactly the chunk's objects, those in \<open>P\<close> included.\<close>

theorem export_chunk_import_round_trip:
  assumes "is_ok (load_commit (xe_store env) commit)" "distinct (map fst chunk)"
    and "\<forall>e \<in> set chunk. exportable env (fst e) \<and> list_all outside_repo (snd (snd e))"
    and "inj_on (xe_sha256 env) (file_xattrs_of env ` fst ` set chunk)"
    and "accepts_content env ienv P (fst ` set chunk)"
    and "accepts_set ienv (sorted_list_of_set (fst ` set chunk))"
  shows "\<exists>es r dirmeta. export_chunk env commit chunk = Inr es \<and>
    import_tar_objects ienv es = Inr (r, [TxnBegin] @ map (file_event env) (filter (\<lambda>c. c \<notin> P) (map fst chunk)) @
      [WriteMetadata ObjDirMeta None (ie_default_dirmeta ienv),
       WriteObjectSetCommit (sorted_list_of_set (fst ` set chunk)) dirmeta, TxnCommit])"
proof -
  obtain w where w: "tar_writer_new env commit = Inr w" "ow_out w = []" "ow_wrote_initdirs w = False"
      "ow_wrote_content w = {}" "ow_wrote_xattrs w = {}"
    using assms(1) by (auto simp: tar_writer_new_def is_ok_iff)
  let ?w = "write_repo_structure w" and ?im = "new_for_object_set\<lparr>im_log := [TxnBegin]\<rparr>"
    and ?X = "file_xattrs_of env ` fst ` set chunk" and ?evs = "map (file_event env) (filter (\<lambda>c. c \<notin> P) (map fst chunk))"
  have w': "ow_out ?w = repo_structure" "ow_wrote_content ?w = {}" "ow_wrote_xattrs ?w = {}"
    using w by (simp_all add: write_repo_structure_def)
  have "\<exists>w' es im' s'. write_chunk env chunk ?w = Inr w' \<and> ow_out w' = ow_out ?w @ es \<and>
      import_objects_impl ienv es ?im = Inr im' \<and> im_log im' = im_log ?im @ ?evs \<and>
      im_data im' = ObjectSet s' \<and> sorted s' \<and> distinct s' \<and> set s' = set [] \<union> fst ` set chunk"
    using assms(2-5) w' by (intro write_chunk_imported [where X = ?X]) (auto simp: in_step_def new_for_object_set_def)
  then obtain w2 es im' s' where r: "write_chunk env chunk ?w = Inr w2" "ow_out w2 = repo_structure @ es"
      "import_objects_impl ienv es ?im = Inr im'" "im_log im' = TxnBegin # ?evs"
      "im_data im' = ObjectSet s'" "sorted s'" "distinct s'" "set s' = fst ` set chunk"
    using w'(1) by auto
  have s': "s' = sorted_list_of_set (fst ` set chunk)"
    using r(6-8) by (metis sorted_list_of_set.idem_if_sorted_distinct)
  have run: "import_objects_impl ienv (repo_structure @ es) ?im = Inr im'"
    using r(3) import_all_skipped [OF repo_structure_skipped] by (simp add: import_objects_append)
  obtain dm c t0 t1 where ans: "ie_answer ienv (WriteMetadata ObjDirMeta None (ie_default_dirmeta ienv)) = Inr dm"
      "ie_answer ienv (WriteObjectSetCommit s' dm) = Inr c" "ie_answer ienv TxnBegin = Inr t0" "ie_answer ienv TxnCommit = Inr t1"
    using assms(6) unfolding s' by (auto simp: accepts_set_def is_ok_iff split: sum.splits)
  have log0: "im_log new_for_object_set = []" by (simp add: new_for_object_set_def)
  have "import_tar_objects ienv (repo_structure @ es) = Inr (c, [TxnBegin] @ ?evs @
      [WriteMetadata ObjDirMeta None (ie_default_dirmeta ienv), WriteObjectSetCommit s' dm, TxnCommit])"
    using run r(4,5) by (simp add: import_tar_objects_def finish_import_object_set_def call_def ans log0)
  moreover have "export_chunk env commit chunk = Inr (repo_structure @ es)"
    using w(1) r(1,2) by (simp add: export_chunk_def)
  ultimately show ?thesis unfolding s' by blast
qed

text \<open>A repository that holds one object when the import starts and knows what was written since.\<close>

definition live_env :: "rstr set \<Rightarrow> import_env" where
  "live_env P = sample_env\<lparr>ie_has_file := (\<lambda>log c. Inr (c \<in> P \<or> Some c \<in> content_event ` set log))\<rparr>"

definition sample_export_env :: export_env where
  "sample_export_env =
     \<lparr>xe_store = \<lparr>query_file = (\<lambda>_. Inl (Err ''no file'')), file_xattrs = (\<lambda>_. Inr []),
         load_dirtree = (\<lambda>_. Inl (Err ''no tree'')), load_dirmeta = (\<lambda>_. Inl (Err ''no meta'')), require_rev = Inr,
         load_commit = (\<lambda>_. Inr \<lparr>co_metadata = [], co_parent = None, co_subject = [], co_body = [], co_timestamp = 0,
           co_tree = [], co_meta = []\<rparr>)\<rparr>,
      xe_commit_bytes = (\<lambda>_. []), xe_dirtree_bytes = (\<lambda>_. []), xe_dirmeta_bytes = (\<lambda>_. []), xe_commitmeta = (\<lambda>_. Inr None),
      xe_load_file = (\<lambda>c.
        if c = sample_checksum 97
        then Inr (Some [7, 8], \<lparr>fi_type = FRegular, fi_size = 2, fi_uid = 0, fi_gid = 0, fi_mode = 0x81A4, fi_symlink_target = None\<rparr>, [0])
        else Inr (None, \<lparr>fi_type = FSymbolicLink, fi_size = 0, fi_uid = 5, fi_gid = 6, fi_mode = 0xA1FF, fi_symlink_target = Some (str ''a'')\<rparr>, [0])),
      xe_sha256 = (\<lambda>_. sample_checksum 98), xe_link_name = (\<lambda>t. t), xe_unset_size = Inr 0\<rparr>"

definition sample_chunk :: chunk_mapping where
  "sample_chunk = [(sample_checksum 97, 2, [str ''/usr/bin/a'']), (sample_checksum 98, 0, [str ''/usr/etc/b''])]"

theorem export_chunk_import_round_trip_witness:
  "\<exists>es r log. export_chunk sample_export_env [] sample_chunk = Inr es \<and>
     import_tar_objects (live_env {sample_checksum 97}) es = Inr (r, log) \<and>
     take 2 log = [TxnBegin, WriteSymlink (sample_checksum 98) 5 6 [0] (str ''a'')] \<and>
     length (filter (\<lambda>ev. content_event ev \<noteq> None) log) = 1"
proof -
  let ?P = "{sample_checksum 97}"
  have ev: "map (file_event sample_export_env) (filter (\<lambda>c. c \<notin> ?P) (map fst sample_chunk)) =
      [WriteSymlink (sample_checksum 98) 5 6 [0] (str ''a'')]"
    by code_simp
  have h: "is_ok (load_commit (xe_store sample_export_env) [])" "distinct (map fst sample_chunk)"
      "\<forall>e \<in> set sample_chunk. exportable sample_export_env (fst e) \<and> list_all outside_repo (snd (snd e))"
      "file_xattrs_of sample_export_env ` fst ` set sample_chunk = {[0]}"
    by code_simp+
  have "xe_sha256 sample_export_env = ie_sha256 (live_env ?P)"
    by (simp add: sample_export_env_def sample_env_def live_env_def)
  moreover have ok: "is_ok (ie_answer (live_env ?P) ev)" for ev
    by (auto simp: sample_env_def live_env_def is_ok_iff split: repo_event.split option.split)
  ultimately have acc: "accepts_content sample_export_env (live_env ?P) ?P C" for C
    by (simp add: accepts_content_def) (simp add: live_env_def)
  have set: "accepts_set (live_env ?P) objset" for objset
    using ok by (auto simp: accepts_set_def is_ok_iff split: sum.split) (metis sum.distinct(1))
  from export_chunk_import_round_trip [OF h(1-3) _ acc set] h(4)
  show ?thesis unfolding ev by (auto simp: numeral_2_eq_2)
qed

text \<open>C37: replacing the detached metadata keeps the stream up to the commit object and the commit object, puts the
  new metadata (if there is any) right behind the commit under its name, drops the metadata entry that stood there,
  and keeps everything that follows.  Kept entries are the same in every field, path, attributes and content
  included, except for one thing: the target of a hard link into \<^verbatim>\<open>etc\<close> is moved to \<^verbatim>\<open>usr/etc\<close>.\<close>

theorem reinject_detached_metadata_replaces:
  assumes "reinject_detached_metadata src buf = Inr dest"
  shows "\<exists>pre e c nxt rest pre' new b tail'. src = pre @ e # nxt # rest \<and> is_commit_entry e \<and>
    list_all (\<lambda>e. \<not> is_commit_entry e) pre \<and>
    and_then (ok_or (Err ''path'') (te_path e)) parse_metadata_entry = Inr (c, ObjCommit) \<and> is_commitmeta nxt = Inr b \<and>
    dest = pre' @ e # new @ tail' \<and>
    list_all2 kept_entry pre pre' \<and> list_all2 kept_entry (if b then rest else nxt # rest) tail' \<and>
    (case buf of
       None \<Rightarrow> new = []
     | Some data \<Rightarrow> \<exists>m path. new = [m] \<and> te_path m = Some path \<and> parse_metadata_entry path = Inr (c, ObjCommitMeta) \<and>
         te_type m = Regular \<and> te_size m = of_nat (length data) \<and> te_data m = data)"
proof -
  obtain pre e c nxt rest pre' e' b tail' where p: "reinject_parts src pre e c nxt rest" "try_map copied pre = Inr pre'"
    "copied e = Inr e'" "is_commitmeta nxt = Inr b" "try_map copied (if b then rest else nxt # rest) = Inr tail'"
    by (rule reinject_backward [OF assms])
  have dest: "dest = pre' @ e' # metadata_entries c buf @ tail'"
    using reinject_forward [OF p, of buf] assms by simp
  have "e' = e"
    using copied_kept [OF p(3)] p(1) by (simp add: reinject_parts_def is_commit_entry_def kept_entry_def)
  moreover have "sha256_ok c"
    using p(1) parse_metadata_entry_sha256 by (auto simp: reinject_parts_def result_simps)
  ultimately show ?thesis
    using p(1,4) dest try_map_kept [OF p(2)] try_map_kept [OF p(5)] metadata_entries_new [of c buf]
    unfolding reinject_parts_def by blast
qed

definition sample_commit_stream :: "tar_entry list" where
  "sample_commit_stream =
     [sample_object 97 ''.dirmeta'' Directory None [], sample_object 97 ''.commit'' Regular None [1, 2],
      sample_object 97 ''.commitmeta'' Regular None [3], sample_object 98 ''.dirtree'' Regular None [4]]"

theorem reinject_detached_metadata_replaces_witness:
  "\<exists>pre e m tail' dest. reinject_detached_metadata sample_commit_stream (Some [9]) = Inr dest \<and>
     map te_data dest = [[], [1, 2], [9], [4]] \<and> is_commit_entry e \<and> dest = pre @ e # m # tail' \<and> te_data m = [9]"
proof -
  have "map_sum id (map te_data) (reinject_detached_metadata sample_commit_stream (Some [9])) = Inr [[], [1, 2], [9], [4]]"
    by code_simp
  then obtain dest where d: "reinject_detached_metadata sample_commit_stream (Some [9]) = Inr dest"
      "map te_data dest = [[], [1, 2], [9], [4]]"
    by (cases "reinject_detached_metadata sample_commit_stream (Some [9])") auto
  from reinject_detached_metadata_replaces [OF d(1)] obtain pre' e m new tail' where
    r: "is_commit_entry e" "dest = pre' @ e # new @ tail'" "new = [m]" "te_data m = [9]"
    by (elim exE conjE) (auto intro: that)
  with d show ?thesis by auto
qed

text \<open>The last replacement wins: replacing the metadata of a stream whose metadata was already
  replaced gives the same stream as replacing the original's directly, error behaviour included.\<close>

theorem reinject_detached_metadata_last_wins:
  assumes "reinject_detached_metadata src (Some buf) = Inr dest"
  shows "reinject_detached_metadata dest buf' = reinject_detached_metadata src buf'"
proof -
  obtain pre e c nxt rest pre' e' b tail' where p: "reinject_parts src pre e c nxt rest" "try_map copied pre = Inr pre'"
    "copied e = Inr e'" "is_commitmeta nxt = Inr b" "try_map copied (if b then rest else nxt # rest) = Inr tail'"
    by (rule reinject_backward [OF assms])
  note src = reinject_forward [OF p]
  obtain path where path: "te_path e = Some path" "parse_metadata_entry path = Inr (c, ObjCommit)"
    using p(1) by (auto simp: reinject_parts_def result_simps)
  obtain m where m: "object_path ObjCommitMeta c = Inr m" "parse_metadata_entry m = Inr (c, ObjCommitMeta)"
    using commitmeta_path [OF parse_metadata_entry_sha256 [OF path(2)]] by blast
  let ?m = "default_data_entry m buf"
  have dest: "dest = pre' @ e' # ?m # tail'"
    using src [of "Some buf"] assms m(1) by (simp add: metadata_entries_def)
  have "list_all (\<lambda>e. \<not> is_commit_entry e) pre'" "is_commit_entry e'"
    using p(1,3) commit_entry_copied(1) [OF p(3)] commit_entry_copied(2) [OF p(2)] by (simp_all add: reinject_parts_def)
  then have "reinject_parts dest pre' e' c ?m tail'"
    using dest path copied_idem(2) [OF p(3)] by (simp add: reinject_parts_def)
  moreover have "is_commitmeta ?m = Inr True"
    using m(2) by (simp add: is_commitmeta_def default_data_entry_def header_entry_def)
  ultimately show ?thesis
    using reinject_forward [of dest pre' e' c ?m tail' pre' e' True tail' buf'] src [of buf']
      try_map_copied(1) [OF p(2)] try_map_copied(1) [OF p(5)] copied_idem(1) [OF p(3)] by simp
qed

theorem reinject_detached_metadata_last_wins_witness:
  "\<exists>dest. reinject_detached_metadata sample_commit_stream (Some [9]) = Inr dest \<and>
     reinject_detached_metadata dest None = reinject_detached_metadata sample_commit_stream None"
proof -
  have "is_ok (reinject_detached_metadata sample_commit_stream (Some [9]))"
    by code_simp
  then obtain dest where "reinject_detached_metadata sample_commit_stream (Some [9]) = Inr dest"
    by (auto simp: is_ok_iff)
  with reinject_detached_metadata_last_wins [OF this] show ?thesis by blast
qed

end
