(* ===== verification/ImageRef.thy ===== *)
theory ImageRef
  imports Oci
begin

text \<open>
  Image references (\<^verbatim>\<open>lib/src/container/mod.rs\<close>): transports, image references, signature sources
  and ostree image references with their parsers (\<^verbatim>\<open>TryFrom<&str>\<close>) and printers (\<^verbatim>\<open>Display\<close>), the
  layer difference of two manifests, and the label lookups.  Each printer/parser pair interprets
  \<open>text_codec\<close>.
\<close>

section \<open>Definitions\<close>

datatype transport = Registry | OciDir | OciArchive | DockerArchive | ContainerStorage | Dir

record image_reference =
  ir_transport :: transport
  ir_name :: rstr

datatype signature_source =
    OstreeRemote rstr
  | ContainerPolicy
  | ContainerPolicyAllowInsecure

record ostree_image_reference =
  oir_sigverify :: signature_source
  oir_imgref :: image_reference

subsection \<open>Parsing\<close>

definition transport_try_from :: "rstr \<Rightarrow> transport result" where
  "transport_try_from v =
     (if v = str ''registry'' \<or> v = str ''docker'' then Inr Registry
      else if v = str ''oci'' then Inr OciDir
      else if v = str ''oci-archive'' then Inr OciArchive
      else if v = str ''docker-archive'' then Inr DockerArchive
      else if v = str ''containers-storage'' then Inr ContainerStorage
      else if v = str ''dir'' then Inr Dir
      else Inl (Err ''Unknown transport''))"

fun serializable_name :: "transport \<Rightarrow> rstr" where
  "serializable_name Registry = str ''registry''"
| "serializable_name OciDir = str ''oci''"
| "serializable_name OciArchive = str ''oci-archive''"
| "serializable_name DockerArchive = str ''docker-archive''"
| "serializable_name ContainerStorage = str ''containers-storage''"
| "serializable_name Dir = str ''dir''"

definition image_reference_try_from :: "rstr \<Rightarrow> image_reference result" where
  "image_reference_try_from value =
     and_then (ok_or (Err ''Missing :'') (split_once 58 value)) (\<lambda>(transport_name, name).
     and_then (transport_try_from transport_name) (\<lambda>transport.
     and_then (ensure (name \<noteq> []) (Err ''Invalid empty name'')) (\<lambda>_.
     and_then (if transport_name = str ''docker''
               then ok_or (Err ''Missing // in docker://'') (strip_prefix (str ''//'') name)
               else Inr name) (\<lambda>name.
     Inr \<lparr>ir_transport = transport, ir_name = name\<rparr>))))"

definition signature_source_try_from :: "rstr \<Rightarrow> signature_source result" where
  "signature_source_try_from value =
     (if value = str ''ostree-image-signed'' then Inr ContainerPolicy
      else if value = str ''ostree-unverified-image'' then Inr ContainerPolicyAllowInsecure
      else case strip_prefix (str ''ostree-remote-image:'') value of
             Some rest \<Rightarrow> Inr (OstreeRemote rest)
           | None \<Rightarrow> Inl (Err ''Invalid signature source''))"

definition ostree_image_reference_try_from :: "rstr \<Rightarrow> ostree_image_reference result" where
  "ostree_image_reference_try_from value =
     and_then (ok_or (Err ''Missing :'') (split_once 58 value)) (\<lambda>(first, second).
     and_then
       (if first = str ''ostree-image-signed'' then Inr (ContainerPolicy, second)
        else if first = str ''ostree-unverified-image''
          then Inr (ContainerPolicyAllowInsecure, second)
        else if first = str ''ostree-unverified-registry''
          then Inr (ContainerPolicyAllowInsecure, str ''registry:'' @ second)
        else if first = str ''ostree-remote-registry'' then
          and_then (ok_or (Err ''Missing second :'') (split_once 58 second)) (\<lambda>(remote, rest).
          Inr (OstreeRemote remote, str ''registry:'' @ rest))
        else if first = str ''ostree-remote-image'' then
          and_then (ok_or (Err ''Missing second :'') (split_once 58 second)) (\<lambda>(remote, rest).
          Inr (OstreeRemote remote, rest))
        else Inl (Err ''Invalid ostree image reference scheme''))
       (\<lambda>(sigverify, rest).
     and_then (image_reference_try_from rest) (\<lambda>imgref.
     Inr \<lparr>oir_sigverify = sigverify, oir_imgref = imgref\<rparr>)))"

subsection \<open>Printing\<close>

fun transport_fmt :: "transport \<Rightarrow> rstr" where
  "transport_fmt Registry = str ''docker://''"
| "transport_fmt OciArchive = str ''oci-archive:''"
| "transport_fmt DockerArchive = str ''docker-archive:''"
| "transport_fmt OciDir = str ''oci:''"
| "transport_fmt ContainerStorage = str ''containers-storage:''"
| "transport_fmt Dir = str ''dir:''"

definition image_reference_fmt :: "image_reference \<Rightarrow> rstr" where
  "image_reference_fmt r = transport_fmt (ir_transport r) @ ir_name r"

fun signature_source_fmt :: "signature_source \<Rightarrow> rstr" where
  "signature_source_fmt (OstreeRemote r) = str ''ostree-remote-image:'' @ r"
| "signature_source_fmt ContainerPolicy = str ''ostree-image-signed''"
| "signature_source_fmt ContainerPolicyAllowInsecure = str ''ostree-unverified-image''"

text \<open>The flag is \<^verbatim>\<open>f.alternate()\<close>, set by the format \<^verbatim>\<open>{:#}\<close>.\<close>

definition ostree_image_reference_fmt :: "bool \<Rightarrow> ostree_image_reference \<Rightarrow> rstr" where
  "ostree_image_reference_fmt alternate r =
     (if oir_sigverify r = ContainerPolicyAllowInsecure \<and> ir_transport (oir_imgref r) = Registry
      then (if alternate then image_reference_fmt (oir_imgref r)
            else str ''ostree-unverified-registry:'' @ ir_name (oir_imgref r))
      else signature_source_fmt (oir_sigverify r) @ [58] @ image_reference_fmt (oir_imgref r))"

subsection \<open>Layer difference of two manifests\<close>

record manifest_diff =
  md_from :: image_manifest
  md_to :: image_manifest
  md_removed :: "descriptor list"
  md_added :: "descriptor list"
  md_total :: u64
  md_total_size :: u64
  md_n_removed :: u64
  md_removed_size :: u64
  md_n_added :: u64
  md_added_size :: u64

definition layers_by_digest :: "image_manifest \<Rightarrow> (rstr, descriptor) kvmap" where
  "layers_by_digest m = kv_extend [] (map (\<lambda>l. (dg_hex (d_digest l), l)) (m_layers m))"

definition layers_missing_in :: "(rstr, descriptor) kvmap \<Rightarrow> (rstr, descriptor) kvmap \<Rightarrow> descriptor list" where
  "layers_missing_in other these =
     sort_key (\<lambda>l. dg_hex (d_digest l)) (map snd (filter (\<lambda>(k, _). kv_lookup other k = None) these))"

definition layersum :: "descriptor list \<Rightarrow> u64" where
  "layersum ls = sum_list (map d_size ls)"

definition manifest_diff_new :: "image_manifest \<Rightarrow> image_manifest \<Rightarrow> manifest_diff" where
  "manifest_diff_new src dest =
     (let src_layers = layers_by_digest src;
          dest_layers = layers_by_digest dest;
          removed = layers_missing_in dest_layers src_layers;
          added = layers_missing_in src_layers dest_layers
      in \<lparr>md_from = src, md_to = dest, md_removed = removed, md_added = added,
          md_total = of_nat (length dest_layers), md_total_size = layersum (m_layers dest),
          md_n_removed = of_nat (length removed), md_removed_size = layersum removed,
          md_n_added = of_nat (length added), md_added_size = layersum added\<rparr>)"

subsection \<open>Labels\<close>

definition labels_of :: "image_configuration \<Rightarrow> (rstr, rstr) kvmap option" where
  "labels_of config = Option.bind (c_config config) cc_labels"

definition ANNOTATION_VERSION :: rstr where
  "ANNOTATION_VERSION = str ''org.opencontainers.image.version''"

definition LABEL_VERSION :: rstr where
  "LABEL_VERSION = str ''version''"

definition version_for_config :: "image_configuration \<Rightarrow> rstr option" where
  "version_for_config config =
     (case labels_of config of
        None \<Rightarrow> None
      | Some labels \<Rightarrow>
          (case kv_lookup labels ANNOTATION_VERSION of
             Some v \<Rightarrow> Some v
           | None \<Rightarrow> kv_lookup labels LABEL_VERSION))"

section \<open>Lemmas\<close>

subsection \<open>References\<close>

lemma transport_try_from_simps [simp]:
  "transport_try_from (str ''registry'') = Inr Registry"
  "transport_try_from (str ''docker'') = Inr Registry"
  "transport_try_from (str ''oci'') = Inr OciDir"
  "transport_try_from (str ''oci-archive'') = Inr OciArchive"
  "transport_try_from (str ''docker-archive'') = Inr DockerArchive"
  "transport_try_from (str ''containers-storage'') = Inr ContainerStorage"
  "transport_try_from (str ''dir'') = Inr Dir"
  by (simp_all add: transport_try_from_def)

lemma transport_try_from_docker:
  "transport_try_from v = Inr t \<Longrightarrow> v \<noteq> str ''docker'' \<Longrightarrow> v = serializable_name t"
  by (auto simp: transport_try_from_def split: if_splits)

definition wf_imgref :: "image_reference \<Rightarrow> bool" where
  "wf_imgref r \<longleftrightarrow> ir_transport r = Registry \<or> ir_name r \<noteq> []"

text \<open>A printed transport is its scheme, the colon, and for a registry the two slashes.\<close>

fun transport_scheme :: "transport \<Rightarrow> rstr" where
  "transport_scheme Registry = str ''docker''"
| "transport_scheme t = serializable_name t"

lemma transport_fmt_scheme:
  "transport_fmt t = transport_scheme t @ 58 # (if t = Registry then str ''//'' else [])"
  by (cases t) (simp_all add: str_simps)

lemma transport_scheme_props:
  "58 \<notin> set (transport_scheme t)"
  "transport_try_from (transport_scheme t) = Inr t"
  "transport_scheme t = str ''docker'' \<longleftrightarrow> t = Registry"
proof -
  show "58 \<notin> set (transport_scheme t)"
    by (cases t) (simp_all add: str_simps)
qed (cases t; simp)+

lemma image_reference_parse_print:
  assumes "wf_imgref r"
  shows "image_reference_try_from (image_reference_fmt r) = Inr r"
proof -
  have "split_once 58 (image_reference_fmt r) =
      Some (transport_scheme (ir_transport r),
            (if ir_transport r = Registry then str ''//'' else []) @ ir_name r)"
    by (simp add: image_reference_fmt_def transport_fmt_scheme transport_scheme_props)
  with assms show ?thesis
    by (auto simp: image_reference_try_from_def transport_scheme_props wf_imgref_def)
qed

lemma image_reference_parsed_wf:
  "image_reference_try_from s = Inr r \<Longrightarrow> wf_imgref r"
  by (auto simp: image_reference_try_from_def result_simps wf_imgref_def split: if_splits prod.splits)

definition wf_oir :: "ostree_image_reference \<Rightarrow> bool" where
  "wf_oir r \<longleftrightarrow>
     ir_name (oir_imgref r) \<noteq> [] \<and>
     (case oir_sigverify r of OstreeRemote remote \<Rightarrow> 58 \<notin> set remote | _ \<Rightarrow> True)"

lemma signature_source_parse_print: "signature_source_try_from (signature_source_fmt s) = Inr s"
  by (cases s) (simp_all add: signature_source_try_from_def str_simps)

lemma ostree_ref_registry:
  "name \<noteq> [] \<Longrightarrow> image_reference_try_from (str ''registry:'' @ name) =
     Inr \<lparr>ir_transport = Registry, ir_name = name\<rparr>"
  by (simp add: image_reference_try_from_def str_simps transport_try_from_def)

lemma oir_scheme_simps:
  "ostree_image_reference_try_from (str ''ostree-image-signed'' @ 58 # s) =
     and_then (image_reference_try_from s) (\<lambda>i.
       Inr \<lparr>oir_sigverify = ContainerPolicy, oir_imgref = i\<rparr>)"
  "ostree_image_reference_try_from (str ''ostree-unverified-image'' @ 58 # s) =
     and_then (image_reference_try_from s) (\<lambda>i.
       Inr \<lparr>oir_sigverify = ContainerPolicyAllowInsecure, oir_imgref = i\<rparr>)"
  "ostree_image_reference_try_from (str ''ostree-unverified-registry:'' @ s) =
     and_then (image_reference_try_from (str ''registry:'' @ s)) (\<lambda>i.
       Inr \<lparr>oir_sigverify = ContainerPolicyAllowInsecure, oir_imgref = i\<rparr>)"
  "58 \<notin> set r \<Longrightarrow>
     ostree_image_reference_try_from (str ''ostree-remote-image:'' @ r @ 58 # s) =
     and_then (image_reference_try_from s) (\<lambda>i.
       Inr \<lparr>oir_sigverify = OstreeRemote r, oir_imgref = i\<rparr>)"
  by (simp_all add: ostree_image_reference_try_from_def str_simps)

lemma ostree_image_reference_parse_print:
  assumes "wf_oir r"
  shows "ostree_image_reference_try_from (ostree_image_reference_fmt False r) = Inr r"
proof (cases "oir_sigverify r = ContainerPolicyAllowInsecure \<and> ir_transport (oir_imgref r) = Registry")
  case True
  with assms show ?thesis
    by (simp add: ostree_image_reference_fmt_def wf_oir_def oir_scheme_simps ostree_ref_registry)
next
  case False
  have "image_reference_try_from (image_reference_fmt (oir_imgref r)) = Inr (oir_imgref r)"
    using assms by (intro image_reference_parse_print) (simp add: wf_oir_def wf_imgref_def)
  with False assms show ?thesis
    by (cases "oir_sigverify r")
       (auto simp: ostree_image_reference_fmt_def wf_oir_def oir_scheme_simps)
qed

lemma ostree_image_reference_parsed_remote:
  assumes "ostree_image_reference_try_from s = Inr r" "oir_sigverify r = OstreeRemote remote"
  shows "58 \<notin> set remote"
  using assms
  by (auto simp: ostree_image_reference_try_from_def result_simps split_once_Some
      split: if_splits prod.splits)

interpretation transport_codec: text_codec "\<lambda>t. Inr (serializable_name t)" transport_try_from "\<lambda>_. True"
proof (unfold_locales, goal_cases)
  case (2 x s)
  then show ?case by (cases x) auto
qed simp

interpretation imgref_codec: text_codec "\<lambda>r. Inr (image_reference_fmt r)" image_reference_try_from wf_imgref
  by unfold_locales (auto simp: image_reference_parse_print)

interpretation sigsource_codec: text_codec "\<lambda>s. Inr (signature_source_fmt s)" signature_source_try_from "\<lambda>_. True"
  by unfold_locales (auto simp: signature_source_parse_print)

interpretation oir_codec: text_codec "\<lambda>r. Inr (ostree_image_reference_fmt False r)"
    ostree_image_reference_try_from wf_oir
  by unfold_locales (auto simp: ostree_image_reference_parse_print)

subsection \<open>Manifest differences\<close>

lemma layers_by_digest_wf [simp]: "kv_wf (layers_by_digest m)"
  by (simp add: layers_by_digest_def kv_wf_extend)

lemma layers_by_digest_keys:
  "kv_lookup (layers_by_digest m) k = None \<longleftrightarrow> k \<notin> (\<lambda>l. dg_hex (d_digest l)) ` set (m_layers m)"
  by (simp add: layers_by_digest_def kv_lookup_extend map_of_eq_None_iff image_image)

lemma layers_by_digest_sound:
  assumes "(k, l) \<in> set (layers_by_digest m)"
  shows "l \<in> set (m_layers m) \<and> dg_hex (d_digest l) = k"
proof -
  have "kv_lookup (layers_by_digest m) k = Some l"
    using assms by (simp add: kv_lookup_mem)
  then have "map_of (rev (map (\<lambda>l. (dg_hex (d_digest l), l)) (m_layers m))) k = Some l"
    by (simp add: layers_by_digest_def kv_lookup_extend)
  from map_of_SomeD [OF this] show ?thesis by auto
qed

lemma map_key_layers_by_digest:
  "map (\<lambda>l. dg_hex (d_digest l)) (map snd (layers_by_digest m)) = map fst (layers_by_digest m)"
  using layers_by_digest_sound by (force intro!: map_cong)

lemma layers_missing_in_keys:
  "map (\<lambda>l. dg_hex (d_digest l)) (layers_missing_in (layers_by_digest b) (layers_by_digest a)) =
   filter (\<lambda>k. kv_lookup (layers_by_digest b) k = None) (map fst (layers_by_digest a))"
    (is "map ?key _ = ?keys")
proof -
  let ?kept = "map snd (filter (\<lambda>(k, _). kv_lookup (layers_by_digest b) k = None) (layers_by_digest a))"
  have kept: "map ?key ?kept = ?keys"
    using layers_by_digest_sound [of _ _ a]
    by (auto simp: filter_map comp_def case_prod_unfold intro!: map_cong)
  have "sorted (map fst (layers_by_digest a))"
    using layers_by_digest_wf [of a] by (simp add: kv_wf_def strict_sorted_iff)
  then have "sorted (map ?key ?kept)"
    unfolding kept by (rule sorted_wrt_filter)
  then show ?thesis
    by (simp only: layers_missing_in_def sort_key_id_if_sorted kept)
qed

lemma layers_missing_in_set:
  "set (layers_missing_in (layers_by_digest b) (layers_by_digest a)) \<subseteq> set (m_layers a)"
  using layers_by_digest_sound by (fastforce simp: layers_missing_in_def)

lemma keys_layers_by_digest:
  "fst ` set (layers_by_digest m) = (\<lambda>l. dg_hex (d_digest l)) ` set (m_layers m)"
  using layers_by_digest_keys [of m] by (auto simp: kv_lookup_None)

lemmas manifest_diff_simps =
  manifest_diff_new_def Let_def layers_missing_in_keys keys_layers_by_digest layers_by_digest_keys

section \<open>Properties\<close>

text \<open>C28: an ostree image reference with a name, whose remote has no colon, is read back exactly from
  its printed form.\<close>

theorem ostree_image_reference_round_trip:
  assumes "ir_name (oir_imgref r) \<noteq> []"
    and "\<And>remote. oir_sigverify r = OstreeRemote remote \<Longrightarrow> 58 \<notin> set remote"
  shows "ostree_image_reference_try_from (ostree_image_reference_fmt False r) = Inr r"
  using assms oir_codec.round_trip [of r]
  by (cases "oir_sigverify r") (auto simp: wf_oir_def)

theorem ostree_image_reference_round_trip_witness:
  "ostree_image_reference_try_from
     (ostree_image_reference_fmt False
        \<lparr>oir_sigverify = OstreeRemote (str ''fedora''),
         oir_imgref = \<lparr>ir_transport = OciDir, ir_name = str ''a:b''\<rparr>\<rparr>) =
   Inr \<lparr>oir_sigverify = OstreeRemote (str ''fedora''),
        oir_imgref = \<lparr>ir_transport = OciDir, ir_name = str ''a:b''\<rparr>\<rparr>"
  by (rule ostree_image_reference_round_trip) (auto simp: str_simps)

text \<open>Whatever spelling an ostree image reference was parsed from (the \<^verbatim>\<open>registry:\<close> shorthands
  included), its printed form parses to the same reference, so printing canonicalises.  The one
  exception is the empty name, which the parser lets through for \<^verbatim>\<open>docker://\<close>.\<close>

theorem ostree_image_reference_reparse:
  assumes "ostree_image_reference_try_from s = Inr r" "ir_name (oir_imgref r) \<noteq> []"
  shows "ostree_image_reference_try_from (ostree_image_reference_fmt False r) = Inr r"
  using assms oir_codec.round_trip [of r] ostree_image_reference_parsed_remote [OF assms(1)]
  by (cases "oir_sigverify r") (auto simp: wf_oir_def)

theorem ostree_image_reference_reparse_witness:
  "let r = \<lparr>oir_sigverify = OstreeRemote (str ''myremote''),
            oir_imgref = \<lparr>ir_transport = Registry, ir_name = str ''quay.io/img:tag''\<rparr>\<rparr>
   in ostree_image_reference_try_from (str ''ostree-remote-registry:myremote:quay.io/img:tag'') = Inr r \<and>
      ostree_image_reference_try_from (ostree_image_reference_fmt False r) = Inr r"
proof -
  have "ostree_image_reference_try_from (str ''ostree-remote-registry:myremote:quay.io/img:tag'') =
      Inr \<lparr>oir_sigverify = OstreeRemote (str ''myremote''),
           oir_imgref = \<lparr>ir_transport = Registry, ir_name = str ''quay.io/img:tag''\<rparr>\<rparr>"
    by code_simp
  from ostree_image_reference_reparse [OF this] this show ?thesis
    by simp
qed

text \<open>The parser accepts \<^verbatim>\<open>docker://\<close> with an empty name, and prints it as a string it rejects.\<close>

lemma docker_empty_name_accepted:
  "let r = \<lparr>oir_sigverify = ContainerPolicyAllowInsecure,
            oir_imgref = \<lparr>ir_transport = Registry, ir_name = []\<rparr>\<rparr>
   in ostree_image_reference_try_from (str ''ostree-unverified-image:docker://'') = Inr r \<and>
      ostree_image_reference_try_from (ostree_image_reference_fmt False r) = Inl (Err ''Invalid empty name'')"
  by code_simp

text \<open>The difference of two manifests lists, in the order of their digests and without
  repetition, exactly the layers of the source whose digest the destination lacks (removed) and
  those of the destination whose digest the source lacks (added); exchanging the manifests
  exchanges the two lists.\<close>

theorem manifest_diff_correct:
  fixes a b :: image_manifest
  defines "key \<equiv> \<lambda>l. dg_hex (d_digest l)"
  defines "d \<equiv> manifest_diff_new a b"
  shows "key ` set (md_removed d) = key ` set (m_layers a) - key ` set (m_layers b)
    \<and> key ` set (md_added d) = key ` set (m_layers b) - key ` set (m_layers a)
    \<and> set (md_removed d) \<subseteq> set (m_layers a) \<and> set (md_added d) \<subseteq> set (m_layers b)
    \<and> sorted_wrt (<) (map key (md_removed d)) \<and> sorted_wrt (<) (map key (md_added d))
    \<and> md_removed d = md_added (manifest_diff_new b a)
    \<and> md_n_removed d = of_nat (card (key ` set (m_layers a) - key ` set (m_layers b)))
    \<and> md_removed_size d = sum_list (map d_size (md_removed d))"
proof -
  have sw: "sorted_wrt (<) (map fst (layers_by_digest m))" for m
    using layers_by_digest_wf [of m] by (simp add: kv_wf_def)
  have keys: "map key (layers_missing_in (layers_by_digest y) (layers_by_digest x)) =
      filter (\<lambda>k. kv_lookup (layers_by_digest y) k = None) (map fst (layers_by_digest x))" for x y
    unfolding key_def by (rule layers_missing_in_keys)
  have sets: "key ` set (layers_missing_in (layers_by_digest y) (layers_by_digest x)) =
      key ` set (m_layers x) - key ` set (m_layers y)" for x y
    using arg_cong [OF keys [of y x], of set]
    by (auto simp: key_def layers_by_digest_keys keys_layers_by_digest)
  have sorted: "sorted_wrt (<) (map key (layers_missing_in (layers_by_digest y) (layers_by_digest x)))" for x y
    unfolding keys using sw by (rule sorted_wrt_filter)
  have "length (layers_missing_in (layers_by_digest b) (layers_by_digest a)) =
      card (key ` set (m_layers a) - key ` set (m_layers b))"
    using distinct_card [of "map key (layers_missing_in (layers_by_digest b) (layers_by_digest a))"]
      sorted [of b a] sets [of b a] by (simp add: strict_sorted_iff)
  then show ?thesis
    using sets sorted layers_missing_in_set
    by (simp add: d_def manifest_diff_new_def Let_def layersum_def)
qed

end
