(* ===== verification/Store.thy ===== *)
theory Store
  imports Repo Refescape ImageRef Packing Action
begin

text \<open>
  Container images stored in an ostree repository (\<^verbatim>\<open>lib/src/container/store.rs\<close>): the refs of layers
  and images, the metadata of merge commits, the layout of a manifest, prepared imports, and the
  removal of images and of layers no image needs.

  The repository is a value of \<open>'s ostree_repo\<close>: the calls the code makes to libostree, as functions of
  the repository's state.  \<open>refs_spec\<close> says what is relied on of the calls that deal with refs.  The JSON
  forms of manifests and configurations are the functions of \<open>oci_json\<close>.  A set of commits kept in
  a hash set is a list without repetitions.
\<close>

section \<open>Definitions\<close>

subsection \<open>The outside world\<close>

record 's ostree_repo =
  rp_resolve_rev :: "'s \<Rightarrow> rstr \<Rightarrow> rstr option result"
  rp_require_rev :: "'s \<Rightarrow> rstr \<Rightarrow> rstr result"
  rp_list_refs :: "'s \<Rightarrow> rstr \<Rightarrow> (rstr \<times> rstr) list result"
  rp_load_commit :: "'s \<Rightarrow> rstr \<Rightarrow> commit_object result"
  rp_detached :: "'s \<Rightarrow> rstr \<Rightarrow> vardict option result"
  rp_set_ref :: "rstr \<Rightarrow> rstr option \<Rightarrow> 's \<Rightarrow> 's result"
  rp_write_detached :: "rstr \<Rightarrow> vardict \<Rightarrow> 's \<Rightarrow> 's result"

record oci_json =
  oj_read_manifest :: "rstr \<Rightarrow> image_manifest result"
  oj_write_manifest :: "image_manifest \<Rightarrow> rstr result"
  oj_read_config :: "rstr \<Rightarrow> image_configuration result"
  oj_write_config :: "image_configuration \<Rightarrow> rstr result"
  oj_read_digest :: "rstr \<Rightarrow> digest result"
  oj_default_config :: image_configuration

subsection \<open>Refs\<close>

definition LAYER_PREFIX :: rstr where "LAYER_PREFIX = str ''ostree/container/blob''"
definition IMAGE_PREFIX :: rstr where "IMAGE_PREFIX = str ''ostree/container/image''"
definition BASE_IMAGE_PREFIX :: rstr where "BASE_IMAGE_PREFIX = str ''ostree/container/baseimage''"
definition META_MANIFEST_DIGEST :: rstr where "META_MANIFEST_DIGEST = str ''ostree.manifest-digest''"
definition META_MANIFEST :: rstr where "META_MANIFEST = str ''ostree.manifest''"
definition META_CONFIG :: rstr where "META_CONFIG = str ''ostree.container.image-config''"
definition META_FILTERED :: rstr where "META_FILTERED = str ''ostree.tar-filtered''"
definition OSTREE_BASE_DEPLOYMENT_REFS :: "rstr list" where
  "OSTREE_BASE_DEPLOYMENT_REFS = [str ''ostree/0'', str ''ostree/1'']"
definition RPMOSTREE_BASE_REFS :: "rstr list" where
  "RPMOSTREE_BASE_REFS = [str ''rpmostree/base'']"
definition CACHED_KEY_MANIFEST_DIGEST :: rstr where
  "CACHED_KEY_MANIFEST_DIGEST = str ''ostree-ext.cached.manifest-digest''"
definition CACHED_KEY_MANIFEST :: rstr where "CACHED_KEY_MANIFEST = str ''ostree-ext.cached.manifest''"
definition CACHED_KEY_CONFIG :: rstr where "CACHED_KEY_CONFIG = str ''ostree-ext.cached.config''"
definition DIFFID_LABEL :: rstr where "DIFFID_LABEL = str ''ostree.final-diffid''"

definition ref_for_blob_digest :: "rstr \<Rightarrow> rstr result" where
  "ref_for_blob_digest d = prefix_escape_for_ref LAYER_PREFIX d"

definition ref_for_layer :: "descriptor \<Rightarrow> rstr result" where
  "ref_for_layer l = ref_for_blob_digest (digest_to_string (d_digest l))"

definition ref_for_image :: "image_reference \<Rightarrow> rstr result" where
  "ref_for_image l = prefix_escape_for_ref IMAGE_PREFIX (image_reference_fmt l)"

subsection \<open>State of a pulled image\<close>

record cached_image_update =
  cu_manifest :: image_manifest
  cu_config :: image_configuration
  cu_manifest_digest :: digest

record layered_image_state =
  ls_base_commit :: rstr
  ls_merge_commit :: rstr
  ls_manifest_digest :: digest
  ls_manifest :: image_manifest
  ls_configuration :: image_configuration
  ls_cached_update :: "cached_image_update option"

record manifest_layer_state =
  ml_layer :: descriptor
  ml_ostree_ref :: rstr
  ml_commit :: "rstr option"

record prepared_import =
  pi_manifest_digest :: digest
  pi_manifest :: image_manifest
  pi_config :: image_configuration
  pi_previous_state :: "layered_image_state option"
  pi_previous_manifest_digest :: "digest option"
  pi_previous_imageid :: "rstr option"
  pi_ostree_layers :: "manifest_layer_state list"
  pi_ostree_commit_layer :: manifest_layer_state
  pi_layers :: "manifest_layer_state list"

definition all_layers :: "prepared_import \<Rightarrow> manifest_layer_state list" where
  "all_layers imp = [pi_ostree_commit_layer imp] @ pi_ostree_layers imp @ pi_layers imp"

text \<open>The iterator \<^verbatim>\<open>layers_with_history\<close>: the history is followed by one error, and the shorter of the
  two sequences ends the iteration.\<close>

definition layers_with_history :: "prepared_import \<Rightarrow> (manifest_layer_state \<times> history) result list" where
  "layers_with_history imp =
     map (\<lambda>(s, h). and_then h (\<lambda>h. Inr (s, h)))
       (zip (all_layers imp) (map Inr (c_history (pi_config imp)) @ [Inl (Err ''Truncated history'')]))"

definition layers_to_fetch :: "prepared_import \<Rightarrow> (manifest_layer_state \<times> rstr) result list" where
  "layers_to_fetch imp =
     List.map_filter (\<lambda>r. case r of
         Inl e \<Rightarrow> Some (Inl e)
       | Inr (l, h) \<Rightarrow>
           (if ml_commit l = None
            then Some (Inr (l, case h_created_by h of Some c \<Rightarrow> c | None \<Rightarrow> []))
            else None))
       (layers_with_history imp)"

definition count_layer :: "manifest_layer_state \<Rightarrow> u32 \<times> u32 \<times> u64 \<Rightarrow> u32 \<times> u32 \<times> u64" where
  "count_layer v = (\<lambda>(stored, to_fetch, sz).
     if ml_commit v \<noteq> None then (stored + 1, to_fetch, sz)
     else (stored, to_fetch + 1, sz + d_size (ml_layer v)))"

definition format_layer_status :: "(u64 \<Rightarrow> rstr) \<Rightarrow> prepared_import \<Rightarrow> rstr option" where
  "format_layer_status format_size imp =
     (let (stored, to_fetch, to_fetch_size) = fold count_layer (all_layers imp) (0, 0, 0)
      in if 0 < to_fetch
         then Some (str ''layers already present: '' @ fmt_dec (unat stored) @ str ''; layers needed: '' @
                fmt_dec (unat to_fetch) @ str '' ('' @ format_size to_fetch_size @ str '')'')
         else None)"

subsection \<open>Querying a repository\<close>

definition query_layer :: "('s, 'z) ostree_repo_scheme \<Rightarrow> 's \<Rightarrow> descriptor \<Rightarrow> manifest_layer_state result" where
  "query_layer repo s layer =
     and_then (ref_for_layer layer) (\<lambda>ostree_ref.
     and_then (rp_resolve_rev repo s ostree_ref) (\<lambda>commit.
     Inr \<lparr>ml_layer = layer, ml_ostree_ref = ostree_ref, ml_commit = commit\<rparr>))"

definition manifest_data_from_commitmeta :: "oci_json \<Rightarrow> vardict \<Rightarrow> (image_manifest \<times> digest) result" where
  "manifest_data_from_commitmeta js commit_meta =
     and_then (lookup_string commit_meta META_MANIFEST_DIGEST) (\<lambda>digest.
     and_then (ok_or (Err ''Missing metadata on merge commit'') digest) (\<lambda>digest.
     and_then (oj_read_digest js digest) (\<lambda>digest.
     and_then (lookup_string commit_meta META_MANIFEST) (\<lambda>manifest_bytes.
     and_then (ok_or (Err ''Failed to find metadata key'') manifest_bytes) (\<lambda>manifest_bytes.
     and_then (oj_read_manifest js manifest_bytes) (\<lambda>r.
     Inr (r, digest)))))))"

definition image_config_from_commitmeta :: "oci_json \<Rightarrow> vardict \<Rightarrow> image_configuration result" where
  "image_config_from_commitmeta js commit_meta =
     and_then (lookup_string commit_meta META_CONFIG) (\<lambda>v.
     case v of
       Some v \<Rightarrow> if v = str ''null'' then Inr (oj_default_config js) else oj_read_config js v
     | None \<Rightarrow> Inr (oj_default_config js))"

definition manifest_digest_from_commit :: "oci_json \<Rightarrow> commit_object \<Rightarrow> digest result" where
  "manifest_digest_from_commit js commit =
     and_then (manifest_data_from_commitmeta js (co_metadata commit)) (\<lambda>(_, d). Inr d)"

fun index_of :: "'a \<Rightarrow> 'a list \<Rightarrow> nat option" where
  "index_of x [] = None"
| "index_of x (y # ys) = (if x = y then Some 0 else map_option Suc (index_of x ys))"

definition layer_from_diffid :: "image_manifest \<Rightarrow> image_configuration \<Rightarrow> rstr \<Rightarrow> descriptor result" where
  "layer_from_diffid manifest config diffid =
     and_then (ok_or (Err ''Missing diffid'') (index_of diffid (c_diff_ids config))) (\<lambda>idx.
     if idx < length (m_layers manifest) then Inr (m_layers manifest ! idx)
     else Inl (Err ''diffid position exceeds layer count''))"

text \<open>The loop over the layers; the state is \<open>(after_target, chunk_layers, derived_layers)\<close>.\<close>

definition layout_step ::
  "descriptor \<Rightarrow> descriptor \<Rightarrow> descriptor \<Rightarrow> bool \<times> descriptor list \<times> descriptor list \<Rightarrow>
   (bool \<times> descriptor list \<times> descriptor list) result" where
  "layout_step ostree_layer target_layer layer = (\<lambda>(after_target, chunk_layers, derived_layers).
     let push_chunk = (if layer \<noteq> ostree_layer then chunk_layers @ [layer] else chunk_layers)
     in if layer = target_layer then
          if after_target then Inl (Err ''Multiple entries for layer'')
          else Inr (True, push_chunk, derived_layers)
        else if \<not> after_target then Inr (after_target, push_chunk, derived_layers)
        else Inr (after_target, chunk_layers, derived_layers @ [layer]))"

definition parse_manifest_layout ::
  "image_manifest \<Rightarrow> image_configuration \<Rightarrow> (descriptor \<times> descriptor list \<times> descriptor list) result" where
  "parse_manifest_layout manifest config =
     (let config_labels = labels_of config
      in and_then (case m_layers manifest of [] \<Rightarrow> Inl (Err ''No layers in manifest'') | l # _ \<Rightarrow> Inr l) (\<lambda>first_layer.
         and_then (ok_or (Err ''No label found, not an ostree encapsulated container'')
                     (Option.bind config_labels (\<lambda>labels. kv_lookup labels DIFFID_LABEL))) (\<lambda>target_diffid.
         and_then (layer_from_diffid manifest config target_diffid) (\<lambda>target_layer.
         and_then (try_fold (layout_step first_layer target_layer) (m_layers manifest) (False, [], []))
           (\<lambda>(_, chunk_layers, derived_layers). Inr (first_layer, chunk_layers, derived_layers))))))"

text \<open>\<^verbatim>\<open>parse_time\<close> is the parser of RFC 3339 time stamps; an error is logged and ignored.\<close>

definition ANNOTATION_CREATED :: rstr where "ANNOTATION_CREATED = str ''org.opencontainers.image.created''"

definition timestamp_of_manifest_or_config ::
  "(rstr \<Rightarrow> u64 result) \<Rightarrow> image_manifest \<Rightarrow> image_configuration \<Rightarrow> u64 option" where
  "timestamp_of_manifest_or_config parse_time manifest config =
     (let timestamp =
        (case Option.bind (m_annotations manifest) (\<lambda>a. kv_lookup a ANNOTATION_CREATED) of
           Some t \<Rightarrow> Some t
         | None \<Rightarrow> c_created config)
      in case timestamp of
           None \<Rightarrow> None
         | Some t \<Rightarrow> (case parse_time t of Inr t \<Rightarrow> Some t | Inl _ \<Rightarrow> None))"

definition list_images :: "('s, 'z) ostree_repo_scheme \<Rightarrow> 's \<Rightarrow> rstr list result" where
  "list_images repo s =
     and_then (rp_list_refs repo s IMAGE_PREFIX) (\<lambda>refs.
     try_map (\<lambda>imgname. unprefix_unescape_ref IMAGE_PREFIX imgname) (map fst refs))"

definition parse_cached_update :: "oci_json \<Rightarrow> vardict \<Rightarrow> cached_image_update option result" where
  "parse_cached_update js meta =
     and_then (lookup_string meta CACHED_KEY_MANIFEST_DIGEST) (\<lambda>manifest_digest.
     case manifest_digest of
       None \<Rightarrow> Inr None
     | Some d \<Rightarrow>
         and_then (oj_read_digest js d) (\<lambda>manifest_digest.
         and_then
           (case Option.bind (kv_lookup meta CACHED_KEY_MANIFEST) variant_str of
              Some v \<Rightarrow> oj_read_manifest js v
            | None \<Rightarrow> Inl (Err ''Expected cached manifest'')) (\<lambda>manifest.
         and_then
           (case Option.bind (kv_lookup meta CACHED_KEY_CONFIG) variant_str of
              Some v \<Rightarrow> oj_read_config js v
            | None \<Rightarrow> Inl (Err ''Expected cached manifest'')) (\<lambda>config.
         Inr (Some \<lparr>cu_manifest = manifest, cu_config = config, cu_manifest_digest = manifest_digest\<rparr>)))))"

definition query_image_commit ::
  "('s, 'z) ostree_repo_scheme \<Rightarrow> oci_json \<Rightarrow> 's \<Rightarrow> rstr \<Rightarrow> layered_image_state result" where
  "query_image_commit repo js s commit =
     and_then (rp_load_commit repo s commit) (\<lambda>merge_commit_obj.
     let commit_meta = co_metadata merge_commit_obj
     in and_then (manifest_data_from_commitmeta js commit_meta) (\<lambda>(manifest, manifest_digest).
        and_then (image_config_from_commitmeta js commit_meta) (\<lambda>configuration.
        and_then (case m_layers manifest of [] \<Rightarrow> Inl (Err ''No layers found'') | l # _ \<Rightarrow> Inr l) (\<lambda>base_layer.
        and_then (query_layer repo s base_layer) (\<lambda>base_layer.
        and_then (ok_or (Err ''Missing base image ref'') (ml_commit base_layer)) (\<lambda>base_commit.
        and_then (rp_detached repo s commit) (\<lambda>detached_commitmeta.
        and_then (case detached_commitmeta of None \<Rightarrow> Inr None | Some m \<Rightarrow> parse_cached_update js m) (\<lambda>cached_update.
        Inr \<lparr>ls_base_commit = base_commit, ls_merge_commit = commit, ls_manifest_digest = manifest_digest,
             ls_manifest = manifest, ls_configuration = configuration, ls_cached_update = cached_update\<rparr>))))))))"

definition try_query_image ::
  "('s, 'z) ostree_repo_scheme \<Rightarrow> oci_json \<Rightarrow> 's \<Rightarrow> image_reference \<Rightarrow> layered_image_state option result" where
  "try_query_image repo js s imgref =
     and_then (ref_for_image imgref) (\<lambda>ostree_ref.
     and_then (rp_resolve_rev repo s ostree_ref) (\<lambda>merge_rev.
     case merge_rev of
       Some merge_rev \<Rightarrow> (case query_image_commit repo js s merge_rev of Inr r \<Rightarrow> Inr (Some r) | Inl _ \<Rightarrow> Inr None)
     | None \<Rightarrow> Inr None))"

definition query_image ::
  "('s, 'z) ostree_repo_scheme \<Rightarrow> oci_json \<Rightarrow> 's \<Rightarrow> image_reference \<Rightarrow> layered_image_state option result" where
  "query_image repo js s imgref =
     and_then (ref_for_image imgref) (\<lambda>ostree_ref.
     and_then (rp_resolve_rev repo s ostree_ref) (\<lambda>merge_rev.
     case merge_rev of
       Some r \<Rightarrow> and_then (query_image_commit repo js s r) (\<lambda>st. Inr (Some st))
     | None \<Rightarrow> Inr None))"

definition manifest_for_image ::
  "('s, 'z) ostree_repo_scheme \<Rightarrow> oci_json \<Rightarrow> 's \<Rightarrow> image_reference \<Rightarrow> image_manifest result" where
  "manifest_for_image repo js s imgref =
     and_then (ref_for_image imgref) (\<lambda>ostree_ref.
     and_then (rp_require_rev repo s ostree_ref) (\<lambda>commit.
     and_then (rp_load_commit repo s commit) (\<lambda>commit_obj.
     and_then (manifest_data_from_commitmeta js (co_metadata commit_obj)) (\<lambda>(m, _). Inr m))))"

subsection \<open>Removing images and layers\<close>

definition deployment_commits :: "('s, 'z) ostree_repo_scheme \<Rightarrow> 's \<Rightarrow> rstr list result" where
  "deployment_commits repo s =
     try_fold (\<lambda>p acc.
         and_then (rp_list_refs repo s p) (\<lambda>refs. Inr (fold List.insert (map snd refs) acc)))
       (OSTREE_BASE_DEPLOYMENT_REFS @ RPMOSTREE_BASE_REFS @ [BASE_IMAGE_PREFIX]) []"

definition list_container_deployment_manifests ::
  "('s, 'z) ostree_repo_scheme \<Rightarrow> oci_json \<Rightarrow> 's \<Rightarrow> image_manifest list result" where
  "list_container_deployment_manifests repo js s =
     and_then (deployment_commits repo s) (\<lambda>commits.
     try_fold (\<lambda>commit r.
         and_then (rp_load_commit repo s commit) (\<lambda>commit_obj.
         let commit_meta = co_metadata commit_obj
         in and_then (lookup_string commit_meta META_MANIFEST_DIGEST) (\<lambda>d.
            if d \<noteq> None
            then and_then (manifest_data_from_commitmeta js commit_meta) (\<lambda>(manifest, _). Inr (r @ [manifest]))
            else Inr r)))
       commits [])"

text \<open>One step of the loop over the refs of layers, with \<open>(referenced_layers, pruned)\<close>.  An error leaves the refs
  already deleted deleted.\<close>

definition gc_layer ::
  "('s, 'z) ostree_repo_scheme \<Rightarrow> rstr \<Rightarrow> rstr list \<times> u32 \<Rightarrow> ('s, rstr list \<times> u32) action" where
  "gc_layer repo layer_ref = (\<lambda>(referenced_layers, pruned).
     act_bind (act_result (unprefix_unescape_ref LAYER_PREFIX layer_ref)) (\<lambda>layer_digest.
     if layer_digest \<in> set referenced_layers
     then act_ret (removeAll layer_digest referenced_layers, pruned)
     else act_bind (act_update (rp_set_ref repo layer_ref None)) (\<lambda>_. act_ret (referenced_layers, pruned + 1))))"

definition all_manifests :: "('s, 'z) ostree_repo_scheme \<Rightarrow> oci_json \<Rightarrow> 's \<Rightarrow> image_manifest list result" where
  "all_manifests repo js s =
     and_then (list_images repo s) (\<lambda>all_images.
     and_then (list_container_deployment_manifests repo js s) (\<lambda>deployment_commits.
     and_then (try_map (\<lambda>img. and_then (image_reference_try_from img) (manifest_for_image repo js s)) all_images) (\<lambda>ms.
     Inr (ms @ deployment_commits))))"

definition layer_digests :: "image_manifest list \<Rightarrow> rstr list" where
  "layer_digests ms = btree_set (concat (map (\<lambda>m. map (\<lambda>l. digest_to_string (d_digest l)) (m_layers m)) ms))"

definition gc_image_layers :: "('s, 'z) ostree_repo_scheme \<Rightarrow> oci_json \<Rightarrow> ('s, u32) action" where
  "gc_image_layers repo js =
     act_bind (act_query (all_manifests repo js)) (\<lambda>ms.
     act_bind (act_query (\<lambda>s. rp_list_refs repo s LAYER_PREFIX)) (\<lambda>found_layers.
     act_bind (act_fold (gc_layer repo) (map fst found_layers) (layer_digests ms, 0)) (\<lambda>(_, pruned).
     act_ret pruned)))"

definition count_layer_references :: "('s, 'z) ostree_repo_scheme \<Rightarrow> 's \<Rightarrow> u32 result" where
  "count_layer_references repo s =
     and_then (rp_list_refs repo s LAYER_PREFIX) (\<lambda>refs. Inr (of_nat (length refs)))"

text \<open>\<^verbatim>\<open>order\<close> is the iteration order of the hash map of totals.\<close>

definition add_filtered :: "rstr \<times> u32 \<Rightarrow> (rstr, u32) kvmap \<Rightarrow> (rstr, u32) kvmap" where
  "add_filtered = (\<lambda>(k, v) m. kv_insert k ((case kv_lookup m k of Some n \<Rightarrow> n | None \<Rightarrow> 0) + v) m)"

definition filtered_totals :: "(rstr, (rstr, u32) kvmap) kvmap \<Rightarrow> (rstr, u32) kvmap" where
  "filtered_totals v = fold (\<lambda>(_, paths). fold add_filtered paths) v []"

definition image_filtered_content_warning ::
  "('s, 'z) ostree_repo_scheme \<Rightarrow> ((rstr, u32) kvmap \<Rightarrow> (rstr \<times> u32) list) \<Rightarrow> 's \<Rightarrow> image_reference \<Rightarrow> rstr option result" where
  "image_filtered_content_warning repo order s img =
     and_then (ref_for_image img) (\<lambda>ostree_ref.
     and_then (rp_require_rev repo s ostree_ref) (\<lambda>commit.
     and_then (rp_load_commit repo s commit) (\<lambda>commit_obj.
     and_then (lookup_filtered (co_metadata commit_obj) META_FILTERED) (\<lambda>r.
     Inr (case r of
            None \<Rightarrow> None
          | Some v \<Rightarrow>
              if v = [] then None
              else Some (fold (\<lambda>(k, n) buf. buf @ str '' '' @ k @ str '': '' @ fmt_dec (unat n)) (order (filtered_totals v))
                     (str ''Image contains non-ostree compatible file paths:'')))))))"

definition remove_image :: "('s, 'z) ostree_repo_scheme \<Rightarrow> image_reference \<Rightarrow> 's \<Rightarrow> (bool \<times> 's) result" where
  "remove_image repo img s =
     and_then (ref_for_image img) (\<lambda>ostree_ref.
     and_then (rp_resolve_rev repo s ostree_ref) (\<lambda>found.
     if found \<noteq> None then and_then (rp_set_ref repo ostree_ref None s) (\<lambda>s. Inr (True, s))
     else Inr (False, s)))"

text \<open>The repository after the loop is also the one left behind by an error.\<close>

fun remove_images_loop ::
  "('s, 'z) ostree_repo_scheme \<Rightarrow> image_reference list \<Rightarrow> image_reference list \<Rightarrow> 's \<Rightarrow>
   's \<times> image_reference list result" where
  "remove_images_loop repo [] missing s = (s, Inr missing)"
| "remove_images_loop repo (img # imgs) missing s =
     (case remove_image repo img s of
        Inl e \<Rightarrow> (s, Inl e)
      | Inr (found, s') \<Rightarrow> remove_images_loop repo imgs (if found then missing else missing @ [img]) s')"

definition remove_images :: "('s, 'z) ostree_repo_scheme \<Rightarrow> image_reference list \<Rightarrow> 's \<Rightarrow> 's \<times> unit result" where
  "remove_images repo imgs s =
     (let (s', r) = remove_images_loop repo imgs [] s
      in (s', and_then r (\<lambda>missing. ensure (missing = []) (Err ''Missing images''))))"

section \<open>Lemmas\<close>

subsection \<open>What is relied on of the repository\<close>

definition under :: "rstr \<Rightarrow> rstr \<Rightarrow> bool" where
  "under prefix r \<longleftrightarrow> r = prefix \<or> starts_with (prefix @ str ''/'') r"

text \<open>\<open>refs_of\<close> is the map of refs in a state of the repository: resolving looks a ref up, listing
  enumerates the refs at or below a prefix, and setting or deleting a ref changes this ref only.\<close>

definition refs_spec :: "('s, 'z) ostree_repo_scheme \<Rightarrow> ('s \<Rightarrow> rstr \<Rightarrow> rstr option) \<Rightarrow> bool" where
  "refs_spec repo refs_of \<longleftrightarrow>
     (\<forall>s r. under (str ''ostree'') r \<longrightarrow> rp_resolve_rev repo s r = Inr (refs_of s r)) \<and>
     (\<forall>s r c. under (str ''ostree'') r \<longrightarrow> (rp_require_rev repo s r = Inr c \<longleftrightarrow> refs_of s r = Some c)) \<and>
     (\<forall>s p l. rp_list_refs repo s p = Inr l \<longrightarrow> distinct (map fst l) \<and>
        (\<forall>r c. (r, c) \<in> set l \<longleftrightarrow> refs_of s r = Some c \<and> under p r)) \<and>
     (\<forall>s s' r v. rp_set_ref repo r v s = Inr s' \<longrightarrow> refs_of s' = (refs_of s)(r := v) \<and>
        rp_load_commit repo s' = rp_load_commit repo s \<and> rp_detached repo s' = rp_detached repo s)"

lemma refs_specD:
  assumes "refs_spec repo refs_of"
  shows "under (str ''ostree'') r \<Longrightarrow> rp_resolve_rev repo s r = Inr (refs_of s r)"
    and "under (str ''ostree'') r \<Longrightarrow> rp_require_rev repo s r = Inr c \<longleftrightarrow> refs_of s r = Some c"
    and "rp_list_refs repo s p = Inr l \<Longrightarrow> distinct (map fst l)"
    and "rp_list_refs repo s p = Inr l \<Longrightarrow> (r, c) \<in> set l \<longleftrightarrow> refs_of s r = Some c \<and> under p r"
    and "rp_set_ref repo r v s = Inr s' \<Longrightarrow> refs_of s' = (refs_of s)(r := v)"
    and "rp_set_ref repo r v s = Inr s' \<Longrightarrow> rp_load_commit repo s' = rp_load_commit repo s"
    and "rp_set_ref repo r v s = Inr s' \<Longrightarrow> rp_detached repo s' = rp_detached repo s"
  using assms unfolding refs_spec_def by blast+

text \<open>Strings read from JSON are valid strings.\<close>

definition json_valid :: "oci_json \<Rightarrow> bool" where
  "json_valid js \<longleftrightarrow> (\<forall>t m. oj_read_manifest js t = Inr m \<longrightarrow>
     list_all (\<lambda>l. valid_str (digest_to_string (d_digest l))) (m_layers m))"

text \<open>The layer refs of a repository were written by \<open>ref_for_blob_digest\<close>.\<close>

definition layer_refs_canonical :: "(rstr \<Rightarrow> rstr option) \<Rightarrow> bool" where
  "layer_refs_canonical refs \<longleftrightarrow>
     (\<forall>r. refs r \<noteq> None \<and> under LAYER_PREFIX r \<longrightarrow> (\<exists>d. valid_str d \<and> ref_for_blob_digest d = Inr r))"

subsection \<open>Refs\<close>

lemma prefix_escape_under: "prefix_escape_for_ref p s = Inr r \<Longrightarrow> under p r"
  by (auto simp: prefix_escape_for_ref_def under_def starts_with_iff result_simps str_simps)

lemma ref_prefixes:
  "under LAYER_PREFIX r \<Longrightarrow> under (str ''ostree'') r" "under IMAGE_PREFIX r \<Longrightarrow> under (str ''ostree'') r"
  "\<not> (under LAYER_PREFIX r \<and> under IMAGE_PREFIX r)"
  by (auto simp: under_def LAYER_PREFIX_def IMAGE_PREFIX_def starts_with_iff str_simps)

lemma ref_for_under:
  "ref_for_layer l = Inr r \<Longrightarrow> under LAYER_PREFIX r" "ref_for_blob_digest d = Inr r \<Longrightarrow> under LAYER_PREFIX r"
  "ref_for_image i = Inr r \<Longrightarrow> under IMAGE_PREFIX r"
  by (simp_all add: ref_for_layer_def ref_for_blob_digest_def ref_for_image_def prefix_escape_under)

lemma unescape_blob_ref: "valid_str d \<Longrightarrow> ref_for_blob_digest d = Inr r \<Longrightarrow> unprefix_unescape_ref LAYER_PREFIX r = Inr d"
  using prefix_escape_unescape [of d LAYER_PREFIX r] prefix_escape_ok_iff [of LAYER_PREFIX d]
  by (auto simp: ref_for_blob_digest_def ref_name_ok_def)

lemma unescape_image_ref:
  assumes "valid_str (ir_name ir)" "ref_for_image ir = Inr r"
  shows "unprefix_unescape_ref IMAGE_PREFIX r = Inr (image_reference_fmt ir)"
proof -
  have "valid_str (image_reference_fmt ir)"
    using assms(1) by (cases "ir_transport ir") (simp_all add: image_reference_fmt_def is_scalar_def)
  then show ?thesis
    using prefix_escape_unescape [of "image_reference_fmt ir" IMAGE_PREFIX r]
      prefix_escape_ok_iff [of IMAGE_PREFIX "image_reference_fmt ir"] assms(2)
    by (auto simp: ref_for_image_def ref_name_ok_def)
qed

text \<open>The name of an image can be read back from its ref.\<close>

definition storable_imgref :: "image_reference \<Rightarrow> bool" where
  "storable_imgref ir \<longleftrightarrow> wf_imgref ir \<and> valid_str (ir_name ir) \<and> 0 \<notin> set (ir_name ir)"

lemma ref_for_image_ok: "0 \<notin> set (ir_name ir) \<Longrightarrow> is_ok (ref_for_image ir)"
  by (cases "ir_transport ir") (simp_all add: ref_for_image_def prefix_escape_ok_iff image_reference_fmt_def str_simps)

interpretation image_ref_codec: text_codec ref_for_image
    "\<lambda>r. and_then (unprefix_unescape_ref IMAGE_PREFIX r) image_reference_try_from" storable_imgref
proof (unfold_locales, goal_cases)
  case (1 x)
  then show ?case using ref_for_image_ok [of x] by (auto simp: storable_imgref_def is_ok_iff)
qed (auto simp: storable_imgref_def unescape_image_ref image_reference_parse_print)

lemma resolve_layer:
  "refs_spec repo refs_of \<Longrightarrow> ref_for_layer l = Inr r \<Longrightarrow> rp_resolve_rev repo s r = Inr (refs_of s r)"
  using refs_specD(1) [of repo refs_of r s] ref_for_under(1) [of l r] ref_prefixes(1) [of r] by simp

lemma resolve_image:
  assumes "refs_spec repo refs_of" "ref_for_image i = Inr r"
  shows "rp_resolve_rev repo s r = Inr (refs_of s r)" "rp_require_rev repo s r = Inr c \<longleftrightarrow> refs_of s r = Some c"
  using refs_specD(1,2) [OF assms(1), of r] ref_for_under(3) [OF assms(2)] ref_prefixes(2) [of r] by simp_all

subsection \<open>Collecting layers\<close>

lemma gc_layer_eq:
  assumes "unprefix_unescape_ref LAYER_PREFIX r = Inr d"
  shows "gc_layer repo r (R, n) =
    (if d \<in> set R then act_ret (removeAll d R, n) else act_bind (act_update (rp_set_ref repo r None)) (\<lambda>_. act_ret (R, n + 1)))"
  using assms by (simp add: gc_layer_def)

lemma gc_image_layers_Inr:
  "gc_image_layers repo js s = (Inr n, s') \<longleftrightarrow> (\<exists>ms found R. all_manifests repo js s = Inr ms \<and>
     rp_list_refs repo s LAYER_PREFIX = Inr found \<and>
     act_fold (gc_layer repo) (map fst found) (layer_digests ms, 0) s = (Inr (R, n), s'))"
  by (auto simp: gc_image_layers_def act_simps)

text \<open>However the collection ends, it went no further than the loop.\<close>

lemma gc_image_layers_cases:
  assumes "gc_image_layers repo js s = (res, s')"
  obtains "s' = s" | ms found r where "all_manifests repo js s = Inr ms" "rp_list_refs repo s LAYER_PREFIX = Inr found"
    "act_fold (gc_layer repo) (map fst found) (layer_digests ms, 0) s = (r, s')"
proof (cases "all_manifests repo js s")
  case ms: (Inr ms)
  show ?thesis
  proof (cases "rp_list_refs repo s LAYER_PREFIX")
    case found: (Inr found)
    obtain r s1 where "act_fold (gc_layer repo) (map fst found) (layer_digests ms, 0) s = (r, s1)" by fastforce
    with assms ms found show ?thesis
      using that(2) by (cases r) (auto simp: gc_image_layers_def act_bind_query act_bind_run act_bind_fail)
  qed (use assms ms that(1) in \<open>simp add: gc_image_layers_def act_bind_query\<close>)
qed (use assms that(1) in \<open>simp add: gc_image_layers_def act_bind_query\<close>)

lemma gc_loop:
  assumes "refs_spec repo refs_of" "\<forall>r \<in> set refs. unprefix_unescape_ref LAYER_PREFIX r = Inr (dig r)"
    and "distinct (map dig refs)" "act_fold (gc_layer repo) refs (R, n) s = (Inr (R', n'), s')"
  shows "refs_of s' = (\<lambda>r. if r \<in> set refs \<and> dig r \<notin> set R then None else refs_of s r) \<and>
    rp_load_commit repo s' = rp_load_commit repo s \<and> rp_detached repo s' = rp_detached repo s \<and>
    n' = n + of_nat (length (filter (\<lambda>r. dig r \<notin> set R) refs))"
  using assms(2-4)
proof (induction refs arbitrary: R n s)
  case (Cons r refs)
  have d: "unprefix_unescape_ref LAYER_PREFIX r = Inr (dig r)" "dig r \<notin> dig ` set refs"
    using Cons.prems by auto
  show ?case
  proof (cases "dig r \<in> set R")
    case True
    with Cons.prems d(1) have run: "act_fold (gc_layer repo) refs (removeAll (dig r) R, n) s = (Inr (R', n'), s')"
      by (simp add: gc_layer_eq)
    have same: "r' \<in> set refs \<Longrightarrow> dig r' \<in> set (removeAll (dig r) R) \<longleftrightarrow> dig r' \<in> set R" for r'
    proof -
      assume "r' \<in> set refs"
      with d(2) have "dig r' \<noteq> dig r" by (metis image_eqI)
      then show ?thesis by simp
    qed
    have "filter (\<lambda>r'. dig r' \<notin> set (removeAll (dig r) R)) refs = filter (\<lambda>r'. dig r' \<notin> set R) refs"
      using same by (intro filter_cong) auto
    moreover have "x \<in> set refs \<and> dig x \<notin> set (removeAll (dig r) R) \<longleftrightarrow> x \<in> set (r # refs) \<and> dig x \<notin> set R" for x
      using same [of x] True by auto
    ultimately show ?thesis
      using Cons.IH [OF _ _ run] Cons.prems(1,2) True by simp
  next
    case False
    with Cons.prems d(1) obtain s1 where s1: "rp_set_ref repo r None s = Inr s1"
        "act_fold (gc_layer repo) refs (R, n + 1) s1 = (Inr (R', n'), s')"
      by (auto simp: gc_layer_eq act_simps)
    show ?thesis
      using Cons.IH [OF _ _ s1(2)] Cons.prems(1,2) False refs_specD(5-7) [OF assms(1) s1(1)]
      by (simp add: fun_eq_iff)
  qed
qed simp

text \<open>Whether the loop succeeds or fails, a ref whose digest is referenced, or that is not one of those listed,
  stays.\<close>

lemma gc_loop_keeps:
  assumes "refs_spec repo refs_of" "\<forall>r \<in> set refs. unprefix_unescape_ref LAYER_PREFIX r = Inr (dig r)"
    and "distinct (map dig refs)" "act_fold (gc_layer repo) refs (R, n) s = (res, s')"
  shows "rp_load_commit repo s' = rp_load_commit repo s \<and> rp_detached repo s' = rp_detached repo s \<and>
    (\<forall>r. (r \<in> set refs \<longrightarrow> dig r \<in> set R) \<longrightarrow> refs_of s' r = refs_of s r)"
  using assms(2-4)
proof (induction refs arbitrary: R n s)
  case (Cons r refs)
  have d: "unprefix_unescape_ref LAYER_PREFIX r = Inr (dig r)" "dig r \<notin> dig ` set refs"
    using Cons.prems by auto
  show ?case
  proof (cases "dig r \<in> set R")
    case True
    with Cons.prems d(1) have run: "act_fold (gc_layer repo) refs (removeAll (dig r) R, n) s = (res, s')"
      by (simp add: gc_layer_eq)
    have "q \<in> set refs \<Longrightarrow> dig q \<noteq> dig r" for q
      using d(2) by (metis image_eqI)
    then have "q \<in> set refs \<Longrightarrow> dig q \<in> set R \<Longrightarrow> dig q \<in> set (removeAll (dig r) R)" for q
      by simp
    then show ?thesis using Cons.IH [OF _ _ run] Cons.prems(1,2) by auto
  next
    case False
    show ?thesis
    proof (cases "rp_set_ref repo r None s")
      case (Inl e)
      with Cons.prems(3) d(1) False have "s' = s" by (simp add: gc_layer_eq act_bind_def act_update_def)
      then show ?thesis by simp
    next
      case (Inr s1)
      with Cons.prems(3) d(1) False have "act_fold (gc_layer repo) refs (R, n + 1) s1 = (res, s')"
        by (simp add: gc_layer_eq act_bind_def act_update_def act_result_def)
      from Cons.IH [OF _ _ this] show ?thesis
        using Cons.prems(1,2) False refs_specD(5-7) [OF assms(1) Inr] by auto
    qed
  qed
qed simp

lemma layer_digests_iff:
  "d \<in> set (layer_digests ms) \<longleftrightarrow> (\<exists>m \<in> set ms. \<exists>l \<in> set (m_layers m). digest_to_string (d_digest l) = d)"
  by (auto simp: layer_digests_def btree_set_def)

text \<open>The refs of the layers of some manifests.\<close>

definition layer_refs :: "image_manifest list \<Rightarrow> rstr set" where
  "layer_refs ms = {r. \<exists>m \<in> set ms. \<exists>l \<in> set (m_layers m). ref_for_layer l = Inr r}"

text \<open>The listed refs of layers, each with its digest.\<close>

lemma listed_layer_digests:
  assumes "refs_spec repo refs_of" "layer_refs_canonical (refs_of s)" "rp_list_refs repo s LAYER_PREFIX = Inr found"
    and "\<forall>m \<in> set ms. list_all (\<lambda>l. valid_str (digest_to_string (d_digest l))) (m_layers m)"
  obtains dig where "\<forall>r \<in> set (map fst found). unprefix_unescape_ref LAYER_PREFIX r = Inr (dig r)"
    and "distinct (map dig (map fst found))"
    and "\<And>r. r \<in> set (map fst found) \<longleftrightarrow> under LAYER_PREFIX r \<and> refs_of s r \<noteq> None"
    and "\<And>r. r \<in> set (map fst found) \<Longrightarrow> dig r \<in> set (layer_digests ms) \<longleftrightarrow> r \<in> layer_refs ms"
proof -
  have mem: "r \<in> set (map fst found) \<longleftrightarrow> under LAYER_PREFIX r \<and> refs_of s r \<noteq> None" for r
    using refs_specD(4) [OF assms(1,3)] by force
  define dig where "dig r = (SOME d. valid_str d \<and> ref_for_blob_digest d = Inr r)" for r
  have dig: "valid_str (dig r) \<and> ref_for_blob_digest (dig r) = Inr r" if "r \<in> set (map fst found)" for r
    unfolding dig_def by (rule someI_ex) (use that mem assms(2) in \<open>auto simp: layer_refs_canonical_def\<close>)
  have un: "\<forall>r \<in> set (map fst found). unprefix_unescape_ref LAYER_PREFIX r = Inr (dig r)"
    using dig unescape_blob_ref by blast
  have "inj_on dig (set (map fst found))"
    using dig by (intro inj_onI) (metis sum.inject(2))
  then have dist: "distinct (map dig (map fst found))"
    using refs_specD(3) [OF assms(1,3)] distinct_map by blast
  have ref: "dig r \<in> set (layer_digests ms) \<longleftrightarrow> r \<in> layer_refs ms" if r: "r \<in> set (map fst found)" for r
  proof
    assume "dig r \<in> set (layer_digests ms)"
    then obtain m l where "m \<in> set ms" "l \<in> set (m_layers m)" "digest_to_string (d_digest l) = dig r"
      by (auto simp: layer_digests_iff)
    moreover from this have "ref_for_layer l = Inr r" using dig [OF r] by (simp add: ref_for_layer_def)
    ultimately show "r \<in> layer_refs ms" by (auto simp: layer_refs_def)
  next
    assume "r \<in> layer_refs ms"
    then obtain m l where l: "m \<in> set ms" "l \<in> set (m_layers m)" "ref_for_layer l = Inr r"
      by (auto simp: layer_refs_def)
    then have "unprefix_unescape_ref LAYER_PREFIX r = Inr (digest_to_string (d_digest l))"
      using assms(4) by (intro unescape_blob_ref) (auto simp: ref_for_layer_def list_all_iff)
    with un r have "digest_to_string (d_digest l) = dig r" by auto
    with l show "dig r \<in> set (layer_digests ms)" by (auto simp: layer_digests_iff)
  qed
  show ?thesis by (rule that [OF un dist mem ref])
qed

lemma gc_image_layers_refs:
  assumes "refs_spec repo refs_of" "layer_refs_canonical (refs_of s)" "all_manifests repo js s = Inr ms"
    and "\<forall>m \<in> set ms. list_all (\<lambda>l. valid_str (digest_to_string (d_digest l))) (m_layers m)"
    and "gc_image_layers repo js s = (Inr n, s')"
  shows "refs_of s' = (\<lambda>r. if under LAYER_PREFIX r \<and> r \<notin> layer_refs ms then None else refs_of s r)"
    and "rp_load_commit repo s' = rp_load_commit repo s" "rp_detached repo s' = rp_detached repo s"
    and "finite {r. under LAYER_PREFIX r \<and> refs_of s r \<noteq> None \<and> r \<notin> layer_refs ms}"
    and "n = of_nat (card {r. under LAYER_PREFIX r \<and> refs_of s r \<noteq> None \<and> r \<notin> layer_refs ms})"
proof -
  obtain found R' where f: "rp_list_refs repo s LAYER_PREFIX = Inr found"
      "act_fold (gc_layer repo) (map fst found) (layer_digests ms, 0) s = (Inr (R', n), s')"
    using assms(3,5) by (auto simp: gc_image_layers_Inr)
  obtain dig where un: "\<forall>r \<in> set (map fst found). unprefix_unescape_ref LAYER_PREFIX r = Inr (dig r)"
    and dist: "distinct (map dig (map fst found))"
    and mem: "\<And>r. r \<in> set (map fst found) \<longleftrightarrow> under LAYER_PREFIX r \<and> refs_of s r \<noteq> None"
    and ref: "\<And>r. r \<in> set (map fst found) \<Longrightarrow> dig r \<in> set (layer_digests ms) \<longleftrightarrow> r \<in> layer_refs ms"
    using listed_layer_digests [OF assms(1,2) f(1) assms(4)] by blast
  note loop = gc_loop [OF assms(1) un dist f(2)]
  show "refs_of s' = (\<lambda>r. if under LAYER_PREFIX r \<and> r \<notin> layer_refs ms then None else refs_of s r)"
  proof
    fix r
    have "refs_of s' r = (if r \<in> set (map fst found) \<and> dig r \<notin> set (layer_digests ms) then None else refs_of s r)"
      using loop by simp
    then show "refs_of s' r = (if under LAYER_PREFIX r \<and> r \<notin> layer_refs ms then None else refs_of s r)"
      using mem [of r] ref [of r] by (cases "r \<in> set (map fst found)") auto
  qed
  show "rp_load_commit repo s' = rp_load_commit repo s" "rp_detached repo s' = rp_detached repo s"
    using loop by simp_all
  have set_eq: "{r. under LAYER_PREFIX r \<and> refs_of s r \<noteq> None \<and> r \<notin> layer_refs ms} =
      set (filter (\<lambda>r. dig r \<notin> set (layer_digests ms)) (map fst found))"
    using mem ref by auto
  then show "finite {r. under LAYER_PREFIX r \<and> refs_of s r \<noteq> None \<and> r \<notin> layer_refs ms}"
    by simp
  show "n = of_nat (card {r. under LAYER_PREFIX r \<and> refs_of s r \<noteq> None \<and> r \<notin> layer_refs ms})"
    unfolding set_eq
    by (subst distinct_card) (use loop refs_specD(3) [OF assms(1) f(1)] in \<open>simp_all only: distinct_filter add_0\<close>)
qed

subsection \<open>The images whose layers are kept\<close>

lemma set_fold_insert: "set (fold List.insert xs acc) = set xs \<union> set acc"
  by (induction xs arbitrary: acc) auto

definition deployment_prefixes :: "rstr list" where
  "deployment_prefixes = OSTREE_BASE_DEPLOYMENT_REFS @ RPMOSTREE_BASE_REFS @ [BASE_IMAGE_PREFIX]"

lemma deployment_commits_complete:
  assumes "refs_spec repo refs_of" "deployment_commits repo s = Inr cs"
    and "refs_of s r = Some c" "p \<in> set deployment_prefixes" "under p r"
  shows "c \<in> set cs"
  using assms(2) unfolding deployment_commits_def
proof (rule try_fold_member [where x = p])
  show "p \<in> set (OSTREE_BASE_DEPLOYMENT_REFS @ RPMOSTREE_BASE_REFS @ [BASE_IMAGE_PREFIX])"
    using assms(4) by (simp add: deployment_prefixes_def)
  fix a b assume "and_then (rp_list_refs repo s p) (\<lambda>refs. Inr (fold List.insert (map snd refs) a)) = Inr b"
  then obtain l where "rp_list_refs repo s p = Inr l" "b = fold List.insert (map snd l) a"
    by (auto simp: result_simps)
  moreover from this have "(r, c) \<in> set l" using refs_specD(4) [OF assms(1)] assms(3,5) by blast
  ultimately show "c \<in> set b" by (force simp: set_fold_insert)
qed (auto simp: result_simps set_fold_insert)

lemma manifest_data_digest:
  "manifest_data_from_commitmeta js cm = Inr (m, d) \<Longrightarrow> \<exists>t. lookup_string cm META_MANIFEST_DIGEST = Inr (Some t)"
  by (auto simp: manifest_data_from_commitmeta_def result_simps)

lemma deployment_manifests_complete:
  assumes "list_container_deployment_manifests repo js s = Inr ms" "deployment_commits repo s = Inr cs" "c \<in> set cs"
    and "rp_load_commit repo s c = Inr co" "manifest_data_from_commitmeta js (co_metadata co) = Inr (m, d)"
  shows "m \<in> set ms"
proof -
  let ?f = "\<lambda>commit r. and_then (rp_load_commit repo s commit) (\<lambda>commit_obj.
         let commit_meta = co_metadata commit_obj
         in and_then (lookup_string commit_meta META_MANIFEST_DIGEST) (\<lambda>d.
            if d \<noteq> None
            then and_then (manifest_data_from_commitmeta js commit_meta) (\<lambda>(manifest, _). Inr (r @ [manifest]))
            else Inr r))"
  have "try_fold ?f cs [] = Inr ms"
    using assms(1,2) by (simp add: list_container_deployment_manifests_def)
  then show ?thesis
  proof (rule try_fold_member [where x = c])
    fix a b assume "?f c a = Inr b"
    then show "m \<in> set b" using assms(4,5) manifest_data_digest [OF assms(5)] by (auto simp: Let_def)
  qed (use assms(3) in \<open>auto simp: result_simps Let_def split: if_splits\<close>)
qed

text \<open>A commit some image or deployment stands for.\<close>

definition live_commit :: "(rstr \<Rightarrow> rstr option) \<Rightarrow> rstr \<Rightarrow> bool" where
  "live_commit refs c \<longleftrightarrow>
     (\<exists>r ir. refs r = Some c \<and> ref_for_image ir = Inr r \<and> wf_imgref ir \<and> valid_str (ir_name ir)) \<or>
     (\<exists>r p. refs r = Some c \<and> p \<in> set deployment_prefixes \<and> under p r)"

lemma image_name_listed:
  assumes "refs_spec repo refs_of" "list_images repo s = Inr imgs" "refs_of s r = Some c" "ref_for_image ir = Inr r"
    and "valid_str (ir_name ir)"
  shows "image_reference_fmt ir \<in> set imgs"
proof -
  obtain refs where l: "rp_list_refs repo s IMAGE_PREFIX = Inr refs"
      "try_map (unprefix_unescape_ref IMAGE_PREFIX) (map fst refs) = Inr imgs"
    using assms(2) by (auto simp: list_images_def result_simps)
  have "(r, c) \<in> set refs"
    using refs_specD(4) [OF assms(1) l(1), of r c] assms(3) ref_for_under(3) [OF assms(4)] by simp
  then have "r \<in> set (map fst refs)" by force
  from try_map_mem [OF l(2) this] obtain n where n: "unprefix_unescape_ref IMAGE_PREFIX r = Inr n" "n \<in> set imgs"
    by blast
  with unescape_image_ref [OF assms(5,4)] show ?thesis by simp
qed

lemma all_manifests_complete:
  assumes "refs_spec repo refs_of" "all_manifests repo js s = Inr ms" "live_commit (refs_of s) c"
    and "rp_load_commit repo s c = Inr co" "manifest_data_from_commitmeta js (co_metadata co) = Inr (m, d)"
  shows "m \<in> set ms"
proof -
  obtain imgs deps ims where a: "list_images repo s = Inr imgs" "list_container_deployment_manifests repo js s = Inr deps"
      "try_map (\<lambda>img. and_then (image_reference_try_from img) (manifest_for_image repo js s)) imgs = Inr ims" "ms = ims @ deps"
    using assms(2) by (auto simp: all_manifests_def result_simps)
  from assms(3) consider
      (image) r ir where "refs_of s r = Some c" "ref_for_image ir = Inr r" "wf_imgref ir" "valid_str (ir_name ir)"
    | (deploy) r p where "refs_of s r = Some c" "p \<in> set deployment_prefixes" "under p r"
    by (auto simp: live_commit_def)
  then show ?thesis
  proof cases
    case image
    have "image_reference_fmt ir \<in> set imgs"
      by (rule image_name_listed [OF assms(1) a(1) image(1,2,4)])
    moreover have "image_reference_try_from (image_reference_fmt ir) = Inr ir"
      using imgref_codec.dec_enc [OF image(3)] by simp
    moreover have "manifest_for_image repo js s ir = Inr m"
      using image(2) resolve_image(2) [OF assms(1) image(2), of s c] image(1) assms(4,5) by (simp add: manifest_for_image_def)
    ultimately have "m \<in> set ims"
      using try_map_mem [OF a(3), of "image_reference_fmt ir"] by auto
    with a(4) show ?thesis by simp
  next
    case deploy
    obtain cs where cs: "deployment_commits repo s = Inr cs"
      using a(2) by (auto simp: list_container_deployment_manifests_def result_simps)
    have "c \<in> set cs" by (rule deployment_commits_complete [OF assms(1) cs deploy])
    then have "m \<in> set deps" by (rule deployment_manifests_complete [OF a(2) cs _ assms(4,5)])
    with a(4) show ?thesis by simp
  qed
qed

lemma manifests_valid:
  assumes "json_valid js" "manifest_data_from_commitmeta js cm = Inr (m, d)"
  shows "list_all (\<lambda>l. valid_str (digest_to_string (d_digest l))) (m_layers m)"
  using assms by (auto simp: manifest_data_from_commitmeta_def json_valid_def result_simps)

lemma all_manifests_valid:
  assumes "json_valid js" "all_manifests repo js s = Inr ms" "m \<in> set ms"
  shows "list_all (\<lambda>l. valid_str (digest_to_string (d_digest l))) (m_layers m)"
proof -
  obtain imgs deps ims where a: "list_images repo s = Inr imgs" "list_container_deployment_manifests repo js s = Inr deps"
      "try_map (\<lambda>img. and_then (image_reference_try_from img) (manifest_for_image repo js s)) imgs = Inr ims" "ms = ims @ deps"
    using assms(2) by (auto simp: all_manifests_def result_simps)
  have "list_all (\<lambda>l. valid_str (digest_to_string (d_digest l))) (m_layers m)" if "m \<in> set ims"
  proof -
    from try_map_mem_rev [OF a(3) that] obtain img where "and_then (image_reference_try_from img) (manifest_for_image repo js s) = Inr m"
      by blast
    with manifests_valid [OF assms(1)] show ?thesis by (auto simp: manifest_for_image_def result_simps)
  qed
  moreover have "list_all (\<lambda>m. list_all (\<lambda>l. valid_str (digest_to_string (d_digest l))) (m_layers m)) deps"
  proof -
    obtain cs where cs: "deployment_commits repo s = Inr cs"
      using a(2) by (auto simp: list_container_deployment_manifests_def result_simps)
    show ?thesis
      using a(2) unfolding list_container_deployment_manifests_def cs and_then_simps
      by (rule try_fold_invariant)
         (auto simp: result_simps Let_def dest: manifests_valid [OF assms(1)] split: if_splits)
  qed
  ultimately show ?thesis using assms(3) a(4) by (auto simp: list_all_iff)
qed

subsection \<open>The layout of a manifest\<close>

lemma layout_after_target:
  "try_fold (layout_step ostree_layer target) layers (True, chunks, derived) =
     (if target \<in> set layers then Inl (Err ''Multiple entries for layer'') else Inr (True, chunks, derived @ layers))"
  by (induction layers arbitrary: derived) (auto simp: layout_step_def Let_def)

lemma layout_before_target:
  "target \<notin> set pre \<Longrightarrow> try_fold (layout_step ostree_layer target) (pre @ rest) (False, chunks, derived) =
     try_fold (layout_step ostree_layer target) rest (False, chunks @ filter (\<lambda>l. l \<noteq> ostree_layer) pre, derived)"
  by (induction pre arbitrary: chunks) (auto simp: layout_step_def Let_def)

lemma layout_loop:
  assumes "layers = pre @ target # derived" "target \<notin> set pre"
  shows "try_fold (layout_step ostree_layer target) layers (False, [], []) =
    (if target \<in> set derived then Inl (Err ''Multiple entries for layer'')
     else Inr (True, filter (\<lambda>l. l \<noteq> ostree_layer) (pre @ [target]), derived))"
  using assms layout_before_target [of target pre ostree_layer "target # derived" "[]" "[]"]
  by (simp add: layout_after_target) (simp add: layout_step_def layout_after_target Let_def)

lemma parse_layout_backward:
  assumes "parse_manifest_layout manifest config = Inr (ostree_layer, chunks, derived)"
  shows "\<exists>labels diffid idx pre target.
        labels_of config = Some labels \<and> kv_lookup labels DIFFID_LABEL = Some diffid \<and>
        index_of diffid (c_diff_ids config) = Some idx \<and> idx < length (m_layers manifest) \<and>
        target = m_layers manifest ! idx \<and> ostree_layer = hd (m_layers manifest) \<and>
        m_layers manifest = pre @ target # derived \<and> target \<notin> set pre \<and> target \<notin> set derived \<and>
        chunks = filter (\<lambda>l. l \<noteq> ostree_layer) (pre @ [target])"
proof -
  from assms obtain rest labels diffid idx where
      l: "m_layers manifest = ostree_layer # rest" "labels_of config = Some labels" "kv_lookup labels DIFFID_LABEL = Some diffid"
      "index_of diffid (c_diff_ids config) = Some idx" "idx < length (m_layers manifest)"
      and run: "\<exists>b. try_fold (layout_step ostree_layer (m_layers manifest ! idx)) (m_layers manifest) (False, [], []) =
        Inr (b, chunks, derived)"
    by (auto simp: parse_manifest_layout_def layer_from_diffid_def result_simps Let_def bind_eq_Some_conv
        split: list.splits if_splits)
  let ?t = "m_layers manifest ! idx"
  have "?t \<in> set (m_layers manifest)" using l(5) by simp
  then obtain pre derived' where d: "m_layers manifest = pre @ ?t # derived'" "?t \<notin> set pre"
    using split_list_first by metis
  from run layout_loop [OF d, of ostree_layer]
  have "derived = derived'" "?t \<notin> set derived'" "chunks = filter (\<lambda>l. l \<noteq> ostree_layer) (pre @ [?t])"
    by (auto split: if_splits)
  moreover have "ostree_layer = hd (m_layers manifest)" using l(1) by simp
  ultimately show ?thesis using l(2-5) d by blast
qed

lemma parse_layout_forward:
  assumes "labels_of config = Some labels" "kv_lookup labels DIFFID_LABEL = Some diffid"
    and "index_of diffid (c_diff_ids config) = Some idx" "idx < length (m_layers manifest)"
    and "target = m_layers manifest ! idx" "ostree_layer = hd (m_layers manifest)"
    and "m_layers manifest = pre @ target # derived" "target \<notin> set pre" "target \<notin> set derived"
  shows "parse_manifest_layout manifest config =
    Inr (ostree_layer, filter (\<lambda>l. l \<noteq> ostree_layer) (pre @ [target]), derived)"
proof -
  have run: "try_fold (layout_step ostree_layer target) (m_layers manifest) (False, [], []) =
      Inr (True, filter (\<lambda>l. l \<noteq> ostree_layer) (pre @ [target]), derived)"
    using layout_loop [OF assms(7,8), of ostree_layer] assms(9) by simp
  obtain rest where "m_layers manifest = ostree_layer # rest"
    using assms(6,7) by (metis append_is_Nil_conv hd_Cons_tl list.distinct(1))
  with assms(1-5) run show ?thesis
    by (simp add: parse_manifest_layout_def layer_from_diffid_def Let_def)
qed

lemma first_layer_once: "distinct ls \<Longrightarrow> hd ls \<notin> set (tl ls)"
  by (cases ls) auto

lemma layout_all_layers:
  assumes "parse_manifest_layout manifest config = Inr (ostree_layer, comps, derived)"
    and "hd (m_layers manifest) \<notin> set (tl (m_layers manifest))"
  shows "ostree_layer # comps @ derived = m_layers manifest"
proof -
  from parse_layout_backward [OF assms(1)] obtain pre target where
    l: "ostree_layer = hd (m_layers manifest)" "m_layers manifest = pre @ target # derived"
      "comps = filter (\<lambda>l. l \<noteq> ostree_layer) (pre @ [target])"
    by blast
  show ?thesis
  proof (cases pre)
    case (Cons p pre')
    then have "filter (\<lambda>l. l \<noteq> p) (pre' @ [target]) = pre' @ [target]"
      using assms(2) l(2) by (intro filter_True) auto
    with Cons l show ?thesis by simp
  qed (use l in simp)
qed

lemma query_image_commit_cong:
  assumes "refs_spec repo refs_of" "rp_load_commit repo s' c = rp_load_commit repo s c"
    and "rp_detached repo s' c = rp_detached repo s c"
    and "\<And>co m d l r. rp_load_commit repo s c = Inr co \<Longrightarrow> manifest_data_from_commitmeta js (co_metadata co) = Inr (m, d) \<Longrightarrow>
      l \<in> set (m_layers m) \<Longrightarrow> ref_for_layer l = Inr r \<Longrightarrow> refs_of s' r = refs_of s r"
  shows "query_image_commit repo js s' c = query_image_commit repo js s c"
proof (cases "rp_load_commit repo s c")
  case (Inr co)
  show ?thesis
  proof (cases "manifest_data_from_commitmeta js (co_metadata co)")
    case (Inr md)
    obtain m d where md: "md = (m, d)" by force
    have "query_layer repo s' l = query_layer repo s l" if "l \<in> set (m_layers m)" for l
      using assms(4) [OF \<open>rp_load_commit repo s c = Inr co\<close> Inr [unfolded md] that] resolve_layer [OF assms(1)]
      by (cases "ref_for_layer l") (simp_all add: query_layer_def)
    then show ?thesis
      using assms(2,3) \<open>rp_load_commit repo s c = Inr co\<close> Inr md
      by (cases "m_layers m") (simp_all add: query_image_commit_def Let_def)
  qed (use assms(2) Inr in \<open>simp add: query_image_commit_def Let_def\<close>)
qed (use assms(2) in \<open>simp add: query_image_commit_def\<close>)

text \<open>However the collection of layers ends, it has changed nothing but refs of layers that no manifest of a stored
  image or of a deployment lists.\<close>

lemma gc_image_layers_keeps:
  assumes "refs_spec repo refs_of" "json_valid js" "layer_refs_canonical (refs_of s)"
    and "gc_image_layers repo js s = (res, s')"
  shows "rp_load_commit repo s' = rp_load_commit repo s" "rp_detached repo s' = rp_detached repo s"
    and "refs_of s' r \<noteq> refs_of s r \<Longrightarrow> \<exists>ms. all_manifests repo js s = Inr ms \<and> under LAYER_PREFIX r \<and> r \<notin> layer_refs ms"
proof -
  have "rp_load_commit repo s' = rp_load_commit repo s \<and> rp_detached repo s' = rp_detached repo s \<and>
    (refs_of s' r \<noteq> refs_of s r \<longrightarrow> (\<exists>ms. all_manifests repo js s = Inr ms \<and> under LAYER_PREFIX r \<and> r \<notin> layer_refs ms))"
    using assms(4)
  proof (cases rule: gc_image_layers_cases)
    case (2 ms found x)
    have valid: "\<forall>m \<in> set ms. list_all (\<lambda>l. valid_str (digest_to_string (d_digest l))) (m_layers m)"
      using all_manifests_valid [OF assms(2) 2(1)] by blast
    obtain dig where dig: "\<forall>r \<in> set (map fst found). unprefix_unescape_ref LAYER_PREFIX r = Inr (dig r)"
        "distinct (map dig (map fst found))"
      and mem: "\<And>r. r \<in> set (map fst found) \<longleftrightarrow> under LAYER_PREFIX r \<and> refs_of s r \<noteq> None"
      and ref: "\<And>r. r \<in> set (map fst found) \<Longrightarrow> dig r \<in> set (layer_digests ms) \<longleftrightarrow> r \<in> layer_refs ms"
      using listed_layer_digests [OF assms(1,3) 2(2) valid] by blast
    from gc_loop_keeps [OF assms(1) dig 2(3)] show ?thesis
      using 2(1) mem [of r] ref [of r] by auto
  qed simp
  then show "rp_load_commit repo s' = rp_load_commit repo s" "rp_detached repo s' = rp_detached repo s"
    "refs_of s' r \<noteq> refs_of s r \<Longrightarrow> \<exists>ms. all_manifests repo js s = Inr ms \<and> under LAYER_PREFIX r \<and> r \<notin> layer_refs ms"
    by blast+
qed

lemma gc_keeps_live:
  assumes "refs_spec repo refs_of" "json_valid js" "layer_refs_canonical (refs_of s)"
    and "gc_image_layers repo js s = (res, s')" "live_commit (refs_of s) c"
    and "rp_load_commit repo s c = Inr co" "manifest_data_from_commitmeta js (co_metadata co) = Inr (m, d)"
  shows "(\<forall>l \<in> set (m_layers m). \<forall>r. ref_for_layer l = Inr r \<longrightarrow> refs_of s' r = refs_of s r) \<and>
    query_image_commit repo js s' c = query_image_commit repo js s c"
proof -
  note gc = gc_image_layers_keeps [OF assms(1-4)]
  have keep: "refs_of s' r = refs_of s r" if "l \<in> set (m_layers m)" "ref_for_layer l = Inr r" for l r
    using gc(3) [of r] all_manifests_complete [OF assms(1) _ assms(5-7)] that unfolding layer_refs_def by blast
  have "query_image_commit repo js s' c = query_image_commit repo js s c"
    by (rule query_image_commit_cong [OF assms(1)]) (use assms(6,7) gc(1,2) keep in auto)
  with keep show ?thesis by blast
qed

subsection \<open>Removing images\<close>

lemma remove_image_spec:
  assumes "refs_spec repo refs_of" "ref_for_image img = Inr r" "is_ok (rp_set_ref repo r None s)"
  shows "\<exists>s'. remove_image repo img s = Inr (refs_of s r \<noteq> None, s') \<and> refs_of s' = (refs_of s)(r := None)"
proof (cases "refs_of s r")
  case None
  then show ?thesis using resolve_image(1) [OF assms(1,2)] assms(2) by (auto simp: remove_image_def fun_eq_iff)
next
  case (Some c)
  obtain s' where "rp_set_ref repo r None s = Inr s'" using assms(3) by (auto simp: is_ok_iff)
  with Some show ?thesis
    using resolve_image(1) [OF assms(1,2)] assms(2) refs_specD(5) [OF assms(1)] by (auto simp: remove_image_def)
qed

lemma remove_images_loop_spec:
  assumes "refs_spec repo refs_of" "\<forall>img \<in> set imgs. ref_for_image img = Inr (rf img)"
    and "\<forall>r s. is_ok (rp_set_ref repo r None s)"
  shows "\<exists>s' missing'. remove_images_loop repo imgs missing s = (s', Inr (missing @ missing')) \<and>
    refs_of s' = (\<lambda>r. if r \<in> rf ` set imgs then None else refs_of s r) \<and>
    (missing' = [] \<longleftrightarrow> distinct (map rf imgs) \<and> (\<forall>img \<in> set imgs. refs_of s (rf img) \<noteq> None))"
  using assms(2)
proof (induction imgs arbitrary: missing s)
  case (Cons img imgs)
  obtain s1 where s1: "remove_image repo img s = Inr (refs_of s (rf img) \<noteq> None, s1)"
      "refs_of s1 = (refs_of s)(rf img := None)"
    using remove_image_spec [OF assms(1)] Cons.prems assms(3) by force
  define missing1 where "missing1 = (if refs_of s (rf img) \<noteq> None then missing else missing @ [img])"
  obtain s' missing' where IH: "remove_images_loop repo imgs missing1 s1 = (s', Inr (missing1 @ missing'))"
      "refs_of s' = (\<lambda>r. if r \<in> rf ` set imgs then None else refs_of s1 r)"
      "missing' = [] \<longleftrightarrow> distinct (map rf imgs) \<and> (\<forall>img \<in> set imgs. refs_of s1 (rf img) \<noteq> None)"
    using Cons.IH Cons.prems by force
  have run: "remove_images_loop repo (img # imgs) missing s = (s', Inr (missing1 @ missing'))"
    using s1(1) IH(1) by (simp add: missing1_def)
  have "(if refs_of s (rf img) \<noteq> None then missing' else img # missing') = [] \<longleftrightarrow>
      distinct (map rf (img # imgs)) \<and> (\<forall>img \<in> set (img # imgs). refs_of s (rf img) \<noteq> None)"
    using IH(3) by (cases "rf img \<in> rf ` set imgs") (auto simp: s1(2) image_iff)
  moreover have "missing1 @ missing' = missing @ (if refs_of s (rf img) \<noteq> None then missing' else img # missing')"
    by (simp add: missing1_def)
  moreover have "refs_of s' = (\<lambda>r. if r \<in> rf ` set (img # imgs) then None else refs_of s r)"
    using IH(2) s1(2) by (auto simp: fun_eq_iff)
  ultimately show ?case using run
    by (intro exI [of _ s'] exI [of _ "if refs_of s (rf img) \<noteq> None then missing' else img # missing'"]) simp
qed simp

subsection \<open>Prepared imports\<close>

lemma map_filter_map_Inr: "List.map_filter f (map Inr xs) = List.map_filter (f \<circ> Inr) xs"
  by (simp add: List.map_filter_def filter_map comp_def)

section \<open>Properties\<close>

text \<open>A repository held in an association list of refs, with one commit.\<close>

definition stored_layer :: "string \<Rightarrow> descriptor" where
  "stored_layer h = \<lparr>d_media_type = ImageLayer, d_digest = \<lparr>dg_algorithm = str ''sha256'', dg_hex = str h\<rparr>, d_size = 5,
                     d_annotations = None, d_other = []\<rparr>"

definition stored_manifest :: image_manifest where
  "stored_manifest = \<lparr>m_config = stored_layer ''c'', m_layers = [stored_layer ''a''], m_annotations = None\<rparr>"

definition stored_config :: image_configuration where
  "stored_config = \<lparr>c_architecture = str ''amd64'', c_created = None, c_config = None, c_diff_ids = [], c_history = []\<rparr>"

definition stored_json :: oci_json where
  "stored_json = \<lparr>oj_read_manifest = (\<lambda>_. Inr stored_manifest), oj_write_manifest = (\<lambda>_. Inr (str ''m'')),
     oj_read_config = (\<lambda>_. Inr stored_config), oj_write_config = (\<lambda>_. Inr (str ''c'')),
     oj_read_digest = (\<lambda>t. Inr \<lparr>dg_algorithm = str ''sha256'', dg_hex = t\<rparr>), oj_default_config = stored_config\<rparr>"

definition stored_commit :: commit_object where
  "stored_commit = \<lparr>co_metadata = kv_extend [] [(META_MANIFEST_DIGEST, VString (str ''d'')), (META_MANIFEST, VString (str ''m''))],
     co_parent = None, co_subject = [], co_body = [], co_timestamp = 0, co_tree = [], co_meta = []\<rparr>"

definition stored_repo :: "(rstr \<times> rstr) list ostree_repo" where
  "stored_repo = \<lparr>rp_resolve_rev = (\<lambda>s r. Inr (map_of s r)), rp_require_rev = (\<lambda>s r. ok_or (Err ''no such ref'') (map_of s r)),
     rp_list_refs = (\<lambda>s p. Inr (map (\<lambda>r. (r, the (map_of s r))) (filter (under p) (remdups (map fst s))))),
     rp_load_commit = (\<lambda>_ _. Inr stored_commit), rp_detached = (\<lambda>_ _. Inr None),
     rp_set_ref = (\<lambda>r v s. Inr ((case v of None \<Rightarrow> [] | Some c \<Rightarrow> [(r, c)]) @ filter (\<lambda>e. fst e \<noteq> r) s)),
     rp_write_detached = (\<lambda>_ _ s. Inr s)\<rparr>"

definition stored_state :: "(rstr \<times> rstr) list" where
  "stored_state = [(str ''ostree/container/image/docker_3A__2F__2F_x'', [49]), (str ''ostree/container/blob/sha256_3A_b'', [50]),
     (str ''ostree/container/blob/sha256_3A_a'', [51])]"

definition stored_image :: image_reference where
  "stored_image = \<lparr>ir_transport = Registry, ir_name = str ''x''\<rparr>"

lemma map_of_filter_neq: "map_of (filter (\<lambda>e. fst e \<noteq> r) s) = (map_of s)(r := None)"
  by (induction s) (auto simp: fun_eq_iff)

lemma listed_refs_iff:
  "(r, c) \<in> set (map (\<lambda>r. (r, the (map_of s r))) (filter P (remdups (map fst s)))) \<longleftrightarrow> map_of s r = Some c \<and> P r"
proof (cases "map_of s r")
  case None
  then have "r \<notin> fst ` set s" by (simp add: map_of_eq_None_iff)
  with None show ?thesis by auto
next
  case (Some d)
  then have "r \<in> fst ` set s" by (metis map_of_eq_None_iff option.distinct(1))
  with Some show ?thesis by auto
qed

lemma map_of_set_ref:
  "map_of ((case v of None \<Rightarrow> [] | Some c \<Rightarrow> [(r, c)]) @ filter (\<lambda>e. fst e \<noteq> r) s) = (map_of s)(r := v)"
  by (cases v) (simp_all add: map_of_filter_neq)

lemma stored_repo_refs: "refs_spec stored_repo map_of"
  unfolding refs_spec_def
proof (intro conjI allI impI)
  fix s p l assume "rp_list_refs stored_repo s p = Inr l"
  then have l: "l = map (\<lambda>r. (r, the (map_of s r))) (filter (under p) (remdups (map fst s)))"
    by (simp add: stored_repo_def)
  show "distinct (map fst l)" by (simp add: l comp_def)
  show "(r, c) \<in> set l \<longleftrightarrow> map_of s r = Some c \<and> under p r" for r c
    unfolding l by (rule listed_refs_iff)
next
  fix s s' r v assume "rp_set_ref stored_repo r v s = Inr s'"
  then have "s' = (case v of None \<Rightarrow> [] | Some c \<Rightarrow> [(r, c)]) @ filter (\<lambda>e. fst e \<noteq> r) s"
    by (simp add: stored_repo_def)
  then show "map_of s' = (map_of s)(r := v)" by (simp only: map_of_set_ref)
qed (auto simp: stored_repo_def result_simps)

lemma stored_state_canonical: "layer_refs_canonical (map_of stored_state)"
proof -
  have a: "ref_for_blob_digest (str ''sha256:a'') = Inr (str ''ostree/container/blob/sha256_3A_a'')"
    "ref_for_blob_digest (str ''sha256:b'') = Inr (str ''ostree/container/blob/sha256_3A_b'')"
    "\<not> under LAYER_PREFIX (str ''ostree/container/image/docker_3A__2F__2F_x'')"
    by code_simp+
  show ?thesis
    unfolding layer_refs_canonical_def
  proof (intro allI impI)
    fix r assume "map_of stored_state r \<noteq> None \<and> under LAYER_PREFIX r"
    then have "r = str ''ostree/container/blob/sha256_3A_a'' \<or> r = str ''ostree/container/blob/sha256_3A_b''"
      using a(3) by (auto simp: stored_state_def split: if_splits)
    with a(1,2) show "\<exists>d. valid_str d \<and> ref_for_blob_digest d = Inr r"
      using valid_str_str by blast
  qed
qed

lemma stored_json_valid: "json_valid stored_json"
  by (simp add: json_valid_def stored_json_def stored_manifest_def stored_layer_def digest_to_string_def is_scalar_def)

lemma stored_gc: "gc_image_layers stored_repo stored_json stored_state =
    (Inr 1, [stored_state ! 0, stored_state ! 2])"
  by code_simp

text \<open>C23: the layout of a manifest: the first layer holds the commit, the layers up to the one the
  configuration's label points to are its chunks, all later layers are derived.  Parsing succeeds exactly
  when the label is there, its diff id is one of the configuration's, the layer at this position exists
  and occurs only once.\<close>

theorem parse_manifest_layout_iff:
  "parse_manifest_layout manifest config = Inr (ostree_layer, chunks, derived) \<longleftrightarrow>
     (\<exists>labels diffid idx pre target.
        labels_of config = Some labels \<and> kv_lookup labels DIFFID_LABEL = Some diffid \<and>
        index_of diffid (c_diff_ids config) = Some idx \<and> idx < length (m_layers manifest) \<and>
        target = m_layers manifest ! idx \<and> ostree_layer = hd (m_layers manifest) \<and>
        m_layers manifest = pre @ target # derived \<and> target \<notin> set pre \<and> target \<notin> set derived \<and>
        chunks = filter (\<lambda>l. l \<noteq> ostree_layer) (pre @ [target]))" (is "?lhs \<longleftrightarrow> ?rhs")
proof
  assume ?lhs
  from parse_layout_backward [OF this] show ?rhs .
next
  assume ?rhs
  then obtain labels diffid idx pre target where
      r: "labels_of config = Some labels" "kv_lookup labels DIFFID_LABEL = Some diffid"
      "index_of diffid (c_diff_ids config) = Some idx" "idx < length (m_layers manifest)"
      "target = m_layers manifest ! idx" "ostree_layer = hd (m_layers manifest)"
      "m_layers manifest = pre @ target # derived" "target \<notin> set pre" "target \<notin> set derived"
      "chunks = filter (\<lambda>l. l \<noteq> ostree_layer) (pre @ [target])"
    by blast
  from parse_layout_forward [OF r(1-9)] r(10) show ?lhs by simp
qed

text \<open>C22: collecting layers removes exactly the refs of layers that no stored image and no deployment
  needs: every other ref of the repository keeps its commit, and the number returned is the number of
  refs removed, as a 32-bit word.\<close>

theorem gc_image_layers_exact:
  assumes "refs_spec repo refs_of" "json_valid js" "layer_refs_canonical (refs_of s)"
    and "gc_image_layers repo js s = (Inr n, s')"
  shows "\<exists>ms. all_manifests repo js s = Inr ms \<and>
    refs_of s' = (\<lambda>r. if under LAYER_PREFIX r \<and> r \<notin> layer_refs ms then None else refs_of s r) \<and>
    n = of_nat (card {r. refs_of s r \<noteq> None \<and> refs_of s' r = None})"
proof -
  obtain ms where ms: "all_manifests repo js s = Inr ms"
    using assms(4) by (auto simp: gc_image_layers_Inr)
  note gc = gc_image_layers_refs [OF assms(1,3) ms _ assms(4)]
  have valid: "\<forall>m \<in> set ms. list_all (\<lambda>l. valid_str (digest_to_string (d_digest l))) (m_layers m)"
    using all_manifests_valid [OF assms(2) ms] by blast
  have "{r. refs_of s r \<noteq> None \<and> refs_of s' r = None} = {r. under LAYER_PREFIX r \<and> refs_of s r \<noteq> None \<and> r \<notin> layer_refs ms}"
    using gc(1) [OF valid] by auto
  with gc [OF valid] ms show ?thesis by simp
qed

theorem gc_image_layers_exact_witness:
  "\<exists>ms s'. gc_image_layers stored_repo stored_json stored_state = (Inr 1, s') \<and>
     map_of s' = (\<lambda>r. if under LAYER_PREFIX r \<and> r \<notin> layer_refs ms then None else map_of stored_state r) \<and>
     map_of s' (str ''ostree/container/blob/sha256_3A_b'') = None"
proof -
  have "map_of [stored_state ! 0, stored_state ! 2] (str ''ostree/container/blob/sha256_3A_b'') = None"
    by code_simp
  with gc_image_layers_exact [OF stored_repo_refs stored_json_valid stored_state_canonical stored_gc] stored_gc
  show ?thesis by blast
qed

text \<open>C3: collecting layers never breaks an image, also when it fails half way: a layer of an image that is stored
  under some name, or deployed, keeps its ref, and every image that could be queried before can be queried with the
  same answer afterwards.\<close>

theorem gc_image_layers_keeps_images:
  assumes "refs_spec repo refs_of" "json_valid js" "layer_refs_canonical (refs_of s)"
    and "gc_image_layers repo js s = (res, s')" "live_commit (refs_of s) c"
    and "rp_load_commit repo s c = Inr co" "manifest_data_from_commitmeta js (co_metadata co) = Inr (m, d)"
  shows "(\<forall>l \<in> set (m_layers m). \<forall>r. ref_for_layer l = Inr r \<longrightarrow> refs_of s' r = refs_of s r) \<and>
    query_image_commit repo js s' c = query_image_commit repo js s c"
  using gc_keeps_live [OF assms] by simp

theorem gc_image_layers_keeps_images_witness:
  "\<exists>s'. gc_image_layers stored_repo stored_json stored_state = (Inr 1, s') \<and> live_commit (map_of stored_state) [49] \<and>
     query_image_commit stored_repo stored_json s' [49] = query_image_commit stored_repo stored_json stored_state [49] \<and>
     is_ok (query_image_commit stored_repo stored_json stored_state [49])"
proof -
  have "ref_for_image stored_image = Inr (str ''ostree/container/image/docker_3A__2F__2F_x'')"
      "map_of stored_state (str ''ostree/container/image/docker_3A__2F__2F_x'') = Some [49]"
      "is_ok (query_image_commit stored_repo stored_json stored_state [49])"
    by code_simp+
  moreover have "wf_imgref stored_image" "valid_str (ir_name stored_image)"
    by (simp_all add: stored_image_def wf_imgref_def)
  ultimately have live: "live_commit (map_of stored_state) [49]" and ok: "is_ok (query_image_commit stored_repo stored_json stored_state [49])"
    unfolding live_commit_def by blast+
  have "rp_load_commit stored_repo stored_state [49] = Inr stored_commit"
    by (simp add: stored_repo_def)
  moreover have "manifest_data_from_commitmeta stored_json (co_metadata stored_commit) =
      Inr (stored_manifest, \<lparr>dg_algorithm = str ''sha256'', dg_hex = str ''d''\<rparr>)"
    by code_simp
  ultimately show ?thesis
    using gc_image_layers_keeps_images [OF stored_repo_refs stored_json_valid stored_state_canonical stored_gc live]
      stored_gc live ok by blast
qed

text \<open>Removing images deletes the ref of every given image, present or not, and nothing else; the
  result is an error exactly when one of them was absent or given twice.\<close>

theorem remove_images_spec:
  assumes "refs_spec repo refs_of" "\<forall>img \<in> set imgs. ref_for_image img = Inr (rf img)"
    and "\<forall>r s. is_ok (rp_set_ref repo r None s)"
  shows "refs_of (fst (remove_images repo imgs s)) = (\<lambda>r. if r \<in> rf ` set imgs then None else refs_of s r) \<and>
    (is_ok (snd (remove_images repo imgs s)) \<longleftrightarrow>
     distinct (map rf imgs) \<and> (\<forall>img \<in> set imgs. refs_of s (rf img) \<noteq> None))"
proof -
  obtain s' missing where "remove_images_loop repo imgs [] s = (s', Inr missing)"
      "refs_of s' = (\<lambda>r. if r \<in> rf ` set imgs then None else refs_of s r)"
      "missing = [] \<longleftrightarrow> distinct (map rf imgs) \<and> (\<forall>img \<in> set imgs. refs_of s (rf img) \<noteq> None)"
    using remove_images_loop_spec [OF assms, of "[]" s] by auto
  then show ?thesis by (simp add: remove_images_def ensure_def)
qed

theorem remove_images_spec_witness:
  "map_of (fst (remove_images stored_repo [stored_image, stored_image] stored_state))
     (str ''ostree/container/image/docker_3A__2F__2F_x'') = None \<and>
   \<not> is_ok (snd (remove_images stored_repo [stored_image, stored_image] stored_state))"
proof -
  have r: "ref_for_image stored_image = Inr (str ''ostree/container/image/docker_3A__2F__2F_x'')" by code_simp
  have ok: "\<forall>r s. is_ok (rp_set_ref stored_repo r None s)" by (simp add: stored_repo_def)
  from remove_images_spec [OF stored_repo_refs _ ok, of "[stored_image, stored_image]"
      "\<lambda>_. str ''ostree/container/image/docker_3A__2F__2F_x''" stored_state] r
  show ?thesis by auto
qed

end
