(* ===== verification/Encapsulate.thy ===== *)
theory Encapsulate
  imports TarExport Store
begin

text \<open>
  Writing a commit as a container image (\<^verbatim>\<open>lib/src/container/encapsulate.rs\<close>): the labels taken from the
  commit's metadata, the layers of a chunked export and their annotations, and the image built of them.

  The OCI directory is a value of \<open>'o oci_dir\<close>, the calls the code makes to the ocidir crate;
  \<open>push_spec\<close> says what is relied on of adding a layer to a manifest and its configuration.
\<close>

section \<open>Definitions\<close>

definition LEGACY_VERSION_LABEL :: rstr where "LEGACY_VERSION_LABEL = str ''version''"
definition BOOTC_LABEL :: rstr where "BOOTC_LABEL = str ''containers.bootc''"
definition OSTREE_COMMIT_LABEL :: rstr where "OSTREE_COMMIT_LABEL = str ''ostree.commit''"
definition METADATA_KEY_BOOTABLE :: rstr where "METADATA_KEY_BOOTABLE = str ''ostree.bootable''"
definition METADATA_KEY_LINUX :: rstr where "METADATA_KEY_LINUX = str ''ostree.linux''"
definition COMMIT_META_CONTAINER_CMD :: rstr where "COMMIT_META_CONTAINER_CMD = str ''ostree.container-cmd''"

record encap_config =
  ec_labels :: "(rstr, rstr) kvmap option"
  ec_cmd :: "rstr list option"

record export_opts =
  eo_skip_compression :: bool
  eo_copy_meta_keys :: "rstr list"
  eo_copy_meta_opt_keys :: "rstr list"
  eo_max_layers :: "nat option"
  eo_authfile :: "rstr option"
  eo_legacy_version_label :: bool
  eo_container_config :: "container_config option"
  eo_prior_build :: "image_manifest option"
  eo_contentmeta :: "object_meta_sized option"
  eo_created :: "rstr option"

text \<open>The gzip level.\<close>

definition compression :: "export_opts \<Rightarrow> nat" where
  "compression opts = (if eo_skip_compression opts then 1 else 6)"

record oci_layer =
  ol_blob_sha256 :: rstr
  ol_blob_size :: u64
  ol_uncompressed_sha256 :: rstr

record 'o oci_dir =
  od_create_layer :: "nat \<Rightarrow> tar_entry list \<Rightarrow> 'o \<Rightarrow> (oci_layer \<times> 'o) result"
  od_push_layer :: "oci_layer \<Rightarrow> rstr \<Rightarrow> (rstr, rstr) kvmap option \<Rightarrow>
    image_manifest \<times> image_configuration \<Rightarrow> image_manifest \<times> image_configuration"
  od_write_config :: "image_configuration \<Rightarrow> 'o \<Rightarrow> (descriptor \<times> 'o) result"
  od_insert_manifest :: "image_manifest \<Rightarrow> rstr option \<Rightarrow> 'o \<Rightarrow> (descriptor \<times> 'o) result"
  od_replace_manifest :: "image_manifest \<Rightarrow> 'o \<Rightarrow> (descriptor \<times> 'o) result"
  od_new_empty_manifest :: image_manifest
  od_default_config :: image_configuration

subsection \<open>Labels\<close>

definition copy_required_key :: "vardict \<Rightarrow> rstr \<Rightarrow> (rstr, rstr) kvmap \<Rightarrow> (rstr, rstr) kvmap result" where
  "copy_required_key meta k labels =
     and_then (lookup_string meta k) (\<lambda>v.
     and_then (ok_or (Err ''Could not find commit metadata key'') v) (\<lambda>v. Inr (kv_insert k v labels)))"

definition copy_optional_key :: "vardict \<Rightarrow> rstr \<Rightarrow> (rstr, rstr) kvmap \<Rightarrow> (rstr, rstr) kvmap result" where
  "copy_optional_key meta k labels =
     and_then (lookup_string meta k) (\<lambda>v. Inr (case v of Some v \<Rightarrow> kv_insert k v labels | None \<Rightarrow> labels))"

definition bool_to_string :: "bool \<Rightarrow> rstr" where
  "bool_to_string b = (if b then str ''true'' else str ''false'')"

definition commit_meta_to_labels ::
  "vardict \<Rightarrow> rstr list \<Rightarrow> rstr list \<Rightarrow> (rstr, rstr) kvmap \<Rightarrow> (rstr, rstr) kvmap result" where
  "commit_meta_to_labels meta ks opt_keys labels =
     and_then (try_fold (copy_required_key meta) ks labels) (\<lambda>labels.
     and_then (try_fold (copy_optional_key meta) opt_keys labels) (\<lambda>labels.
     and_then (lookup_bool meta METADATA_KEY_BOOTABLE) (\<lambda>v.
     let labels = (case v of
         Some v \<Rightarrow> kv_insert BOOTC_LABEL (str ''1'') (kv_insert METADATA_KEY_BOOTABLE (bool_to_string v) labels)
       | None \<Rightarrow> labels)
     in try_fold (copy_optional_key meta) [METADATA_KEY_LINUX] labels)))"

subsection \<open>Layers\<close>

definition export_one_chunk ::
  "export_env \<Rightarrow> ('o, 'z) oci_dir_scheme \<Rightarrow> rstr \<Rightarrow> export_opts \<Rightarrow> chunk \<Rightarrow>
   (oci_layer \<times> rstr \<times> rstr list) list \<times> 'o \<Rightarrow> ((oci_layer \<times> rstr \<times> rstr list) list \<times> 'o) result" where
  "export_one_chunk env ociw commit opts chunk = (\<lambda>(acc, w).
     and_then (export_chunk env commit (ck_content chunk)) (\<lambda>entries.
     and_then (od_create_layer ociw (compression opts) entries w) (\<lambda>(layer, w).
     Inr (acc @ [(layer, ck_name chunk, ck_packages chunk)], w))))"

definition export_chunks ::
  "export_env \<Rightarrow> ('o, 'z) oci_dir_scheme \<Rightarrow> rstr \<Rightarrow> chunk list \<Rightarrow> export_opts \<Rightarrow> 'o \<Rightarrow>
   ((oci_layer \<times> rstr \<times> rstr list) list \<times> 'o) result" where
  "export_chunks env ociw commit cs opts w = try_fold (export_one_chunk env ociw commit opts) cs ([], w)"

definition components_annotation :: "rstr list \<Rightarrow> (rstr, rstr) kvmap" where
  "components_annotation packages = kv_insert CONTENT_ANNOTATION (join_str [COMPONENT_SEPARATOR] (sort packages)) []"

definition export_chunked ::
  "export_env \<Rightarrow> ('o, 'z) oci_dir_scheme \<Rightarrow> nat \<Rightarrow> rstr \<Rightarrow> image_manifest \<times> image_configuration \<Rightarrow> (rstr, rstr) kvmap \<Rightarrow>
   chunking \<Rightarrow> export_opts \<Rightarrow> rstr \<Rightarrow> 'o \<Rightarrow>
   ((image_manifest \<times> image_configuration) \<times> (rstr, rstr) kvmap \<times> 'o) result" where
  "export_chunked env ociw fuel commit mc labels chunking opts description w =
     (let (chunking, cs) = take_chunks chunking
      in and_then (export_chunks env ociw commit cs opts w) (\<lambda>(layers, w).
         and_then (export_final_chunk env fuel commit (remainder chunking)) (\<lambda>entries.
         and_then (od_create_layer ociw (compression opts) entries w) (\<lambda>(ostree_layer, w).
         let last_digest = ol_uncompressed_sha256 (if layers = [] then ostree_layer else fst (last layers));
             mc = od_push_layer ociw ostree_layer description None mc;
             mc = fold (\<lambda>(layer, name, packages).
                 od_push_layer ociw layer name (Some (components_annotation packages))) layers mc
         in Inr (mc, kv_insert DIFFID_LABEL (str ''sha256:'' @ last_digest) labels, w)))))"

subsection \<open>Images\<close>

text \<open>\<^verbatim>\<open>format_time\<close> formats a commit's time stamp; it is \<open>None\<close> for a time that cannot be represented.\<close>

definition build_labels :: "vardict \<Rightarrow> rstr \<Rightarrow> encap_config \<Rightarrow> export_opts \<Rightarrow> (rstr, rstr) kvmap \<Rightarrow> (rstr, rstr) kvmap result" where
  "build_labels commit_meta commit config opts labels =
     and_then (lookup_string commit_meta (str ''version'')) (\<lambda>v.
     let labels = (case v of
           Some version \<Rightarrow>
             kv_insert ANNOTATION_VERSION version
               (if eo_legacy_version_label opts then kv_insert LEGACY_VERSION_LABEL version labels else labels)
         | None \<Rightarrow> labels);
         labels = kv_insert OSTREE_COMMIT_LABEL commit labels
     in Inr (kv_extend labels (case ec_labels config of Some l \<Rightarrow> l | None \<Rightarrow> [])))"

definition build_oci ::
  "export_env \<Rightarrow> (u64 \<Rightarrow> rstr option) \<Rightarrow> ('o, 'z) oci_dir_scheme \<Rightarrow> nat \<Rightarrow> rstr \<Rightarrow> rstr option \<Rightarrow> encap_config \<Rightarrow> export_opts \<Rightarrow>
   'o \<Rightarrow> (image_manifest \<times> image_configuration \<times> 'o) result" where
  "build_oci env format_time ociw fuel refspec tag config opts w =
     and_then (require_rev (xe_store env) refspec) (\<lambda>commit.
     and_then (load_commit (xe_store env) commit) (\<lambda>commit_v.
     and_then (ok_or (Panic ''DateTime::from_timestamp().unwrap()'') (format_time (co_timestamp commit_v))) (\<lambda>commit_time.
     let commit_meta = co_metadata commit_v;
         ctrcfg = (case eo_container_config opts of Some c \<Rightarrow> c | None \<Rightarrow> default_container_config);
         imgcfg = (od_default_config ociw)\<lparr>c_created := Some (case eo_created opts of Some c \<Rightarrow> c | None \<Rightarrow> commit_time)\<rparr>
     in and_then (commit_meta_to_labels commit_meta (eo_copy_meta_keys opts) (eo_copy_meta_opt_keys opts) []) (\<lambda>labels.
        and_then (case eo_contentmeta opts of
             Some meta \<Rightarrow> from_mapping (xe_store env) fuel commit meta (eo_max_layers opts) (eo_prior_build opts)
           | None \<Rightarrow> chunking_new (xe_store env) fuel commit) (\<lambda>chunking.
        and_then (build_labels commit_meta commit config opts labels) (\<lambda>labels.
        let description = (if co_subject commit_v = [] then str ''ostree export of commit '' @ commit else co_subject commit_v)
        in and_then (export_chunked env ociw fuel commit (od_new_empty_manifest ociw, imgcfg) labels chunking opts description w)
             (\<lambda>((manifest, imgcfg), labels, w).
           and_then (lookup_strings commit_meta COMMIT_META_CONTAINER_CMD) (\<lambda>cmd.
           let cmd = (case ec_cmd config of Some c \<Rightarrow> Some c | None \<Rightarrow> cmd);
               ctrcfg = (case cmd of Some c \<Rightarrow> ctrcfg\<lparr>cc_cmd := Some c\<rparr> | None \<Rightarrow> ctrcfg);
               ctrcfg = ctrcfg\<lparr>cc_labels := Some (kv_extend (case cc_labels ctrcfg of Some l \<Rightarrow> l | None \<Rightarrow> []) labels)\<rparr>;
               imgcfg = imgcfg\<lparr>c_config := Some ctrcfg\<rparr>
           in and_then (od_write_config ociw imgcfg w) (\<lambda>(cfgdesc, w).
              let manifest = manifest\<lparr>m_config := cfgdesc, m_annotations := Some labels\<rparr>
              in and_then (case tag of
                     Some t \<Rightarrow> od_insert_manifest ociw manifest (Some t) w
                   | None \<Rightarrow> od_replace_manifest ociw manifest w) (\<lambda>(_, w).
                 Inr (manifest, imgcfg, w)))))))))))"

definition parse_oci_path_and_tag :: "rstr \<Rightarrow> rstr \<times> rstr option" where
  "parse_oci_path_and_tag path =
     (case split_once 58 path of Some (path, tag) \<Rightarrow> (path, Some tag) | None \<Rightarrow> (path, None))"

text \<open>Where an image is built and how it gets to its destination: the directory and tag given for an OCI
  directory, a temporary directory copied by skopeo otherwise.  Beside the writer of OCI directories this needs
  the directories themselves (\<open>oh_ensure_dir\<close> creates the one of a path if it does not exist, \<open>oh_open_dir\<close> only opens it),
  the format of time stamps, and skopeo, which is given the temporary directory, the reference it has there, the
  destination, the authentication file, and whether to show progress.  \<^verbatim>\<open>inspect\<close> fetches the digest of the written manifest.\<close>

record 'o oci_host = "'o oci_dir" +
  oh_ensure_dir :: "rstr \<Rightarrow> 'o result"
  oh_open_dir :: "rstr \<Rightarrow> 'o result"
  oh_temp_dir :: "'o result"
  oh_format_time :: "u64 \<Rightarrow> rstr option"
  oh_copy :: "'o \<Rightarrow> image_reference \<Rightarrow> image_reference \<Rightarrow> rstr option \<Rightarrow> bool \<Rightarrow> digest result"

definition tempoci :: image_reference where
  "tempoci = \<lparr>ir_transport = OciDir, ir_name = str ''/proc/self/fd/3''\<rparr>"

definition build_impl ::
  "export_env \<Rightarrow> ('o, 'z) oci_host_scheme \<Rightarrow> (ostree_image_reference \<Rightarrow> (image_manifest \<times> digest) result) \<Rightarrow> nat \<Rightarrow>
   rstr \<Rightarrow> encap_config \<Rightarrow> export_opts \<Rightarrow> image_reference \<Rightarrow> digest result" where
  "build_impl env host inspect fuel ostree_ref config opts dest =
     (let opts = (if ir_transport dest = ContainerStorage then opts\<lparr>eo_skip_compression := True\<rparr> else opts)
      in if ir_transport dest = OciDir then
           let (path, tag) = parse_oci_path_and_tag (ir_name dest)
           in and_then (oh_ensure_dir host path) (\<lambda>ocidir.
              and_then (build_oci env (oh_format_time host) host fuel ostree_ref tag config opts ocidir) (\<lambda>_.
              and_then (inspect \<lparr>oir_sigverify = ContainerPolicyAllowInsecure, oir_imgref = dest\<rparr>) (\<lambda>(_, digest). Inr digest)))
         else
           and_then (oh_temp_dir host) (\<lambda>ocidir.
           and_then (build_oci env (oh_format_time host) host fuel ostree_ref None config opts ocidir) (\<lambda>(_, _, ocidir).
           oh_copy host ocidir tempoci dest (eo_authfile opts) False)))"

section \<open>Lemmas\<close>

text \<open>What is relied on of \<^verbatim>\<open>push_layer\<close>: it appends the layer's descriptor with the given annotations to the
  manifest, and its diff id and a history entry to the configuration.\<close>

definition diff_id :: "oci_layer \<Rightarrow> rstr" where
  "diff_id l = str ''sha256:'' @ ol_uncompressed_sha256 l"

definition push_spec ::
  "('o, 'z) oci_dir_scheme \<Rightarrow> (oci_layer \<Rightarrow> (rstr, rstr) kvmap option \<Rightarrow> descriptor) \<Rightarrow> bool" where
  "push_spec ociw desc \<longleftrightarrow>
     (\<forall>l d a m c. \<exists>h. od_push_layer ociw l d a (m, c) =
        (m\<lparr>m_layers := m_layers m @ [desc l a]\<rparr>, c\<lparr>c_diff_ids := c_diff_ids c @ [diff_id l], c_history := c_history c @ [h]\<rparr>)) \<and>
     (\<forall>l a. d_annotations (desc l a) = a)"

lemma push_specD:
  assumes "push_spec ociw desc"
  shows "m_layers (fst (od_push_layer ociw l d a mc)) = m_layers (fst mc) @ [desc l a]"
    and "c_diff_ids (snd (od_push_layer ociw l d a mc)) = c_diff_ids (snd mc) @ [diff_id l]"
    and "length (c_history (snd (od_push_layer ociw l d a mc))) = Suc (length (c_history (snd mc)))"
    and "d_annotations (desc l a) = a"
proof -
  obtain m c where mc: "mc = (m, c)" by (cases mc)
  obtain h where "od_push_layer ociw l d a (m, c) =
      (m\<lparr>m_layers := m_layers m @ [desc l a]\<rparr>, c\<lparr>c_diff_ids := c_diff_ids c @ [diff_id l], c_history := c_history c @ [h]\<rparr>)"
    using assms unfolding push_spec_def by blast
  then show "m_layers (fst (od_push_layer ociw l d a mc)) = m_layers (fst mc) @ [desc l a]"
    "c_diff_ids (snd (od_push_layer ociw l d a mc)) = c_diff_ids (snd mc) @ [diff_id l]"
    "length (c_history (snd (od_push_layer ociw l d a mc))) = Suc (length (c_history (snd mc)))"
    by (simp_all add: mc)
  show "d_annotations (desc l a) = a" using assms unfolding push_spec_def by blast
qed

definition push_chunk_layers ::
  "('o, 'z) oci_dir_scheme \<Rightarrow> (oci_layer \<times> rstr \<times> rstr list) list \<Rightarrow> image_manifest \<times> image_configuration \<Rightarrow>
   image_manifest \<times> image_configuration" where
  "push_chunk_layers ociw layers mc = fold (\<lambda>(layer, name, packages).
      od_push_layer ociw layer name (Some (components_annotation packages))) layers mc"

definition chunk_descriptor :: "(oci_layer \<Rightarrow> (rstr, rstr) kvmap option \<Rightarrow> descriptor) \<Rightarrow> oci_layer \<times> rstr \<times> rstr list \<Rightarrow> descriptor" where
  "chunk_descriptor desc = (\<lambda>(layer, name, packages). desc layer (Some (components_annotation packages)))"

lemma push_chunk_layers:
  assumes "push_spec ociw desc"
  shows "m_layers (fst (push_chunk_layers ociw layers mc)) = m_layers (fst mc) @ map (chunk_descriptor desc) layers"
    and "c_diff_ids (snd (push_chunk_layers ociw layers mc)) = c_diff_ids (snd mc) @ map (diff_id \<circ> fst) layers"
    and "length (c_history (snd (push_chunk_layers ociw layers mc))) = length (c_history (snd mc)) + length layers"
  by (induction layers arbitrary: mc) (auto simp: push_chunk_layers_def chunk_descriptor_def push_specD [OF assms])

lemma export_one_chunk_Inr:
  "export_one_chunk env ociw commit opts c (acc, w) = Inr st \<Longrightarrow> \<exists>l w1. st = (acc @ [(l, ck_name c, ck_packages c)], w1)"
  by (auto simp: export_one_chunk_def result_simps)

lemma export_chunked_Inr:
  assumes "push_spec ociw desc" "export_chunked env ociw fuel commit mc labels chunking opts description w = Inr (mc', labels', w')"
  obtains layers ostree_layer where
    "m_layers (fst mc') = m_layers (fst mc) @ desc ostree_layer None # map (chunk_descriptor desc) layers"
    "c_diff_ids (snd mc') = c_diff_ids (snd mc) @ map diff_id (ostree_layer # map fst layers)"
    "length (c_history (snd mc')) = length (c_history (snd mc)) + Suc (length layers)"
    "labels' = kv_insert DIFFID_LABEL (diff_id (last (ostree_layer # map fst layers))) labels"
    "map snd layers = map (\<lambda>c. (ck_name c, ck_packages c)) (chunks chunking)"
proof -
  obtain layers w1 entries ostree_layer w2 where r: "export_chunks env ociw commit (chunks chunking) opts w = Inr (layers, w1)"
      "mc' = push_chunk_layers ociw layers (od_push_layer ociw ostree_layer description None mc)"
      "labels' = kv_insert DIFFID_LABEL (str ''sha256:'' @ ol_uncompressed_sha256 (if layers = [] then ostree_layer else fst (last layers))) labels"
    using assms(2) by (auto simp: export_chunked_def take_chunks_def push_chunk_layers_def result_simps Let_def)
  have "try_fold (export_one_chunk env ociw commit opts) cs (acc, w) = Inr (acc', w') \<Longrightarrow>
      map snd acc' = map snd acc @ map (\<lambda>c. (ck_name c, ck_packages c)) cs" for cs acc acc' w w'
  proof (induction cs arbitrary: acc w)
    case (Cons c cs)
    from Cons.prems obtain l w1 where "try_fold (export_one_chunk env ociw commit opts) cs (acc @ [(l, ck_name c, ck_packages c)], w1) = Inr (acc', w')"
      by (auto simp: and_then_Inr_iff dest!: export_one_chunk_Inr)
    from Cons.IH [OF this] show ?case by simp
  qed simp
  from this [of "chunks chunking" "[]" w layers w1] r(1) have names: "map snd layers = map (\<lambda>c. (ck_name c, ck_packages c)) (chunks chunking)"
    by (simp add: export_chunks_def)
  have "(if layers = [] then ostree_layer else fst (last layers)) = last (ostree_layer # map fst layers)"
    by (simp add: last_map)
  then show thesis
    using that [of ostree_layer layers] r(2,3) names push_chunk_layers [OF assms(1), of layers "od_push_layer ociw ostree_layer description None mc"]
    by (simp add: push_specD [OF assms(1)] diff_id_def)
qed

lemma index_of_distinct: "distinct xs \<Longrightarrow> i < length xs \<Longrightarrow> index_of (xs ! i) xs = Some i"
proof (induction xs arbitrary: i)
  case (Cons x xs)
  then show ?case by (cases i) (auto simp: nth_mem)
qed simp

text \<open>The annotation of a chunk layer, as a later build reads it.\<close>

lemma layer_components_annotation:
  assumes "d_annotations l = Some (components_annotation pkgs)" "\<forall>p \<in> set pkgs. COMPONENT_SEPARATOR \<notin> set p"
  shows "layer_components l = Inr (if pkgs = [] then [[]] else sort pkgs)"
proof -
  have "sort pkgs = [] \<longleftrightarrow> pkgs = []" by (metis length_0_conv length_sort)
  then have "split_char COMPONENT_SEPARATOR (join_str [COMPONENT_SEPARATOR] (sort pkgs)) = (if pkgs = [] then [[]] else sort pkgs)"
    using assms(2) split_char_join [of "sort pkgs" COMPONENT_SEPARATOR] by (cases "pkgs = []") auto
  with assms(1) show ?thesis
    by (simp add: layer_components_def components_annotation_def kv_lookup_def)
qed

definition annotated_names :: "rstr list \<Rightarrow> rstr list" where
  "annotated_names pkgs = (if pkgs = [] then [[]] else sort pkgs)"

lemma filter_annotated_names: "[] \<notin> set pkgs \<Longrightarrow> filter (\<lambda>p. p \<noteq> []) (annotated_names pkgs) = sort pkgs"
  by (auto simp: annotated_names_def filter_id_conv)

lemma filter_annotated_bins:
  "\<forall>b \<in> set bs. [] \<notin> set b \<Longrightarrow> filter (\<lambda>p. p \<noteq> []) (concat (map annotated_names bs)) = concat (map sort bs)"
  by (induction bs) (simp_all add: filter_annotated_names)

lemma distinct_sorted_bins: "distinct (concat bs) \<Longrightarrow> distinct (concat (map sort bs))"
  by (induction bs) (auto simp: distinct_append)

section \<open>Properties\<close>

text \<open>C7: what the encapsulation writes, the store reads.  The manifest and configuration of a chunked export
  (whose layers differ) are recognised by the importer: the first layer is the one with the commit, all
  chunks are its chunk layers, in order, and there is no derived layer.\<close>

theorem export_chunked_layout:
  assumes "push_spec ociw desc"
    and "export_chunked env ociw fuel commit mc labels chunking opts description w = Inr ((manifest, config), labels', w')"
    and "m_layers (fst mc) = []" "c_diff_ids (snd mc) = []" "distinct (m_layers manifest)" "distinct (c_diff_ids config)"
    and "labels_of config' = Some l" "kv_lookup l DIFFID_LABEL = kv_lookup labels' DIFFID_LABEL" "c_diff_ids config' = c_diff_ids config"
  shows "parse_manifest_layout manifest config' = Inr (hd (m_layers manifest), tl (m_layers manifest), []) \<and>
    length (m_layers manifest) = Suc (length (chunks chunking))"
proof -
  obtain layers ostree_layer where
      r: "m_layers manifest = desc ostree_layer None # map (chunk_descriptor desc) layers"
      "c_diff_ids config = map diff_id (ostree_layer # map fst layers)"
      "labels' = kv_insert DIFFID_LABEL (diff_id (last (ostree_layer # map fst layers))) labels"
      "map snd layers = map (\<lambda>c. (ck_name c, ck_packages c)) (chunks chunking)"
    by (rule export_chunked_Inr [OF assms(1,2)]) (rule that; simp add: assms(3,4))
  let ?n = "length layers" and ?L = "m_layers manifest"
  have len: "length ?L = Suc ?n" "length (c_diff_ids config) = Suc ?n" using r(1,2) by simp_all
  have lab: "kv_lookup l DIFFID_LABEL = Some (c_diff_ids config ! ?n)"
    using assms(8) r(2,3) len(2) by (simp add: kv_lookup_insert last_conv_nth nth_map)
  have idx: "index_of (c_diff_ids config ! ?n) (c_diff_ids config') = Some ?n"
    using index_of_distinct [OF assms(6), of ?n] len(2) assms(9) by simp
  have split: "?L = butlast ?L @ ?L ! ?n # []"
    using len(1) by (metis append_butlast_last_id diff_Suc_1 last_conv_nth length_0_conv nat.distinct(1))
  have notin: "?L ! ?n \<notin> set (butlast ?L)"
    using assms(5) split by (metis distinct_append disjoint_iff list.set_intros(1))
  have "parse_manifest_layout manifest config' =
      Inr (hd ?L, filter (\<lambda>x. x \<noteq> hd ?L) (butlast ?L @ [?L ! ?n]), [])"
    by (rule parse_layout_forward [OF assms(7) lab idx _ refl refl split notin]) (simp_all add: len)
  moreover have "filter (\<lambda>x. x \<noteq> hd ?L) ?L = tl ?L"
    using assms(5) by (cases ?L) (auto simp: filter_id_conv)
  ultimately show ?thesis using len r(4) split by (metis length_map)
qed

definition sample_store :: object_store where
  "sample_store = \<lparr>query_file = (\<lambda>_. Inl (Err ''no file'')), file_xattrs = (\<lambda>_. Inr []),
     load_dirtree = (\<lambda>_. Inr (0, \<lparr>dt_files = [], dt_dirs = []\<rparr>)),
     load_dirmeta = (\<lambda>_. Inr (0, \<lparr>dm_uid = 0, dm_gid = 0, dm_mode = 0x41ED, dm_xattrs = []\<rparr>)), require_rev = Inr,
     load_commit = (\<lambda>_. Inr \<lparr>co_metadata = [], co_parent = None, co_subject = [], co_body = [], co_timestamp = 0,
       co_tree = sample_checksum 98, co_meta = sample_checksum 99\<rparr>)\<rparr>"

definition sample_image_env :: export_env where
  "sample_image_env = sample_export_env\<lparr>xe_store := sample_store\<rparr>"

definition sample_desc :: "oci_layer \<Rightarrow> (rstr, rstr) kvmap option \<Rightarrow> descriptor" where
  "sample_desc l a = \<lparr>d_media_type = ImageLayerGzip, d_digest = \<lparr>dg_algorithm = str ''sha256'', dg_hex = ol_blob_sha256 l\<rparr>,
     d_size = ol_blob_size l, d_annotations = a, d_other = []\<rparr>"

definition sample_ocidir :: "nat oci_dir" where
  "sample_ocidir = \<lparr>od_create_layer = (\<lambda>_ _ w. Inr (\<lparr>ol_blob_sha256 = [w], ol_blob_size = 1, ol_uncompressed_sha256 = [w]\<rparr>, w + 1)),
     od_push_layer = (\<lambda>l d a (m, c). (m\<lparr>m_layers := m_layers m @ [sample_desc l a]\<rparr>,
       c\<lparr>c_diff_ids := c_diff_ids c @ [diff_id l], c_history := c_history c @ [\<lparr>h_created_by = None, h_comment = Some d\<rparr>]\<rparr>)),
     od_write_config = (\<lambda>_ w. Inr (stored_layer ''c'', w)), od_insert_manifest = (\<lambda>_ _ w. Inr (stored_layer ''m'', w)),
     od_replace_manifest = (\<lambda>_ w. Inr (stored_layer ''m'', w)),
     od_new_empty_manifest = stored_manifest\<lparr>m_layers := []\<rparr>, od_default_config = stored_config\<rparr>"

lemma sample_push_spec: "push_spec sample_ocidir sample_desc"
  by (auto simp: push_spec_def sample_ocidir_def sample_desc_def)

definition sample_image_chunking :: chunking where
  "sample_image_chunking = \<lparr>metadata_size = 0, remainder = chunk_new [],
     chunks = [(chunk_new (str ''one''))\<lparr>ck_packages := [str ''p2'', str ''p1'']\<rparr>, chunk_new (str ''two'')],
     max_chunks = 4, processed_mapping = True, n_provided_components = 0, n_sized_components = 0\<rparr>"

definition sample_opts :: export_opts where
  "sample_opts = \<lparr>eo_skip_compression = False, eo_copy_meta_keys = [], eo_copy_meta_opt_keys = [], eo_max_layers = None,
     eo_authfile = None, eo_legacy_version_label = False, eo_container_config = None, eo_prior_build = None,
     eo_contentmeta = None, eo_created = None\<rparr>"

lemma sample_final_chunk: "is_ok (export_final_chunk sample_image_env 3 (sample_checksum 97) (chunk_new []))"
proof -
  have ok: "sha256_ok (sample_checksum c)" if "c \<in> {97, 98, 99}" for c
    using that by (auto simp: sha256_ok_def sample_checksum_def list_all_iff is_hex_lower_def)
  show ?thesis
    by (simp add: export_final_chunk_def tar_writer_new_def write_commit_def append_commit_object_def append_object_def
        object_path_def object_file_path_eq ok sample_image_env_def sample_store_def sample_export_env_def numeral_3_eq_3
        chunk_new_def write_chunk_def append_dir_def emit_def write_repo_structure_def append_standard_var_def Let_def)
qed

definition sample_oci_layer :: "nat \<Rightarrow> oci_layer" where
  "sample_oci_layer n = \<lparr>ol_blob_sha256 = [n], ol_blob_size = 1, ol_uncompressed_sha256 = [n]\<rparr>"

definition exported_manifest :: image_manifest where
  "exported_manifest = stored_manifest\<lparr>m_layers := [sample_desc (sample_oci_layer 2) None,
        sample_desc (sample_oci_layer 0) (Some (components_annotation [str ''p2'', str ''p1''])),
        sample_desc (sample_oci_layer 1) (Some (components_annotation []))]\<rparr>"

definition exported_config :: image_configuration where
  "exported_config = stored_config\<lparr>c_diff_ids := map (\<lambda>n. str ''sha256:'' @ [n]) [2, 0, 1],
         c_history := map (\<lambda>d. \<lparr>h_created_by = None, h_comment = Some d\<rparr>) [str ''d'', str ''one'', str ''two'']\<rparr>"

lemma sample_export:
  "export_chunked sample_image_env sample_ocidir 3 (sample_checksum 97) (stored_manifest\<lparr>m_layers := []\<rparr>, stored_config) []
     sample_image_chunking sample_opts (str ''d'') 0 =
   Inr ((exported_manifest, exported_config), [(DIFFID_LABEL, str ''sha256:'' @ [1])], 3)"
proof -
  obtain final where final: "export_final_chunk sample_image_env 3 (sample_checksum 97) (chunk_new []) = Inr final"
    using sample_final_chunk by (auto simp: is_ok_iff)
  have "is_ok (export_chunk sample_image_env (sample_checksum 97) [])"
    by (simp add: export_chunk_def tar_writer_new_def write_chunk_def sample_image_env_def sample_store_def)
  then obtain e where e: "export_chunk sample_image_env (sample_checksum 97) [] = Inr e" by (auto simp: is_ok_iff)
  show ?thesis
    by (simp add: export_chunked_def take_chunks_def export_chunks_def export_one_chunk_def sample_image_chunking_def e
         final [unfolded numeral_3_eq_3] sample_ocidir_def Let_def diff_id_def stored_config_def stored_manifest_def chunk_new_def [of "str _"]
         exported_manifest_def exported_config_def sample_oci_layer_def numeral_2_eq_2 numeral_3_eq_3)
qed

definition labelled_config :: image_configuration where
  "labelled_config = exported_config\<lparr>c_config := Some \<lparr>cc_labels = Some [(DIFFID_LABEL, str ''sha256:'' @ [1])], cc_cmd = None\<rparr>\<rparr>"

theorem export_chunked_layout_witness:
  "parse_manifest_layout exported_manifest labelled_config =
     Inr (hd (m_layers exported_manifest), tl (m_layers exported_manifest), []) \<and> length (m_layers exported_manifest) = 3"
proof -
  have "parse_manifest_layout exported_manifest labelled_config =
     Inr (hd (m_layers exported_manifest), tl (m_layers exported_manifest), []) \<and>
     length (m_layers exported_manifest) = Suc (length (chunks sample_image_chunking))"
  proof (rule export_chunked_layout [OF sample_push_spec sample_export])
    show "distinct (m_layers exported_manifest)" "distinct (c_diff_ids exported_config)"
      by (simp_all add: exported_manifest_def exported_config_def sample_desc_def sample_oci_layer_def)
    show "labels_of labelled_config = Some [(DIFFID_LABEL, str ''sha256:'' @ [1])]"
      by (simp add: labels_of_def labelled_config_def)
  qed (simp_all add: stored_manifest_def stored_config_def labelled_config_def)
  then show ?thesis by (simp add: sample_image_chunking_def)
qed

text \<open>The names of the components in the layers of an exported manifest, and that updating them with the same
  components changes nothing.\<close>

lemma exported_layers_names:
  assumes "push_spec ociw desc" "\<forall>p \<in> set (concat (map (\<lambda>l. snd (snd l)) layers)). p \<noteq> [] \<and> COMPONENT_SEPARATOR \<notin> set p"
  shows "try_map layer_components (map (chunk_descriptor desc) layers) =
    Inr (map annotated_names (map (\<lambda>l. snd (snd l)) layers))"
proof -
  have "layer_components (chunk_descriptor desc l) = Inr (annotated_names (snd (snd l)))" if "l \<in> set layers" for l
    using that assms(2) push_specD(4) [OF assms(1)] unfolding annotated_names_def
    by (intro layer_components_annotation) (auto simp: chunk_descriptor_def split: prod.splits)
  then show ?thesis by (induction layers) auto
qed

lemma updated_names_same:
  assumes "\<And>b. b \<in> set bs \<Longrightarrow> [] \<notin> set b" "bs \<noteq> []"
  shows "updated_names (set (concat bs)) (map annotated_names bs) = map sort bs"
proof -
  have "filter (\<lambda>p. p \<in> set (concat bs) \<and> p \<noteq> []) (annotated_names b) = sort b" if b: "b \<in> set bs" for b
  proof -
    have "filter (\<lambda>p. p \<in> set (concat bs) \<and> p \<noteq> []) (annotated_names b) = filter (\<lambda>p. p \<noteq> []) (annotated_names b)"
    proof (intro filter_cong refl)
      fix p assume "p \<in> set (annotated_names b)"
      then have "p = [] \<or> p \<in> set b" by (auto simp: annotated_names_def split: if_splits)
      with b show "(p \<in> set (concat bs) \<and> p \<noteq> []) = (p \<noteq> [])" by auto
    qed
    then show ?thesis using filter_annotated_names [OF assms(1) [OF b]] by simp
  qed
  then have "map (filter (\<lambda>p. p \<in> set (concat bs) \<and> p \<noteq> [])) (map annotated_names bs) = map sort bs" by simp
  moreover have "set (concat bs) \<subseteq> set (concat (map annotated_names bs))" by (force simp: annotated_names_def)
  ultimately show ?thesis
    using updated_names_no_additions [of "map annotated_names bs"] assms(2) by simp
qed

text \<open>C14: packing is stable from one build to the next, for components with distinct names that are neither empty nor
  contain the separator (a comma).  When the manifest of a chunked export of such components (into an empty manifest), packed into at least one
  bin and at most the \<open>n\<close> bins allowed (at least four), is given as the prior build and the components are the same,
  packing them again into at most \<open>n\<close> bins succeeds with the same bins: the names written into the layers' annotations
  are read back, and every component stays where it was.  Names are not required to be distinct anywhere else; with
  a repeated name the packing can abort, see \<open>prior_build_repeated_name\<close>.\<close>

theorem rebuild_keeps_packing:
  assumes "push_spec ociw desc"
    and "export_chunked env ociw fuel commit mc labels chunking opts description w = Inr ((manifest, config), labels', w')"
    and "m_layers (fst mc) = []" "bins \<noteq> []" "length bins \<le> n" "4 \<le> n"
    and "map ck_packages (chunks chunking) = map (map (\<lambda>c. osm_name (oms_meta c))) bins" "mset (concat bins) = mset cs"
    and "distinct (map (\<lambda>c. osm_name (oms_meta c)) cs)" "\<forall>c \<in> set cs. osm_name (oms_meta c) \<noteq> [] \<and> COMPONENT_SEPARATOR \<notin> set (osm_name (oms_meta c))"
  shows "\<exists>r. basic_packing cs n (Some manifest) = Inr r \<and> mset (concat r) = mset cs \<and>
    map (map (\<lambda>c. osm_name (oms_meta c))) r = map (\<lambda>b. sort (map (\<lambda>c. osm_name (oms_meta c)) b)) bins"
proof -
  let ?name = "\<lambda>c. osm_name (oms_meta c)"
  let ?bs = "map (map ?name) bins"
  obtain layers ostree_layer where
      r: "m_layers manifest = desc ostree_layer None # map (chunk_descriptor desc) layers"
      "map snd layers = map (\<lambda>c. (ck_name c, ck_packages c)) (chunks chunking)"
    by (rule export_chunked_Inr [OF assms(1,2)]) (rule that; simp add: assms(3))
  have pk: "map (\<lambda>l. snd (snd l)) layers = ?bs"
  proof -
    have "map (\<lambda>l. snd (snd l)) layers = map snd (map snd layers)" by simp
    then show ?thesis using assms(7) by (simp add: r(2) comp_def)
  qed
  have same: "set (concat bins) = set cs" using assms(8) by (metis set_mset_mset)
  have names: "\<forall>p \<in> set (concat ?bs). p \<noteq> [] \<and> COMPONENT_SEPARATOR \<notin> set p"
    using assms(10) same by auto
  have dist: "distinct (concat ?bs)"
    using assms(8,9) by (metis map_concat mset_eq_imp_distinct_iff mset_map)
  have build: "try_map layer_components (drop 1 (m_layers manifest)) = Inr (map annotated_names ?bs)"
    using exported_layers_names [OF assms(1), of layers] names r(1) by (simp add: pk del: set_concat)
  have ne: "[] \<notin> set b" if "b \<in> set ?bs" for b
    using names that by (metis (no_types, lifting) UN_I set_concat)
  have flat: "filter (\<lambda>p. p \<noteq> []) (concat (map annotated_names ?bs)) = concat (map sort ?bs)"
    using ne by (intro filter_annotated_bins) blast
  have d: "distinct (filter (\<lambda>p. p \<noteq> []) (concat (map annotated_names ?bs)))"
    unfolding flat by (rule distinct_sorted_bins [OF dist])
  obtain p where p: "basic_packing cs n (Some manifest) = Inr p" "mset (concat p) = mset cs"
      "map (map ?name) p = updated_names (?name ` set cs) (map annotated_names ?bs)"
    using prior_build_packs [OF assms(6) build _ _ d assms(9)] assms(4,5,10) by fastforce
  have sub: "?name ` set cs = set (concat ?bs)" using same by (simp add: image_UN flip: same)
  then have "updated_names (?name ` set cs) (map annotated_names ?bs) = map (\<lambda>b. sort (map ?name b)) bins"
    using updated_names_same [of ?bs] ne assms(4) by simp
  with p show ?thesis by auto
qed

theorem rebuild_keeps_packing_witness:
  "\<exists>r. basic_packing [sample_pkg 1 3 5, sample_pkg 2 3 5] 4 (Some exported_manifest) = Inr r \<and>
     map (map (\<lambda>c. osm_name (oms_meta c))) r = [[str ''p1'', str ''p2''], []]"
proof -
  let ?bins = "[[sample_pkg 2 3 5, sample_pkg 1 3 5], []]" and ?cs = "[sample_pkg 1 3 5, sample_pkg 2 3 5]"
  have "\<exists>r. basic_packing ?cs 4 (Some exported_manifest) = Inr r \<and> mset (concat r) = mset ?cs \<and>
    map (map (\<lambda>c. osm_name (oms_meta c))) r = map (\<lambda>b. sort (map (\<lambda>c. osm_name (oms_meta c)) b)) ?bins"
    by (rule rebuild_keeps_packing [OF sample_push_spec sample_export])
       (simp_all add: stored_manifest_def sample_image_chunking_def chunk_new_def sample_pkg_def str_simps COMPONENT_SEPARATOR_def)
  moreover have "map (\<lambda>b. sort (map (\<lambda>c. osm_name (oms_meta c)) b)) ?bins = [[str ''p1'', str ''p2''], []]"
    by code_simp
  ultimately show ?thesis by auto
qed

text \<open>A commit whose metadata says that it is not bootable is labelled for bootc all the same.\<close>

lemma bootc_label_of_unbootable:
  "map_sum id (\<lambda>l. kv_lookup l BOOTC_LABEL) (commit_meta_to_labels [(METADATA_KEY_BOOTABLE, VBool False)] [] [] []) = Inr (Some (str ''1''))"
  by code_simp

end
