(* ===== verification/StoreExport.thy ===== *)
theory StoreExport
  imports Encapsulate
begin

text \<open>
  Images that leave a repository (\<^verbatim>\<open>lib/src/container/store.rs\<close>): copying a stored image to another
  repository, and exporting it to an OCI directory or another container storage.  The pull between
  repositories, the child process that serialises a derived layer and skopeo are arguments.
\<close>

section \<open>Definitions\<close>

subsection \<open>Copying\<close>

definition copy_image ::
  "('s, 'y) ostree_repo_scheme \<Rightarrow> oci_json \<Rightarrow> 's \<Rightarrow> ('d, 'z) ostree_repo_scheme \<Rightarrow> (rstr \<Rightarrow> ('d, unit) action) \<Rightarrow>
   image_reference \<Rightarrow> image_reference \<Rightarrow> ('d, unit) action" where
  "copy_image src_repo js s dest_repo pull src_imgref dest_imgref =
     act_bind (act_result (ref_for_image src_imgref)) (\<lambda>src_ostree_ref.
     act_bind (act_result (rp_require_rev src_repo s src_ostree_ref)) (\<lambda>src_commit.
     act_bind (act_result (manifest_for_image src_repo js s src_imgref)) (\<lambda>manifest.
     let layer_refs = map ref_for_layer (m_layers manifest) @ [Inr src_commit]
     in act_bind (act_fold (\<lambda>ostree_ref _. act_bind (act_result ostree_ref) pull) layer_refs ()) (\<lambda>_.
        act_bind (act_result (ref_for_image dest_imgref)) (\<lambda>dest_ostree_ref.
        act_update (rp_set_ref dest_repo dest_ostree_ref (Some src_commit)))))))"

subsection \<open>Exporting\<close>

record export_to_oci_opts =
  xo_skip_compression :: bool
  xo_authfile :: "rstr option"
  xo_progress_to_stdout :: bool

text \<open>What the export uses besides the repository's refs: its objects, the files of the root directory
  of a layer commit, the validation of checksums, the output of \<^verbatim>\<open>ostree export\<close> for a ref, and the writer
  of a compressed layer.\<close>

record ('s, 'o) reexport_env =
  re_objects :: "'s \<Rightarrow> export_env"
  re_layer_files :: "'s \<Rightarrow> rstr \<Rightarrow> rstr list result"
  re_validate_checksum :: "rstr \<Rightarrow> unit result"
  re_ostree_export :: "'s \<Rightarrow> rstr \<Rightarrow> bytes"
  re_create_gzip_layer :: "nat option \<Rightarrow> bytes \<Rightarrow> 'o \<Rightarrow> (oci_layer \<times> 'o) result"

definition chunking_from_layer_committed ::
  "('s, 'o) reexport_env \<Rightarrow> 's \<Rightarrow> descriptor \<Rightarrow> chunking \<Rightarrow> chunking result" where
  "chunking_from_layer_committed env s l chunking =
     and_then (ref_for_layer l) (\<lambda>layer_ref.
     and_then (re_layer_files env s layer_ref) (\<lambda>names.
     and_then (try_fold (\<lambda>name st.
           and_then (re_validate_checksum env name) (\<lambda>_. Inr (fst (move_obj name st))))
         names (remainder chunking, chunk_new [])) (\<lambda>(rest, chunk).
     Inr (chunking\<lparr>remainder := rest, chunks := chunks chunking @ [chunk]\<rparr>))))"

definition nth_opt :: "'a list \<Rightarrow> nat \<Rightarrow> 'a option" where
  "nth_opt xs i = (if i < length xs then Some (xs ! i) else None)"

text \<open>A derived layer; its annotations and description are looked up under its position among the
  derived layers, as the code does.\<close>

definition export_derived_layer ::
  "('s, 'o) reexport_env \<Rightarrow> ('o, 'z) oci_dir_scheme \<Rightarrow> 's \<Rightarrow> layered_image_state \<Rightarrow> bool \<Rightarrow> nat \<times> descriptor \<Rightarrow>
   (image_manifest \<times> image_configuration) \<times> 'o \<Rightarrow> ((image_manifest \<times> image_configuration) \<times> 'o) result" where
  "export_derived_layer env dest_oci s srcinfo skip_compression = (\<lambda>(i, layer) (mc, w).
     and_then (ref_for_layer layer) (\<lambda>layer_ref.
     let level = (if skip_compression then Some 0 else None)
     in and_then (re_create_gzip_layer env level (re_ostree_export env s layer_ref) w) (\<lambda>(layer, w).
        let previous_annotations = Option.bind (nth_opt (m_layers (ls_manifest srcinfo)) i) d_annotations;
            previous_description = (case Option.bind (nth_opt (c_history (ls_configuration srcinfo)) i) h_comment of
                Some c \<Rightarrow> c | None \<Rightarrow> [])
        in Inr (od_push_layer dest_oci layer previous_description previous_annotations mc, w))))"

definition reexport_opts :: "export_to_oci_opts \<Rightarrow> export_opts" where
  "reexport_opts opts = \<lparr>eo_skip_compression = xo_skip_compression opts, eo_copy_meta_keys = [], eo_copy_meta_opt_keys = [],
     eo_max_layers = None, eo_authfile = xo_authfile opts, eo_legacy_version_label = False, eo_container_config = None,
     eo_prior_build = None, eo_contentmeta = None, eo_created = None\<rparr>"

definition export_to_oci ::
  "('s, 'o) reexport_env \<Rightarrow> ('s, 'y) ostree_repo_scheme \<Rightarrow> oci_json \<Rightarrow> nat \<Rightarrow> 's \<Rightarrow> image_reference \<Rightarrow>
   ('o, 'z) oci_dir_scheme \<Rightarrow> rstr option \<Rightarrow> export_to_oci_opts \<Rightarrow> 'o \<Rightarrow>
   (descriptor \<times> image_manifest \<times> image_configuration \<times> 'o) result" where
  "export_to_oci env repo js fuel s imgref dest_oci tag opts w =
     and_then (query_image repo js s imgref) (\<lambda>srcinfo.
     and_then (ok_or (Err ''No such image'') srcinfo) (\<lambda>srcinfo.
     and_then (parse_manifest_layout (ls_manifest srcinfo) (ls_configuration srcinfo)) (\<lambda>(commit_layer, component_layers, remaining_layers).
     and_then (ref_for_layer commit_layer) (\<lambda>commit_chunk_ref.
     and_then (rp_require_rev repo s commit_chunk_ref) (\<lambda>commit_chunk_rev.
     and_then (chunking_new (xe_store (re_objects env s)) fuel commit_chunk_rev) (\<lambda>chunking.
     and_then (try_fold (chunking_from_layer_committed env s) component_layers chunking) (\<lambda>chunking.
     let new_manifest = (ls_manifest srcinfo)\<lparr>m_layers := []\<rparr>;
         new_config = (ls_configuration srcinfo)\<lparr>c_history := []\<rparr>
     in and_then (export_chunked (re_objects env s) dest_oci fuel (ls_base_commit srcinfo) (new_manifest, new_config) [] chunking
            (reexport_opts opts) [] w) (\<lambda>(mc, labels, w).
        and_then (try_fold (export_derived_layer env dest_oci s srcinfo (xo_skip_compression opts))
            (zip [0..<length remaining_layers] remaining_layers) (mc, w)) (\<lambda>((new_manifest, new_config), w).
        and_then (od_write_config dest_oci new_config w) (\<lambda>(config_desc, w).
        let new_manifest = new_manifest\<lparr>m_config := config_desc\<rparr>
        in and_then (od_insert_manifest dest_oci new_manifest tag w) (\<lambda>(desc, w).
           Inr (desc, new_manifest, new_config, w))))))))))))"

text \<open>The export to the directory of a path, or to a temporary directory that skopeo copies.\<close>

definition export_image ::
  "('s, 'o) reexport_env \<Rightarrow> ('s, 'y) ostree_repo_scheme \<Rightarrow> oci_json \<Rightarrow> nat \<Rightarrow> ('o, 'z) oci_host_scheme \<Rightarrow> 's \<Rightarrow>
   image_reference \<Rightarrow> image_reference \<Rightarrow> export_to_oci_opts \<Rightarrow> digest result" where
  "export_image env repo js fuel host s src_imgref dest_imgref opts =
     (let target_oci = (ir_transport dest_imgref = OciDir)
      in if \<not> target_oci then
           and_then (oh_temp_dir host) (\<lambda>td.
           and_then (export_to_oci env repo js fuel s src_imgref host None \<lparr>xo_skip_compression = True, xo_authfile = None,
               xo_progress_to_stdout = xo_progress_to_stdout opts\<rparr> td) (\<lambda>(_, _, _, td).
           oh_copy host td tempoci dest_imgref (xo_authfile opts) (xo_progress_to_stdout opts)))
         else
           let (path, tag) = parse_oci_path_and_tag (ir_name dest_imgref)
           in and_then (oh_open_dir host path) (\<lambda>dir.
              and_then (export_to_oci env repo js fuel s src_imgref host tag opts dir) (\<lambda>(descriptor, _).
              Inr (d_digest descriptor))))"

section \<open>Lemmas\<close>

lemma chunking_from_layer_chunks:
  "chunking_from_layer_committed env s l chunking = Inr chunking' \<Longrightarrow> length (chunks chunking') = Suc (length (chunks chunking))"
  by (auto simp: chunking_from_layer_committed_def result_simps)

lemma chunking_from_layers_length:
  "try_fold (chunking_from_layer_committed env s) ls chunking = Inr chunking' \<Longrightarrow>
   length (chunks chunking') = length (chunks chunking) + length ls"
  by (induction ls arbitrary: chunking) (auto simp: result_simps dest!: chunking_from_layer_chunks)

lemma chunking_new_no_chunks: "chunking_new repo fuel refspec = Inr chunking \<Longrightarrow> chunks chunking = []"
  by (auto simp: chunking_new_def Let_def result_simps)


lemma push_keeps_config:
  assumes "push_spec ociw desc"
  shows "c_config (snd (od_push_layer ociw l d a mc)) = c_config (snd mc)"
proof -
  obtain m c where "mc = (m, c)" by (cases mc)
  moreover obtain h where "od_push_layer ociw l d a (m, c) =
      (m\<lparr>m_layers := m_layers m @ [desc l a]\<rparr>, c\<lparr>c_diff_ids := c_diff_ids c @ [diff_id l], c_history := c_history c @ [h]\<rparr>)"
    using assms unfolding push_spec_def by blast
  ultimately show ?thesis by simp
qed

lemma export_chunked_config:
  assumes "push_spec ociw desc" "export_chunked env ociw fuel commit mc labels chunking opts description w = Inr (mc', labels', w')"
  shows "c_config (snd mc') = c_config (snd mc)"
proof -
  have pc: "c_config (snd (push_chunk_layers ociw layers mc)) = c_config (snd mc)" for layers mc
    by (induction layers arbitrary: mc) (auto simp: push_chunk_layers_def push_keeps_config [OF assms(1)])
  show ?thesis
    using assms(2)
    by (auto simp: export_chunked_def take_chunks_def result_simps Let_def push_chunk_layers_def [symmetric] pc
        push_keeps_config [OF assms(1)])
qed

subsection \<open>The contents of the exported layers\<close>

text \<open>How the objects of a commit are divided by the file names of its component layers: each chunk has the objects its
  layer names, unless an earlier layer names them, and the rest stays with the commit.\<close>

definition objects_split :: "(rstr \<Rightarrow> (u64 \<times> rstr list) option) \<Rightarrow> rstr list list \<Rightarrow> chunk list \<Rightarrow> chunk \<Rightarrow> bool" where
  "objects_split objects names cs rest \<longleftrightarrow> length cs = length names \<and>
     (\<forall>i < length names. kv_lookup (ck_content (cs ! i)) =
        (\<lambda>k. if k \<in> set (names ! i) \<and> (\<forall>j < i. k \<notin> set (names ! j)) then objects k else None)) \<and>
     kv_lookup (ck_content rest) = (\<lambda>k. if k \<in> set (concat names) then None else objects k)"

text \<open>A descriptor of a layer that was created from the given data.\<close>

definition layer_created ::
  "(oci_layer \<Rightarrow> (rstr, rstr) kvmap option \<Rightarrow> descriptor) \<Rightarrow> ('o \<Rightarrow> (oci_layer \<times> 'o) result) \<Rightarrow> descriptor \<Rightarrow> bool" where
  "layer_created desc create d \<longleftrightarrow> (\<exists>l a w0 w1. create w0 = Inr (l, w1) \<and> d = desc l a)"

lemma move_obj_lookup:
  "kv_lookup (ck_content (fst (fst (move_obj k s)))) = (kv_lookup (ck_content (fst s)))(k := None)"
  "kv_lookup (ck_content (snd (fst (move_obj k s)))) =
     (\<lambda>x. if x = k \<and> kv_lookup (ck_content (fst s)) k \<noteq> None then kv_lookup (ck_content (fst s)) k else kv_lookup (ck_content (snd s)) x)"
  by (cases s; cases "kv_lookup (ck_content (fst s)) k";
      auto simp: move_obj_def kv_lookup_remove kv_lookup_insert fun_eq_iff)+

lemma move_layer_lookup:
  assumes "try_fold (\<lambda>name st. and_then (validate name) (\<lambda>_. Inr (fst (move_obj name st)))) names st = Inr st'"
  shows "kv_lookup (ck_content (fst st')) = (\<lambda>k. if k \<in> set names then None else kv_lookup (ck_content (fst st)) k)"
    and "kv_lookup (ck_content (snd st')) =
      (\<lambda>k. if k \<in> set names \<and> kv_lookup (ck_content (fst st)) k \<noteq> None then kv_lookup (ck_content (fst st)) k
           else kv_lookup (ck_content (snd st)) k)"
proof -
  have "kv_lookup (ck_content (fst st')) = (\<lambda>k. if k \<in> set names then None else kv_lookup (ck_content (fst st)) k) \<and>
    kv_lookup (ck_content (snd st')) =
      (\<lambda>k. if k \<in> set names \<and> kv_lookup (ck_content (fst st)) k \<noteq> None then kv_lookup (ck_content (fst st)) k
           else kv_lookup (ck_content (snd st)) k)"
    using assms
  proof (induction names arbitrary: st)
    case (Cons n names)
    then have "try_fold (\<lambda>name st. and_then (validate name) (\<lambda>_. Inr (fst (move_obj name st)))) names (fst (move_obj n st)) = Inr st'"
      by (auto simp: result_simps)
    from Cons.IH [OF this] show ?case by (auto simp: move_obj_lookup fun_eq_iff)
  qed simp
  then show "kv_lookup (ck_content (fst st')) = (\<lambda>k. if k \<in> set names then None else kv_lookup (ck_content (fst st)) k)"
    "kv_lookup (ck_content (snd st')) =
      (\<lambda>k. if k \<in> set names \<and> kv_lookup (ck_content (fst st)) k \<noteq> None then kv_lookup (ck_content (fst st)) k
           else kv_lookup (ck_content (snd st)) k)"
    by blast+
qed

lemma chunking_from_layer_Inr:
  assumes "chunking_from_layer_committed env s l ck = Inr ck'"
  shows "\<exists>r ns c. ref_for_layer l = Inr r \<and> re_layer_files env s r = Inr ns \<and> chunks ck' = chunks ck @ [c] \<and>
    kv_lookup (ck_content c) = (\<lambda>k. if k \<in> set ns then kv_lookup (ck_content (remainder ck)) k else None) \<and>
    kv_lookup (ck_content (remainder ck')) = (\<lambda>k. if k \<in> set ns then None else kv_lookup (ck_content (remainder ck)) k)"
proof -
  obtain r ns st where r: "ref_for_layer l = Inr r" "re_layer_files env s r = Inr ns"
      "try_fold (\<lambda>name st. and_then (re_validate_checksum env name) (\<lambda>_. Inr (fst (move_obj name st)))) ns
         (remainder ck, chunk_new []) = Inr st"
      "chunks ck' = chunks ck @ [snd st]" "remainder ck' = fst st"
    using assms by (auto simp: chunking_from_layer_committed_def result_simps)
  have "kv_lookup (ck_content (snd st)) = (\<lambda>k. if k \<in> set ns then kv_lookup (ck_content (remainder ck)) k else None)"
  proof
    fix k :: rstr
    have "kv_lookup [] k = (None :: (u64 \<times> rstr list) option)" by (simp add: kv_lookup_def)
    then show "kv_lookup (ck_content (snd st)) k = (if k \<in> set ns then kv_lookup (ck_content (remainder ck)) k else None)"
      unfolding move_layer_lookup(2) [OF r(3)] by (cases "kv_lookup (ck_content (remainder ck)) k") simp_all
  qed
  with move_layer_lookup(1) [OF r(3)] r show ?thesis by auto
qed

lemma chunking_from_layers_split:
  assumes "try_fold (chunking_from_layer_committed env s) ls ck = Inr ck'"
  shows "\<exists>names cs. list_all2 (\<lambda>l ns. \<exists>r. ref_for_layer l = Inr r \<and> re_layer_files env s r = Inr ns) ls names \<and>
    chunks ck' = chunks ck @ cs \<and> objects_split (kv_lookup (ck_content (remainder ck))) names cs (remainder ck')"
  using assms
proof (induction ls arbitrary: ck)
  case Nil
  then show ?case by (intro exI [of _ "[]"]) (simp add: objects_split_def)
next
  case (Cons l ls)
  then obtain ck1 where ck1: "chunking_from_layer_committed env s l ck = Inr ck1"
      "try_fold (chunking_from_layer_committed env s) ls ck1 = Inr ck'"
    by (auto simp: result_simps)
  from chunking_from_layer_Inr [OF ck1(1)] obtain r ns c where
    c: "ref_for_layer l = Inr r" "re_layer_files env s r = Inr ns" "chunks ck1 = chunks ck @ [c]"
      "kv_lookup (ck_content c) = (\<lambda>k. if k \<in> set ns then kv_lookup (ck_content (remainder ck)) k else None)"
      "kv_lookup (ck_content (remainder ck1)) = (\<lambda>k. if k \<in> set ns then None else kv_lookup (ck_content (remainder ck)) k)"
    by blast
  from Cons.IH [OF ck1(2)] obtain names cs where
    n: "list_all2 (\<lambda>l ns. \<exists>r. ref_for_layer l = Inr r \<and> re_layer_files env s r = Inr ns) ls names"
      "chunks ck' = chunks ck1 @ cs" "objects_split (kv_lookup (ck_content (remainder ck1))) names cs (remainder ck')"
    by blast
  have "objects_split (kv_lookup (ck_content (remainder ck))) (ns # names) (c # cs) (remainder ck')"
    unfolding objects_split_def
  proof (intro conjI allI impI)
    fix i assume "i < length (ns # names)"
    then show "kv_lookup (ck_content ((c # cs) ! i)) =
        (\<lambda>k. if k \<in> set ((ns # names) ! i) \<and> (\<forall>j < i. k \<notin> set ((ns # names) ! j)) then kv_lookup (ck_content (remainder ck)) k else None)"
      using n(3) c(4,5) by (cases i) (auto simp: objects_split_def fun_eq_iff All_less_Suc2)
  qed (use n(3) c(5) in \<open>auto simp: objects_split_def fun_eq_iff\<close>)
  with n(1,2) c(1-3) show ?case
    by (intro exI [of _ "ns # names"] exI [of _ "c # cs"]) auto
qed

lemma export_chunks_created:
  assumes "try_fold (export_one_chunk env ociw commit opts) cs (acc, w) = Inr (acc', w')"
  shows "\<exists>layers. acc' = acc @ layers \<and> list_all2 (\<lambda>c x. \<exists>entries w0 w1. export_chunk env commit (ck_content c) = Inr entries \<and>
    od_create_layer ociw (compression opts) entries w0 = Inr (fst x, w1)) cs layers"
  using assms
proof (induction cs arbitrary: acc w)
  case (Cons c cs)
  then obtain entries l w1 where c: "export_chunk env commit (ck_content c) = Inr entries"
      "od_create_layer ociw (compression opts) entries w = Inr (l, w1)"
      "try_fold (export_one_chunk env ociw commit opts) cs (acc @ [(l, ck_name c, ck_packages c)], w1) = Inr (acc', w')"
    by (auto simp: export_one_chunk_def [of _ _ _ _ c] result_simps)
  from Cons.IH [OF c(3)] obtain layers where "acc' = acc @ (l, ck_name c, ck_packages c) # layers"
      "list_all2 (\<lambda>c x. \<exists>entries w0 w1. export_chunk env commit (ck_content c) = Inr entries \<and>
        od_create_layer ociw (compression opts) entries w0 = Inr (fst x, w1)) cs layers"
    by auto
  with c(1,2) show ?case by (intro exI [of _ "(l, ck_name c, ck_packages c) # layers"]) auto
qed simp

lemma export_chunked_created:
  assumes "push_spec ociw desc" "export_chunked env ociw fuel commit mc labels ck opts description w = Inr (mc', labels', w')"
    and "m_layers (fst mc) = []"
  shows "\<exists>final d ds. export_final_chunk env fuel commit (remainder ck) = Inr final \<and> m_layers (fst mc') = d # ds \<and>
    layer_created desc (od_create_layer ociw (compression opts) final) d \<and>
    list_all2 (\<lambda>c d. \<exists>entries. export_chunk env commit (ck_content c) = Inr entries \<and>
      layer_created desc (od_create_layer ociw (compression opts) entries) d) (chunks ck) ds"
proof -
  obtain layers w1 final ostree_layer w2 where r: "export_chunks env ociw commit (chunks ck) opts w = Inr (layers, w1)"
      "export_final_chunk env fuel commit (remainder ck) = Inr final"
      "od_create_layer ociw (compression opts) final w1 = Inr (ostree_layer, w2)"
      "mc' = push_chunk_layers ociw layers (od_push_layer ociw ostree_layer description None mc)"
    using assms(2) by (auto simp: export_chunked_def take_chunks_def push_chunk_layers_def result_simps Let_def)
  have L: "m_layers (fst mc') = desc ostree_layer None # map (chunk_descriptor desc) layers"
    by (simp add: r(4) push_chunk_layers [OF assms(1)] push_specD [OF assms(1)] assms(3))
  from export_chunks_created [of env ociw commit opts "chunks ck" "[]" w layers w1] r(1)
  have "list_all2 (\<lambda>c x. \<exists>entries w0 w1. export_chunk env commit (ck_content c) = Inr entries \<and>
      od_create_layer ociw (compression opts) entries w0 = Inr (fst x, w1)) (chunks ck) layers"
    by (simp add: export_chunks_def)
  then have "list_all2 (\<lambda>c d. \<exists>entries. export_chunk env commit (ck_content c) = Inr entries \<and>
      layer_created desc (od_create_layer ociw (compression opts) entries) d) (chunks ck) (map (chunk_descriptor desc) layers)"
    unfolding list_all2_map2
  proof (rule list_all2_mono)
    fix c and x :: "oci_layer \<times> rstr \<times> rstr list"
    assume "\<exists>entries w0 w1. export_chunk env commit (ck_content c) = Inr entries \<and>
      od_create_layer ociw (compression opts) entries w0 = Inr (fst x, w1)"
    moreover have "\<exists>a. chunk_descriptor desc x = desc (fst x) a" by (cases x) (auto simp: chunk_descriptor_def)
    ultimately show "\<exists>entries. export_chunk env commit (ck_content c) = Inr entries \<and>
      layer_created desc (od_create_layer ociw (compression opts) entries) (chunk_descriptor desc x)"
      unfolding layer_created_def by metis
  qed
  with L r(2,3) show ?thesis unfolding layer_created_def by blast
qed

lemma export_derived_layer_Inr:
  assumes "export_derived_layer env dest_oci s srcinfo skip (i, layer) (mc, w) = Inr (mc1, w1)"
  shows "\<exists>r l d a. mc1 = od_push_layer dest_oci l d a mc \<and> ref_for_layer layer = Inr r \<and>
     re_create_gzip_layer env (if skip then Some 0 else None) (re_ostree_export env s r) w = Inr (l, w1)"
proof -
  define level where "level = (if skip then Some 0 else None :: nat option)"
  show ?thesis
    using assms unfolding export_derived_layer_def level_def [symmetric] by (auto simp: result_simps Let_def)
qed

lemma export_derived_layers:
  assumes "push_spec dest_oci desc" "try_fold (export_derived_layer env dest_oci s srcinfo skip) ls (mc, w) = Inr (mc', w')"
  shows "\<exists>ds ids. length ids = length ls \<and>
    list_all2 (\<lambda>x d. \<exists>r. ref_for_layer (snd x) = Inr r \<and>
      layer_created desc (re_create_gzip_layer env (if skip then Some 0 else None) (re_ostree_export env s r)) d) ls ds \<and>
    m_layers (fst mc') = m_layers (fst mc) @ ds \<and> c_diff_ids (snd mc') = c_diff_ids (snd mc) @ ids \<and>
    c_config (snd mc') = c_config (snd mc)"
  using assms(2)
proof (induction ls arbitrary: mc w)
  case (Cons x ls)
  obtain i layer where x: "x = (i, layer)" by (cases x)
  from Cons.prems obtain mc1 w1 where step: "export_derived_layer env dest_oci s srcinfo skip (i, layer) (mc, w) = Inr (mc1, w1)"
      "try_fold (export_derived_layer env dest_oci s srcinfo skip) ls (mc1, w1) = Inr (mc', w')"
    by (auto simp: x and_then_Inr_iff)
  from export_derived_layer_Inr [OF step(1)] obtain r l d a where mc1: "mc1 = od_push_layer dest_oci l d a mc"
      "ref_for_layer layer = Inr r" "re_create_gzip_layer env (if skip then Some 0 else None) (re_ostree_export env s r) w = Inr (l, w1)"
    by blast
  have "layer_created desc (re_create_gzip_layer env (if skip then Some 0 else None) (re_ostree_export env s r)) (desc l a)"
    using mc1(3) unfolding layer_created_def by blast
  moreover from Cons.IH [OF step(2)] obtain ds ids where "length ids = length ls"
      "list_all2 (\<lambda>x d. \<exists>r. ref_for_layer (snd x) = Inr r \<and>
        layer_created desc (re_create_gzip_layer env (if skip then Some 0 else None) (re_ostree_export env s r)) d) ls ds"
      "m_layers (fst mc') = m_layers (fst mc) @ desc l a # ds" "c_diff_ids (snd mc') = c_diff_ids (snd mc) @ diff_id l # ids"
      "c_config (snd mc') = c_config (snd mc)"
    by (auto simp: mc1(1) push_specD [OF assms(1)] push_keeps_config [OF assms(1)])
  ultimately show ?case using mc1(2) by (intro exI [of _ "desc l a # ds"] exI [of _ "diff_id l # ids"]) (simp add: x)
qed auto

lemma index_of_append: "index_of x xs = Some i \<Longrightarrow> index_of x (xs @ ys) = Some i"
  by (induction xs arbitrary: i) (auto split: if_splits)

lemma layout_target_position:
  assumes "parse_manifest_layout manifest config = Inr (ostree_layer, comps, derived)" "distinct (m_layers manifest)"
  shows "\<exists>labels diffid. labels_of config = Some labels \<and> kv_lookup labels DIFFID_LABEL = Some diffid \<and>
    index_of diffid (c_diff_ids config) = Some (length comps)"
proof -
  from parse_layout_backward [OF assms(1)] obtain labels diffid idx pre target where
    l: "labels_of config = Some labels" "kv_lookup labels DIFFID_LABEL = Some diffid" "index_of diffid (c_diff_ids config) = Some idx"
      "idx < length (m_layers manifest)" "target = m_layers manifest ! idx" "m_layers manifest = pre @ target # derived"
    by blast
  have "m_layers manifest ! length pre = target" "length pre < length (m_layers manifest)" using l(6) by simp_all
  with l(4,5) have "idx = length pre" using assms(2) by (simp add: nth_eq_iff_index_eq)
  moreover have "length comps = length pre"
    using layout_all_layers [OF assms(1) first_layer_once [OF assms(2)]] l(6) by (metis add_right_cancel length_Cons length_append add_Suc_right add_Suc)
  ultimately show ?thesis using l(1-3) by simp
qed

text \<open>The layout of a manifest whose layers differ, from the position of the diff id in the label.\<close>

lemma layout_at:
  assumes "labels_of config = Some labels" "kv_lookup labels DIFFID_LABEL = Some diffid"
    and "index_of diffid (c_diff_ids config) = Some n" "n < length (m_layers manifest)" "distinct (m_layers manifest)"
  shows "parse_manifest_layout manifest config =
    Inr (hd (m_layers manifest), take n (tl (m_layers manifest)), drop n (tl (m_layers manifest)))"
proof -
  let ?L = "m_layers manifest"
  have split: "?L = take n ?L @ ?L ! n # drop (Suc n) ?L" using assms(4) by (simp add: id_take_nth_drop)
  have notin: "?L ! n \<notin> set (take n ?L)" "?L ! n \<notin> set (drop (Suc n) ?L)"
    using assms(5) split by (metis distinct_append disjoint_iff list.set_intros(1), metis distinct.simps(2) distinct_append)
  have "parse_manifest_layout manifest config = Inr (hd ?L, filter (\<lambda>x. x \<noteq> hd ?L) (take n ?L @ [?L ! n]), drop (Suc n) ?L)"
    by (rule parse_layout_forward [OF assms(1-4) refl refl split notin])
  moreover have "filter (\<lambda>x. x \<noteq> hd ?L) (take n ?L @ [?L ! n]) = take n (tl ?L)"
  proof -
    obtain h tlL where hL: "?L = h # tlL" using assms(4) by (cases ?L) auto
    then have "h \<notin> set (take n tlL)" using assms(5) by (auto dest: in_set_takeD)
    then have "filter (\<lambda>x. x \<noteq> hd ?L) (take (Suc n) ?L) = take n (tl ?L)" using hL by (auto simp: filter_id_conv)
    then show ?thesis using assms(4) by (simp add: take_Suc_conv_app_nth)
  qed
  ultimately show ?thesis by (simp add: drop_Suc)
qed

section \<open>Properties\<close>

text \<open>C35: exporting a stored image to an OCI directory.  For a stored image whose layers differ from each other, and when
  the layers written differ as well, a successful export writes a manifest with as many layers as the stored one, which
  the importer recognises again: the first layer holds the commit, it is followed by one chunk layer for each component
  layer of the stored image, and the others are derived layers.  A chunk layer is made of exactly those objects of the
  commit that are named by the files of its component layer (and by no earlier one), the first layer of the commit with
  the objects that are left, and a derived layer of what \<^verbatim>\<open>ostree export\<close> gives for the ref of the stored layer at
  the same place.  The diff ids of the stored image, which no longer are those of the layers, are kept in front
  of the new ones; the label that marks the last ostree layer is one of them, so that its position is still right.\<close>

theorem export_to_oci_layout:
  assumes "push_spec dest_oci desc"
    and "export_to_oci env repo js fuel s imgref dest_oci tag opts w = Inr (d, manifest, config, w')"
    and "query_image repo js s imgref = Inr (Some srcinfo)" "distinct (m_layers (ls_manifest srcinfo))" "distinct (m_layers manifest)"
    and "parse_manifest_layout (ls_manifest srcinfo) (ls_configuration srcinfo) = Inr (commit_layer, comps, derived)"
    and "create = od_create_layer dest_oci (compression (reexport_opts opts))"
    and "gzip = re_create_gzip_layer env (if xo_skip_compression opts then Some 0 else None)"
  shows "length (m_layers manifest) = length (m_layers (ls_manifest srcinfo)) \<and>
    parse_manifest_layout manifest config =
      Inr (hd (m_layers manifest), take (length comps) (tl (m_layers manifest)), drop (length comps) (tl (m_layers manifest))) \<and>
    (\<exists>ids. c_diff_ids config = c_diff_ids (ls_configuration srcinfo) @ ids \<and> length ids = length (m_layers manifest)) \<and>
    (\<exists>r0 rev0 ck0 names cs rest final. ref_for_layer commit_layer = Inr r0 \<and> rp_require_rev repo s r0 = Inr rev0 \<and>
       chunking_new (xe_store (re_objects env s)) fuel rev0 = Inr ck0 \<and>
       list_all2 (\<lambda>l ns. \<exists>r. ref_for_layer l = Inr r \<and> re_layer_files env s r = Inr ns) comps names \<and>
       objects_split (kv_lookup (ck_content (remainder ck0))) names cs rest \<and>
       export_final_chunk (re_objects env s) fuel (ls_base_commit srcinfo) rest = Inr final \<and>
       layer_created desc (create final) (hd (m_layers manifest)) \<and>
       list_all2 (\<lambda>c d. \<exists>entries. export_chunk (re_objects env s) (ls_base_commit srcinfo) (ck_content c) = Inr entries \<and>
         layer_created desc (create entries) d) cs (take (length comps) (tl (m_layers manifest))) \<and>
       list_all2 (\<lambda>l d. \<exists>r. ref_for_layer l = Inr r \<and> layer_created desc (gzip (re_ostree_export env s r)) d)
         derived (drop (length comps) (tl (m_layers manifest))))"
proof -
  let ?mc0 = "((ls_manifest srcinfo)\<lparr>m_layers := []\<rparr>, (ls_configuration srcinfo)\<lparr>c_history := []\<rparr>)"
  obtain r0 rev0 ck0 ck mc labels w1 m1 w2 cd where run:
      "chunking_new (xe_store (re_objects env s)) fuel rev0 = Inr ck0"
      "try_fold (chunking_from_layer_committed env s) comps ck0 = Inr ck"
      "export_chunked (re_objects env s) dest_oci fuel (ls_base_commit srcinfo) ?mc0 [] ck (reexport_opts opts) [] w = Inr (mc, labels, w1)"
      "try_fold (export_derived_layer env dest_oci s srcinfo (xo_skip_compression opts)) (zip [0..<length derived] derived) (mc, w1) =
         Inr ((m1, config), w2)"
      "manifest = m1\<lparr>m_config := cd\<rparr>"
    and refs: "ref_for_layer commit_layer = Inr r0" "rp_require_rev repo s r0 = Inr rev0"
    using assms(2) by (auto simp: export_to_oci_def assms(3,6) result_simps Let_def)
  from chunking_from_layers_split [OF run(2)] chunking_new_no_chunks [OF run(1)] obtain names cs where
    split: "list_all2 (\<lambda>l ns. \<exists>r. ref_for_layer l = Inr r \<and> re_layer_files env s r = Inr ns) comps names" "chunks ck = cs"
      "objects_split (kv_lookup (ck_content (remainder ck0))) names cs (remainder ck)"
    by auto
  have n: "length cs = length comps" using split(1,3) by (auto simp: objects_split_def dest: list_all2_lengthD)
  from export_chunked_created [OF assms(1) run(3)] obtain final hd0 ds0 where
    made: "export_final_chunk (re_objects env s) fuel (ls_base_commit srcinfo) (remainder ck) = Inr final"
      "m_layers (fst mc) = hd0 # ds0" "layer_created desc (create final) hd0"
      "list_all2 (\<lambda>c d. \<exists>entries. export_chunk (re_objects env s) (ls_base_commit srcinfo) (ck_content c) = Inr entries \<and>
        layer_created desc (create entries) d) cs ds0"
    unfolding split(2) assms(7) by auto
  have len0: "length ds0 = length comps" using made(4) n by (auto dest: list_all2_lengthD)
  obtain ids0 where ids0: "c_diff_ids (snd mc) = c_diff_ids (ls_configuration srcinfo) @ ids0" "length ids0 = Suc (length comps)"
  proof (rule export_chunked_Inr [OF assms(1) run(3)])
    fix layers ostree_layer
    assume ids: "c_diff_ids (snd mc) = c_diff_ids (snd ?mc0) @ map diff_id (ostree_layer # map fst layers)"
      and "m_layers (fst mc) = m_layers (fst ?mc0) @ desc ostree_layer None # map (chunk_descriptor desc) layers"
    then have "length layers = length comps" using made(2) len0 by auto
    with ids that [of "map diff_id (ostree_layer # map fst layers)"] show thesis by simp
  qed
  from export_derived_layers [OF assms(1) run(4)] obtain ds ids where
    d: "length ids = length derived" "m_layers m1 = m_layers (fst mc) @ ds" "c_diff_ids config = c_diff_ids (snd mc) @ ids"
      "c_config config = c_config (snd mc)"
    and dl: "list_all2 (\<lambda>x d. \<exists>r. ref_for_layer (snd x) = Inr r \<and> layer_created desc (gzip (re_ostree_export env s r)) d)
        (zip [0..<length derived] derived) ds"
    unfolding assms(8) by auto
  have derived: "list_all2 (\<lambda>l d. \<exists>r. ref_for_layer l = Inr r \<and> layer_created desc (gzip (re_ostree_export env s r)) d) derived ds"
    using dl by (auto simp: list_all2_conv_all_nth)
  let ?L = "m_layers manifest" and ?n = "length comps"
  have L: "?L = hd0 # ds0 @ ds" using d(2) made(2) run(5) by simp
  have all: "length (m_layers (ls_manifest srcinfo)) = Suc (?n + length derived)"
    using arg_cong [OF layout_all_layers [OF assms(6) first_layer_once [OF assms(4)]], of length] by simp
  then have count: "length ?L = length (m_layers (ls_manifest srcinfo))"
    using L len0 list_all2_lengthD [OF derived] by simp
  have "c_config (snd mc) = c_config (ls_configuration srcinfo)" using export_chunked_config [OF assms(1) run(3)] by simp
  then have labels: "labels_of config = labels_of (ls_configuration srcinfo)" using d(4) by (simp add: labels_of_def)
  from layout_target_position [OF assms(6,4)] labels obtain lbl diffid where
    t: "labels_of config = Some lbl" "kv_lookup lbl DIFFID_LABEL = Some diffid"
      "index_of diffid (c_diff_ids (ls_configuration srcinfo)) = Some ?n"
    by auto
  have idx: "index_of diffid (c_diff_ids config) = Some ?n" using t(3) by (simp add: d(3) ids0(1) index_of_append)
  have lt: "?n < length ?L" using count all by simp
  note layout = layout_at [OF t(1,2) idx lt assms(5)]
  have parts: "hd ?L = hd0" "take ?n (tl ?L) = ds0" "drop ?n (tl ?L) = ds" using L len0 by simp_all
  have "\<exists>ids. c_diff_ids config = c_diff_ids (ls_configuration srcinfo) @ ids \<and> length ids = length ?L"
    using d(1,3) ids0 count all by (intro exI [of _ "ids0 @ ids"]) simp
  with count layout refs run(1) split(1,3) made(1,3,4) derived show ?thesis unfolding parts by blast
qed

definition reexport_config :: image_configuration where
  "reexport_config = stored_config\<lparr>c_diff_ids := [str ''da'', str ''db''],
     c_config := Some \<lparr>cc_labels = Some [(DIFFID_LABEL, str ''da'')], cc_cmd = None\<rparr>\<rparr>"

definition reexport_manifest :: image_manifest where
  "reexport_manifest = stored_manifest\<lparr>m_layers := [stored_layer ''a'', stored_layer ''b'']\<rparr>"

definition reexport_json :: oci_json where
  "reexport_json = stored_json\<lparr>oj_read_manifest := (\<lambda>_. Inr reexport_manifest), oj_default_config := reexport_config\<rparr>"

definition reexport_state :: "(rstr \<times> rstr) list" where
  "reexport_state = [(str ''ostree/container/image/docker_3A__2F__2F_x'', [49]), (str ''ostree/container/blob/sha256_3A_b'', [50]),
     (str ''ostree/container/blob/sha256_3A_a'', sample_checksum 97)]"

definition sample_reexport_env :: "((rstr \<times> rstr) list, nat) reexport_env" where
  "sample_reexport_env = \<lparr>re_objects = (\<lambda>_. sample_image_env), re_layer_files = (\<lambda>_ _. Inr []), re_validate_checksum = (\<lambda>_. Inr ()),
     re_ostree_export = (\<lambda>_ _. [7]), re_create_gzip_layer = (\<lambda>_ _ w. Inr (sample_oci_layer w, w + 1))\<rparr>"

definition reexport_source :: layered_image_state where
  "reexport_source = \<lparr>ls_base_commit = sample_checksum 97, ls_merge_commit = [49], ls_manifest_digest = \<lparr>dg_algorithm = str ''sha256'', dg_hex = str ''d''\<rparr>,
     ls_manifest = reexport_manifest, ls_configuration = reexport_config, ls_cached_update = None\<rparr>"

definition reexported_manifest :: image_manifest where
  "reexported_manifest = \<lparr>m_config = stored_layer ''c'',
     m_layers = [sample_desc (sample_oci_layer 0) None, sample_desc (sample_oci_layer 1) None], m_annotations = None\<rparr>"

definition reexported_config :: image_configuration where
  "reexported_config = reexport_config\<lparr>c_diff_ids := [str ''da'', str ''db'', str ''sha256:'' @ [0], str ''sha256:'' @ [1]],
     c_history := [\<lparr>h_created_by = None, h_comment = Some []\<rparr>, \<lparr>h_created_by = None, h_comment = Some []\<rparr>]\<rparr>"

definition sample_reexport_opts :: export_to_oci_opts where
  "sample_reexport_opts = \<lparr>xo_skip_compression = False, xo_authfile = None, xo_progress_to_stdout = False\<rparr>"

lemma sample_source:
  "query_image stored_repo reexport_json reexport_state stored_image = Inr (Some reexport_source)"
  "parse_manifest_layout reexport_manifest reexport_config = Inr (stored_layer ''a'', [], [stored_layer ''b''])"
  "ref_for_layer (stored_layer ''a'') = Inr (str ''ostree/container/blob/sha256_3A_a'')"
  "ref_for_layer (stored_layer ''b'') = Inr (str ''ostree/container/blob/sha256_3A_b'')"
  by code_simp+

lemma sample_image_env_store: "xe_store sample_image_env = sample_store"
  by (simp add: sample_image_env_def)

lemma sample_reexport:
  "export_to_oci sample_reexport_env stored_repo reexport_json 3 reexport_state stored_image sample_ocidir None sample_reexport_opts 0 =
   Inr (stored_layer ''m'', reexported_manifest, reexported_config, 2)"
proof -
  obtain final where final: "export_final_chunk sample_image_env 3 (sample_checksum 97) (chunk_new []) = Inr final"
    using sample_final_chunk by (auto simp: is_ok_iff)
  have rp: "rp_require_rev stored_repo reexport_state (str ''ostree/container/blob/sha256_3A_a'') = Inr (sample_checksum 97)"
    by code_simp
  obtain chunking where ch: "chunking_new sample_store 3 (sample_checksum 97) = Inr chunking" "remainder chunking = chunk_new []" "chunks chunking = []"
    by (auto simp: chunking_new_def push_dirtree_def push_dirmeta_def sample_store_def numeral_3_eq_3 Let_def)
  show ?thesis
    by (simp add: export_to_oci_def sample_source rp reexport_source_def ch sample_reexport_env_def sample_image_env_store
        export_chunked_def take_chunks_def export_chunks_def final export_derived_layer_def sample_ocidir_def Let_def)
       (simp add: reexport_manifest_def reexported_manifest_def reexport_config_def reexported_config_def sample_oci_layer_def
        stored_manifest_def stored_config_def stored_layer_def nth_opt_def diff_id_def)
qed

theorem export_to_oci_layout_witness:
  "parse_manifest_layout reexported_manifest reexported_config =
     Inr (sample_desc (sample_oci_layer 0) None, [], [sample_desc (sample_oci_layer 1) None])"
proof -
  have "distinct (m_layers (ls_manifest reexport_source))" "distinct (m_layers reexported_manifest)"
    by (simp_all add: reexport_source_def reexport_manifest_def reexported_manifest_def stored_layer_def sample_desc_def sample_oci_layer_def)
  moreover have "parse_manifest_layout (ls_manifest reexport_source) (ls_configuration reexport_source) = Inr (stored_layer ''a'', [], [stored_layer ''b''])"
    using sample_source(2) by (simp add: reexport_source_def)
  ultimately show ?thesis
    using export_to_oci_layout [OF sample_push_spec sample_reexport sample_source(1) _ _ _ refl refl] by (simp add: reexported_manifest_def)
qed

text \<open>The configuration written has twice as many diff ids as the manifest has layers, and the label that marks the last ostree
  layer is that of the stored image.\<close>

lemma reexport_keeps_old_diff_ids:
  "length (c_diff_ids reexported_config) = 2 * length (m_layers reexported_manifest) \<and>
   c_diff_ids reexported_config = c_diff_ids reexport_config @ [str ''sha256:'' @ [0], str ''sha256:'' @ [1]]"
  by (simp add: reexported_config_def reexported_manifest_def reexport_config_def stored_config_def)

text \<open>The annotations of a derived layer are those of the layer with its number in the whole manifest.\<close>

lemma derived_annotations_of_other_layer:
  assumes "ref_for_layer layer = Inr r" "re_create_gzip_layer env (if skip then Some 0 else None) (re_ostree_export env s r) w = Inr (l, w1)"
    and "m_layers (ls_manifest srcinfo) = commit_layer # rest"
  shows "\<exists>d. export_derived_layer env dest_oci s srcinfo skip (0, layer) (mc, w) =
    Inr (od_push_layer dest_oci l d (d_annotations commit_layer) mc, w1)"
  using assms by (auto simp: export_derived_layer_def nth_opt_def Let_def)

subsection \<open>Copies\<close>

text \<open>What is relied on of a pull from the repository in state \<open>s\<close>: pulling a ref sets it to the commit it has at the source, pulling a
  checksum changes no ref; the commit pulled can be loaded, and commits that could be loaded still can.\<close>

definition pull_spec ::
  "('s, 'y) ostree_repo_scheme \<Rightarrow> 's \<Rightarrow> (rstr \<Rightarrow> rstr option) \<Rightarrow> ('d, 'z) ostree_repo_scheme \<Rightarrow> ('d \<Rightarrow> rstr \<Rightarrow> rstr option) \<Rightarrow>
   (rstr \<Rightarrow> ('d, unit) action) \<Rightarrow> bool" where
  "pull_spec src_repo s src_refs dest_repo dest_refs pull \<longleftrightarrow>
     (\<forall>r d d'. pull r d = (Inr (), d') \<longrightarrow>
        dest_refs d' = (if src_refs r = None then dest_refs d else (dest_refs d)(r := src_refs r)) \<and>
        rp_load_commit dest_repo d' (case src_refs r of Some c \<Rightarrow> c | None \<Rightarrow> r) =
          rp_load_commit src_repo s (case src_refs r of Some c \<Rightarrow> c | None \<Rightarrow> r) \<and>
        (\<forall>c co. rp_load_commit dest_repo d c = Inr co \<longrightarrow> rp_load_commit dest_repo d' c = Inr co)) \<and>
     (\<forall>r d d'. pull r d = (Inr (), d') \<and> src_refs r = None \<longrightarrow> is_ok (rp_load_commit src_repo s r))"

lemma pull_all:
  assumes "pull_spec src_repo s src_refs dest_repo dest_refs pull"
    and "act_fold (\<lambda>ostree_ref _. act_bind (act_result ostree_ref) pull) refs () d = (Inr (), d')"
  shows "\<forall>r. dest_refs d' r = (if Inr r \<in> set refs \<and> src_refs r \<noteq> None then src_refs r else dest_refs d r)"
    and "\<forall>x \<in> set refs. \<exists>r. x = Inr r"
    and "Inr c \<in> set refs \<Longrightarrow> src_refs c = None \<Longrightarrow> rp_load_commit dest_repo d' c = rp_load_commit src_repo s c"
    and "\<forall>c co. rp_load_commit dest_repo d c = Inr co \<longrightarrow> rp_load_commit dest_repo d' c = Inr co"
proof -
  have "(\<forall>r. dest_refs d' r = (if Inr r \<in> set refs \<and> src_refs r \<noteq> None then src_refs r else dest_refs d r)) \<and>
    (\<forall>x \<in> set refs. \<exists>r. x = Inr r) \<and>
    (\<forall>c. Inr c \<in> set refs \<and> src_refs c = None \<longrightarrow> rp_load_commit dest_repo d' c = rp_load_commit src_repo s c) \<and>
    (\<forall>c co. rp_load_commit dest_repo d c = Inr co \<longrightarrow> rp_load_commit dest_repo d' c = Inr co)"
    using assms(2)
  proof (induction refs arbitrary: d)
    case (Cons x refs)
    from Cons.prems obtain r d1 where x: "x = Inr r" "pull r d = (Inr (), d1)"
        "act_fold (\<lambda>ostree_ref _. act_bind (act_result ostree_ref) pull) refs () d1 = (Inr (), d')"
      by (auto simp: act_simps)
    note IH = Cons.IH [OF x(3)]
    have step: "dest_refs d1 = (if src_refs r = None then dest_refs d else (dest_refs d)(r := src_refs r))"
        "rp_load_commit dest_repo d1 (case src_refs r of Some c \<Rightarrow> c | None \<Rightarrow> r) =
          rp_load_commit src_repo s (case src_refs r of Some c \<Rightarrow> c | None \<Rightarrow> r)"
        "\<forall>c co. rp_load_commit dest_repo d c = Inr co \<longrightarrow> rp_load_commit dest_repo d1 c = Inr co"
        "src_refs r = None \<Longrightarrow> is_ok (rp_load_commit src_repo s r)"
      using assms(1) x(2) unfolding pull_spec_def by blast+
    have "rp_load_commit dest_repo d' r = rp_load_commit src_repo s r" if "src_refs r = None"
    proof -
      from step(4) [OF that] obtain co where "rp_load_commit src_repo s r = Inr co" by (auto simp: is_ok_iff)
      with step(2) that have "rp_load_commit dest_repo d1 r = Inr co" by simp
      with IH \<open>rp_load_commit src_repo s r = Inr co\<close> show ?thesis by simp
    qed
    then show ?case using IH step(1,3) by (auto simp: x(1))
  qed simp
  then show "\<forall>r. dest_refs d' r = (if Inr r \<in> set refs \<and> src_refs r \<noteq> None then src_refs r else dest_refs d r)"
    "\<forall>x \<in> set refs. \<exists>r. x = Inr r"
    "Inr c \<in> set refs \<Longrightarrow> src_refs c = None \<Longrightarrow> rp_load_commit dest_repo d' c = rp_load_commit src_repo s c"
    "\<forall>c co. rp_load_commit dest_repo d c = Inr co \<longrightarrow> rp_load_commit dest_repo d' c = Inr co"
    by blast+
qed

text \<open>C38: a copied image is the same image.  After a successful copy the destination's ref of the target name points to the merge commit of
  the source, the manifest read there is the source's, the refs of its layers point to the commits they have at the source, and no other
  ref of the destination has changed.\<close>

theorem copy_image_same:
  assumes "refs_spec src_repo src_refs" "refs_spec dest_repo dest_refs"
    and "pull_spec src_repo s (src_refs s) dest_repo dest_refs pull"
    and "copy_image src_repo js s dest_repo pull src_imgref dest_imgref d = (Inr (), d')"
    and "ref_for_image src_imgref = Inr src_ref" "ref_for_image dest_imgref = Inr dest_ref"
    and "manifest_for_image src_repo js s src_imgref = Inr manifest"
    and "src_refs s src_ref = Some commit" "src_refs s commit = None"
  shows "dest_refs d' dest_ref = Some commit \<and> manifest_for_image dest_repo js d' dest_imgref = Inr manifest \<and>
    (\<forall>r. r \<noteq> dest_ref \<longrightarrow> dest_refs d' r =
       (if r \<in> layer_refs [manifest] \<and> src_refs s r \<noteq> None then src_refs s r else dest_refs d r))"
proof -
  let ?refs = "map ref_for_layer (m_layers manifest) @ [Inr commit]"
  have rev: "rp_require_rev src_repo s src_ref = Inr commit"
    using resolve_image(2) [OF assms(1,5)] assms(8) by simp
  obtain d1 where d1: "act_fold (\<lambda>ostree_ref _. act_bind (act_result ostree_ref) pull) ?refs () d = (Inr (), d1)"
      "rp_set_ref dest_repo dest_ref (Some commit) d1 = Inr d'"
    using assms(4) by (auto simp: copy_image_def assms(5,6,7) rev act_simps Let_def)
  note pulled = pull_all [OF assms(3) d1(1)]
  note set_ref = refs_specD(5,6) [OF assms(2) d1(2)]
  obtain co dg where co: "rp_load_commit src_repo s commit = Inr co" "manifest_data_from_commitmeta js (co_metadata co) = Inr (manifest, dg)"
    using assms(7) by (auto simp: manifest_for_image_def assms(5) rev result_simps)
  have "rp_load_commit dest_repo d' commit = Inr co"
    using pulled(3) [of commit] assms(9) co(1) set_ref(2) by simp
  moreover have "rp_require_rev dest_repo d' dest_ref = Inr commit"
    using resolve_image(2) [OF assms(2,6)] set_ref(1) by simp
  ultimately have "manifest_for_image dest_repo js d' dest_imgref = Inr manifest"
    using co(2) by (simp add: manifest_for_image_def assms(6))
  moreover have "dest_refs d' r = (if r \<in> layer_refs [manifest] \<and> src_refs s r \<noteq> None then src_refs s r else dest_refs d r)" if "r \<noteq> dest_ref" for r
  proof -
    have "Inr r \<in> set ?refs \<longleftrightarrow> r \<in> layer_refs [manifest] \<or> r = commit" by (auto simp: layer_refs_def image_iff) metis+
    then show ?thesis using that pulled(1) set_ref(1) assms(9) by auto
  qed
  ultimately show ?thesis using set_ref(1) by simp
qed

text \<open>Two repositories held in association lists, both with the commit of the stored image.\<close>

definition sample_pull :: "rstr \<Rightarrow> ((rstr \<times> rstr) list, unit) action" where
  "sample_pull r d = (Inr (), case map_of stored_state r of Some c \<Rightarrow> (r, c) # filter (\<lambda>e. fst e \<noteq> r) d | None \<Rightarrow> d)"

lemma sample_pull_spec: "pull_spec stored_repo stored_state (map_of stored_state) stored_repo map_of sample_pull"
  by (auto simp: pull_spec_def sample_pull_def map_of_filter_neq fun_eq_iff stored_repo_def split: option.splits)

theorem copy_image_same_witness:
  "manifest_for_image stored_repo stored_json (snd (copy_image stored_repo stored_json stored_state stored_repo sample_pull
     stored_image \<lparr>ir_transport = OciDir, ir_name = str ''y''\<rparr> [])) \<lparr>ir_transport = OciDir, ir_name = str ''y''\<rparr> = Inr stored_manifest"
proof -
  let ?dest = "\<lparr>ir_transport = OciDir, ir_name = str ''y''\<rparr>"
  have run: "fst (copy_image stored_repo stored_json stored_state stored_repo sample_pull stored_image ?dest []) = Inr ()"
    and refs: "ref_for_image stored_image = Inr (str ''ostree/container/image/docker_3A__2F__2F_x'')"
      "ref_for_image ?dest = Inr (str ''ostree/container/image/oci_3A_y'')"
      "manifest_for_image stored_repo stored_json stored_state stored_image = Inr stored_manifest"
      "map_of stored_state (str ''ostree/container/image/docker_3A__2F__2F_x'') = Some [49]" "map_of stored_state [49] = None"
    by code_simp+
  from run obtain d' where "copy_image stored_repo stored_json stored_state stored_repo sample_pull stored_image ?dest [] = (Inr (), d')"
    by (metis prod.collapse)
  from copy_image_same [OF stored_repo_refs stored_repo_refs sample_pull_spec this refs] this show ?thesis by simp
qed

end
