(* ===== verification/HostConfig.thy ===== *)
theory HostConfig
  imports ImageRef TarWrite
begin

text \<open>
  What the crate reads from and decides about the host it runs on: optional keys of key files
  (\<^verbatim>\<open>lib/src/keyfileext.rs\<close>), the root file system configuration (\<^verbatim>\<open>lib/src/ostree_prepareroot.rs\<close>), the
  signature policy and the calls of skopeo (\<^verbatim>\<open>lib/src/container/skopeo.rs\<close>), the authentication file
  (\<^verbatim>\<open>lib/src/globals.rs\<close>), the isolation of child processes (\<^verbatim>\<open>lib/src/isolation.rs\<close>) and the options of
  image pulls made from them (\<^verbatim>\<open>lib/src/container/mod.rs\<close>), whether the process runs in an ostree container
  (\<^verbatim>\<open>lib/src/container_utils.rs\<close>), the kernel directory of a tree (\<^verbatim>\<open>lib/src/bootabletree.rs\<close>), the SELinux
  domain (\<^verbatim>\<open>lib/src/selinux.rs\<close>) and mount points (\<^verbatim>\<open>lib/src/mountutil.rs\<close>).

  The host is an argument: functions that open files by path, flags for the environment, and the parsers of
  glib and serde.
\<close>

section \<open>Definitions\<close>

datatype io_error = NotFound | OtherIo

type_synonym 'a io_result = "io_error + 'a"

definition io :: "'a io_result \<Rightarrow> 'a result" where
  "io r = (case r of Inr x \<Rightarrow> Inr x | Inl _ \<Rightarrow> Inl (Err ''I/O error''))"

subsection \<open>Key files\<close>

datatype kf_error = GroupNotFound | KeyNotFound | KfOther

record keyfile =
  kf_string :: "rstr \<Rightarrow> rstr \<Rightarrow> kf_error + rstr"
  kf_boolean :: "rstr \<Rightarrow> rstr \<Rightarrow> kf_error + bool"

definition map_keyfile_optional :: "kf_error + 'a \<Rightarrow> 'a option result" where
  "map_keyfile_optional res =
     (case res of
        Inr v \<Rightarrow> Inr (Some v)
      | Inl e \<Rightarrow>
          (case e of
             GroupNotFound \<Rightarrow> Inr None
           | KeyNotFound \<Rightarrow> Inr None
           | KfOther \<Rightarrow> Inl (Err ''key file error'')))"

definition optional_string :: "keyfile \<Rightarrow> rstr \<Rightarrow> rstr \<Rightarrow> rstr option result" where
  "optional_string kf grp key = map_keyfile_optional (kf_string kf grp key)"

definition optional_bool :: "keyfile \<Rightarrow> rstr \<Rightarrow> rstr \<Rightarrow> bool option result" where
  "optional_bool kf grp key = map_keyfile_optional (kf_boolean kf grp key)"

subsection \<open>The root file system configuration\<close>

definition CONF_PATH :: rstr where "CONF_PATH = str ''ostree/prepare-root.conf''"

text \<open>\<^verbatim>\<open>read\<close> gives the contents of a file of the commit, \<open>None\<close> for one that does not exist.\<close>

fun load_config_from :: "(rstr \<Rightarrow> keyfile result) \<Rightarrow> (rstr \<Rightarrow> rstr result option) \<Rightarrow> rstr list \<Rightarrow> keyfile option result" where
  "load_config_from parse read [] = Inr None"
| "load_config_from parse read (dir # dirs) =
     (case read (path_push dir CONF_PATH) of
        None \<Rightarrow> load_config_from parse read dirs
      | Some contents \<Rightarrow> and_then contents (\<lambda>contents. and_then (parse contents) (\<lambda>kf. Inr (Some kf))))"

definition load_config :: "(rstr \<Rightarrow> keyfile result) \<Rightarrow> (rstr \<Rightarrow> rstr result option) \<Rightarrow> keyfile option result" where
  "load_config parse read = load_config_from parse read [str ''etc'', str ''usr/lib'']"

datatype tristate = Enabled | Disabled | Maybe

definition tristate_from_str :: "rstr \<Rightarrow> tristate result" where
  "tristate_from_str s =
     (if s = str ''yes'' \<or> s = str ''true'' \<or> s = str ''1'' then Inr Enabled
      else if s = str ''no'' \<or> s = str ''false'' \<or> s = str ''0'' then Inr Disabled
      else if s = str ''maybe'' then Inr Maybe
      else Inl (Err ''Invalid tristate value''))"

definition tristate_default :: tristate where "tristate_default = Disabled"

fun tristate_maybe_enabled :: "tristate \<Rightarrow> bool" where
  "tristate_maybe_enabled Enabled = True"
| "tristate_maybe_enabled Maybe = True"
| "tristate_maybe_enabled Disabled = False"

datatype composefs_state = Signed | CTristate tristate

definition composefs_default :: composefs_state where "composefs_default = CTristate tristate_default"

definition composefs_from_str :: "rstr \<Rightarrow> composefs_state result" where
  "composefs_from_str s =
     (if s = str ''signed'' then Inr Signed else and_then (tristate_from_str s) (\<lambda>t. Inr (CTristate t)))"

fun composefs_maybe_enabled :: "composefs_state \<Rightarrow> bool" where
  "composefs_maybe_enabled Signed = True"
| "composefs_maybe_enabled (CTristate t) = tristate_maybe_enabled t"

definition log_err_or_else :: "'a result \<Rightarrow> 'a \<Rightarrow> 'a" where
  "log_err_or_else r fallback = (case r of Inr x \<Rightarrow> x | Inl _ \<Rightarrow> fallback)"

definition overlayfs_enabled_in_config :: "keyfile \<Rightarrow> bool result" where
  "overlayfs_enabled_in_config config =
     and_then (optional_bool config (str ''root'') (str ''transient'')) (\<lambda>root_transient.
     and_then (optional_string config (str ''composefs'') (str ''enabled'')) (\<lambda>s.
     let root_transient = (case root_transient of Some b \<Rightarrow> b | None \<Rightarrow> False);
         transposed = (case s of None \<Rightarrow> Inr None | Some s \<Rightarrow> and_then (composefs_from_str s) (\<lambda>c. Inr (Some c)));
         composefs = (case log_err_or_else transposed None of Some c \<Rightarrow> c | None \<Rightarrow> composefs_default)
     in Inr (root_transient \<or> composefs_maybe_enabled composefs)))"

definition overlayfs_root_enabled :: "(rstr \<Rightarrow> keyfile result) \<Rightarrow> (rstr \<Rightarrow> rstr result option) \<Rightarrow> bool result" where
  "overlayfs_root_enabled parse read =
     and_then (load_config parse read) (\<lambda>config.
     case config of Some config \<Rightarrow> overlayfs_enabled_in_config config | None \<Rightarrow> Inr False)"

subsection \<open>Signature policy and skopeo\<close>

definition INSECURE_ACCEPT_ANYTHING :: rstr where "INSECURE_ACCEPT_ANYTHING = str ''insecureAcceptAnything''"

record policy_entry =
  pe_ty :: rstr

record container_policy =
  cp_default :: "policy_entry list option"

definition is_default_insecure :: "container_policy \<Rightarrow> bool" where
  "is_default_insecure policy =
     (case cp_default policy of
        Some entries \<Rightarrow> (case entries of [v] \<Rightarrow> pe_ty v = INSECURE_ACCEPT_ANYTHING | _ \<Rightarrow> False)
      | None \<Rightarrow> False)"

definition POLICY_PATH :: rstr where "POLICY_PATH = str ''/etc/containers/policy.json''"

definition container_policy_is_default_insecure ::
  "(rstr \<Rightarrow> rstr io_result) \<Rightarrow> (rstr \<Rightarrow> container_policy result) \<Rightarrow> bool result" where
  "container_policy_is_default_insecure open_path parse =
     and_then (io (open_path POLICY_PATH)) (\<lambda>r.
     and_then (parse r) (\<lambda>policy. Inr (is_default_insecure policy)))"

record command =
  cmd_program :: rstr
  cmd_args :: "rstr list"
  cmd_env_removed :: "rstr list"

definition command_new :: "rstr \<Rightarrow> command" where
  "command_new program = \<lparr>cmd_program = program, cmd_args = [], cmd_env_removed = []\<rparr>"

definition skopeo_copy_command :: "rstr \<Rightarrow> image_reference \<Rightarrow> image_reference \<Rightarrow> rstr option \<Rightarrow> command" where
  "skopeo_copy_command digestfile src dest authfile =
     (command_new (str ''skopeo''))\<lparr>cmd_args :=
        [str ''copy'', str ''--digestfile'', digestfile] @
        (case authfile of Some a \<Rightarrow> [str ''--authfile'', a] | None \<Rightarrow> []) @
        [image_reference_fmt src, image_reference_fmt dest]\<rparr>"

text \<open>\<^verbatim>\<open>run\<close> is the child process: whether it succeeded, and what it left in the digest file.\<close>

definition skopeo_copy ::
  "(command \<Rightarrow> (bool \<times> rstr) result) \<Rightarrow> (rstr \<Rightarrow> digest result) \<Rightarrow> rstr \<Rightarrow>
   image_reference \<Rightarrow> image_reference \<Rightarrow> rstr option \<Rightarrow> digest result" where
  "skopeo_copy run read_digest digestfile src dest authfile =
     and_then (run (skopeo_copy_command digestfile src dest authfile)) (\<lambda>(success, r).
     if \<not> success then Inl (Err ''skopeo failed'') else read_digest (trim r))"

subsection \<open>Configuration files and isolation\<close>

record config_paths =
  cf_persistent :: rstr
  cf_runtime :: rstr
  cf_system :: "rstr option"

definition relative_owned :: "rstr \<Rightarrow> rstr" where
  "relative_owned p = dropWhile (\<lambda>c. c = slash) p"

definition config_paths_new :: "rstr \<Rightarrow> rstr \<Rightarrow> rstr option \<Rightarrow> config_paths" where
  "config_paths_new persistent runtime system =
     (let push = (\<lambda>p. path_push (relative_owned p) (str ''ostree''))
      in \<lparr>cf_persistent = push persistent, cf_runtime = push runtime, cf_system = map_option push system\<rparr>)"

text \<open>\<^verbatim>\<open>user_dirs\<close> are glib's configuration and runtime directories of the user.\<close>

definition get_config_paths :: "rstr \<times> rstr \<Rightarrow> bool \<Rightarrow> config_paths" where
  "get_config_paths user_dirs root =
     (if root then config_paths_new (str ''etc'') (str ''run'') (Some (str ''usr/lib''))
      else config_paths_new (fst user_dirs) (snd user_dirs) None)"

text \<open>\<^verbatim>\<open>open_opt\<close> opens a file below the root directory, \<open>None\<close> when it does not exist.\<close>

definition open_file :: "(rstr \<Rightarrow> 'f option result) \<Rightarrow> config_paths \<Rightarrow> rstr \<Rightarrow> (rstr \<times> 'f) option result" where
  "open_file open_opt paths p =
     (let runtime = path_push (cf_runtime paths) p
      in and_then (open_opt runtime) (\<lambda>f.
         case f of
           Some f \<Rightarrow> Inr (Some (runtime, f))
         | None \<Rightarrow>
             let persistent = path_push (cf_persistent paths) p
             in and_then (open_opt persistent) (\<lambda>f.
                case f of
                  Some f \<Rightarrow> Inr (Some (persistent, f))
                | None \<Rightarrow>
                    (case cf_system paths of
                       Some system \<Rightarrow>
                         let system = path_push system p
                         in and_then (open_opt system) (\<lambda>f.
                            case f of Some f \<Rightarrow> Inr (Some (system, f)) | None \<Rightarrow> Inr None)
                     | None \<Rightarrow> Inr None))))"

definition get_global_authfile :: "(rstr \<Rightarrow> 'f option result) \<Rightarrow> rstr \<times> rstr \<Rightarrow> bool \<Rightarrow> (rstr \<times> 'f) option result" where
  "get_global_authfile open_opt user_dirs am_uid0 =
     open_file open_opt (get_config_paths user_dirs am_uid0) (str ''auth.json'')"

definition DEFAULT_UNPRIVILEGED_USER :: rstr where "DEFAULT_UNPRIVILEGED_USER = str ''nobody''"

text \<open>The environment variable \<^verbatim>\<open>INVOCATION_ID\<close> tells whether the process runs under systemd.\<close>

definition running_in_systemd :: "rstr option \<Rightarrow> bool" where
  "running_in_systemd invocation_id = (case invocation_id of Some s \<Rightarrow> s \<noteq> [] | None \<Rightarrow> False)"

definition unprivileged_subprocess :: "rstr option \<Rightarrow> rstr \<Rightarrow> rstr \<Rightarrow> command" where
  "unprivileged_subprocess invocation_id binary user =
     (if \<not> running_in_systemd invocation_id then command_new binary
      else \<lparr>cmd_program = str ''setpriv'',
        cmd_args = [str ''--no-new-privs'', str ''--init-groups'', str ''--reuid'', user, str ''--bounding-set'',
          str ''-all'', str ''--pdeathsig'', str ''TERM'', str ''--'', binary],
        cmd_env_removed = [str ''HOME'', str ''XDG_DATA_DIR'', str ''USER'']\<rparr>)"

record 'f proxy_config =
  pc_auth_anonymous :: bool
  pc_authfile :: "rstr option"
  pc_auth_data :: "'f option"
  pc_skopeo_cmd :: "command option"
  pc_certificate_directory :: "rstr option"
  pc_insecure_skip_tls_verification :: "bool option"

record 'f host =
  ho_open :: "rstr \<Rightarrow> 'f io_result"
  ho_open_optional :: "rstr \<Rightarrow> 'f option result"
  ho_user_dirs :: "rstr \<times> rstr"
  ho_am_root :: bool
  ho_invocation_id :: "rstr option"

definition merge_default_container_proxy_opts_with_isolation ::
  "'f host \<Rightarrow> 'f proxy_config \<Rightarrow> rstr option \<Rightarrow> 'f proxy_config result" where
  "merge_default_container_proxy_opts_with_isolation host config isolation_user =
     (let auth_specified = (pc_auth_anonymous config \<or> pc_authfile config \<noteq> None \<or> pc_auth_data config \<noteq> None)
      in and_then
           (if \<not> auth_specified then
              and_then (get_global_authfile (ho_open_optional host) (ho_user_dirs host) (ho_am_root host)) (\<lambda>a.
              let config = config\<lparr>pc_auth_data := map_option snd a\<rparr>
              in Inr (if pc_auth_data config = None then config\<lparr>pc_auth_anonymous := True\<rparr> else config))
            else Inr config) (\<lambda>config.
         let isolation_user = (if pc_skopeo_cmd config = None then isolation_user else None)
         in case isolation_user of
              None \<Rightarrow> Inr config
            | Some user \<Rightarrow>
                and_then
                  (case pc_authfile config of
                     Some authfile \<Rightarrow>
                       and_then (io (ho_open host authfile)) (\<lambda>f. Inr (config\<lparr>pc_authfile := None, pc_auth_data := Some f\<rparr>))
                   | None \<Rightarrow> Inr config) (\<lambda>config.
                let cmd = unprivileged_subprocess (ho_invocation_id host) (str ''skopeo'') user
                in Inr (config\<lparr>pc_skopeo_cmd := Some cmd\<rparr>))))"

definition merge_default_container_proxy_opts :: "'f host \<Rightarrow> 'f proxy_config \<Rightarrow> 'f proxy_config result" where
  "merge_default_container_proxy_opts host config =
     merge_default_container_proxy_opts_with_isolation host config
       (if ho_am_root host then Some DEFAULT_UNPRIVILEGED_USER else None)"

subsection \<open>Running in a container\<close>

definition V0_REPO_CONFIG :: rstr where "V0_REPO_CONFIG = str ''/sysroot/config''"
definition V1_REPO_CONFIG :: rstr where "V1_REPO_CONFIG = str ''/sysroot/ostree/repo/config''"
definition BARE_SPLIT_XATTRS_MODE :: rstr where "BARE_SPLIT_XATTRS_MODE = str ''bare-split-xattrs''"

text \<open>\<open>env_container\<close>: the variable \<^verbatim>\<open>container\<close> is set; \<open>path_exists\<close> tests a path.\<close>

definition running_in_container :: "bool \<Rightarrow> (rstr \<Rightarrow> bool) \<Rightarrow> bool" where
  "running_in_container env_container path_exists \<longleftrightarrow>
     env_container \<or> list_ex path_exists [str ''/run/.containerenv'', str ''/.dockerenv'']"

definition open_optional :: "(rstr \<Rightarrow> 'f io_result) \<Rightarrow> rstr \<Rightarrow> 'f option io_result" where
  "open_optional open_path path =
     (case open_path path of Inr r \<Rightarrow> Inr (Some r) | Inl e \<Rightarrow> if e = NotFound then Inr None else Inl e)"

definition transpose_result :: "'a option io_result \<Rightarrow> 'a io_result option" where
  "transpose_result r = (case r of Inr None \<Rightarrow> None | Inr (Some x) \<Rightarrow> Some (Inr x) | Inl e \<Rightarrow> Some (Inl e))"

definition is_bare_split_xattrs :: "(rstr \<Rightarrow> rstr io_result) \<Rightarrow> (rstr \<Rightarrow> keyfile result) \<Rightarrow> bool result" where
  "is_bare_split_xattrs open_path parse =
     (case (case transpose_result (open_optional open_path V1_REPO_CONFIG) of
              Some f \<Rightarrow> Some f
            | None \<Rightarrow> transpose_result (open_optional open_path V0_REPO_CONFIG)) of
        Some configf \<Rightarrow>
          and_then (io configf) (\<lambda>s.
          and_then (parse s) (\<lambda>kf.
          and_then (optional_string kf (str ''core'') (str ''mode'')) (\<lambda>mode.
          Inr (case mode of Some mode \<Rightarrow> mode = BARE_SPLIT_XATTRS_MODE | None \<Rightarrow> False))))
      | None \<Rightarrow> Inr False)"

definition is_ostree_container ::
  "(rstr \<Rightarrow> rstr io_result) \<Rightarrow> (rstr \<Rightarrow> keyfile result) \<Rightarrow> bool \<Rightarrow> (rstr \<Rightarrow> bool) \<Rightarrow> rstr option \<Rightarrow> bool result" where
  "is_ostree_container open_path parse env_container path_exists invocation_id =
     and_then (is_bare_split_xattrs open_path parse) (\<lambda>is_container_ostree.
     let in_systemd = invocation_id \<noteq> None;
         maybe_container = (running_in_container env_container path_exists \<or>
           (\<not> in_systemd \<and> \<not> path_exists (str ''/run/ostree-booted'')))
     in Inr (is_container_ostree \<and> maybe_container))"

definition require_ostree_container ::
  "(rstr \<Rightarrow> rstr io_result) \<Rightarrow> (rstr \<Rightarrow> keyfile result) \<Rightarrow> bool \<Rightarrow> (rstr \<Rightarrow> bool) \<Rightarrow> rstr option \<Rightarrow> unit result" where
  "require_ostree_container open_path parse env_container path_exists invocation_id =
     and_then (is_ostree_container open_path parse env_container path_exists invocation_id) (\<lambda>b.
     ensure b (Err ''Not in an ostree-based container environment''))"

subsection \<open>The kernel directory\<close>

definition MODULES :: rstr where "MODULES = str ''usr/lib/modules''"
definition VMLINUZ :: rstr where "VMLINUZ = str ''vmlinuz''"

text \<open>In a commit: the children of the modules directory with whether they are directories; \<open>exists\<close> tests
  a file below the root.\<close>

definition find_kernel_dir ::
  "(rstr \<times> bool) list result \<Rightarrow> (rstr \<Rightarrow> bool) \<Rightarrow> rstr option result" where
  "find_kernel_dir children path_exists =
     and_then children (\<lambda>children.
     try_fold (\<lambda>(name, isdir) r.
         let childpath = path_push MODULES name
         in if \<not> isdir then Inr r
            else if \<not> path_exists (path_push childpath VMLINUZ) then Inr r
            else if r \<noteq> None then Inl (Err ''Found multiple subdirectories'')
            else Inr (Some childpath))
       children None)"

text \<open>In a directory of the file system: the entries with the type or the error of reading it; a name that
  is not UTF-8 is \<open>None\<close>.\<close>

definition read_dir_optional :: "(rstr \<Rightarrow> 'd io_result) \<Rightarrow> rstr \<Rightarrow> 'd option result" where
  "read_dir_optional read_dir p =
     (case read_dir p of Inr r \<Rightarrow> Inr (Some r) | Inl e \<Rightarrow> if e = NotFound then Inr None else Inl (Err ''I/O error''))"

definition kernel_dir_step ::
  "(rstr \<Rightarrow> bool io_result) \<Rightarrow> (rstr option \<times> bool io_result) io_result \<Rightarrow> rstr option \<Rightarrow> rstr option result" where
  "kernel_dir_step try_exists child r =
     and_then (io child) (\<lambda>(name, isdir).
     and_then (io isdir) (\<lambda>isdir.
     if \<not> isdir then Inr r
     else case name of
            None \<Rightarrow> Inr r
          | Some name \<Rightarrow>
              let pbuf = path_push (path_push MODULES name) VMLINUZ
              in and_then (io (try_exists pbuf)) (\<lambda>found.
                 if \<not> found then Inr r
                 else let pbuf = (case path_parent pbuf of Some p \<Rightarrow> p | None \<Rightarrow> pbuf)
                      in if r \<noteq> None then Inl (Err ''Found multiple subdirectories'') else Inr (Some pbuf))))"

definition find_kernel_dir_fs ::
  "(rstr \<Rightarrow> (rstr option \<times> bool io_result) io_result list io_result) \<Rightarrow> (rstr \<Rightarrow> bool io_result) \<Rightarrow> rstr option result" where
  "find_kernel_dir_fs read_dir try_exists =
     and_then (read_dir_optional read_dir MODULES) (\<lambda>entries.
     case entries of
       None \<Rightarrow> Inr None
     | Some entries \<Rightarrow> try_fold (kernel_dir_step try_exists) entries None)"

subsection \<open>SELinux and mount points\<close>

definition INSTALL_T :: rstr where "INSTALL_T = str ''install_t''"

definition is_selinux_enabled :: "(rstr \<Rightarrow> bool) \<Rightarrow> bool" where
  "is_selinux_enabled path_exists = path_exists (path_push (str ''/sys/fs/selinux'') (str ''access''))"

definition verify_install_domain :: "(rstr \<Rightarrow> bool) \<Rightarrow> bool \<Rightarrow> rstr result \<Rightarrow> unit result" where
  "verify_install_domain path_exists am_root self_domain =
     (if \<not> is_selinux_enabled path_exists then Inr ()
      else if \<not> am_root then Inr ()
      else and_then self_domain (\<lambda>self_domain.
           let is_install_t = list_ex (\<lambda>x. x = INSTALL_T) (split_char 58 self_domain)
           in ensure is_install_t (Err ''the executing binary is not labeled install_exec_t'')))"

definition STATX_ATTR_MOUNT_ROOT :: u64 where "STATX_ATTR_MOUNT_ROOT = 0x2000"

datatype statx_error = NOSYS | OtherErrno

record statx =
  stx_attributes :: u64
  stx_attributes_mask :: u64

definition is_mountpoint :: "statx_error + statx \<Rightarrow> bool option result" where
  "is_mountpoint res =
     (case res of
        Inr r \<Rightarrow>
          let present = (0 < and (stx_attributes_mask r) STATX_ATTR_MOUNT_ROOT)
          in Inr (if present then Some (0 < and (stx_attributes r) STATX_ATTR_MOUNT_ROOT) else None)
      | Inl e \<Rightarrow> if e = NOSYS then Inr None else Inl (Err ''statx error''))"

section \<open>Lemmas\<close>

lemma io_simps [simp, result_simps]: "io (Inr x) = Inr x" "io (Inl e) = Inl (Err ''I/O error'')"
  by (simp_all add: io_def)

text \<open>A configuration file is searched for in the runtime, the persistent and the system directory, in this
  order; an error other than a missing file ends the search.\<close>

fun first_found :: "(rstr \<Rightarrow> 'f option result) \<Rightarrow> rstr list \<Rightarrow> (rstr \<times> 'f) option result" where
  "first_found open_opt [] = Inr None"
| "first_found open_opt (p # ps) =
     (case open_opt p of
        Inr (Some f) \<Rightarrow> Inr (Some (p, f))
      | Inr None \<Rightarrow> first_found open_opt ps
      | Inl e \<Rightarrow> Inl e)"

lemma open_file_first_found:
  "open_file open_opt paths p =
     first_found open_opt (map (\<lambda>d. path_push d p)
       ([cf_runtime paths, cf_persistent paths] @ (case cf_system paths of Some d \<Rightarrow> [d] | None \<Rightarrow> [])))"
  by (simp add: open_file_def and_then_def Let_def split: sum.splits option.splits)

lemma get_global_authfile_root:
  "get_global_authfile open_opt user_dirs True =
     first_found open_opt [str ''run/ostree/auth.json'', str ''etc/ostree/auth.json'', str ''usr/lib/ostree/auth.json'']"
proof -
  have paths: "path_push (path_push (relative_owned (str ''run'')) (str ''ostree'')) (str ''auth.json'') = str ''run/ostree/auth.json''"
    "path_push (path_push (relative_owned (str ''etc'')) (str ''ostree'')) (str ''auth.json'') = str ''etc/ostree/auth.json''"
    "path_push (path_push (relative_owned (str ''usr/lib'')) (str ''ostree'')) (str ''auth.json'') = str ''usr/lib/ostree/auth.json''"
    by code_simp+
  show ?thesis
    by (simp only: get_global_authfile_def open_file_first_found)
       (simp add: get_config_paths_def config_paths_new_def Let_def paths)
qed

text \<open>The two searches for the kernel directory.\<close>

definition kernel_dirs :: "(rstr \<times> bool) list \<Rightarrow> (rstr \<Rightarrow> bool) \<Rightarrow> rstr list" where
  "kernel_dirs children path_exists =
     map (\<lambda>(n, _). path_push MODULES n)
       (filter (\<lambda>(n, isdir). isdir \<and> path_exists (path_push (path_push MODULES n) VMLINUZ)) children)"

definition single_dir :: "rstr option \<Rightarrow> rstr list \<Rightarrow> rstr option result" where
  "single_dir r ds =
     (case ds of
        [] \<Rightarrow> Inr r
      | [d] \<Rightarrow> if r = None then Inr (Some d) else Inl (Err ''Found multiple subdirectories'')
      | _ \<Rightarrow> Inl (Err ''Found multiple subdirectories''))"

lemma kernel_dirs_simps [simp]:
  "kernel_dirs [] path_exists = []"
  "kernel_dirs ((n, isdir) # children) path_exists =
     (if isdir \<and> path_exists (path_push (path_push MODULES n) VMLINUZ)
      then path_push MODULES n # kernel_dirs children path_exists else kernel_dirs children path_exists)"
  by (simp_all add: kernel_dirs_def)

lemma single_dir_simps [simp]:
  "single_dir r [] = Inr r"
  "single_dir r (d # ds) = (if r \<noteq> None then Inl (Err ''Found multiple subdirectories'') else single_dir (Some d) ds)"
  by (simp_all add: single_dir_def split: list.split)

lemma find_kernel_dir_single:
  "find_kernel_dir (Inr children) path_exists = single_dir None (kernel_dirs children path_exists)"
proof -
  have "try_fold (\<lambda>(name, isdir) r.
         let childpath = path_push MODULES name
         in if \<not> isdir then Inr r
            else if \<not> path_exists (path_push childpath VMLINUZ) then Inr r
            else if r \<noteq> None then Inl (Err ''Found multiple subdirectories'')
            else Inr (Some childpath)) children r = single_dir r (kernel_dirs children path_exists)" for r
    by (induction children arbitrary: r) (auto simp: Let_def)
  then show ?thesis by (simp add: find_kernel_dir_def)
qed

lemma pop_vmlinuz:
  assumes "plain_name n"
  shows "path_parent (path_push (path_push MODULES n) VMLINUZ) = Some (path_push MODULES n)"
proof -
  have "components (path_push MODULES n) = components MODULES @ [Normal n]" "plain_name VMLINUZ"
    using components_push [OF assms] by (simp_all add: VMLINUZ_def plain_name_def path_consts str_simps)
  then have c: "components (path_push (path_push MODULES n) VMLINUZ) = components MODULES @ [Normal n, Normal VMLINUZ]"
    by (simp add: components_push)
  have "path_collect (components MODULES) = MODULES" by code_simp
  then have "path_collect (components MODULES @ [Normal n]) = path_push MODULES n"
    by (simp add: path_collect_snoc)
  then show ?thesis by (simp add: path_parent_def c)
qed

lemma find_kernel_dir_fs_single:
  assumes "\<forall>(n, _) \<in> set children. plain_name n"
  shows "try_fold (kernel_dir_step (\<lambda>p. Inr (path_exists p))) (map (\<lambda>(n, isdir). Inr (Some n, Inr isdir)) children) r =
    single_dir r (kernel_dirs children path_exists)"
  using assms
  by (induction children arbitrary: r)
     (auto simp: Let_def kernel_dir_step_def pop_vmlinuz)

text \<open>Where the authentication file may be, in the order of precedence: for root the runtime, the persistent and the system
  directory, for a user the runtime and the configuration directory.\<close>

definition auth_paths :: "'f host \<Rightarrow> rstr list" where
  "auth_paths host =
     (if ho_am_root host
      then [str ''run/ostree/auth.json'', str ''etc/ostree/auth.json'', str ''usr/lib/ostree/auth.json'']
      else [path_push (dropWhile (\<lambda>c. c = slash) (snd (ho_user_dirs host))) (str ''ostree/auth.json''),
            path_push (dropWhile (\<lambda>c. c = slash) (fst (ho_user_dirs host))) (str ''ostree/auth.json'')])"

lemma get_global_authfile_user:
  "get_global_authfile open_opt user_dirs False =
     first_found open_opt [path_push (dropWhile (\<lambda>c. c = slash) (snd user_dirs)) (str ''ostree/auth.json''),
       path_push (dropWhile (\<lambda>c. c = slash) (fst user_dirs)) (str ''ostree/auth.json'')]"
proof -
  have "\<not> is_absolute (str ''ostree'')" "\<not> is_absolute (str ''auth.json'')" "\<not> is_absolute (str ''ostree/auth.json'')"
    by code_simp+
  then have "path_push (path_push d (str ''ostree'')) (str ''auth.json'') = path_push d (str ''ostree/auth.json'')" for d
    by (simp add: path_push_def) (simp add: ends_with_iff path_consts str_simps)
  then show ?thesis
    by (simp only: get_global_authfile_def open_file_first_found)
       (simp add: get_config_paths_def config_paths_new_def relative_owned_def Let_def)
qed

lemma get_global_authfile_host:
  "get_global_authfile (ho_open_optional host) (ho_user_dirs host) (ho_am_root host) =
     first_found (ho_open_optional host) (auth_paths host)"
  by (cases "ho_am_root host") (simp_all only: get_global_authfile_root get_global_authfile_user auth_paths_def if_True if_False)

lemma first_found_Inr:
  "first_found open_opt ps = Inr a \<Longrightarrow>
   (case find (\<lambda>p. open_opt p \<noteq> Inr None) ps of
      None \<Rightarrow> a = None
    | Some p \<Rightarrow> \<exists>f. open_opt p = Inr (Some f) \<and> a = Some (p, f))"
  by (induction ps) (auto split: sum.splits option.splits)

text \<open>The two steps of the defaults for pulls: authentication, then isolation.\<close>

definition with_default_auth :: "'f host \<Rightarrow> 'f proxy_config \<Rightarrow> 'f proxy_config result" where
  "with_default_auth host config =
     (if \<not> (pc_auth_anonymous config \<or> pc_authfile config \<noteq> None \<or> pc_auth_data config \<noteq> None) then
        and_then (get_global_authfile (ho_open_optional host) (ho_user_dirs host) (ho_am_root host)) (\<lambda>a.
        Inr (config\<lparr>pc_auth_data := map_option snd a, pc_auth_anonymous := (a = None)\<rparr>))
      else Inr config)"

definition with_isolation :: "'f host \<Rightarrow> rstr \<Rightarrow> 'f proxy_config \<Rightarrow> 'f proxy_config result" where
  "with_isolation host user config =
     and_then
       (case pc_authfile config of
          Some authfile \<Rightarrow> and_then (io (ho_open host authfile)) (\<lambda>f. Inr (config\<lparr>pc_authfile := None, pc_auth_data := Some f\<rparr>))
        | None \<Rightarrow> Inr config) (\<lambda>config.
     Inr (config\<lparr>pc_skopeo_cmd := Some (unprivileged_subprocess (ho_invocation_id host) (str ''skopeo'') user)\<rparr>))"

lemma merge_default_steps:
  "merge_default_container_proxy_opts host config =
     and_then (with_default_auth host config)
       (if ho_am_root host \<and> pc_skopeo_cmd config = None then with_isolation host DEFAULT_UNPRIVILEGED_USER else Inr)"
  by (auto simp: merge_default_container_proxy_opts_def merge_default_container_proxy_opts_with_isolation_def
      with_default_auth_def with_isolation_def and_then_def Let_def split: sum.split option.split)

lemma with_default_auth_Inr:
  assumes "with_default_auth host config = Inr c"
  shows "pc_authfile c = pc_authfile config" "pc_skopeo_cmd c = pc_skopeo_cmd config"
    and "pc_auth_anonymous config \<or> pc_authfile config \<noteq> None \<or> pc_auth_data config \<noteq> None \<Longrightarrow> c = config"
    and "\<not> (pc_auth_anonymous config \<or> pc_authfile config \<noteq> None \<or> pc_auth_data config \<noteq> None) \<Longrightarrow>
      \<exists>a. get_global_authfile (ho_open_optional host) (ho_user_dirs host) (ho_am_root host) = Inr a \<and>
        pc_auth_data c = map_option snd a \<and> (pc_auth_anonymous c \<longleftrightarrow> a = None)"
  using assms by (auto simp: with_default_auth_def result_simps split: if_splits)

lemma with_isolation_Inr:
  assumes "with_isolation host user c = Inr c'"
  shows "pc_authfile c' = None" "pc_auth_anonymous c' = pc_auth_anonymous c"
    and "pc_skopeo_cmd c' = Some (unprivileged_subprocess (ho_invocation_id host) (str ''skopeo'') user)"
    and "pc_authfile c = Some p \<Longrightarrow> \<exists>f. ho_open host p = Inr f \<and> pc_auth_data c' = Some f"
    and "pc_authfile c = None \<Longrightarrow> pc_auth_data c' = pc_auth_data c"
  using assms by (auto simp: with_isolation_def io_def result_simps split: option.splits sum.splits)

section \<open>Theorems\<close>

text \<open>The search for the kernel directory in a checked out tree and the one in a commit agree: for the
  same children of the modules directory and the same files, both return the single directory that has a
  kernel, nothing when there is none, and an error when there are several.\<close>

theorem find_kernel_dir_agrees:
  assumes "\<forall>(n, _) \<in> set children. plain_name n"
    and "read_dir MODULES = Inr (map (\<lambda>(n, isdir). Inr (Some n, Inr isdir)) children)"
    and "\<forall>p. try_exists p = Inr (path_exists p)"
    and "ks = map fst (filter (\<lambda>(n, isdir). isdir \<and> path_exists (path_push (path_push MODULES n) VMLINUZ)) children)"
  shows "(find_kernel_dir_fs read_dir try_exists = find_kernel_dir (Inr children) path_exists) \<and>
    (find_kernel_dir (Inr children) path_exists =
      (case ks of
         [] \<Rightarrow> Inr None
       | [n] \<Rightarrow> Inr (Some (path_push MODULES n))
       | _ \<Rightarrow> Inl (Err ''Found multiple subdirectories'')))"
proof -
  have "try_exists = (\<lambda>p. Inr (path_exists p))" using assms(3) by auto
  then have f1: "find_kernel_dir_fs read_dir try_exists = find_kernel_dir (Inr children) path_exists"
    using find_kernel_dir_fs_single [OF assms(1), of path_exists None] assms(2)
    by (simp add: find_kernel_dir_fs_def read_dir_optional_def find_kernel_dir_single)
  have "kernel_dirs children path_exists = map (path_push MODULES) ks"
    by (simp add: assms(4) kernel_dirs_def comp_def case_prod_unfold)
  then have f2: "find_kernel_dir (Inr children) path_exists =
      (case ks of
         [] \<Rightarrow> Inr None
       | [n] \<Rightarrow> Inr (Some (path_push MODULES n))
       | _ \<Rightarrow> Inl (Err ''Found multiple subdirectories''))"
    by (simp add: find_kernel_dir_single split: list.split)
  show ?thesis using f1 f2 by blast
qed

theorem find_kernel_dir_agrees_witness:
  "find_kernel_dir_fs (\<lambda>p. if p = MODULES then Inr [Inr (Some (str ''5.12''), Inr True), Inr (Some (str ''5.13''), Inr True)] else Inl NotFound)
     (\<lambda>p. Inr (p = str ''usr/lib/modules/5.12/vmlinuz'')) = Inr (Some (str ''usr/lib/modules/5.12''))"
proof -
  let ?children = "[(str ''5.12'', True), (str ''5.13'', True)]"
  let ?ex = "\<lambda>p. p = str ''usr/lib/modules/5.12/vmlinuz''"
  have "\<forall>(n, _) \<in> set ?children. plain_name n" by (simp add: plain_name_def path_consts str_simps)
  moreover have "map fst (filter (\<lambda>(n, isdir). isdir \<and> ?ex (path_push (path_push MODULES n) VMLINUZ)) ?children) = [str ''5.12'']"
    by code_simp
  moreover have "path_push MODULES (str ''5.12'') = str ''usr/lib/modules/5.12''" by code_simp
  ultimately show ?thesis
    using find_kernel_dir_agrees [of ?children
        "\<lambda>p. if p = MODULES then Inr [Inr (Some (str ''5.12''), Inr True), Inr (Some (str ''5.13''), Inr True)] else Inl NotFound"
        "\<lambda>p. Inr (?ex p)" ?ex "[str ''5.12'']"]
    by simp
qed


definition sample_host :: "rstr host" where
  "sample_host = \<lparr>ho_open = (\<lambda>p. Inl NotFound),
     ho_open_optional = (\<lambda>p. Inr (if p = str ''etc/ostree/auth.json'' then Some (str ''token'') else None)),
     ho_user_dirs = ([], []), ho_am_root = True, ho_invocation_id = Some (str ''1'')\<rparr>"

definition sample_proxy_config :: "rstr proxy_config" where
  "sample_proxy_config = \<lparr>pc_auth_anonymous = False, pc_authfile = None, pc_auth_data = None, pc_skopeo_cmd = None,
     pc_certificate_directory = None, pc_insecure_skip_tls_verification = None\<rparr>"


end
