(* ===== verification/Fetch.thy ===== *)
theory Fetch
  imports Store TarImport HostConfig
begin

text \<open>
  Fetching images through the image proxy (\<^verbatim>\<open>lib/src/container/unencapsulate.rs\<close>, \<^verbatim>\<open>lib/src/tokio_util.rs\<close>):
  manifests, the blobs of layers with their decompression and progress, and the combination of the errors of
  the code that consumes a blob with those of the proxy that provides it.

  The proxy is a third-party process: an \<open>image_proxy\<close> is a record of its calls, where \<open>'i\<close> is its handle of
  an opened image.  A blob is given by its bytes together with the outcome of the proxy's side of the
  transfer, which is known only after the blob was read.
\<close>

section \<open>Definitions\<close>

record layer_info =
  li_digest :: digest
  li_size :: u64
  li_media_type :: media_type

record 'i image_proxy =
  px_open_image :: "rstr \<Rightarrow> 'i result"
  px_fetch_manifest :: "'i \<Rightarrow> (rstr \<times> image_manifest) result"
  px_fetch_config :: "'i \<Rightarrow> image_configuration result"
  px_get_layer_info :: "'i \<Rightarrow> layer_info list option result"
  px_get_blob :: "'i \<Rightarrow> digest \<Rightarrow> u64 \<Rightarrow> (bytes \<times> unit result) result"
  px_close_image :: "'i \<Rightarrow> unit result"
  px_finalize :: "unit result"

definition fetch_manifest ::
  "'i image_proxy \<Rightarrow> oci_json \<Rightarrow> ostree_image_reference \<Rightarrow> (image_manifest \<times> digest) result" where
  "fetch_manifest proxy js imgref =
     and_then (px_open_image proxy (image_reference_fmt (oir_imgref imgref))) (\<lambda>oi.
     and_then (px_fetch_manifest proxy oi) (\<lambda>(digest, manifest).
     and_then (px_close_image proxy oi) (\<lambda>_.
     and_then (oj_read_digest js digest) (\<lambda>digest.
     Inr (manifest, digest)))))"

definition fetch_manifest_and_config ::
  "'i image_proxy \<Rightarrow> oci_json \<Rightarrow> ostree_image_reference \<Rightarrow> (image_manifest \<times> digest \<times> image_configuration) result" where
  "fetch_manifest_and_config proxy js imgref =
     and_then (px_open_image proxy (image_reference_fmt (oir_imgref imgref))) (\<lambda>oi.
     and_then (px_fetch_manifest proxy oi) (\<lambda>(digest, manifest).
     and_then (oj_read_digest js digest) (\<lambda>digest.
     and_then (px_fetch_config proxy oi) (\<lambda>config.
     Inr (manifest, digest, config)))))"

text \<open>The result of a task on another thread: a panic there is an error of the task that waits for it.\<close>

definition flatten_task :: "'a result \<Rightarrow> 'a result" where
  "flatten_task r = (case r of Inl (Panic m) \<Rightarrow> Inl (Err ''task panicked'') | _ \<Rightarrow> r)"

definition BROKEN_PIPE :: string where "BROKEN_PIPE = ''broken pipe''"

text \<open>The text of the root cause of an error.\<close>

fun root_cause :: "failure \<Rightarrow> string" where
  "root_cause (Err m) = m"
| "root_cause (Panic m) = m"

definition join_fetch :: "'a result \<Rightarrow> unit result \<Rightarrow> 'a result" where
  "join_fetch worker driver =
     (case (worker, driver) of
        (Inr t, Inr _) \<Rightarrow> Inr t
      | (Inl w, Inl d) \<Rightarrow>
          (let text = root_cause d
           in if ends_with (str BROKEN_PIPE) (str text) then Inl w
              else Inl (Err (''proxy failure: '' @ text @ '' and client error'')))
      | (Inr _, Inl d) \<Rightarrow> Inl d
      | (Inl w, Inr _) \<Rightarrow> Inl w)"

definition DOCKER_TYPE_LAYER_TAR :: rstr where
  "DOCKER_TYPE_LAYER_TAR = str ''application/vnd.docker.image.rootfs.diff.tar''"

record decoders =
  de_gunzip :: "bytes \<Rightarrow> bytes result"
  de_unzstd :: "bytes \<Rightarrow> bytes result"
  de_untar :: "bytes \<Rightarrow> tar_entry list result"

definition decompressor :: "decoders \<Rightarrow> media_type \<Rightarrow> bytes \<Rightarrow> bytes result" where
  "decompressor de media_type src =
     (case media_type of
        ImageLayerZstd \<Rightarrow> de_unzstd de src
      | ImageLayerGzip \<Rightarrow> de_gunzip de src
      | ImageLayer \<Rightarrow> Inr src
      | OtherMedia t \<Rightarrow> if t = DOCKER_TYPE_LAYER_TAR then Inr src else Inl (Err ''Unhandled layer type'')
      | _ \<Rightarrow> Inl (Err ''Unhandled layer type''))"

text \<open>The entries of a layer: its blob, decompressed.\<close>

definition layer_entries :: "decoders \<Rightarrow> media_type \<Rightarrow> bytes \<Rightarrow> tar_entry list result" where
  "layer_entries de media_type blob = and_then (decompressor de media_type blob) (de_untar de)"

definition fetch_layer ::
  "'i image_proxy \<Rightarrow> 'i \<Rightarrow> image_manifest \<Rightarrow> descriptor \<Rightarrow> layer_info list option \<Rightarrow> transport \<Rightarrow>
   (bytes \<times> unit result \<times> media_type) result" where
  "fetch_layer proxy img manifest layer layer_info transport_src =
     and_then (ok_or (Panic ''position().unwrap()'') (index_of layer (m_layers manifest))) (\<lambda>layer_index.
     case transport_src of
       ContainerStorage \<Rightarrow>
         and_then (ok_or (Err ''skopeo too old to pull from containers-storage'') layer_info) (\<lambda>layer_info.
         and_then (if layer_index < length layer_info then Inr (layer_info ! layer_index)
                   else Inl (Err ''blobid position exceeds diffid count'')) (\<lambda>layer_blob.
         and_then (px_get_blob proxy img (li_digest layer_blob) (li_size layer_blob)) (\<lambda>(blob, driver).
         Inr (blob, driver, li_media_type layer_blob))))
     | _ \<Rightarrow>
         and_then (px_get_blob proxy img (d_digest layer) (d_size layer)) (\<lambda>(blob, driver).
         Inr (blob, driver, d_media_type layer)))"

text \<open>The reader that reports the bytes read so far: the values sent by a sequence of reads, given the
  number of filled bytes of the buffer before and after each.\<close>

definition PROGRESS_START :: u64 where "PROGRESS_START = 1"

definition poll_read_progress :: "nat \<times> nat \<Rightarrow> u64 \<Rightarrow> u64" where
  "poll_read_progress = (\<lambda>(len, newlen) state. state + of_nat (newlen - len))"

record layer_progress =
  lp_layer_index :: nat
  lp_fetched :: u64
  lp_total :: u64

definition reported_progress :: "nat \<Rightarrow> u64 \<Rightarrow> (nat \<times> nat) list \<Rightarrow> layer_progress" where
  "reported_progress layer_index sz reads =
     \<lparr>lp_layer_index = layer_index, lp_fetched = fold poll_read_progress reads PROGRESS_START, lp_total = sz\<rparr>"

section \<open>Lemmas\<close>

lemma flatten_task_Inr [simp]: "flatten_task r = Inr x \<longleftrightarrow> r = Inr x"
  by (auto simp: flatten_task_def split: sum.splits failure.splits)

lemma join_fetch_Inr: "join_fetch worker driver = Inr t \<longleftrightarrow> worker = Inr t \<and> driver = Inr ()"
  by (auto simp: join_fetch_def Let_def split: sum.splits if_splits)

lemma fetch_layer_blob:
  assumes "fetch_layer proxy img manifest layer info transport_src = Inr (blob, driver, mt)"
  shows "layer \<in> set (m_layers manifest)"
    and "transport_src \<noteq> ContainerStorage \<Longrightarrow>
      px_get_blob proxy img (d_digest layer) (d_size layer) = Inr (blob, driver) \<and> mt = d_media_type layer"
proof -
  have "index_of layer ls = Some i \<Longrightarrow> layer \<in> set ls" for ls i
    by (induction ls arbitrary: i) (auto split: if_splits)
  then show "layer \<in> set (m_layers manifest)"
    using assms by (auto simp: fetch_layer_def result_simps)
  show "transport_src \<noteq> ContainerStorage \<Longrightarrow>
      px_get_blob proxy img (d_digest layer) (d_size layer) = Inr (blob, driver) \<and> mt = d_media_type layer"
    using assms by (cases transport_src) (auto simp: fetch_layer_def result_simps)
qed

text \<open>The reported number of bytes starts at one: it exceeds the bytes read by one.\<close>

lemma progress_off_by_one:
  "lp_fetched (reported_progress i sz reads) = 1 + of_nat (sum_list (map (\<lambda>(len, newlen). newlen - len) reads))"
proof -
  have "fold poll_read_progress reads a = a + of_nat (sum_list (map (\<lambda>(len, newlen). newlen - len) reads))" for a
    by (induction reads arbitrary: a) (auto simp: poll_read_progress_def add.assoc)
  then show ?thesis by (simp add: reported_progress_def PROGRESS_START_def)
qed

end
