(* ===== verification/ImageImport.thy ===== *)
theory ImageImport
  imports Encapsulate Fetch
begin

text \<open>
  Importing a container image into a repository (the \<open>ImageImporter\<close> of \<^verbatim>\<open>lib/src/container/store.rs\<close>):
  preparing an import, importing the ostree layers and the derived layers, and writing the merge commit.

  The state is that of the repository, together with the progress messages sent (\<open>world\<close>).  A libostree
  transaction is the list of what is done in it; \<open>rp_commit_txn\<close> applies it to the repository when it is
  committed, and a transaction that is not committed leaves the repository as it was.  The merge of the
  layers in a temporary directory is the list of its checkouts.
\<close>

section \<open>Definitions\<close>

subsection \<open>The outside world\<close>

datatype checkout_mode = CheckoutNone | CheckoutUser

record checkout =
  ck_mode :: checkout_mode
  ck_process_whiteouts :: bool
  ck_commit :: rstr

datatype label_source = LabelFromMergedTree | LabelFromCommit rstr

datatype txn_op =
    TxnEvents "repo_event list"
  | TxnMergeCommit rstr "checkout list" label_source vardict u64
  | TxnSetRef rstr rstr

record 's import_repo = "'s ostree_repo" +
  rp_import_env :: "'s \<Rightarrow> import_env"
  rp_commit_txn :: "txn_op list \<Rightarrow> 's \<Rightarrow> 's result"
  rp_sepolicy :: "'s \<Rightarrow> rstr \<Rightarrow> rstr result"
  rp_ostree_child :: "rstr list \<Rightarrow> tar_entry list \<Rightarrow> 's \<Rightarrow> child_result \<times> 's"
  rp_commit_files :: "'s \<Rightarrow> rstr \<Rightarrow> (rstr \<Rightarrow> rstr result option) result"
  rp_bare :: bool
  rp_merged_commit :: "'s \<Rightarrow> checkout list \<Rightarrow> label_source \<Rightarrow> vardict \<Rightarrow> u64 \<Rightarrow> rstr result"

text \<open>Everything else the importer calls.  \<open>ic_policy_insecure\<close> is the value of
  \<open>container_policy_is_default_insecure\<close> on the host.\<close>

record ('s, 'i) import_ctx =
  ic_repo :: "'s import_repo"
  ic_proxy :: "'i image_proxy"
  ic_json :: oci_json
  ic_policy_insecure :: "bool result"
  ic_decoders :: decoders
  ic_parse_keyfile :: "rstr \<Rightarrow> keyfile result"
  ic_parse_time :: "rstr \<Rightarrow> u64 result"
  ic_now :: u64
  ic_arch :: rstr
  ic_version :: rstr

datatype import_progress =
    OstreeChunkStarted descriptor
  | OstreeChunkCompleted descriptor
  | DerivedLayerStarted descriptor
  | DerivedLayerCompleted descriptor

fun is_starting :: "import_progress \<Rightarrow> bool" where
  "is_starting (OstreeChunkStarted _) = True"
| "is_starting (OstreeChunkCompleted _) = False"
| "is_starting (DerivedLayerStarted _) = True"
| "is_starting (DerivedLayerCompleted _) = False"

record 's world =
  w_repo :: 's
  w_sent :: "import_progress list"

definition on_repo :: "('s, 'a) action \<Rightarrow> ('s world, 'a) action" where
  "on_repo m w = (let (r, s) = m (w_repo w) in (r, w\<lparr>w_repo := s\<rparr>))"

definition act_task :: "('s, 'a) action \<Rightarrow> ('s, 'a) action" where
  "act_task m s = (let (r, s') = m s in (flatten_task r, s'))"

text \<open>The worker that consumes a blob, joined with the outcome of the transfer.\<close>

definition act_join :: "('s, 'a) action \<Rightarrow> unit result \<Rightarrow> ('s, 'a) action" where
  "act_join worker driver s = (let (r, s') = worker s in (join_fetch r driver, s'))"

subsection \<open>The importer\<close>

record 'i image_importer =
  ii_imgref :: ostree_image_reference
  ii_target_imgref :: "ostree_image_reference option"
  ii_no_imgref :: bool
  ii_disable_gc :: bool
  ii_require_bootable :: bool
  ii_ostree_v2024_3 :: bool
  ii_proxy_img :: 'i
  ii_layer_progress :: "(import_progress \<Rightarrow> unit result) option"

definition proxy_options :: "'f host \<Rightarrow> ostree_image_reference \<Rightarrow> 'f proxy_config \<Rightarrow> 'f proxy_config result" where
  "proxy_options host imgref config =
     (if ir_transport (oir_imgref imgref) = ContainerStorage
      then merge_default_container_proxy_opts_with_isolation host config None
      else merge_default_container_proxy_opts host config)"

definition image_importer_new ::
  "'f host \<Rightarrow> ('f proxy_config \<Rightarrow> 'i image_proxy result) \<Rightarrow> bool \<Rightarrow> ostree_image_reference \<Rightarrow> 'f proxy_config \<Rightarrow>
   ('i image_proxy \<times> 'i image_importer) result" where
  "image_importer_new host start_proxy ostree_2024_3 imgref config =
     and_then (proxy_options host imgref config) (\<lambda>config.
     and_then (start_proxy config) (\<lambda>proxy.
     and_then (px_open_image proxy (image_reference_fmt (oir_imgref imgref))) (\<lambda>proxy_img.
     Inr (proxy, \<lparr>ii_imgref = imgref, ii_target_imgref = None, ii_no_imgref = False, ii_disable_gc = False,
       ii_require_bootable = False, ii_ostree_v2024_3 = ostree_2024_3, ii_proxy_img = proxy_img,
       ii_layer_progress = None\<rparr>))))"

definition set_target :: "ostree_image_reference \<Rightarrow> 'i image_importer \<Rightarrow> 'i image_importer" where
  "set_target target im = im\<lparr>ii_target_imgref := Some target\<rparr>"

definition set_no_imgref :: "'i image_importer \<Rightarrow> 'i image_importer" where
  "set_no_imgref im = im\<lparr>ii_no_imgref := True\<rparr>"

definition require_bootable :: "'i image_importer \<Rightarrow> 'i image_importer" where
  "require_bootable im = im\<lparr>ii_require_bootable := True\<rparr>"

definition set_ostree_version :: "u32 \<Rightarrow> u32 \<Rightarrow> 'i image_importer \<Rightarrow> 'i image_importer" where
  "set_ostree_version year v im = im\<lparr>ii_ostree_v2024_3 := (2024 < year \<or> (year = 2024 \<and> 3 \<le> v))\<rparr>"

definition disable_gc :: "'i image_importer \<Rightarrow> 'i image_importer" where
  "disable_gc im = im\<lparr>ii_disable_gc := True\<rparr>"

definition request_progress ::
  "(import_progress \<Rightarrow> unit result) \<Rightarrow> 'i image_importer \<Rightarrow> 'i image_importer result" where
  "request_progress receiver im =
     and_then (ensure (ii_layer_progress im = None) (Panic ''layer_progress.is_none()'')) (\<lambda>_.
     Inr (im\<lparr>ii_layer_progress := Some receiver\<rparr>))"

definition send_progress :: "'i image_importer \<Rightarrow> import_progress \<Rightarrow> ('s world, unit) action" where
  "send_progress im msg =
     (case ii_layer_progress im of
        None \<Rightarrow> act_ret ()
      | Some send \<Rightarrow>
          act_bind (act_result (send msg)) (\<lambda>_ w. (Inr (), w\<lparr>w_sent := w_sent w @ [msg]\<rparr>)))"

subsection \<open>Preparing an import\<close>

datatype prepare_result = AlreadyPresent layered_image_state | Ready prepared_import

definition cache_pending ::
  "('s, 'i) import_ctx \<Rightarrow> rstr \<Rightarrow> digest \<Rightarrow> image_manifest \<Rightarrow> image_configuration \<Rightarrow> ('s, unit) action" where
  "cache_pending ctx commit manifest_digest manifest config =
     (let commitmeta = kv_insert CACHED_KEY_MANIFEST_DIGEST (VString (digest_to_string manifest_digest)) []
      in act_bind (act_result (oj_write_manifest (ic_json ctx) manifest)) (\<lambda>cached_manifest.
         let commitmeta = kv_insert CACHED_KEY_MANIFEST (VString cached_manifest) commitmeta
         in act_bind (act_result (oj_write_config (ic_json ctx) config)) (\<lambda>cached_config.
            let commitmeta = kv_insert CACHED_KEY_CONFIG (VString cached_config) commitmeta
            in act_task (act_update (rp_write_detached (ic_repo ctx) commit commitmeta)))))"

definition bootable_checked :: "('s, 'i) import_ctx \<Rightarrow> 'i image_importer \<Rightarrow> image_configuration \<Rightarrow> unit result" where
  "bootable_checked ctx im config =
     (if ii_require_bootable im then
        let config_labels = labels_of config;
            bootable = (case config_labels of
              None \<Rightarrow> False
            | Some l \<Rightarrow> kv_lookup l METADATA_KEY_BOOTABLE \<noteq> None \<or> kv_lookup l BOOTC_LABEL \<noteq> None)
        in if \<not> bootable then Inl (Err ''Target image does not have ostree.bootable label'')
           else if c_architecture config \<noteq> ic_arch ctx then Inl (Err ''Image has unexpected architecture'')
           else Inr ()
      else Inr ())"

definition create_prepared_import ::
  "('s, 'i) import_ctx \<Rightarrow> 'i image_importer \<Rightarrow> 's \<Rightarrow> digest \<Rightarrow> image_manifest \<Rightarrow> image_configuration \<Rightarrow>
   layered_image_state option \<Rightarrow> rstr option \<Rightarrow> prepared_import result" where
  "create_prepared_import ctx im s manifest_digest manifest config previous_state previous_imageid =
     and_then (bootable_checked ctx im config) (\<lambda>_.
     and_then (parse_manifest_layout manifest config) (\<lambda>(commit_layer, component_layers, remaining_layers).
     let query = query_layer (ic_repo ctx) s
     in and_then (query commit_layer) (\<lambda>commit_layer.
        and_then (try_map query component_layers) (\<lambda>component_layers.
        and_then (try_map query remaining_layers) (\<lambda>remaining_layers.
        Inr \<lparr>pi_manifest_digest = manifest_digest, pi_manifest = manifest, pi_config = config,
             pi_previous_state = previous_state,
             pi_previous_manifest_digest = map_option ls_manifest_digest previous_state,
             pi_previous_imageid = previous_imageid, pi_ostree_layers = component_layers,
             pi_ostree_commit_layer = commit_layer, pi_layers = remaining_layers\<rparr>)))))"

definition policy_checked :: "('s, 'i) import_ctx \<Rightarrow> 'i image_importer \<Rightarrow> unit result" where
  "policy_checked ctx im =
     (if oir_sigverify (ii_imgref im) = ContainerPolicy
      then and_then (ic_policy_insecure ctx) (\<lambda>insecure.
           ensure (\<not> insecure) (Err ''containers-policy.json specifies a default of insecureAcceptAnything; refusing usage''))
      else Inr ())"

definition prepare_new ::
  "('s, 'i) import_ctx \<Rightarrow> 'i image_importer \<Rightarrow> digest \<Rightarrow> image_manifest \<Rightarrow> layered_image_state option \<Rightarrow> rstr option \<Rightarrow>
   ('s, prepare_result) action" where
  "prepare_new ctx im manifest_digest manifest previous_state previous_imageid =
     act_bind (act_result (px_fetch_config (ic_proxy ctx) (ii_proxy_img im))) (\<lambda>config.
     act_bind (case previous_state of
                 Some st \<Rightarrow> cache_pending ctx (ls_merge_commit st) manifest_digest manifest config
               | None \<Rightarrow> act_ret ()) (\<lambda>_.
     act_bind (act_query (\<lambda>s. create_prepared_import ctx im s manifest_digest manifest config previous_state previous_imageid)) (\<lambda>imp.
     act_ret (Ready imp))))"

definition prepare_internal ::
  "('s, 'i) import_ctx \<Rightarrow> 'i image_importer \<Rightarrow> bool \<Rightarrow> ('s, prepare_result) action" where
  "prepare_internal ctx im verify_layers =
     act_bind (act_result (policy_checked ctx im)) (\<lambda>_.
     act_bind (act_result (case oir_sigverify (ii_imgref im) of
         OstreeRemote _ \<Rightarrow> ensure (\<not> verify_layers) (Err ''Cannot currently verify layered containers via ostree remote'')
       | _ \<Rightarrow> Inr ())) (\<lambda>_.
     act_bind (act_result (px_fetch_manifest (ic_proxy ctx) (ii_proxy_img im))) (\<lambda>(manifest_digest, manifest).
     act_bind (act_result (oj_read_digest (ic_json ctx) manifest_digest)) (\<lambda>manifest_digest.
     let new_imageid = d_digest (m_config manifest)
     in act_bind (act_query (\<lambda>s. try_query_image (ic_repo ctx) (ic_json ctx) s (oir_imgref (ii_imgref im)))) (\<lambda>previous.
        case previous of
          Some previous_state \<Rightarrow>
            if ls_manifest_digest previous_state = manifest_digest then act_ret (AlreadyPresent previous_state)
            else let previous_imageid = d_digest (m_config (ls_manifest previous_state))
                 in if previous_imageid = new_imageid then act_ret (AlreadyPresent previous_state)
                    else prepare_new ctx im manifest_digest manifest (Some previous_state) (Some (digest_to_string previous_imageid))
        | None \<Rightarrow> prepare_new ctx im manifest_digest manifest None None)))))"

definition prepare :: "('s, 'i) import_ctx \<Rightarrow> 'i image_importer \<Rightarrow> ('s, prepare_result) action" where
  "prepare ctx im = prepare_internal ctx im False"

subsection \<open>The ostree layers\<close>

text \<open>What is done in the transaction of an object set layer, and in that of the commit layer.\<close>

definition object_set_txn ::
  "('s, 'i) import_ctx \<Rightarrow> bool \<Rightarrow> rstr \<Rightarrow> media_type \<Rightarrow> bytes \<Rightarrow> 's \<Rightarrow> (rstr option \<times> txn_op list) result" where
  "object_set_txn ctx write_refs target_ref media_type blob s =
     (let env = rp_import_env (ic_repo ctx) s
      in and_then (call env TxnBegin new_for_object_set) (\<lambda>(_, importer).
         and_then (layer_entries (ic_decoders ctx) media_type blob) (\<lambda>archive.
         and_then (import_objects_impl env archive importer) (\<lambda>importer.
         if write_refs then
           and_then (finish_import_object_set env importer) (\<lambda>(commit, importer).
           Inr (Some commit, [TxnEvents (im_log importer), TxnSetRef target_ref commit]))
         else Inr (None, [TxnEvents (im_log importer)])))))"

definition commit_txn ::
  "('s, 'i) import_ctx \<Rightarrow> bool \<Rightarrow> rstr option \<Rightarrow> rstr \<Rightarrow> media_type \<Rightarrow> bytes \<Rightarrow> 's \<Rightarrow> (rstr \<times> txn_op list) result" where
  "commit_txn ctx write_refs remote target_ref media_type blob s =
     (let env = rp_import_env (ic_repo ctx) s
      in and_then (call env TxnBegin (new_for_commit remote)) (\<lambda>(_, importer).
         and_then (layer_entries (ic_decoders ctx) media_type blob) (\<lambda>archive.
         and_then (import_commit env archive importer) (\<lambda>importer.
         and_then (finish_import_commit importer) (\<lambda>commit.
         and_then (call env (MarkPartial commit False) importer) (\<lambda>(_, importer).
         Inr (commit, TxnEvents (im_log importer) # (if write_refs then [TxnSetRef target_ref commit] else []))))))))"

definition in_txn :: "('s, 'i) import_ctx \<Rightarrow> ('s \<Rightarrow> ('a \<times> txn_op list) result) \<Rightarrow> ('s, 'a) action" where
  "in_txn ctx txn =
     act_task (act_bind (act_query txn) (\<lambda>(r, ops). act_bind (act_update (rp_commit_txn (ic_repo ctx) ops)) (\<lambda>_. act_ret r)))"

text \<open>Fetching a layer and running its worker, with the messages around it.\<close>

definition fetch_with_progress ::
  "('s, 'i) import_ctx \<Rightarrow> 'i image_importer \<Rightarrow> image_manifest \<Rightarrow> layer_info list option \<Rightarrow> descriptor \<Rightarrow>
   import_progress \<Rightarrow> import_progress \<Rightarrow> (media_type \<Rightarrow> bytes \<Rightarrow> ('s, 'a) action) \<Rightarrow> ('s world, 'a) action" where
  "fetch_with_progress ctx im manifest des_layers layer started completed worker =
     act_bind (send_progress im started) (\<lambda>_.
     act_bind (act_result (fetch_layer (ic_proxy ctx) (ii_proxy_img im) manifest layer des_layers
         (ir_transport (oir_imgref (ii_imgref im))))) (\<lambda>(blob, driver, media_type).
     act_bind (on_repo (act_join (worker media_type blob) driver)) (\<lambda>r.
     act_bind (send_progress im completed) (\<lambda>_.
     act_ret r))))"

definition fetch_object_set ::
  "('s, 'i) import_ctx \<Rightarrow> 'i image_importer \<Rightarrow> image_manifest \<Rightarrow> layer_info list option \<Rightarrow> bool \<Rightarrow>
   manifest_layer_state \<Rightarrow> ('s world, manifest_layer_state) action" where
  "fetch_object_set ctx im manifest des_layers write_refs layer =
     (if ml_commit layer \<noteq> None then act_ret layer
      else act_bind (fetch_with_progress ctx im manifest des_layers (ml_layer layer)
             (OstreeChunkStarted (ml_layer layer)) (OstreeChunkCompleted (ml_layer layer))
             (\<lambda>media_type blob. in_txn ctx (object_set_txn ctx write_refs (ml_ostree_ref layer) media_type blob))) (\<lambda>commit.
           act_ret (layer\<lparr>ml_commit := commit\<rparr>)))"

definition fetch_commit ::
  "('s, 'i) import_ctx \<Rightarrow> 'i image_importer \<Rightarrow> image_manifest \<Rightarrow> layer_info list option \<Rightarrow> bool \<Rightarrow> rstr option \<Rightarrow>
   manifest_layer_state \<Rightarrow> ('s world, manifest_layer_state) action" where
  "fetch_commit ctx im manifest des_layers write_refs remote layer =
     (if ml_commit layer \<noteq> None then act_ret layer
      else act_bind (fetch_with_progress ctx im manifest des_layers (ml_layer layer)
             (OstreeChunkStarted (ml_layer layer)) (OstreeChunkCompleted (ml_layer layer))
             (\<lambda>media_type blob. in_txn ctx (commit_txn ctx write_refs remote (ml_ostree_ref layer) media_type blob))) (\<lambda>commit.
           act_ret (layer\<lparr>ml_commit := Some commit\<rparr>)))"

definition sigverify_remote :: "signature_source \<Rightarrow> rstr option" where
  "sigverify_remote src =
     (case src of OstreeRemote remote \<Rightarrow> Some remote | ContainerPolicy \<Rightarrow> None | ContainerPolicyAllowInsecure \<Rightarrow> None)"

definition unencapsulate_base ::
  "('s, 'i) import_ctx \<Rightarrow> 'i image_importer \<Rightarrow> bool \<Rightarrow> prepared_import \<Rightarrow> ('s world, prepared_import) action" where
  "unencapsulate_base ctx im write_refs imp =
     act_bind (act_result (policy_checked ctx im)) (\<lambda>_.
     let remote = sigverify_remote (oir_sigverify (ii_imgref im))
     in act_bind (act_result (px_get_layer_info (ic_proxy ctx) (ii_proxy_img im))) (\<lambda>des_layers.
        act_bind (act_collect (fetch_object_set ctx im (pi_manifest imp) des_layers write_refs) (pi_ostree_layers imp)) (\<lambda>ostree_layers.
        act_bind (fetch_commit ctx im (pi_manifest imp) des_layers write_refs remote (pi_ostree_commit_layer imp)) (\<lambda>commit_layer.
        act_ret (imp\<lparr>pi_ostree_layers := ostree_layers, pi_ostree_commit_layer := commit_layer\<rparr>)))))"

record import_result =
  im_ostree_commit :: rstr
  im_image_digest :: digest
  im_deprecated_warning :: "rstr option"

definition unencapsulate :: "('s, 'i) import_ctx \<Rightarrow> 'i image_importer \<Rightarrow> ('s world, import_result) action" where
  "unencapsulate ctx im =
     act_bind (on_repo (prepare_internal ctx im False)) (\<lambda>r.
     case r of
       AlreadyPresent _ \<Rightarrow> act_result (Inl (Panic ''Should not have image present for unencapsulation''))
     | Ready prep \<Rightarrow>
         if pi_layers prep \<noteq> [] then act_result (Inl (Err ''Image has non-ostree layers''))
         else act_bind (unencapsulate_base ctx im False prep) (\<lambda>prep.
              act_bind (act_result (px_close_image (ic_proxy ctx) (ii_proxy_img im))) (\<lambda>_.
              act_bind (act_result (ok_or (Panic ''commit.unwrap()'') (ml_commit (pi_ostree_commit_layer prep)))) (\<lambda>ostree_commit.
              act_ret \<lparr>im_ostree_commit = ostree_commit, im_image_digest = pi_manifest_digest prep, im_deprecated_warning = None\<rparr>))))"

subsection \<open>The derived layers and the merge commit\<close>

type_synonym filtered_data = "(rstr, (rstr, u32) kvmap) kvmap"

definition import_derived_layer ::
  "('s, 'i) import_ctx \<Rightarrow> 'i image_importer \<Rightarrow> image_manifest \<Rightarrow> layer_info list option \<Rightarrow> rstr \<Rightarrow> bool \<Rightarrow>
   manifest_layer_state \<Rightarrow> rstr list \<times> filtered_data \<Rightarrow> ('s world, rstr list \<times> filtered_data) action" where
  "import_derived_layer ctx im manifest des_layers base_commit root_is_transient layer = (\<lambda>(layer_commits, filtered_content).
     case ml_commit layer of
       Some c \<Rightarrow> act_ret (layer_commits @ [c], filtered_content)
     | None \<Rightarrow>
         let opts = \<lparr>wo_base = Some base_commit, wo_selinux = True, wo_allow_nonusr = root_is_transient,
                     wo_retain_var = ii_ostree_v2024_3 im\<rparr>
         in act_bind (fetch_with_progress ctx im manifest des_layers (ml_layer layer)
              (DerivedLayerStarted (ml_layer layer)) (DerivedLayerCompleted (ml_layer layer))
              (\<lambda>media_type blob. write_tar (rp_sepolicy (ic_repo ctx)) (rp_ostree_child (ic_repo ctx)) (ic_version ctx)
                 (layer_entries (ic_decoders ctx) media_type blob) (ml_ostree_ref layer) (Some opts))) (\<lambda>r.
            act_ret (layer_commits @ [wr_commit r],
              if wr_filtered r \<noteq> []
              then kv_insert (digest_to_string (d_digest (ml_layer layer))) (wr_filtered r) filtered_content
              else filtered_content)))"

definition IMPORTER_VERSION_KEY :: rstr where "IMPORTER_VERSION_KEY = str ''ostree.importer.version''"

definition merge_metadata ::
  "('s, 'i) import_ctx \<Rightarrow> prepared_import \<Rightarrow> filtered_data \<Rightarrow> vardict result" where
  "merge_metadata ctx imp filtered_content =
     and_then (oj_write_manifest (ic_json ctx) (pi_manifest imp)) (\<lambda>serialized_manifest.
     and_then (oj_write_config (ic_json ctx) (pi_config imp)) (\<lambda>serialized_config.
     let metadata = kv_insert META_MANIFEST_DIGEST (VString (digest_to_string (pi_manifest_digest imp))) [];
         metadata = kv_insert META_MANIFEST (VString serialized_manifest) metadata;
         metadata = kv_insert META_CONFIG (VString serialized_config) metadata;
         metadata = kv_insert IMPORTER_VERSION_KEY (VString (ic_version ctx)) metadata
     in Inr (kv_insert META_FILTERED (VFiltered filtered_content) metadata)))"

definition merge_layers ::
  "('s, 'i) import_ctx \<Rightarrow> 'i image_importer \<Rightarrow> rstr \<Rightarrow> rstr \<Rightarrow> rstr list \<Rightarrow> bool \<Rightarrow> vardict \<Rightarrow> u64 \<Rightarrow>
   ('s, layered_image_state) action" where
  "merge_layers ctx im ostree_ref base_commit layer_commits have_derived_layers metadata timestamp =
     (let repo = ic_repo ctx;
          checkout_mode = (if rp_bare repo then CheckoutNone else CheckoutUser);
          checkouts = \<lparr>ck_mode = checkout_mode, ck_process_whiteouts = False, ck_commit = base_commit\<rparr> #
            map (\<lambda>c. \<lparr>ck_mode = checkout_mode, ck_process_whiteouts = True, ck_commit = c\<rparr>) layer_commits;
          labels = (if have_derived_layers then LabelFromMergedTree else LabelFromCommit base_commit)
      in act_bind (act_query (\<lambda>s. rp_merged_commit repo s checkouts labels metadata timestamp)) (\<lambda>merged_commit.
         act_bind (act_update (rp_commit_txn repo
             (TxnMergeCommit merged_commit checkouts labels metadata timestamp #
              (if \<not> ii_no_imgref im then [TxnSetRef ostree_ref merged_commit] else [])))) (\<lambda>_.
         act_bind (if \<not> ii_disable_gc im then act_bind (gc_image_layers repo (ic_json ctx)) (\<lambda>_. act_ret ())
                   else act_ret ()) (\<lambda>_.
         act_query (\<lambda>s. query_image_commit repo (ic_json ctx) s merged_commit)))))"

definition import_image ::
  "('s, 'i) import_ctx \<Rightarrow> 'i image_importer \<Rightarrow> prepared_import \<Rightarrow> ('s world, layered_image_state) action" where
  "import_image ctx im imp =
     act_bind (unencapsulate_base ctx im True imp) (\<lambda>imp.
     act_bind (act_result (px_get_layer_info (ic_proxy ctx) (ii_proxy_img im))) (\<lambda>des_layers.
     let target_imgref = (case ii_target_imgref im of Some t \<Rightarrow> t | None \<Rightarrow> ii_imgref im)
     in act_bind (act_result (ok_or (Panic ''commit.unwrap()'') (ml_commit (pi_ostree_commit_layer imp)))) (\<lambda>base_commit.
        act_bind (on_repo (act_query (\<lambda>s. and_then (rp_commit_files (ic_repo ctx) s base_commit)
            (overlayfs_root_enabled (ic_parse_keyfile ctx))))) (\<lambda>root_is_transient.
        act_bind (act_result (ref_for_image (oir_imgref target_imgref))) (\<lambda>ostree_ref.
        act_bind (act_fold (import_derived_layer ctx im (pi_manifest imp) des_layers base_commit root_is_transient)
            (pi_layers imp) ([], [])) (\<lambda>(layer_commits, filtered_content).
        act_bind (act_result (px_close_image (ic_proxy ctx) (ii_proxy_img im))) (\<lambda>_.
        act_bind (act_result (px_finalize (ic_proxy ctx))) (\<lambda>_.
        act_bind (act_result (merge_metadata ctx imp filtered_content)) (\<lambda>metadata.
        let timestamp = (case timestamp_of_manifest_or_config (ic_parse_time ctx) (pi_manifest imp) (pi_config imp) of
              Some t \<Rightarrow> t | None \<Rightarrow> ic_now ctx)
        in on_repo (act_task (merge_layers ctx im ostree_ref base_commit layer_commits (pi_layers imp \<noteq> []) metadata timestamp)))))))))))"

section \<open>Lemmas\<close>

subsection \<open>Actions on the repository\<close>

lemma on_repo_app [act_simps]: "on_repo m w = (r, w') \<longleftrightarrow> (\<exists>s. m (w_repo w) = (r, s) \<and> w' = w\<lparr>w_repo := s\<rparr>)"
  by (auto simp: on_repo_def split: prod.splits)

lemma act_task_Inr [act_simps]: "act_task m s = (Inr x, s') \<longleftrightarrow> m s = (Inr x, s')"
  by (auto simp: act_task_def split: prod.splits)

lemma act_join_Inr [act_simps]: "act_join m d s = (Inr x, s') \<longleftrightarrow> m s = (Inr x, s') \<and> d = Inr ()"
  by (auto simp: act_join_def join_fetch_Inr split: prod.splits)

lemma leads_task [leads_intros]: "leads R m \<Longrightarrow> leads R (act_task m)"
  by (auto simp: leads_def act_task_def split: prod.splits) (metis snd_conv)

lemma leads_join [leads_intros]: "leads R m \<Longrightarrow> leads R (act_join m d)"
  by (auto simp: leads_def act_join_def split: prod.splits) (metis snd_conv)

text \<open>What an action on the world does to the repository.\<close>

definition repo_rel :: "('s \<Rightarrow> 's \<Rightarrow> bool) \<Rightarrow> 's world \<Rightarrow> 's world \<Rightarrow> bool" where
  "repo_rel R w w' \<longleftrightarrow> R (w_repo w) (w_repo w')"

lemma repo_rel_preorder [leads_intros]: "reflp R \<Longrightarrow> reflp (repo_rel R)" "transp R \<Longrightarrow> transp (repo_rel R)"
  by (auto simp: repo_rel_def reflp_def transp_def)

lemma leads_on_repo [leads_intros]: "leads R m \<Longrightarrow> leads (repo_rel R) (on_repo m)"
  by (auto simp: leads_def on_repo_def repo_rel_def split: prod.splits) (metis snd_conv)

lemma leads_send [leads_intros]: "reflp R \<Longrightarrow> leads (repo_rel R) (send_progress im msg)"
  by (auto simp: leads_def send_progress_def repo_rel_def act_bind_def act_result_def intro: reflpD
      split: option.splits sum.splits)

lemma leads_fetch [leads_intros]:
  "reflp R \<Longrightarrow> transp R \<Longrightarrow> (\<And>mt blob. leads R (worker mt blob)) \<Longrightarrow>
   leads (repo_rel R) (fetch_with_progress ctx im manifest info layer started completed worker)"
  unfolding fetch_with_progress_def by (intro leads_intros) (auto split: prod.splits intro!: leads_intros)

lemma fetch_with_progress_Inr:
  assumes "fetch_with_progress ctx im manifest info layer started completed worker w = (Inr r, w')"
  shows "\<exists>blob driver mt. fetch_layer (ic_proxy ctx) (ii_proxy_img im) manifest layer info
      (ir_transport (oir_imgref (ii_imgref im))) = Inr (blob, driver, mt) \<and> driver = Inr () \<and>
    worker mt blob (w_repo w) = (Inr r, w_repo w')"
  using assms
  by (auto simp: fetch_with_progress_def act_simps send_progress_def act_result_def split: option.splits prod.splits)

lemma leads_child:
  assumes "\<And>s. R s (snd (child s))"
  shows "leads R (\<lambda>s. case child s of (r, s') \<Rightarrow> if \<not> cr_success r then (Inl e, s') else (Inr (f r), s'))"
  unfolding leads_def
proof
  fix s
  obtain r s' where "child s = (r, s')" by (cases "child s")
  then show "R s (snd (case child s of (r, s') \<Rightarrow> if \<not> cr_success r then (Inl e, s') else (Inr (f r), s')))"
    using assms [of s] by simp
qed

lemma leads_write_tar [leads_intros]:
  assumes "reflp R" "transp R" "\<And>args dest s. R s (snd (child args dest s))"
  shows "leads R (write_tar sepolicy child version src refname options)"
  unfolding write_tar_def Let_def
  by (intro leads_intros assms(1,2))
     (auto split: option.splits prod.splits intro!: leads_intros leads_child assms)

subsection \<open>Verified transactions\<close>

text \<open>The transactions an import with a verification remote commits.  The first kind stores a commit of the image: the
  check of the signature of this very commit and its detached metadata comes before anything is stored, nothing but
  objects of its tree follows, and the only ref set leads to it.  The second kind stores the content objects of a layer;
  its only commit is the synthetic one the importer makes to hold them, which nobody signed.  The third kind
  stores the merge commit the importer makes of the commits of the layers, not signed either, and reads nothing
  of the image.\<close>

definition signed_commit_txn :: "import_env \<Rightarrow> rstr \<Rightarrow> txn_op list \<Rightarrow> bool" where
  "signed_commit_txn env remote ops \<longleftrightarrow>
     (\<exists>checksum commit meta evs0 refs.
        ops = TxnEvents ([TxnBegin, VerifySignature remote commit meta, MarkPartial checksum True,
          WriteMetadata ObjCommit (Some checksum) commit, WriteDetached checksum meta] @ evs0 @ [MarkPartial checksum False]) # refs \<and>
        is_ok (ie_answer env (VerifySignature remote commit meta)) \<and> list_all object_event evs0 \<and>
        list_all (\<lambda>op. \<exists>r. op = TxnSetRef r checksum) refs)"

definition layer_objects_txn :: "import_env \<Rightarrow> txn_op list \<Rightarrow> bool" where
  "layer_objects_txn env ops \<longleftrightarrow>
     (\<exists>evs0 synthetic refs. ops = TxnEvents (TxnBegin # evs0 @ synthetic) # refs \<and>
        list_all (\<lambda>ev. content_event ev \<noteq> None) evs0 \<and>
        (synthetic = [] \<and> refs = [] \<or>
         (\<exists>objset dirmeta c r. synthetic = [WriteMetadata ObjDirMeta None (ie_default_dirmeta env), WriteObjectSetCommit objset dirmeta] \<and>
            ie_answer env (WriteObjectSetCommit objset dirmeta) = Inr c \<and> refs = [TxnSetRef r c] \<and>
            set (map content_event evs0) \<subseteq> Some ` set objset)))"

definition merge_txn :: "txn_op list \<Rightarrow> bool" where
  "merge_txn ops \<longleftrightarrow>
     (\<exists>c checkouts labels metadata t refs. ops = TxnMergeCommit c checkouts labels metadata t # refs \<and>
        list_all (\<lambda>op. \<exists>r. op = TxnSetRef r c) refs)"

definition txn_verified :: "import_env \<Rightarrow> rstr \<Rightarrow> txn_op list \<Rightarrow> bool" where
  "txn_verified env remote ops \<longleftrightarrow> signed_commit_txn env remote ops \<or> layer_objects_txn env ops \<or> merge_txn ops"

text \<open>In a list of events, every commit object of an image is preceded by a successful check of a signature of
  this very commit.\<close>

definition commits_verified :: "import_env \<Rightarrow> rstr \<Rightarrow> repo_event list \<Rightarrow> bool" where
  "commits_verified env remote evs0 \<longleftrightarrow>
     (\<forall>pre checksum commit post. evs0 = pre @ WriteMetadata ObjCommit checksum commit # post \<longrightarrow>
        (\<exists>meta. VerifySignature remote commit meta \<in> set pre \<and> is_ok (ie_answer env (VerifySignature remote commit meta))))"

definition writes_commit :: "repo_event \<Rightarrow> bool" where
  "writes_commit e \<longleftrightarrow> (\<exists>c d. e = WriteMetadata ObjCommit c d)"

lemma object_event_no_commit: "object_event e \<Longrightarrow> \<not> writes_commit e"
  by (auto simp: object_event_def writes_commit_def elim!: tree_event.elims)

lemma commits_verified_none: "list_all (\<lambda>e. \<not> writes_commit e) evs0 \<Longrightarrow> commits_verified env remote evs0"
  by (auto simp: commits_verified_def writes_commit_def list_all_iff)

lemma commits_verified_after:
  assumes "VerifySignature remote commit meta \<in> set pre" "is_ok (ie_answer env (VerifySignature remote commit meta))"
    and "list_all (\<lambda>e. \<not> writes_commit e) pre" "list_all (\<lambda>e. \<not> writes_commit e) post"
  shows "commits_verified env remote (pre @ WriteMetadata ObjCommit c commit # post)"
  unfolding commits_verified_def
proof (intro allI impI)
  fix pre' c' commit' post'
  assume eq: "pre @ WriteMetadata ObjCommit c commit # post = pre' @ WriteMetadata ObjCommit c' commit' # post'"
  have no: "WriteMetadata ObjCommit c' commit' \<notin> set pre" "WriteMetadata ObjCommit c' commit' \<notin> set post"
    "WriteMetadata ObjCommit c commit \<notin> set pre"
    using assms(3,4) by (auto simp: list_all_iff writes_commit_def)
  from eq no have "pre' = pre \<and> commit' = commit"
    by (auto simp: append_eq_append_conv2 append_eq_Cons_conv Cons_eq_append_conv)
  with assms(1,2) show "\<exists>meta. VerifySignature remote commit' meta \<in> set pre' \<and>
      is_ok (ie_answer env (VerifySignature remote commit' meta))"
    by blast
qed

lemma object_set_txn_verified:
  assumes "object_set_txn ctx write_refs target_ref mt blob s = Inr (r, ops)"
  shows "txn_verified (rp_import_env (ic_repo ctx) s) remote ops"
proof -
  let ?env = "rp_import_env (ic_repo ctx) s"
  obtain archive im1 where im1: "import_objects_impl ?env archive (new_for_object_set\<lparr>im_log := [TxnBegin]\<rparr>) = Inr im1"
      "ops = [TxnEvents (im_log im1)] \<or>
       (\<exists>commit im2. finish_import_object_set ?env im1 = Inr (commit, im2) \<and> ops = [TxnEvents (im_log im2), TxnSetRef target_ref commit])"
    using assms by (auto simp: object_set_txn_def Let_def result_simps call_Inr new_for_object_set_def split: if_splits)
  from import_objects_impl_log [OF im1(1)] obtain evs objset where
    evs: "im_log im1 = TxnBegin # evs" "im_data im1 = ObjectSet objset" "set (map content_event evs) \<subseteq> Some ` set objset"
    by (auto simp: log_grown_def new_for_object_set_def)
  then have content: "list_all (\<lambda>ev. content_event ev \<noteq> None) evs" by (auto simp: list_all_iff)
  from im1(2) have "layer_objects_txn ?env ops"
  proof (elim disjE exE conjE)
    assume "ops = [TxnEvents (im_log im1)]"
    with evs(1) content show ?thesis unfolding layer_objects_txn_def by (intro exI [of _ evs] exI [of _ "[]"]) simp
  next
    fix commit im2
    assume fin: "finish_import_object_set ?env im1 = Inr (commit, im2)" "ops = [TxnEvents (im_log im2), TxnSetRef target_ref commit]"
    then obtain dirmeta where "im_log im2 = TxnBegin # evs @
          [WriteMetadata ObjDirMeta None (ie_default_dirmeta ?env), WriteObjectSetCommit objset dirmeta]"
        "ie_answer ?env (WriteObjectSetCommit objset dirmeta) = Inr commit"
      using evs(1,2) by (auto simp: finish_import_object_set_def result_simps call_Inr)
    with fin(2) evs(3) content show ?thesis unfolding layer_objects_txn_def by blast
  qed
  then show ?thesis by (simp add: txn_verified_def)
qed

lemma commit_txn_verified:
  assumes "commit_txn ctx write_refs (Some remote) target_ref mt blob s = Inr (r, ops)"
  shows "txn_verified (rp_import_env (ic_repo ctx) s) remote ops"
proof -
  let ?env = "rp_import_env (ic_repo ctx) s"
  obtain archive im1 where im1: "import_commit ?env archive (new_for_commit (Some remote)\<lparr>im_log := [TxnBegin]\<rparr>) = Inr im1"
      "finish_import_commit im1 = Inr r"
      "ops = TxnEvents (im_log im1 @ [MarkPartial r False]) # (if write_refs then [TxnSetRef target_ref r] else [])"
    using assms by (auto simp: commit_txn_def Let_def result_simps call_Inr new_for_commit_def)
  from import_commit_verified_log [OF im1(1,2)] obtain commit meta evs where
    log: "im_log im1 = [TxnBegin, VerifySignature remote commit meta, MarkPartial r True,
           WriteMetadata ObjCommit (Some r) commit, WriteDetached r meta] @ evs"
      "list_all object_event evs" "is_ok (ie_answer ?env (VerifySignature remote commit meta))"
    by blast
  have "list_all (\<lambda>op. \<exists>q. op = TxnSetRef q r) (if write_refs then [TxnSetRef target_ref r] else [])" by simp
  moreover have "ops = TxnEvents ([TxnBegin, VerifySignature remote commit meta, MarkPartial r True,
           WriteMetadata ObjCommit (Some r) commit, WriteDetached r meta] @ evs @ [MarkPartial r False]) #
         (if write_refs then [TxnSetRef target_ref r] else [])"
    using im1(3) log(1) by simp
  ultimately show ?thesis
    using log(2,3) unfolding txn_verified_def signed_commit_txn_def by blast
qed

text \<open>Commits of the image are verified in all of these transactions.\<close>

lemma txn_verified_commits:
  assumes "txn_verified env remote ops" "TxnEvents evs0 \<in> set ops"
  shows "commits_verified env remote evs0"
  using assms(1) unfolding txn_verified_def
proof (elim disjE)
  assume "signed_commit_txn env remote ops"
  then obtain c commit meta evs where o: "evs0 = [TxnBegin, VerifySignature remote commit meta, MarkPartial c True] @
        WriteMetadata ObjCommit (Some c) commit # WriteDetached c meta # evs @ [MarkPartial c False]"
      "is_ok (ie_answer env (VerifySignature remote commit meta))" "list_all object_event evs"
    using assms(2) by (auto simp: signed_commit_txn_def list_all_iff)
  show ?thesis
    unfolding o(1)
    by (rule commits_verified_after [where meta = meta])
       (use o(2,3) object_event_no_commit in \<open>auto simp: list_all_iff writes_commit_def\<close>)
next
  assume "layer_objects_txn env ops"
  then obtain evs synthetic refs where o: "ops = TxnEvents (TxnBegin # evs @ synthetic) # refs" "list_all (\<lambda>ev. content_event ev \<noteq> None) evs"
      "synthetic = [] \<and> refs = [] \<or> (\<exists>objset dirmeta c r. synthetic = [WriteMetadata ObjDirMeta None (ie_default_dirmeta env),
         WriteObjectSetCommit objset dirmeta] \<and> refs = [TxnSetRef r c])"
    unfolding layer_objects_txn_def by blast
  then have syn: "list_all (\<lambda>ev. \<not> writes_commit ev) synthetic" "TxnEvents evs0 \<notin> set refs"
    by (auto simp: writes_commit_def)
  with o(1) have "evs0 = TxnBegin # evs @ synthetic" using assms(2) by auto
  have "content_event ev \<noteq> None \<Longrightarrow> \<not> writes_commit ev" for ev
    by (auto simp: writes_commit_def)
  with o(2) syn(1) have "list_all (\<lambda>ev. \<not> writes_commit ev) (TxnBegin # evs @ synthetic)"
    by (auto simp: list_all_iff) (simp add: writes_commit_def)
  with \<open>evs0 = TxnBegin # evs @ synthetic\<close> show ?thesis by (simp add: commits_verified_none)
next
  assume "merge_txn ops"
  with assms(2) show ?thesis by (auto simp: merge_txn_def list_all_iff)
qed

text \<open>The changes an import with a verification remote may make to a repository: verified transactions,
  commits of filtered layers by the child process, and deletions of refs.\<close>

definition import_steps_in :: "'s import_repo \<Rightarrow> rstr \<Rightarrow> ('s \<Rightarrow> 's \<Rightarrow> bool) \<Rightarrow> bool" where
  "import_steps_in repo remote R \<longleftrightarrow> reflp R \<and> transp R \<and>
     (\<forall>ops s s'. txn_verified (rp_import_env repo s) remote ops \<and> rp_commit_txn repo ops s = Inr s' \<longrightarrow> R s s') \<and>
     (\<forall>args dest s. R s (snd (rp_ostree_child repo args dest s))) \<and>
     (\<forall>r s s'. rp_set_ref repo r None s = Inr s' \<longrightarrow> R s s')"

lemma leads_in_txn:
  assumes "import_steps_in (ic_repo ctx) remote R"
    and "\<And>s r ops. txn s = Inr (r, ops) \<Longrightarrow> txn_verified (rp_import_env (ic_repo ctx) s) remote ops"
  shows "leads R (in_txn ctx txn)"
  unfolding in_txn_def
proof (intro leads_task)
  have "R s s" for s using assms(1) by (auto simp: import_steps_in_def intro: reflpD)
  then show "leads R (act_bind (act_query txn) (\<lambda>(r, ops). act_bind (act_update (rp_commit_txn (ic_repo ctx) ops)) (\<lambda>_. act_ret r)))"
    using assms by (auto simp: leads_def act_bind_def act_query_def act_update_def act_result_def import_steps_in_def
        split: sum.splits prod.splits) blast
qed

lemma leads_gc:
  assumes "reflp R" "transp R" "\<And>r s s'. rp_set_ref repo r None s = Inr s' \<Longrightarrow> R s s'"
  shows "leads R (gc_image_layers repo js)"
proof -
  have "leads R (gc_layer repo r st)" for r st
    unfolding gc_layer_def by (cases st) (auto intro!: leads_intros assms)
  then show ?thesis
    unfolding gc_image_layers_def by (auto intro!: leads_intros assms(1,2))
qed

lemma leads_merge:
  assumes "import_steps_in (ic_repo ctx) remote R"
  shows "leads R (merge_layers ctx im ostree_ref base commits derived metadata timestamp)"
proof -
  have R: "reflp R" "transp R" "rp_set_ref (ic_repo ctx) r None s = Inr s' \<Longrightarrow> R s s'"
      "txn_verified (rp_import_env (ic_repo ctx) s) remote ops \<Longrightarrow> rp_commit_txn (ic_repo ctx) ops s = Inr s' \<Longrightarrow> R s s'"
    for r s s' ops
    using assms by (auto simp: import_steps_in_def)
  have merge: "txn_verified env remote (TxnMergeCommit c cs ls md t # (if b then [TxnSetRef x c] else []))"
    for env c cs ls md t b x
    by (simp add: txn_verified_def merge_txn_def)
  show ?thesis
    unfolding merge_layers_def Let_def
    by (intro leads_intros R(1,2)) (auto intro!: leads_intros leads_gc R(1,2) intro: R(3) R(4) [OF merge] split: if_splits)
qed

lemma leads_unencapsulate_base:
  assumes "import_steps_in (ic_repo ctx) remote R" "oir_sigverify (ii_imgref im) = OstreeRemote remote"
  shows "leads (repo_rel R) (unencapsulate_base ctx im write_refs imp)"
proof -
  have R: "reflp R" "transp R" using assms by (auto simp: import_steps_in_def)
  note intros = leads_intros leads_in_txn [OF assms(1)] R
  show ?thesis
    unfolding unencapsulate_base_def fetch_object_set_def fetch_commit_def Let_def sigverify_remote_def assms(2)
    by (intro intros; (auto intro!: intros intro: object_set_txn_verified commit_txn_verified split: if_splits)?)
qed

lemma leads_import_image:
  assumes "import_steps_in (ic_repo ctx) remote R" "oir_sigverify (ii_imgref im) = OstreeRemote remote"
  shows "leads (repo_rel R) (import_image ctx im imp)"
proof -
  have R: "reflp R" "transp R" "\<And>args dest s. R s (snd (rp_ostree_child (ic_repo ctx) args dest s))"
    using assms by (auto simp: import_steps_in_def)
  note intros = leads_intros leads_merge [OF assms(1)] leads_unencapsulate_base [OF assms] R
  have derived: "leads (repo_rel R) (import_derived_layer ctx im manifest info base transient layer acc)"
    for manifest info base transient layer acc
    by (cases acc) (auto simp: import_derived_layer_def Let_def intro!: intros split: option.splits)
  show ?thesis
    unfolding import_image_def Let_def
    by (intro intros derived; (auto intro!: intros derived split: prod.splits)?)
qed

subsection \<open>The recorded image\<close>

fun apply_ref :: "txn_op \<Rightarrow> (rstr \<Rightarrow> rstr option) \<Rightarrow> (rstr \<Rightarrow> rstr option)" where
  "apply_ref (TxnSetRef r c) refs = refs(r := Some c)"
| "apply_ref _ refs = refs"

text \<open>What is relied on of a committed transaction: the refs set in it are set, and a commit written in it
  can be loaded with its metadata.\<close>

definition txn_spec :: "'s import_repo \<Rightarrow> ('s \<Rightarrow> rstr \<Rightarrow> rstr option) \<Rightarrow> bool" where
  "txn_spec repo refs_of \<longleftrightarrow>
     (\<forall>ops s s'. rp_commit_txn repo ops s = Inr s' \<longrightarrow> refs_of s' = fold apply_ref ops (refs_of s) \<and>
        (\<forall>c cs ls md t. TxnMergeCommit c cs ls md t \<in> set ops \<longrightarrow>
           (\<exists>co. rp_load_commit repo s' c = Inr co \<and> co_metadata co = md)))"

text \<open>Serialized manifests and configurations are read back; neither is the JSON null.\<close>

definition json_round_trip :: "oci_json \<Rightarrow> bool" where
  "json_round_trip js \<longleftrightarrow>
     (\<forall>m t. oj_write_manifest js m = Inr t \<longrightarrow> oj_read_manifest js t = Inr m) \<and>
     (\<forall>c t. oj_write_config js c = Inr t \<longrightarrow> oj_read_config js t = Inr c \<and> t \<noteq> str ''null'')"

lemma gc_keeps:
  assumes "refs_spec repo refs_of" "gc_image_layers repo js s = (res, s')"
  shows "rp_load_commit repo s' = rp_load_commit repo s" "rp_detached repo s' = rp_detached repo s"
    and "\<not> under LAYER_PREFIX r \<Longrightarrow> refs_of s' r = refs_of s r"
proof -
  let ?R = "\<lambda>s s'. rp_load_commit repo s' = rp_load_commit repo s \<and> rp_detached repo s' = rp_detached repo s \<and>
    (\<forall>r. \<not> under LAYER_PREFIX r \<longrightarrow> refs_of s' r = refs_of s r)"
  have R: "reflp ?R" "transp ?R" by (auto intro!: reflpI transpI)
  have "?R s s'"
    using assms(2)
  proof (cases rule: gc_image_layers_cases)
    case (2 ms found x)
    have "leads ?R (gc_layer repo q st)" if "q \<in> set (map fst found)" for q st
    proof -
      have q: "under LAYER_PREFIX q" using that refs_specD(4) [OF assms(1) 2(2)] by auto
      show ?thesis
        unfolding gc_layer_def
        by (cases st) (auto intro!: leads_intros R simp: refs_specD(5-7) [OF assms(1)] q)
    qed
    then have "leads ?R (act_fold (gc_layer repo) (map fst found) (layer_digests ms, 0))"
      by (intro leads_fold R)
    from leadsD [OF this 2(3)] show ?thesis .
  qed simp
  then show "rp_load_commit repo s' = rp_load_commit repo s" "rp_detached repo s' = rp_detached repo s"
      "\<not> under LAYER_PREFIX r \<Longrightarrow> refs_of s' r = refs_of s r"
    by auto
qed

lemma query_image_commit_Inr:
  assumes "query_image_commit repo js s c = Inr st" "rp_load_commit repo s c = Inr co"
  shows "ls_merge_commit st = c" "manifest_data_from_commitmeta js (co_metadata co) = Inr (ls_manifest st, ls_manifest_digest st)"
    and "image_config_from_commitmeta js (co_metadata co) = Inr (ls_configuration st)"
  using assms by (auto simp: query_image_commit_def Let_def result_simps)

lemma merge_layers_Inr:
  assumes "refs_spec (ic_repo ctx) refs_of" "txn_spec (ic_repo ctx) refs_of" "\<not> under LAYER_PREFIX ostree_ref"
    and "merge_layers ctx im ostree_ref base commits derived metadata timestamp s = (Inr st, s')"
  shows "\<exists>co. query_image_commit (ic_repo ctx) (ic_json ctx) s' (ls_merge_commit st) = Inr st \<and>
    rp_load_commit (ic_repo ctx) s' (ls_merge_commit st) = Inr co \<and> co_metadata co = metadata \<and>
    (\<not> ii_no_imgref im \<longrightarrow> refs_of s' ostree_ref = Some (ls_merge_commit st))"
proof -
  let ?repo = "ic_repo ctx"
  obtain c cs ls s1 where run: "rp_commit_txn ?repo (TxnMergeCommit c cs ls metadata timestamp #
        (if \<not> ii_no_imgref im then [TxnSetRef ostree_ref c] else [])) s = Inr s1"
      "(if \<not> ii_disable_gc im then act_bind (gc_image_layers ?repo (ic_json ctx)) (\<lambda>_. act_ret ())
        else act_ret ()) s1 = (Inr (), s')"
      "query_image_commit ?repo (ic_json ctx) s' c = Inr st"
    using assms(4) unfolding merge_layers_def Let_def act_simps old.unit.exhaust by force
  have gc: "s' = s1 \<or> (\<exists>n. gc_image_layers ?repo (ic_json ctx) s1 = (Inr n, s'))"
    using run(2) by (cases "ii_disable_gc im") (auto simp: act_simps)
  have s1: "refs_of s1 ostree_ref = Some c \<or> ii_no_imgref im" "\<exists>co. rp_load_commit ?repo s1 c = Inr co \<and> co_metadata co = metadata"
    using run(1) assms(2) unfolding txn_spec_def by fastforce+
  have "rp_load_commit ?repo s' = rp_load_commit ?repo s1 \<and> refs_of s' ostree_ref = refs_of s1 ostree_ref"
    using gc gc_keeps [OF assms(1)] assms(3) by blast
  moreover from this s1(2) have "ls_merge_commit st = c"
    using query_image_commit_Inr(1) [OF run(3)] by auto
  ultimately show ?thesis using s1 run(3) by auto
qed

lemma meta_keys_distinct:
  "META_MANIFEST_DIGEST \<noteq> META_MANIFEST" "META_MANIFEST_DIGEST \<noteq> META_CONFIG" "META_MANIFEST_DIGEST \<noteq> IMPORTER_VERSION_KEY"
  "META_MANIFEST_DIGEST \<noteq> META_FILTERED" "META_MANIFEST \<noteq> META_CONFIG" "META_MANIFEST \<noteq> IMPORTER_VERSION_KEY"
  "META_MANIFEST \<noteq> META_FILTERED" "META_CONFIG \<noteq> IMPORTER_VERSION_KEY" "META_CONFIG \<noteq> META_FILTERED"
  by (simp_all add: META_MANIFEST_DIGEST_def META_MANIFEST_def META_CONFIG_def META_FILTERED_def IMPORTER_VERSION_KEY_def)

lemma merge_metadata_lookups:
  assumes "merge_metadata ctx imp filtered = Inr metadata" "json_round_trip (ic_json ctx)"
    and "oj_read_digest (ic_json ctx) (digest_to_string (pi_manifest_digest imp)) = Inr (pi_manifest_digest imp)"
  shows "manifest_data_from_commitmeta (ic_json ctx) metadata = Inr (pi_manifest imp, pi_manifest_digest imp)"
    and "image_config_from_commitmeta (ic_json ctx) metadata = Inr (pi_config imp)"
    and "lookup_filtered metadata META_FILTERED = Inr (Some filtered)"
proof -
  obtain tm tc where t: "oj_write_manifest (ic_json ctx) (pi_manifest imp) = Inr tm" "oj_write_config (ic_json ctx) (pi_config imp) = Inr tc"
      "metadata = kv_insert META_FILTERED (VFiltered filtered) (kv_insert IMPORTER_VERSION_KEY (VString (ic_version ctx))
        (kv_insert META_CONFIG (VString tc) (kv_insert META_MANIFEST (VString tm)
        (kv_insert META_MANIFEST_DIGEST (VString (digest_to_string (pi_manifest_digest imp))) []))))"
    using assms(1) by (auto simp: merge_metadata_def Let_def result_simps)
  have j: "oj_read_manifest (ic_json ctx) tm = Inr (pi_manifest imp)" "oj_read_config (ic_json ctx) tc = Inr (pi_config imp)" "tc \<noteq> str ''null''"
    using assms(2) t(1,2) by (auto simp: json_round_trip_def)
  show "manifest_data_from_commitmeta (ic_json ctx) metadata = Inr (pi_manifest imp, pi_manifest_digest imp)"
    "image_config_from_commitmeta (ic_json ctx) metadata = Inr (pi_config imp)"
    "lookup_filtered metadata META_FILTERED = Inr (Some filtered)"
    using assms(3) j meta_keys_distinct meta_keys_distinct [THEN not_sym]
    by (simp_all add: t(3) manifest_data_from_commitmeta_def image_config_from_commitmeta_def lookup_string_def lookup_filtered_def
        kv_lookup_insert del: kv_insert.simps)
qed

lemma unencapsulate_base_keeps:
  assumes "unencapsulate_base ctx im write_refs imp w = (Inr imp', w')"
  shows "pi_manifest imp' = pi_manifest imp" "pi_config imp' = pi_config imp" "pi_manifest_digest imp' = pi_manifest_digest imp"
    and "pi_layers imp' = pi_layers imp"
  using assms by (auto simp: unencapsulate_base_def Let_def act_simps)

lemma import_image_merges:
  assumes "import_image ctx im imp w = (Inr st, w')"
  shows "\<exists>target ostree_ref base commits derived filtered metadata timestamp s.
    target = (case ii_target_imgref im of Some t \<Rightarrow> t | None \<Rightarrow> ii_imgref im) \<and>
    ref_for_image (oir_imgref target) = Inr ostree_ref \<and> merge_metadata ctx imp filtered = Inr metadata \<and>
    merge_layers ctx im ostree_ref base commits derived metadata timestamp s = (Inr st, w_repo w')"
proof -
  obtain imp1 w1 where imp1: "unencapsulate_base ctx im True imp w = (Inr imp1, w1)"
    using assms by (auto simp: import_image_def act_simps)
  have meta: "merge_metadata ctx imp1 filtered = merge_metadata ctx imp filtered" for filtered
    using unencapsulate_base_keeps [OF imp1] by (simp add: merge_metadata_def)
  from assms imp1 obtain ostree_ref base commits filtered metadata timestamp s where run:
      "ref_for_image (oir_imgref (case ii_target_imgref im of Some t \<Rightarrow> t | None \<Rightarrow> ii_imgref im)) = Inr ostree_ref"
      "merge_metadata ctx imp1 filtered = Inr metadata"
      "merge_layers ctx im ostree_ref base commits (pi_layers imp1 \<noteq> []) metadata timestamp s = (Inr st, w_repo w')"
    unfolding import_image_def act_simps Let_def by (auto simp: act_simps split: prod.splits)
  show ?thesis
    by (rule exI, rule exI, rule exI, rule exI, rule exI, rule exI, rule exI, rule exI, rule exI, rule conjI, rule refl)
       (use run meta in auto)
qed

section \<open>Properties\<close>

text \<open>An empty repository with refs, commits and the events of its transactions, and an image of one ostree layer
  and one derived layer.\<close>

type_synonym sample_state = "(rstr \<times> rstr) list \<times> (rstr \<times> commit_object) list \<times> repo_event list"

definition set_sample_ref :: "rstr \<Rightarrow> rstr option \<Rightarrow> sample_state \<Rightarrow> sample_state" where
  "set_sample_ref r v = (\<lambda>(refs, commits, evs).
     ((case v of None \<Rightarrow> [] | Some c \<Rightarrow> [(r, c)]) @ filter (\<lambda>e. fst e \<noteq> r) refs, commits, evs))"

fun apply_op :: "txn_op \<Rightarrow> sample_state \<Rightarrow> sample_state" where
  "apply_op (TxnEvents new) (refs, commits, evs) = (refs, commits, evs @ new)"
| "apply_op (TxnMergeCommit c _ _ md t) (refs, commits, evs) =
     (refs, (c, \<lparr>co_metadata = md, co_parent = None, co_subject = [], co_body = [], co_timestamp = t, co_tree = [], co_meta = []\<rparr>) # commits, evs)"
| "apply_op (TxnSetRef r c) s = set_sample_ref r (Some c) s"

definition sample_import_repo :: "sample_state import_repo" where
  "sample_import_repo =
     \<lparr>rp_resolve_rev = (\<lambda>s r. Inr (map_of (fst s) r)), rp_require_rev = (\<lambda>s r. ok_or (Err ''no such ref'') (map_of (fst s) r)),
      rp_list_refs = (\<lambda>s p. Inr (map (\<lambda>r. (r, the (map_of (fst s) r))) (filter (under p) (remdups (map fst (fst s)))))),
      rp_load_commit = (\<lambda>s c. ok_or (Err ''no such commit'') (map_of (fst (snd s)) c)), rp_detached = (\<lambda>_ _. Inr None),
      rp_set_ref = (\<lambda>r v s. Inr (set_sample_ref r v s)), rp_write_detached = (\<lambda>_ _ s. Inr s),
      rp_import_env = (\<lambda>_. sample_env),
      rp_commit_txn = (\<lambda>ops s. if list_ex (\<lambda>op. case op of TxnMergeCommit c _ _ _ _ \<Rightarrow> c \<noteq> str ''merged'' | _ \<Rightarrow> False) ops \<or>
          1 < length (filter (\<lambda>op. case op of TxnMergeCommit _ _ _ _ _ \<Rightarrow> True | _ \<Rightarrow> False) ops)
        then Inl (Err ''bad commit'') else Inr (fold apply_op ops s)),
      rp_sepolicy = (\<lambda>_ _. Inr (str ''/tmp/policy'')),
      rp_ostree_child = (\<lambda>args dest s. (\<lparr>cr_success = True, cr_stdout = str ''derived'', cr_stderr = []\<rparr>,
        set_sample_ref (last args) (Some (str ''derived'')) s)),
      rp_commit_files = (\<lambda>_ _. Inr (\<lambda>_. None)), rp_bare = True, rp_merged_commit = (\<lambda>_ _ _ _ _. Inr (str ''merged''))\<rparr>"

definition sample_image_manifest :: image_manifest where
  "sample_image_manifest = stored_manifest\<lparr>m_layers := [stored_layer ''a'', stored_layer ''b'']\<rparr>"

definition sample_image_config :: image_configuration where
  "sample_image_config = stored_config\<lparr>c_diff_ids := [str ''da'', str ''db''],
     c_config := Some \<lparr>cc_labels = Some [(DIFFID_LABEL, str ''da'')], cc_cmd = None\<rparr>\<rparr>"

definition sample_json :: oci_json where
  "sample_json = \<lparr>oj_read_manifest = (\<lambda>_. Inr sample_image_manifest),
     oj_write_manifest = (\<lambda>m. if m = sample_image_manifest then Inr (str ''m'') else Inl (Err ''other'')),
     oj_read_config = (\<lambda>_. Inr sample_image_config),
     oj_write_config = (\<lambda>c. if c = sample_image_config then Inr (str ''c'') else Inl (Err ''other'')),
     oj_read_digest = (\<lambda>t. case split_once 58 t of Some (a, h) \<Rightarrow> Inr \<lparr>dg_algorithm = a, dg_hex = h\<rparr> | None \<Rightarrow> Inl (Err ''bad digest'')),
     oj_default_config = stored_config\<rparr>"

definition sample_image_proxy :: "unit image_proxy" where
  "sample_image_proxy = \<lparr>px_open_image = (\<lambda>_. Inr ()), px_fetch_manifest = (\<lambda>_. Inr (str ''sha256:d'', sample_image_manifest)),
     px_fetch_config = (\<lambda>_. Inr sample_image_config), px_get_layer_info = (\<lambda>_. Inr None),
     px_get_blob = (\<lambda>_ d _. Inr (if dg_hex d = str ''a'' then [1] else [2], Inr ())),
     px_close_image = (\<lambda>_. Inr ()), px_finalize = Inr ()\<rparr>"

definition sample_decoders :: decoders where
  "sample_decoders = \<lparr>de_gunzip = Inr, de_unzstd = Inr, de_untar = (\<lambda>b. Inr (if b = [1] then
     [sample_object 97 ''.commit'' Regular None [1, 2], sample_object 97 ''.commitmeta'' Regular None [3]] else []))\<rparr>"

definition sample_ctx :: "(sample_state, unit) import_ctx" where
  "sample_ctx = \<lparr>ic_repo = sample_import_repo, ic_proxy = sample_image_proxy, ic_json = sample_json, ic_policy_insecure = Inr True,
     ic_decoders = sample_decoders, ic_parse_keyfile = (\<lambda>_. Inl (Err ''no key file'')), ic_parse_time = (\<lambda>_. Inl (Err ''no time'')),
     ic_now = 0, ic_arch = str ''amd64'', ic_version = str ''0''\<rparr>"

definition sample_importer :: "unit image_importer" where
  "sample_importer = \<lparr>ii_imgref = \<lparr>oir_sigverify = OstreeRemote (str ''fedora''), oir_imgref = stored_image\<rparr>,
     ii_target_imgref = None, ii_no_imgref = False, ii_disable_gc = False, ii_require_bootable = False,
     ii_ostree_v2024_3 = True, ii_proxy_img = (), ii_layer_progress = None\<rparr>"

definition sample_prepared :: prepared_import where
  "sample_prepared = \<lparr>pi_manifest_digest = \<lparr>dg_algorithm = str ''sha256'', dg_hex = str ''d''\<rparr>, pi_manifest = sample_image_manifest,
     pi_config = sample_image_config, pi_previous_state = None, pi_previous_manifest_digest = None, pi_previous_imageid = None,
     pi_ostree_layers = [],
     pi_ostree_commit_layer = \<lparr>ml_layer = stored_layer ''a'', ml_ostree_ref = str ''ostree/container/blob/sha256_3A_a'', ml_commit = None\<rparr>,
     pi_layers = [\<lparr>ml_layer = stored_layer ''b'', ml_ostree_ref = str ''ostree/container/blob/sha256_3A_b'', ml_commit = None\<rparr>]\<rparr>"

definition sample_empty :: "sample_state world" where
  "sample_empty = \<lparr>w_repo = ([], [], []), w_sent = []\<rparr>"

lemma sample_prepare: "prepare sample_ctx sample_importer (w_repo sample_empty) = (Inr (Ready sample_prepared), w_repo sample_empty)"
  by code_simp

definition sample_imported :: layered_image_state where
  "sample_imported = \<lparr>ls_base_commit = sample_checksum 97, ls_merge_commit = str ''merged'',
     ls_manifest_digest = \<lparr>dg_algorithm = str ''sha256'', dg_hex = str ''d''\<rparr>, ls_manifest = sample_image_manifest,
     ls_configuration = sample_image_config, ls_cached_update = None\<rparr>"

lemma sample_import: "fst (import_image sample_ctx sample_importer sample_prepared sample_empty) = Inr sample_imported"
  by code_simp

lemma sample_refs: "refs_spec sample_import_repo (\<lambda>s. map_of (fst s))"
  unfolding refs_spec_def
proof (intro conjI allI impI)
  fix s :: sample_state and p l assume "rp_list_refs sample_import_repo s p = Inr l"
  then have l: "l = map (\<lambda>r. (r, the (map_of (fst s) r))) (filter (under p) (remdups (map fst (fst s))))"
    by (simp add: sample_import_repo_def)
  show "distinct (map fst l)" by (simp add: l comp_def)
  show "(r, c) \<in> set l \<longleftrightarrow> map_of (fst s) r = Some c \<and> under p r" for r c
    unfolding l by (rule listed_refs_iff)
next
  fix s s' :: sample_state and r v assume "rp_set_ref sample_import_repo r v s = Inr s'"
  then have s': "s' = set_sample_ref r v s" by (simp add: sample_import_repo_def)
  then show "map_of (fst s') = (map_of (fst s))(r := v)"
    by (cases s) (simp only: set_sample_ref_def prod.case fst_conv map_of_set_ref)
  show "rp_load_commit sample_import_repo s' = rp_load_commit sample_import_repo s"
    by (cases s) (simp add: s' sample_import_repo_def set_sample_ref_def)
qed (auto simp: sample_import_repo_def result_simps)

lemma fold_apply_op_refs: "map_of (fst (fold apply_op ops s)) = fold apply_ref ops (map_of (fst s))"
proof (induction ops arbitrary: s)
  case (Cons op ops)
  have "map_of (fst (apply_op op s)) = apply_ref op (map_of (fst s))"
    by (cases s; cases op) (auto simp: set_sample_ref_def map_of_filter_neq fun_eq_iff)
  with Cons show ?case by simp
qed simp

text \<open>C21: an import never uses a policy that accepts anything.  When image signatures are to be checked by the
  container policy and that policy cannot be read or accepts every image by default, preparing, unencapsulating and
  importing all fail, before anything is fetched, written or reported.\<close>

theorem insecure_policy_refused:
  assumes "oir_sigverify (ii_imgref im) = ContainerPolicy"
    and "ic_policy_insecure ctx = container_policy_is_default_insecure open_path parse"
    and "\<forall>text policy. open_path POLICY_PATH = Inr text \<and> parse text = Inr policy \<longrightarrow>
      cp_default policy = Some [\<lparr>pe_ty = str ''insecureAcceptAnything''\<rparr>]"
  shows "\<exists>e. prepare_internal ctx im verify s = (Inl e, s) \<and> unencapsulate ctx im w = (Inl e, w) \<and>
    import_image ctx im imp w = (Inl e, w)"
proof -
  have "ic_policy_insecure ctx \<noteq> Inr False"
    using assms(3)
    by (auto simp: assms(2) container_policy_is_default_insecure_def is_default_insecure_def INSECURE_ACCEPT_ANYTHING_def
        io_def and_then_def split: sum.splits)
  then have "\<exists>e. policy_checked ctx im = Inl e"
    using assms(1) by (cases "ic_policy_insecure ctx") (auto simp: policy_checked_def)
  then obtain e where e: "policy_checked ctx im = Inl e" by blast
  have "prepare_internal ctx im v s = (Inl e, s)" for v s
    by (simp add: prepare_internal_def e act_bind_result_app)
  moreover have "unencapsulate_base ctx im b imp w = (Inl e, w)" for b imp w
    by (simp add: unencapsulate_base_def e act_bind_result_app)
  moreover have "unencapsulate ctx im w = (Inl e, w)"
    unfolding unencapsulate_def by (rule act_bind_fail) (simp add: on_repo_def calculation)
  moreover have "import_image ctx im imp w = (Inl e, w)"
    unfolding import_image_def by (rule act_bind_fail) (rule calculation)
  ultimately show ?thesis by blast
qed

theorem insecure_policy_refused_witness:
  "\<exists>e. import_image (sample_ctx\<lparr>ic_policy_insecure := container_policy_is_default_insecure
        (\<lambda>p. if p = POLICY_PATH then Inr (str ''policy'') else Inl NotFound)
        (\<lambda>_. Inr \<lparr>cp_default = Some [\<lparr>pe_ty = str ''insecureAcceptAnything''\<rparr>]\<rparr>)\<rparr>)
      (sample_importer\<lparr>ii_imgref := \<lparr>oir_sigverify = ContainerPolicy, oir_imgref = stored_image\<rparr>\<rparr>) sample_prepared sample_empty =
    (Inl e, sample_empty)"
  using insecure_policy_refused [of "sample_importer\<lparr>ii_imgref := \<lparr>oir_sigverify = ContainerPolicy, oir_imgref = stored_image\<rparr>\<rparr>"
      "sample_ctx\<lparr>ic_policy_insecure := container_policy_is_default_insecure
        (\<lambda>p. if p = POLICY_PATH then Inr (str ''policy'') else Inl NotFound)
        (\<lambda>_. Inr \<lparr>cp_default = Some [\<lparr>pe_ty = str ''insecureAcceptAnything''\<rparr>]\<rparr>)\<rparr>"
      "\<lambda>p. if p = POLICY_PATH then Inr (str ''policy'') else Inl NotFound"
      "\<lambda>_. Inr \<lparr>cp_default = Some [\<lparr>pe_ty = str ''insecureAcceptAnything''\<rparr>]\<rparr>" False "([], [], [])" sample_empty sample_prepared]
  by auto

text \<open>C5: the commits an image brings are checked before they are stored.  Let \<open>R\<close> be any relation of the states of a
  repository before and after that allows only these changes, one after the other: transactions of the three kinds
  above, commits of filtered layers by the child process, and deletions of refs.  Whatever an import from an image with
  a verification remote does, and also when it fails half way, it stays within \<open>R\<close>.  So a commit that is read from the
  image is stored only in a transaction that has checked, with the remote, the signature of this very commit in the
  detached metadata stored with it; a layer's objects come with no commit but the importer's own.  Not signed are the
  commits the importer makes itself: the synthetic one of each object set, the merge commit, and those of
  filtered layers.\<close>

theorem import_image_verified:
  assumes "oir_sigverify (ii_imgref im) = OstreeRemote remote" "import_steps_in (ic_repo ctx) remote R"
  shows "R (w_repo w) (w_repo (snd (import_image ctx im imp w)))"
  using leads_import_image [OF assms(2,1), of imp] by (simp add: leads_def repo_rel_def)

lemma commits_verified_append:
  assumes "commits_verified env remote a" "commits_verified env remote b"
  shows "commits_verified env remote (a @ b)"
  unfolding commits_verified_def
proof (intro allI impI)
  fix pre c commit post assume eq: "a @ b = pre @ WriteMetadata ObjCommit c commit # post"
  let ?x = "WriteMetadata ObjCommit c commit"
  from eq consider us where "a = pre @ ?x # us" | us where "pre = a @ us" "b = us @ ?x # post"
    by (auto simp: append_eq_append_conv2 append_eq_Cons_conv)
  then show "\<exists>meta. VerifySignature remote commit meta \<in> set pre \<and> is_ok (ie_answer env (VerifySignature remote commit meta))"
  proof cases
    case 1
    then show ?thesis using assms(1) unfolding commits_verified_def by blast
  next
    case 2
    then obtain meta where "VerifySignature remote commit meta \<in> set us" "is_ok (ie_answer env (VerifySignature remote commit meta))"
      using assms(2) unfolding commits_verified_def by blast
    with 2 show ?thesis by auto
  qed
qed

theorem import_image_verified_witness:
  "commits_verified sample_env (str ''fedora'')
     (snd (snd (w_repo (snd (import_image sample_ctx sample_importer sample_prepared sample_empty)))))"
proof -
  let ?V = "\<lambda>s :: sample_state. commits_verified sample_env (str ''fedora'') (snd (snd s))"
  have ops: "?V s \<Longrightarrow> \<forall>evs0. TxnEvents evs0 \<in> set ops \<longrightarrow> commits_verified sample_env (str ''fedora'') evs0 \<Longrightarrow> ?V (fold apply_op ops s)" for ops s
  proof (induction ops arbitrary: s)
    case (Cons op ops)
    have "?V (apply_op op s)"
      using Cons.prems
      by (cases s; cases op) (auto simp: set_sample_ref_def intro: commits_verified_append)
    with Cons show ?case by simp
  qed simp
  have "?V s'" if "rp_commit_txn sample_import_repo txn s = Inr s'" "txn_verified (rp_import_env sample_import_repo s) (str ''fedora'') txn" "?V s"
    for txn s s'
    using that ops [OF that(3), of txn] txn_verified_commits [OF that(2)] by (auto simp: sample_import_repo_def split: if_splits)
  then have "import_steps_in (ic_repo sample_ctx) (str ''fedora'') (\<lambda>s s'. ?V s \<longrightarrow> ?V s')"
    unfolding import_steps_in_def
    by (auto simp: sample_ctx_def reflp_def transp_def) (auto simp: sample_import_repo_def set_sample_ref_def)
  moreover have "?V (w_repo sample_empty)" by (simp add: sample_empty_def commits_verified_def)
  ultimately show ?thesis
    using import_image_verified [of sample_importer "str ''fedora''" sample_ctx "\<lambda>s s'. ?V s \<longrightarrow> ?V s'" sample_empty sample_prepared]
    by (simp add: sample_importer_def)
qed

lemma sample_txn: "txn_spec sample_import_repo (\<lambda>s. map_of (fst s))"
  unfolding txn_spec_def
proof (intro allI impI conjI)
  fix ops and s s' :: sample_state assume run: "rp_commit_txn sample_import_repo ops s = Inr s'"
  let ?merge = "\<lambda>op. case op of TxnMergeCommit _ _ _ _ _ \<Rightarrow> True | _ \<Rightarrow> False"
  have s': "s' = fold apply_op ops s" "length (filter ?merge ops) \<le> 1"
    using run by (auto simp: sample_import_repo_def split: if_splits)
  then show "map_of (fst s') = fold apply_ref ops (map_of (fst s))" by (simp add: fold_apply_op_refs)
  have keep: "\<forall>op \<in> set l. \<not> ?merge op \<Longrightarrow> fst (snd (fold apply_op l s)) = fst (snd s)" for l s
  proof (induction l arbitrary: s)
    case (Cons op l)
    then have "fst (snd (apply_op op s)) = fst (snd s)"
      by (cases s; cases op) (auto simp: set_sample_ref_def)
    with Cons show ?case by simp
  qed simp
  fix c cs ls md t assume "TxnMergeCommit c cs ls md t \<in> set ops"
  then obtain a b where ab: "ops = a @ TxnMergeCommit c cs ls md t # b" by (auto dest: split_list)
  then have "\<forall>op \<in> set b. \<not> ?merge op" using s'(2) by (auto simp: filter_empty_conv)
  then have "map_of (fst (snd s')) c = Some \<lparr>co_metadata = md, co_parent = None, co_subject = [], co_body = [], co_timestamp = t, co_tree = [], co_meta = []\<rparr>"
    by (simp add: s'(1) ab keep) (cases "fold apply_op a s"; simp)
  then show "\<exists>co. rp_load_commit sample_import_repo s' c = Inr co \<and> co_metadata co = md"
    by (simp add: sample_import_repo_def)
qed

lemma sample_json_round_trip: "json_round_trip sample_json"
  by (auto simp: json_round_trip_def sample_json_def split: if_splits)

text \<open>C2: an imported image can be queried.  After a successful import the repository's merge commit carries the manifest,
  the manifest digest and the configuration of the prepared import, the returned state is what a query of the commit gives,
  and unless the image ref was not to be written, the ref of the target image points to the commit and a query of the
  image returns the same state.\<close>

theorem import_image_recorded:
  assumes "refs_spec (ic_repo ctx) refs_of" "txn_spec (ic_repo ctx) refs_of" "json_round_trip (ic_json ctx)"
    and "oj_read_digest (ic_json ctx) (digest_to_string (pi_manifest_digest imp)) = Inr (pi_manifest_digest imp)"
    and "import_image ctx im imp w = (Inr st, w')"
    and "target = oir_imgref (case ii_target_imgref im of Some t \<Rightarrow> t | None \<Rightarrow> ii_imgref im)"
  shows "ls_manifest st = pi_manifest imp \<and> ls_manifest_digest st = pi_manifest_digest imp \<and> ls_configuration st = pi_config imp \<and>
    query_image_commit (ic_repo ctx) (ic_json ctx) (w_repo w') (ls_merge_commit st) = Inr st \<and>
    (\<not> ii_no_imgref im \<longrightarrow> query_image (ic_repo ctx) (ic_json ctx) (w_repo w') target = Inr (Some st))"
proof -
  obtain ostree_ref base commits derived filtered metadata timestamp s where run:
      "ref_for_image target = Inr ostree_ref" "merge_metadata ctx imp filtered = Inr metadata"
      "merge_layers ctx im ostree_ref base commits derived metadata timestamp s = (Inr st, w_repo w')"
    using import_image_merges [OF assms(5)] assms(6) by blast
  have "\<not> under LAYER_PREFIX ostree_ref"
    using ref_for_under(3) [OF run(1)] ref_prefixes(3) by blast
  from merge_layers_Inr [OF assms(1,2) this run(3)] obtain co where
    co: "query_image_commit (ic_repo ctx) (ic_json ctx) (w_repo w') (ls_merge_commit st) = Inr st"
      "rp_load_commit (ic_repo ctx) (w_repo w') (ls_merge_commit st) = Inr co" "co_metadata co = metadata"
      "\<not> ii_no_imgref im \<longrightarrow> refs_of (w_repo w') ostree_ref = Some (ls_merge_commit st)"
    by blast
  note query = query_image_commit_Inr [OF co(1,2)] and meta = merge_metadata_lookups [OF run(2) assms(3,4)]
  have "ls_manifest st = pi_manifest imp" "ls_manifest_digest st = pi_manifest_digest imp" "ls_configuration st = pi_config imp"
    using query(2,3) meta(1,2) co(3) by auto
  moreover have "query_image (ic_repo ctx) (ic_json ctx) (w_repo w') target = Inr (Some st)" if "\<not> ii_no_imgref im"
    using that co(1,4) run(1) resolve_image(1) [OF assms(1) run(1)] by (simp add: query_image_def)
  ultimately show ?thesis using co(1) by blast
qed

theorem import_image_recorded_witness:
  "query_image sample_import_repo sample_json
     (w_repo (snd (import_image sample_ctx sample_importer sample_prepared sample_empty))) stored_image = Inr (Some sample_imported)"
proof -
  obtain w' where w': "import_image sample_ctx sample_importer sample_prepared sample_empty = (Inr sample_imported, w')"
    using sample_import by (metis prod.collapse)
  have "oj_read_digest (ic_json sample_ctx) (digest_to_string (pi_manifest_digest sample_prepared)) = Inr (pi_manifest_digest sample_prepared)"
    by code_simp
  from import_image_recorded [OF _ _ _ this w' refl] sample_refs sample_txn sample_json_round_trip w'
  show ?thesis by (simp add: sample_ctx_def sample_importer_def)
qed

definition layer_found :: "(rstr \<Rightarrow> rstr option) \<Rightarrow> manifest_layer_state \<Rightarrow> bool" where
  "layer_found refs l \<longleftrightarrow> ref_for_layer (ml_layer l) = Inr (ml_ostree_ref l) \<and> ml_commit l = refs (ml_ostree_ref l)"

lemma query_layer_Inr:
  "refs_spec repo refs_of \<Longrightarrow> query_layer repo s layer = Inr q \<Longrightarrow> ml_layer q = layer \<and> layer_found (refs_of s) q"
  by (auto simp: query_layer_def layer_found_def result_simps resolve_layer)

lemma query_layers_Inr:
  assumes "refs_spec repo refs_of" "try_map (query_layer repo s) ls = Inr qs"
  shows "map ml_layer qs = ls" "list_all (layer_found (refs_of s)) qs"
  using assms(2) query_layer_Inr [OF assms(1)]
  by (induction ls arbitrary: qs) (auto simp: result_simps)

lemma create_prepared_import_Inr:
  assumes "refs_spec (ic_repo ctx) refs_of" "hd (m_layers manifest) \<notin> set (tl (m_layers manifest))"
    and "create_prepared_import ctx im s digest manifest config prev imageid = Inr imp"
  shows "pi_manifest imp = manifest" "pi_manifest_digest imp = digest"
    and "map ml_layer (all_layers imp) = m_layers manifest" "list_all (layer_found (refs_of s)) (all_layers imp)"
proof -
  obtain o_layer ch de q qc qd where q: "parse_manifest_layout manifest config = Inr (o_layer, ch, de)"
      "query_layer (ic_repo ctx) s o_layer = Inr q" "try_map (query_layer (ic_repo ctx) s) ch = Inr qc"
      "try_map (query_layer (ic_repo ctx) s) de = Inr qd" "all_layers imp = q # qc @ qd"
      "pi_manifest imp = manifest" "pi_manifest_digest imp = digest"
    using assms(3) by (auto simp: create_prepared_import_def all_layers_def Let_def result_simps)
  show "pi_manifest imp = manifest" "pi_manifest_digest imp = digest" by fact+
  note qs = query_layer_Inr [OF assms(1) q(2)] query_layers_Inr [OF assms(1) q(3)] query_layers_Inr [OF assms(1) q(4)]
  show "map ml_layer (all_layers imp) = m_layers manifest"
    using qs layout_all_layers [OF q(1) assms(2)] by (simp add: q(5))
  show "list_all (layer_found (refs_of s)) (all_layers imp)"
    using qs by (simp add: q(5))
qed

lemma prepare_new_Inr:
  assumes "prepare_new ctx im digest manifest prev imageid s = (Inr r, s')"
  shows "\<exists>imp config. r = Ready imp \<and> create_prepared_import ctx im s' digest manifest config prev imageid = Inr imp"
  using assms unfolding prepare_new_def act_simps by blast

text \<open>C34: what preparing an import finds, for a manifest whose first layer does not occur a second time (other layers may
  be repeated; a further copy of the first layer among the chunks would be left out by the layout).  An image counts as present exactly when the repository has an image of this name whose
  manifest digest or configuration digest is the fetched one, and nothing is changed then.  Otherwise the prepared import
  lists the layers of the fetched manifest in their order, each with its ref and with the commit the ref points to, so
  that the layers without a commit are those whose ref is missing.\<close>

theorem prepare_finds_layers:
  assumes "refs_spec (ic_repo ctx) refs_of" "prepare ctx im s = (Inr r, s')"
    and "px_fetch_manifest (ic_proxy ctx) (ii_proxy_img im) = Inr (digest, manifest)"
    and "hd (m_layers manifest) \<notin> set (tl (m_layers manifest))"
    and "query = try_query_image (ic_repo ctx) (ic_json ctx) s (oir_imgref (ii_imgref im))"
    and "same = (\<lambda>st. oj_read_digest (ic_json ctx) digest = Inr (ls_manifest_digest st) \<or>
      d_digest (m_config (ls_manifest st)) = d_digest (m_config manifest))"
  shows "case r of
      AlreadyPresent st \<Rightarrow> s' = s \<and> query = Inr (Some st) \<and> same st
    | Ready imp \<Rightarrow> (\<forall>st. query = Inr (Some st) \<longrightarrow> \<not> same st) \<and>
        pi_manifest imp = manifest \<and> oj_read_digest (ic_json ctx) digest = Inr (pi_manifest_digest imp) \<and>
        map ml_layer (all_layers imp) = m_layers manifest \<and>
        (\<forall>l \<in> set (all_layers imp). ref_for_layer (ml_layer l) = Inr (ml_ostree_ref l) \<and> ml_commit l = refs_of s' (ml_ostree_ref l))"
proof -
  obtain manifest_digest previous where p: "oj_read_digest (ic_json ctx) digest = Inr manifest_digest" "query = Inr previous"
      "(case previous of
          Some previous_state \<Rightarrow>
            if ls_manifest_digest previous_state = manifest_digest then act_ret (AlreadyPresent previous_state)
            else let previous_imageid = d_digest (m_config (ls_manifest previous_state))
                 in if previous_imageid = d_digest (m_config manifest) then act_ret (AlreadyPresent previous_state)
                    else prepare_new ctx im manifest_digest manifest (Some previous_state) (Some (digest_to_string previous_imageid))
        | None \<Rightarrow> prepare_new ctx im manifest_digest manifest None None) s = (Inr r, s')"
    using assms(2,3,5) by (auto simp: prepare_def prepare_internal_def act_simps Let_def)
  have ready: ?thesis if "prepare_new ctx im manifest_digest manifest prev imageid s = (Inr r, s')"
      "\<forall>st. query = Inr (Some st) \<longrightarrow> \<not> same st" for prev imageid
  proof -
    from prepare_new_Inr [OF that(1)] obtain imp config where
      imp: "r = Ready imp" "create_prepared_import ctx im s' manifest_digest manifest config prev imageid = Inr imp"
      by blast
    show ?thesis
      using create_prepared_import_Inr [OF assms(1,4) imp(2)] that(2) p(1)
      by (auto simp: imp(1) list_all_iff layer_found_def)
  qed
  show ?thesis
  proof (cases previous)
    case None
    then show ?thesis using p(2,3) by (intro ready [of None None]) simp_all
  next
    case (Some st)
    show ?thesis
    proof (cases "same st")
      case True
      then show ?thesis using p Some by (auto simp: assms(6) split: if_splits)
    next
      case False
      then have "ls_manifest_digest st \<noteq> manifest_digest" "d_digest (m_config (ls_manifest st)) \<noteq> d_digest (m_config manifest)"
        using p(1) by (auto simp: assms(6))
      then show ?thesis using p(2,3) Some False by (intro ready) auto
    qed
  qed
qed

theorem prepare_finds_layers_witness:
  "map ml_layer (all_layers sample_prepared) = [stored_layer ''a'', stored_layer ''b''] \<and>
   map ml_commit (all_layers sample_prepared) = [None, None]"
proof -
  have "hd (m_layers sample_image_manifest) \<notin> set (tl (m_layers sample_image_manifest))" by (simp add: sample_image_manifest_def stored_layer_def)
  moreover have "px_fetch_manifest (ic_proxy sample_ctx) (ii_proxy_img sample_importer) = Inr (str ''sha256:d'', sample_image_manifest)"
    by (simp add: sample_ctx_def sample_image_proxy_def)
  moreover have "refs_spec (ic_repo sample_ctx) (\<lambda>s. map_of (fst s))" using sample_refs by (simp add: sample_ctx_def)
  ultimately have layers: "map ml_layer (all_layers sample_prepared) = [stored_layer ''a'', stored_layer ''b'']"
      "\<forall>l \<in> set (all_layers sample_prepared). ml_commit l = None"
    using prepare_finds_layers [OF _ sample_prepare _ _ refl refl]
    by (simp_all add: sample_image_manifest_def sample_empty_def)
  then have "map ml_commit (all_layers sample_prepared) = replicate (length (all_layers sample_prepared)) None"
    by (intro replicate_eqI) auto
  moreover have "length (all_layers sample_prepared) = 2" using arg_cong [OF layers(1), of length] by simp
  ultimately show ?thesis using layers(1) by (simp add: numeral_2_eq_2)
qed

text \<open>The end of an import without an image ref: the collection of unused layers removes the refs of the layers just fetched, since no
  image refers to them, and the query of the merge commit fails on the missing base layer.\<close>

lemma no_imgref_import_fails:
  "fst (import_image sample_ctx (set_no_imgref sample_importer) sample_prepared sample_empty) = Inl (Err ''Missing base image ref'')"
  by code_simp

text \<open>A layer whose transfer fails at its end, when the worker has already committed it, is left in the repository with its ref: the
  error of the transfer is returned, with the state the worker made.\<close>

lemma driver_error_keeps_layer:
  assumes "fetch_layer (ic_proxy ctx) (ii_proxy_img im) manifest layer info (ir_transport (oir_imgref (ii_imgref im))) = Inr (blob, Inl e, mt)"
    and "worker mt blob (w_repo w) = (Inr r, s')" "ii_layer_progress im = None"
  shows "fetch_with_progress ctx im manifest info layer started completed worker w = (Inl e, w\<lparr>w_repo := s'\<rparr>)"
  using assms
  by (simp add: fetch_with_progress_def send_progress_def act_bind_result_app act_bind_def on_repo_def act_join_def join_fetch_def)

end
