(* ===== verification/Deploy.thy ===== *)
theory Deploy
  imports ImageImport
begin

text \<open>
  Deployments of container images (\<^verbatim>\<open>lib/src/container/deploy.rs\<close>, \<^verbatim>\<open>lib/src/sysroot.rs\<close>): writing an image to a
  deployment, removing the images that no deployment comes from, and pruning.  The sysroot is third-party: its
  calls that write deployments are a list of \<open>sysroot_call\<close>s together with the answer to each.
\<close>

section \<open>Definitions\<close>

subsection \<open>The lock of a sysroot\<close>

text \<open>\<open>answers\<close> are the results of the attempts to take the lock, in order; \<open>None\<close>: the process still waits
  after all of them.  A lock that was assumed is not released.\<close>

record sysroot_lock =
  sl_unowned :: bool

fun new_from_sysroot :: "bool result list \<Rightarrow> sysroot_lock result option" where
  "new_from_sysroot [] = None"
| "new_from_sysroot (a # answers) =
     (case a of
        Inl e \<Rightarrow> Some (Inl e)
      | Inr locked \<Rightarrow> if locked then Some (Inr \<lparr>sl_unowned = False\<rparr>) else new_from_sysroot answers)"

definition from_assumed_locked :: sysroot_lock where
  "from_assumed_locked = \<lparr>sl_unowned = True\<rparr>"

definition unlocks_on_drop :: "sysroot_lock \<Rightarrow> bool" where
  "unlocks_on_drop l \<longleftrightarrow> \<not> sl_unowned l"

subsection \<open>Deploying\<close>

definition ORIGIN_CONTAINER :: rstr where "ORIGIN_CONTAINER = str ''container-image-reference''"

record 'f deploy_opts =
  do_kargs :: "rstr list option"
  do_target_imgref :: "ostree_image_reference option"
  do_proxy_cfg :: "'f proxy_config option"
  do_no_imgref :: bool
  do_no_clean :: bool

text \<open>The calls that write a deployment.  A tree is staged or deployed for a stateroot, from a commit, with an
  origin, the deployment to merge from and kernel arguments; the answer to deploying names the deployment.\<close>

datatype sysroot_call =
    StageTree rstr rstr "(rstr \<times> rstr \<times> rstr) list" "rstr option" "rstr list option"
  | DeployTree rstr rstr "(rstr \<times> rstr \<times> rstr) list" "rstr option" "rstr list option"
  | SimpleWriteDeployment rstr rstr "rstr option" bool
  | Cleanup

record 'f sysroot =
  sy_host :: "'f host"
  sy_merge_deployment :: "rstr \<Rightarrow> rstr option"
  sy_booted :: bool
  sy_ostree_2024_3 :: bool
  sy_default_proxy_cfg :: "'f proxy_config"
  sy_answer :: "sysroot_call \<Rightarrow> rstr result"

text \<open>The state is that of the importer together with the calls made to the sysroot.\<close>

definition on_world :: "('s world, 'a) action \<Rightarrow> ('s world \<times> sysroot_call list, 'a) action" where
  "on_world m = (\<lambda>(w, calls). let (r, w') = m w in (r, (w', calls)))"

definition sysroot_do :: "'f sysroot \<Rightarrow> sysroot_call \<Rightarrow> ('s world \<times> sysroot_call list, rstr) action" where
  "sysroot_do sys c = (\<lambda>(w, calls). (sy_answer sys c, (w, calls @ [c])))"

definition deploy_importer :: "'f deploy_opts \<Rightarrow> 'i image_importer \<Rightarrow> 'i image_importer" where
  "deploy_importer options imp =
     (let imp = require_bootable imp;
          imp = (case do_target_imgref options of Some target \<Rightarrow> set_target target imp | None \<Rightarrow> imp)
      in if do_no_imgref options then set_no_imgref imp else imp)"

definition deploy ::
  "'f sysroot \<Rightarrow> ('f proxy_config \<Rightarrow> 'i image_proxy result) \<Rightarrow> ('s, 'i) import_ctx \<Rightarrow> rstr \<Rightarrow> ostree_image_reference \<Rightarrow>
   'f deploy_opts \<Rightarrow> ('s world \<times> sysroot_call list, layered_image_state) action" where
  "deploy sys start_proxy ctx stateroot imgref options =
     act_bind (act_result (image_importer_new (sy_host sys) start_proxy (sy_ostree_2024_3 sys) imgref
         (case do_proxy_cfg options of Some c \<Rightarrow> c | None \<Rightarrow> sy_default_proxy_cfg sys))) (\<lambda>(proxy, imp).
     let ctx = ctx\<lparr>ic_proxy := proxy\<rparr>;
         imp = deploy_importer options imp;
         merge_deployment = sy_merge_deployment sys stateroot
     in act_bind (on_world (on_repo (prepare ctx imp))) (\<lambda>prepared.
        act_bind (case prepared of AlreadyPresent r \<Rightarrow> act_ret r | Ready prep \<Rightarrow> on_world (import_image ctx imp prep)) (\<lambda>state.
        let commit = ls_merge_commit state;
            target_imgref = (case do_target_imgref options of Some t \<Rightarrow> t | None \<Rightarrow> imgref);
            origin = [(str ''origin'', ORIGIN_CONTAINER, ostree_image_reference_fmt False target_imgref)]
        in act_bind
             (if sy_booted sys
              then act_bind (sysroot_do sys (StageTree stateroot commit origin merge_deployment (do_kargs options))) (\<lambda>_. act_ret ())
              else act_bind (sysroot_do sys (DeployTree stateroot commit origin merge_deployment (do_kargs options))) (\<lambda>deployment.
                   act_bind (sysroot_do sys (SimpleWriteDeployment stateroot deployment merge_deployment (do_no_clean options))) (\<lambda>_.
                   if \<not> do_no_clean options then act_bind (sysroot_do sys Cleanup) (\<lambda>_. act_ret ()) else act_ret ()))) (\<lambda>_.
           act_ret state))))"

subsection \<open>Pruning\<close>

definition deployment_origin_container :: "keyfile option \<Rightarrow> ostree_image_reference option result" where
  "deployment_origin_container deploy_origin =
     and_then (case deploy_origin of
                 None \<Rightarrow> Inr None
               | Some o_kf \<Rightarrow> optional_string o_kf (str ''origin'') ORIGIN_CONTAINER) (\<lambda>origin.
     case origin of None \<Rightarrow> Inr None | Some v \<Rightarrow> and_then (ostree_image_reference_try_from v) (\<lambda>r. Inr (Some r)))"

definition deployed_images :: "keyfile option list \<Rightarrow> image_reference list result" where
  "deployed_images deployments =
     and_then (try_map deployment_origin_container deployments) (\<lambda>os.
     Inr (map oir_imgref (List.map_filter id os)))"

definition parsed_images :: "rstr list \<Rightarrow> image_reference list" where
  "parsed_images imgs = List.map_filter (\<lambda>img. case image_reference_try_from img of Inr r \<Rightarrow> Some r | Inl _ \<Rightarrow> None) imgs"

definition remove_undeployed_images ::
  "('s, 'z) ostree_repo_scheme \<Rightarrow> keyfile option list \<Rightarrow> ('s, image_reference list) action" where
  "remove_undeployed_images repo deployments =
     act_bind (act_result (deployed_images deployments)) (\<lambda>deployment_origins.
     act_bind (act_query (list_images repo)) (\<lambda>imgs.
     act_fold (\<lambda>image removed.
         if image \<notin> set deployment_origins
         then act_bind (act_lift (remove_image repo image)) (\<lambda>_. act_ret (removed @ [image]))
         else act_ret removed) (parsed_images imgs) []))"

record pruned =
  pr_n_images :: u32
  pr_n_layers :: u32
  pr_n_objects_pruned :: u32
  pr_objsize :: u64

definition pruned_is_empty :: "pruned \<Rightarrow> bool" where
  "pruned_is_empty p \<longleftrightarrow> pr_n_images p = 0 \<and> pr_n_layers p = 0 \<and> pr_n_objects_pruned p = 0"

text \<open>\<open>prune_objects\<close> is libostree's prune of the objects no ref needs: the number of objects, as a signed
  integer, and their size.\<close>

definition prune ::
  "('s, 'z) ostree_repo_scheme \<Rightarrow> oci_json \<Rightarrow> ('s, int \<times> u64) action \<Rightarrow> keyfile option list \<Rightarrow> ('s, pruned) action" where
  "prune repo js prune_objects deployments =
     act_bind (remove_undeployed_images repo deployments) (\<lambda>removed.
     act_bind (act_result (ensure (length removed < 2 ^ 32) (Panic ''try_into().unwrap()''))) (\<lambda>_.
     act_bind (gc_image_layers repo js) (\<lambda>n_layers.
     act_bind prune_objects (\<lambda>(n_objects_pruned, objsize).
     act_bind (act_result (ensure (0 \<le> n_objects_pruned) (Panic ''u32::try_from().unwrap()''))) (\<lambda>_.
     act_ret \<lparr>pr_n_images = of_nat (length removed), pr_n_layers = n_layers,
       pr_n_objects_pruned = of_int n_objects_pruned, pr_objsize = objsize\<rparr>)))))"

section \<open>Lemmas\<close>

subsection \<open>Stored images\<close>

text \<open>The abstract view of a repository: the images stored in it, as a set.\<close>

definition stored_images :: "(rstr \<Rightarrow> rstr option) \<Rightarrow> image_reference set" where
  "stored_images refs = {ir. storable_imgref ir \<and> (\<exists>r. ref_for_image ir = Inr r \<and> refs r \<noteq> None)}"

text \<open>The image refs of a repository were written by \<open>ref_for_image\<close>.\<close>

definition image_refs_canonical :: "(rstr \<Rightarrow> rstr option) \<Rightarrow> bool" where
  "image_refs_canonical refs \<longleftrightarrow>
     (\<forall>r. refs r \<noteq> None \<and> under IMAGE_PREFIX r \<longrightarrow> (\<exists>ir. storable_imgref ir \<and> ref_for_image ir = Inr r))"

text \<open>The repository after the given images have been taken out.\<close>

definition without_images :: "image_reference set \<Rightarrow> (rstr \<Rightarrow> rstr option) \<Rightarrow> rstr \<Rightarrow> rstr option" where
  "without_images X refs = (\<lambda>r. if \<exists>ir \<in> X. ref_for_image ir = Inr r then None else refs r)"

lemma stored_images_without:
  assumes "\<forall>ir \<in> X. storable_imgref ir"
  shows "stored_images (without_images X refs) = stored_images refs - X"
proof -
  have "(\<exists>r. ref_for_image ir = Inr r \<and> without_images X refs r \<noteq> None) \<longleftrightarrow>
      (\<exists>r. ref_for_image ir = Inr r \<and> refs r \<noteq> None) \<and> ir \<notin> X" if "storable_imgref ir" for ir
    using that assms image_ref_codec.enc_inj [of ir] by (auto simp: without_images_def split: if_splits)
  then show ?thesis unfolding stored_images_def by blast
qed

text \<open>Names read from canonical refs are parsed and printed back to the same refs.\<close>

lemma parsed_images_refs:
  assumes "\<forall>r \<in> set rs. \<exists>ir. storable_imgref ir \<and> ref_for_image ir = Inr r"
    and "try_map (unprefix_unescape_ref IMAGE_PREFIX) rs = Inr names"
  shows "map ref_for_image (parsed_images names) = map Inr rs \<and> (\<forall>ir \<in> set (parsed_images names). storable_imgref ir)"
  using assms
proof (induction rs arbitrary: names)
  case (Cons r rs)
  obtain ir where ir: "storable_imgref ir" "ref_for_image ir = Inr r" using Cons.prems(1) by auto
  obtain names' where names: "unprefix_unescape_ref IMAGE_PREFIX r = Inr (image_reference_fmt ir)"
      "try_map (unprefix_unescape_ref IMAGE_PREFIX) rs = Inr names'" "names = image_reference_fmt ir # names'"
    using Cons.prems(2) unescape_image_ref [OF _ ir(2)] ir(1) by (auto simp: storable_imgref_def result_simps)
  have "image_reference_try_from (image_reference_fmt ir) = Inr ir"
    using ir(1) by (simp add: storable_imgref_def image_reference_parse_print)
  then have "parsed_images names = ir # parsed_images names'"
    by (simp add: names(3) parsed_images_def List.map_filter_simps)
  with ir Cons.IH [OF _ names(2)] Cons.prems(1) show ?case by simp
qed (simp add: parsed_images_def)

lemma listed_images:
  assumes "refs_spec repo refs_of" "image_refs_canonical (refs_of s)" "list_images repo s = Inr names"
  shows "set (parsed_images names) = stored_images (refs_of s)" "distinct (parsed_images names)"
proof -
  obtain l where l: "rp_list_refs repo s IMAGE_PREFIX = Inr l"
      "try_map (unprefix_unescape_ref IMAGE_PREFIX) (map fst l) = Inr names"
    using assms(3) by (auto simp: list_images_def result_simps)
  note mem = refs_specD(4) [OF assms(1) l(1)]
  have "\<forall>r \<in> set (map fst l). \<exists>ir. storable_imgref ir \<and> ref_for_image ir = Inr r"
    using mem assms(2) unfolding image_refs_canonical_def by auto
  from parsed_images_refs [OF this l(2)]
  have p: "map ref_for_image (parsed_images names) = map Inr (map fst l)" "\<forall>ir \<in> set (parsed_images names). storable_imgref ir"
    by blast+
  have "distinct (map ref_for_image (parsed_images names))"
    unfolding p(1) using refs_specD(3) [OF assms(1) l(1)] by (simp add: distinct_map inj_on_def)
  then show "distinct (parsed_images names)" by (simp add: distinct_map)
  have refs: "ref_for_image ` set (parsed_images names) = Inr ` fst ` set l"
    using p(1) by (metis list.set_map)
  show "set (parsed_images names) = stored_images (refs_of s)"
  proof (intro set_eqI iffI)
    fix ir assume ir: "ir \<in> set (parsed_images names)"
    then have "ref_for_image ir \<in> Inr ` fst ` set l" using refs by blast
    then obtain r c where "ref_for_image ir = Inr r" "(r, c) \<in> set l" by auto
    with mem [of r c] p(2) ir show "ir \<in> stored_images (refs_of s)" by (auto simp: stored_images_def)
  next
    fix ir assume "ir \<in> stored_images (refs_of s)"
    then obtain r c where ir: "storable_imgref ir" "ref_for_image ir = Inr r" "refs_of s r = Some c"
      by (auto simp: stored_images_def)
    then have "(r, c) \<in> set l" using mem ref_for_under(3) by simp
    then have "Inr r \<in> ref_for_image ` set (parsed_images names)" unfolding refs by force
    then obtain ir' where "ir' \<in> set (parsed_images names)" "ref_for_image ir' = Inr r" by auto
    with ir p(2) image_ref_codec.enc_inj show "ir \<in> set (parsed_images names)" by metis
  qed
qed

subsection \<open>Removal\<close>

lemma remove_image_Inr:
  assumes "refs_spec repo refs_of" "remove_image repo img s = Inr (b, s')"
  shows "refs_of s' = without_images {img} (refs_of s)"
    and "rp_load_commit repo s' = rp_load_commit repo s" "rp_detached repo s' = rp_detached repo s"
proof -
  obtain r where r: "ref_for_image img = Inr r" using assms(2) by (auto simp: remove_image_def result_simps)
  note run = assms(2) [unfolded remove_image_def r, simplified, unfolded resolve_image(1) [OF assms(1) r], simplified]
  show "refs_of s' = without_images {img} (refs_of s)"
    using run r refs_specD(5) [OF assms(1)]
    by (auto simp: without_images_def result_simps fun_eq_iff split: if_splits)
  show "rp_load_commit repo s' = rp_load_commit repo s" "rp_detached repo s' = rp_detached repo s"
    using run refs_specD(6,7) [OF assms(1)] by (auto simp: result_simps split: if_splits)
qed

lemma without_images_union: "without_images X (without_images Y refs) = without_images (X \<union> Y) refs"
  by (auto simp: without_images_def fun_eq_iff)

lemma remove_loop:
  assumes "refs_spec repo refs_of"
    and "act_fold (\<lambda>image removed.
           if image \<notin> set origins then act_bind (act_lift (remove_image repo image)) (\<lambda>_. act_ret (removed @ [image]))
           else act_ret removed) images removed s = (Inr removed', s')"
  shows "removed' = removed @ filter (\<lambda>i. i \<notin> set origins) images \<and>
    refs_of s' = without_images (set images - set origins) (refs_of s) \<and>
    rp_load_commit repo s' = rp_load_commit repo s \<and> rp_detached repo s' = rp_detached repo s"
  using assms(2)
proof (induction images arbitrary: removed s)
  case (Cons img images)
  show ?case
  proof (cases "img \<in> set origins")
    case True
    with Cons show ?thesis by (simp add: insert_Diff_if)
  next
    case False
    then obtain b s1 where "remove_image repo img s = Inr (b, s1)"
        and rest: "act_fold (\<lambda>image removed.
           if image \<notin> set origins then act_bind (act_lift (remove_image repo image)) (\<lambda>_. act_ret (removed @ [image]))
           else act_ret removed) images (removed @ [img]) s1 = (Inr removed', s')"
      using Cons.prems by (auto simp: act_simps)
    note one = remove_image_Inr [OF assms(1) this(1)]
    have "set (img # images) - set origins = (set images - set origins) \<union> {img}" using False by auto
    with Cons.IH [OF rest] one False show ?thesis by (simp add: without_images_union)
  qed
qed (simp add: without_images_def)

lemma remove_undeployed_run:
  assumes "refs_spec repo refs_of" "image_refs_canonical (refs_of s)"
    and "remove_undeployed_images repo deployments s = (Inr removed, s')" "deployed_images deployments = Inr origins"
  shows "set removed = stored_images (refs_of s) - set origins" "distinct removed"
    and "refs_of s' = without_images (set removed) (refs_of s)"
    and "rp_load_commit repo s' = rp_load_commit repo s" "rp_detached repo s' = rp_detached repo s"
proof -
  obtain names where names: "list_images repo s = Inr names"
      "act_fold (\<lambda>image removed.
         if image \<notin> set origins then act_bind (act_lift (remove_image repo image)) (\<lambda>_. act_ret (removed @ [image]))
         else act_ret removed) (parsed_images names) [] s = (Inr removed, s')"
    using assms(3,4) by (auto simp: remove_undeployed_images_def act_simps)
  note loop = remove_loop [OF assms(1) names(2)]
  note listed = listed_images [OF assms(1,2) names(1)]
  have removed: "removed = filter (\<lambda>i. i \<notin> set origins) (parsed_images names)" using loop by simp
  show "set removed = stored_images (refs_of s) - set origins"
    unfolding removed set_filter listed(1) by auto
  then show "refs_of s' = without_images (set removed) (refs_of s)" using loop listed(1) by simp
  show "distinct removed" unfolding removed using listed(2) by simp
  show "rp_load_commit repo s' = rp_load_commit repo s" "rp_detached repo s' = rp_detached repo s"
    using loop by simp_all
qed

subsection \<open>Pruning\<close>

text \<open>Pruning objects keeps the refs and what the refs name.\<close>

definition prunes_unreferenced ::
  "('s, 'z) ostree_repo_scheme \<Rightarrow> ('s \<Rightarrow> rstr \<Rightarrow> rstr option) \<Rightarrow> ('s, int \<times> u64) action \<Rightarrow> bool" where
  "prunes_unreferenced repo refs_of prune_objects \<longleftrightarrow>
     (\<forall>s x s'. prune_objects s = (x, s') \<longrightarrow> refs_of s' = refs_of s \<and>
        (\<forall>r c. refs_of s r = Some c \<longrightarrow>
           rp_load_commit repo s' c = rp_load_commit repo s c \<and> rp_detached repo s' c = rp_detached repo s c))"

lemma prunes_unreferencedD:
  assumes "prunes_unreferenced repo refs_of prune_objects" "prune_objects s = (x, s')"
  shows "refs_of s' = refs_of s"
    and "refs_of s r = Some c \<Longrightarrow> rp_load_commit repo s' c = rp_load_commit repo s c"
    and "refs_of s r = Some c \<Longrightarrow> rp_detached repo s' c = rp_detached repo s c"
  using assms unfolding prunes_unreferenced_def by blast+

lemma prune_run:
  assumes "prune repo js prune_objects deployments s = (Inr p, s')"
  obtains removed s1 n s2 x where "remove_undeployed_images repo deployments s = (Inr removed, s1)"
    and "gc_image_layers repo js s1 = (Inr n, s2)" "prune_objects s2 = (x, s')"
    and "pr_n_images p = of_nat (length removed)" "length removed < 2 ^ 32" "pr_n_layers p = n"
  using assms by (auto simp: prune_def act_simps ensure_def split: if_splits prod.splits)

lemma query_image_cong:
  assumes "refs_spec repo refs_of" "ref_for_image ir = Inr r" "refs_of s' r = refs_of s r"
    and "\<And>c. refs_of s r = Some c \<Longrightarrow> query_image_commit repo js s' c = query_image_commit repo js s c"
  shows "query_image repo js s' ir = query_image repo js s ir"
  using assms(2-4) resolve_image(1) [OF assms(1,2)] by (auto simp: query_image_def split: option.splits)

lemma without_images_layer: "under LAYER_PREFIX r \<Longrightarrow> without_images X refs r = refs r"
  using ref_for_under(3) ref_prefixes(3) by (auto simp: without_images_def)

lemma without_images_other:
  assumes "\<forall>ir \<in> X. storable_imgref ir" "storable_imgref ir" "ir \<notin> X" "ref_for_image ir = Inr r"
  shows "without_images X refs r = refs r"
proof -
  have "ref_for_image x \<noteq> Inr r" if "x \<in> X" for x
    using image_ref_codec.enc_inj [OF _ assms(2) _ assms(4), of x] that assms(1,3) by blast
  then show ?thesis by (auto simp: without_images_def)
qed

text \<open>What happens to an image that no removal touches: first the removal of others, then the collection of
  layers, then the pruning of objects.\<close>

lemma kept_by_removal:
  assumes "refs_spec repo refs_of" "ref_for_image ir = Inr r" "storable_imgref ir" "ir \<notin> X" "\<forall>ir \<in> X. storable_imgref ir"
    and "refs_of s' = without_images X (refs_of s)"
    and "rp_load_commit repo s' = rp_load_commit repo s" "rp_detached repo s' = rp_detached repo s"
  shows "refs_of s' r = refs_of s r" "query_image repo js s' ir = query_image repo js s ir"
proof -
  show r: "refs_of s' r = refs_of s r"
    unfolding assms(6) by (rule without_images_other [OF assms(5,3,4,2)])
  show "query_image repo js s' ir = query_image repo js s ir"
    by (rule query_image_cong [OF assms(1,2) r], rule query_image_commit_cong [OF assms(1)])
       (simp_all add: assms(6-8) without_images_layer [OF ref_for_under(1)])
qed

lemma kept_by_gc:
  assumes "refs_spec repo refs_of" "json_valid js" "layer_refs_canonical (refs_of s)"
    and "gc_image_layers repo js s = (res, s')" "ref_for_image ir = Inr r" "storable_imgref ir"
  shows "refs_of s' r = refs_of s r" "query_image repo js s' ir = query_image repo js s ir"
proof -
  note gc = gc_keeps [OF assms(1,4)]
  show r: "refs_of s' r = refs_of s r"
    using gc(3) ref_for_under(3) [OF assms(5)] ref_prefixes(3) by blast
  show "query_image repo js s' ir = query_image repo js s ir"
  proof (rule query_image_cong [OF assms(1,5) r])
    fix c assume "refs_of s r = Some c"
    then have "live_commit (refs_of s) c"
      using assms(5,6) unfolding live_commit_def storable_imgref_def by blast
    from gc_keeps_live [OF assms(1-4) this]
    show "query_image_commit repo js s' c = query_image_commit repo js s c"
      using gc(1,2) by (intro query_image_commit_cong [OF assms(1)]) auto
  qed
qed

lemma kept_by_prune_objects:
  assumes "refs_spec repo refs_of" "prunes_unreferenced repo refs_of prune_objects" "prune_objects s = (x, s')"
    and "ref_for_image ir = Inr r"
  shows "query_image repo js s' ir = query_image repo js s ir"
proof -
  note pr = prunes_unreferencedD [OF assms(2,3)]
  show ?thesis
    by (rule query_image_cong [OF assms(1,4)], simp add: pr(1), rule query_image_commit_cong [OF assms(1)])
       (use pr in auto)
qed

section \<open>Properties\<close>

text \<open>A repository with two images and a deployment that comes from the first of them.\<close>

definition deployed_state :: "(rstr \<times> rstr) list" where
  "deployed_state = (str ''ostree/container/image/docker_3A__2F__2F_y'', [52]) # stored_state"

definition other_image :: image_reference where
  "other_image = \<lparr>ir_transport = Registry, ir_name = str ''y''\<rparr>"

definition sample_deployments :: "keyfile option list" where
  "sample_deployments = [None, Some \<lparr>kf_string = (\<lambda>g k. if g = str ''origin'' \<and> k = ORIGIN_CONTAINER
     then Inr (str ''ostree-unverified-registry:x'') else Inl KeyNotFound), kf_boolean = (\<lambda>_ _. Inl KeyNotFound)\<rparr>]"

definition sample_prune_objects :: "((rstr \<times> rstr) list, int \<times> u64) action" where
  "sample_prune_objects s = (Inr (3, 10), s)"

lemma sample_images:
  "ref_for_image stored_image = Inr (str ''ostree/container/image/docker_3A__2F__2F_x'')"
  "ref_for_image other_image = Inr (str ''ostree/container/image/docker_3A__2F__2F_y'')"
  "storable_imgref stored_image" "storable_imgref other_image"
  by code_simp+

lemma deployed_state_images: "image_refs_canonical (map_of deployed_state)"
  unfolding image_refs_canonical_def
proof (intro allI impI)
  fix r assume r: "map_of deployed_state r \<noteq> None \<and> under IMAGE_PREFIX r"
  have "\<not> under IMAGE_PREFIX (str ''ostree/container/blob/sha256_3A_a'')" "\<not> under IMAGE_PREFIX (str ''ostree/container/blob/sha256_3A_b'')"
    by code_simp+
  with r have "r = str ''ostree/container/image/docker_3A__2F__2F_x'' \<or> r = str ''ostree/container/image/docker_3A__2F__2F_y''"
    by (auto simp: deployed_state_def stored_state_def split: if_splits)
  with sample_images show "\<exists>ir. storable_imgref ir \<and> ref_for_image ir = Inr r" by blast
qed

lemma deployed_state_layers: "layer_refs_canonical (map_of deployed_state)"
proof -
  have "\<not> under LAYER_PREFIX (str ''ostree/container/image/docker_3A__2F__2F_y'')" by code_simp
  with stored_state_canonical show ?thesis
    by (auto simp: layer_refs_canonical_def deployed_state_def split: if_splits)
qed

lemma sample_prunes: "prunes_unreferenced stored_repo map_of sample_prune_objects"
  by (simp add: prunes_unreferenced_def sample_prune_objects_def)

lemma sample_deployed: "deployed_images sample_deployments = Inr [stored_image]"
  by code_simp

text \<open>C16: removing undeployed images refines the difference of sets: of the stored images exactly those that no
  deployment comes from are taken out, each counted once, no other ref changes, and the result lists them.\<close>

theorem remove_undeployed_images_refines:
  assumes "refs_spec repo refs_of" "image_refs_canonical (refs_of s)"
    and "remove_undeployed_images repo deployments s = (Inr removed, s')"
  shows "\<exists>origins. deployed_images deployments = Inr origins \<and> distinct removed \<and>
    set removed = stored_images (refs_of s) - set origins \<and>
    refs_of s' = without_images (set removed) (refs_of s) \<and>
    stored_images (refs_of s') = stored_images (refs_of s) \<inter> set origins"
proof -
  obtain origins where o: "deployed_images deployments = Inr origins"
    using assms(3) by (auto simp: remove_undeployed_images_def act_simps)
  note run = remove_undeployed_run [OF assms o]
  have "\<forall>ir \<in> set removed. storable_imgref ir" unfolding run(1) by (auto simp: stored_images_def)
  from stored_images_without [OF this] have "stored_images (refs_of s') = stored_images (refs_of s) \<inter> set origins"
    unfolding run(3) by (simp add: run(1)) blast
  with o run(1-3) show ?thesis by blast
qed

theorem remove_undeployed_images_refines_witness:
  "\<exists>s'. remove_undeployed_images stored_repo sample_deployments deployed_state = (Inr [other_image], s') \<and>
     map_of s' (str ''ostree/container/image/docker_3A__2F__2F_y'') = None \<and>
     stored_images (map_of s') = stored_images (map_of deployed_state) \<inter> {stored_image}"
proof -
  have run: "remove_undeployed_images stored_repo sample_deployments deployed_state = (Inr [other_image], stored_state)"
    by code_simp
  have "map_of stored_state (str ''ostree/container/image/docker_3A__2F__2F_y'') = None" by code_simp
  moreover have "stored_images (map_of stored_state) = stored_images (map_of deployed_state) \<inter> {stored_image}"
    using remove_undeployed_images_refines [OF stored_repo_refs deployed_state_images run]
    unfolding sample_deployed sum.inject by fastforce
  ultimately show ?thesis using run by blast
qed

text \<open>C10: pruning keeps every image a deployment comes from: querying it gives the same answer before and after,
  so its merge commit, its metadata and its base layer are still there.\<close>

theorem prune_keeps_deployed:
  assumes "refs_spec repo refs_of" "json_valid js" "layer_refs_canonical (refs_of s)" "image_refs_canonical (refs_of s)"
    and "prunes_unreferenced repo refs_of prune_objects"
    and "prune repo js prune_objects deployments s = (Inr p, s')"
    and "deployed_images deployments = Inr origins" "ir \<in> set origins" "storable_imgref ir"
  shows "query_image repo js s' ir = query_image repo js s ir"
proof -
  obtain removed s1 n s2 x where run: "remove_undeployed_images repo deployments s = (Inr removed, s1)"
      "gc_image_layers repo js s1 = (Inr n, s2)" "prune_objects s2 = (x, s')"
    by (rule prune_run [OF assms(6)])
  note rm = remove_undeployed_run [OF assms(1,4) run(1) assms(7)]
  obtain r where r: "ref_for_image ir = Inr r" using image_ref_codec.enc_total [OF assms(9)] by blast
  have others: "\<forall>ir \<in> set removed. storable_imgref ir" "ir \<notin> set removed"
    using assms(8) unfolding rm(1) by (auto simp: stored_images_def)
  have "layer_refs_canonical (refs_of s1)"
    using assms(3) by (auto simp: layer_refs_canonical_def rm(3) without_images_def)
  note kept_by_prune_objects [OF assms(1,5) run(3) r]
  also note kept_by_gc(2) [OF assms(1,2) \<open>layer_refs_canonical (refs_of s1)\<close> run(2) r assms(9)]
  also note kept_by_removal(2) [OF assms(1) r assms(9) others(2,1) rm(3-5)]
  finally show ?thesis .
qed

theorem prune_keeps_deployed_witness:
  "\<exists>s' p. prune stored_repo stored_json sample_prune_objects sample_deployments deployed_state = (Inr p, s') \<and>
     pr_n_images p = 1 \<and> pr_n_layers p = 1 \<and> pr_n_objects_pruned p = 3 \<and>
     query_image stored_repo stored_json s' stored_image = query_image stored_repo stored_json deployed_state stored_image"
proof -
  have run: "prune stored_repo stored_json sample_prune_objects sample_deployments deployed_state =
      (Inr \<lparr>pr_n_images = 1, pr_n_layers = 1, pr_n_objects_pruned = 3, pr_objsize = 10\<rparr>, [stored_state ! 0, stored_state ! 2])"
    by code_simp
  have "query_image stored_repo stored_json [stored_state ! 0, stored_state ! 2] stored_image =
      query_image stored_repo stored_json deployed_state stored_image"
    by (rule prune_keeps_deployed [OF stored_repo_refs stored_json_valid deployed_state_layers deployed_state_images
        sample_prunes run sample_deployed _ sample_images(3)]) simp
  with run show ?thesis
    by (intro exI [of _ "[stored_state ! 0, stored_state ! 2]"]
        exI [of _ "\<lparr>pr_n_images = 1, pr_n_layers = 1, pr_n_objects_pruned = 3, pr_objsize = 10\<rparr>"]) (simp only: pruned.simps)
qed

end
