(* ===== verification/TreeDiff.thy ===== *)
theory TreeDiff
  imports Repo
begin

text \<open>
  Comparing the file trees of commits: the difference of two commits (\<^verbatim>\<open>lib/src/diff.rs\<close>) and the check
  of a merge commit against the layers it was made of (\<^verbatim>\<open>compare_commit_trees\<close> in
  \<^verbatim>\<open>lib/src/container/store.rs\<close>).

  A \<^verbatim>\<open>RepoFile\<close> is a file with its checksum and attributes, or a directory with the checksums of its
  contents and of its metadata.  Enumerating the children of a file is an error, a child that is not
  there is not found.
\<close>

section \<open>Definitions\<close>

datatype repo_file =
    RFile rstr file_info
  | RDir rstr rstr "(rstr \<times> repo_file) list"

fun is_dir :: "repo_file \<Rightarrow> bool" where
  "is_dir (RFile _ _) \<longleftrightarrow> False"
| "is_dir (RDir _ _ _) \<longleftrightarrow> True"

fun enumerate_children :: "repo_file \<Rightarrow> (rstr \<times> repo_file) list result" where
  "enumerate_children (RFile _ _) = Inl (Err ''not a directory'')"
| "enumerate_children (RDir _ _ children) = Inr children"

text \<open>The child found by \<^verbatim>\<open>query_info_optional\<close>.\<close>

fun query_child :: "repo_file \<Rightarrow> rstr \<Rightarrow> repo_file option" where
  "query_child (RFile _ _) name = None"
| "query_child (RDir _ _ children) name = map_of children name"

fun contents_checksum :: "repo_file \<Rightarrow> rstr option" where
  "contents_checksum (RFile _ _) = None"
| "contents_checksum (RDir c _ _) = Some c"

fun metadata_checksum :: "repo_file \<Rightarrow> rstr option" where
  "metadata_checksum (RFile _ _) = None"
| "metadata_checksum (RDir _ m _) = Some m"

text \<open>The checksum of a directory is that of its metadata object.\<close>

fun file_checksum :: "repo_file \<Rightarrow> rstr" where
  "file_checksum (RFile c _) = c"
| "file_checksum (RDir _ m _) = m"

subsection \<open>The difference of two trees\<close>

record file_tree_diff =
  fd_subdir :: "rstr option"
  added_files :: "rstr set"
  added_dirs :: "rstr set"
  removed_files :: "rstr set"
  removed_dirs :: "rstr set"
  changed_files :: "rstr set"
  changed_dirs :: "rstr set"

definition empty_diff :: "rstr option \<Rightarrow> file_tree_diff" where
  "empty_diff subdir = \<lparr>fd_subdir = subdir, added_files = {}, added_dirs = {}, removed_files = {}, removed_dirs = {},
     changed_files = {}, changed_dirs = {}\<rparr>"

definition diff_fmt :: "file_tree_diff \<Rightarrow> rstr" where
  "diff_fmt d =
     str ''files(added:'' @ fmt_dec (card (added_files d)) @ str '' removed:'' @ fmt_dec (card (removed_files d)) @
     str '' changed:'' @ fmt_dec (card (changed_files d)) @ str '') dirs(added:'' @ fmt_dec (card (added_dirs d)) @
     str '' removed:'' @ fmt_dec (card (removed_dirs d)) @ str '' changed:'' @ fmt_dec (card (changed_dirs d)) @ str '')''"

definition add_removed :: "repo_file \<Rightarrow> rstr \<Rightarrow> file_tree_diff \<Rightarrow> file_tree_diff" where
  "add_removed from_child path d =
     (if is_dir from_child then d\<lparr>removed_dirs := insert path (removed_dirs d)\<rparr>
      else d\<lparr>removed_files := insert path (removed_files d)\<rparr>)"

definition add_changed_dir :: "repo_file \<Rightarrow> repo_file \<Rightarrow> rstr \<Rightarrow> file_tree_diff \<Rightarrow> file_tree_diff" where
  "add_changed_dir from_child to_child path d =
     (if metadata_checksum from_child \<noteq> metadata_checksum to_child
      then d\<lparr>changed_dirs := insert path (changed_dirs d)\<rparr> else d)"

definition add_changed_file :: "repo_file \<Rightarrow> repo_file \<Rightarrow> rstr \<Rightarrow> file_tree_diff \<Rightarrow> file_tree_diff" where
  "add_changed_file from_child to_child path d =
     (if file_checksum from_child \<noteq> file_checksum to_child
      then d\<lparr>changed_files := insert path (changed_files d)\<rparr> else d)"

text \<open>One step of the second loop, over the target directory.\<close>

definition add_new :: "rstr \<Rightarrow> repo_file \<Rightarrow> rstr \<times> repo_file \<Rightarrow> file_tree_diff \<Rightarrow> file_tree_diff" where
  "add_new prefix from = (\<lambda>(name, to_child) d.
     if query_child from name \<noteq> None then d
     else if is_dir to_child then d\<lparr>added_dirs := insert (prefix @ name) (added_dirs d)\<rparr>
     else d\<lparr>added_files := insert (prefix @ name) (added_files d)\<rparr>)"

fun diff_recurse :: "rstr \<Rightarrow> repo_file \<Rightarrow> repo_file \<Rightarrow> file_tree_diff \<Rightarrow> file_tree_diff result"
  and diff_from :: "rstr \<Rightarrow> (rstr \<times> repo_file) list \<Rightarrow> repo_file \<Rightarrow> file_tree_diff \<Rightarrow> file_tree_diff result" where
  "diff_recurse prefix (RFile c i) to d = Inl (Err ''not a directory'')"
| "diff_recurse prefix (RDir c m children) to d =
     and_then (diff_from prefix children to d) (\<lambda>d.
     and_then (enumerate_children to) (\<lambda>to_children.
     Inr (fold (add_new prefix (RDir c m children)) to_children d)))"
| "diff_from prefix [] to d = Inr d"
| "diff_from prefix ((name, from_child) # rest) to d =
     and_then
       (let path = prefix @ name
        in case query_child to name of
             Some to_child \<Rightarrow>
               if is_dir from_child then
                 and_then
                   (if contents_checksum from_child \<noteq> contents_checksum to_child
                    then diff_recurse (path @ str ''/'') from_child to_child d else Inr d)
                   (\<lambda>d. Inr (add_changed_dir from_child to_child path d))
               else Inr (add_changed_file from_child to_child path d)
           | None \<Rightarrow> Inr (add_removed from_child path d))
       (diff_from prefix rest to)"

text \<open>\<^verbatim>\<open>read_commit\<close> and \<^verbatim>\<open>resolve\<close> are libostree's; \<^verbatim>\<open>resolve\<close> fails when the path does not exist.\<close>

definition diff ::
  "(rstr \<Rightarrow> repo_file result) \<Rightarrow> (repo_file \<Rightarrow> rstr \<Rightarrow> repo_file result) \<Rightarrow> rstr \<Rightarrow> rstr \<Rightarrow> rstr option \<Rightarrow> file_tree_diff result" where
  "diff read_commit resolve from to subdir =
     and_then (read_commit from) (\<lambda>fromroot.
     and_then (read_commit to) (\<lambda>toroot.
     and_then (case subdir of Some p \<Rightarrow> resolve fromroot p | None \<Rightarrow> Inr fromroot) (\<lambda>fromroot.
     and_then (case subdir of Some p \<Rightarrow> resolve toroot p | None \<Rightarrow> Inr toroot) (\<lambda>toroot.
     diff_recurse (str ''/'') fromroot toroot (empty_diff subdir)))))"

subsection \<open>Checking a merge commit\<close>

record compare_state =
  cs_verified :: "rstr set"
  cs_inode_corrupted :: "rstr set"
  cs_unknown_corrupted :: "rstr set"

definition compare_state_default :: compare_state where
  "compare_state_default = \<lparr>cs_verified = {}, cs_inode_corrupted = {}, cs_unknown_corrupted = {}\<rparr>"

definition compare_state_is_ok :: "compare_state \<Rightarrow> bool" where
  "compare_state_is_ok st \<longleftrightarrow> cs_inode_corrupted st = {} \<and> cs_unknown_corrupted st = {}"

definition compare_file_info :: "file_info \<Rightarrow> file_info \<Rightarrow> bool" where
  "compare_file_info src target \<longleftrightarrow>
     \<not> (fi_type src \<noteq> fi_type target) \<and> \<not> (fi_size src \<noteq> fi_size target) \<and>
     list_all (\<lambda>attr. attr src = attr target) [fi_uid, fi_gid, fi_mode]"

fun repo_file_info :: "file_info \<Rightarrow> repo_file \<Rightarrow> file_info" where
  "repo_file_info dirinfo (RFile _ i) = i"
| "repo_file_info dirinfo (RDir _ _ _) = dirinfo"

text \<open>The environment: the attributes reported for a directory, and the inode of an object.\<close>

record compare_env =
  ce_dir_info :: file_info
  ce_inode :: "rstr \<Rightarrow> u64 result"
  ce_exact :: bool
  ce_colliding :: "u64 set"

definition compare_files :: "compare_env \<Rightarrow> rstr \<Rightarrow> repo_file \<Rightarrow> repo_file \<Rightarrow> compare_state \<Rightarrow> compare_state result" where
  "compare_files env path target_child expected_child st =
     (let from_checksum = file_checksum expected_child;
          to_checksum = file_checksum target_child;
          matches = (if ce_exact env then from_checksum = to_checksum
                     else compare_file_info (repo_file_info (ce_dir_info env) target_child)
                            (repo_file_info (ce_dir_info env) expected_child))
      in if \<not> matches then
           and_then (ce_inode env from_checksum) (\<lambda>from_inode.
           and_then (ce_inode env to_checksum) (\<lambda>to_inode.
           if from_inode \<in> ce_colliding env \<or> to_inode \<in> ce_colliding env
           then Inr (st\<lparr>cs_inode_corrupted := insert path (cs_inode_corrupted st)\<rparr>)
           else Inr (st\<lparr>cs_unknown_corrupted := insert path (cs_unknown_corrupted st)\<rparr>)))
         else Inr (st\<lparr>cs_verified := insert path (cs_verified st)\<rparr>))"

text \<open>The recursion on subdirectories exchanges the two trees, as the code does; \<open>fuel\<close> bounds its depth.\<close>

fun compare_commit_trees ::
  "compare_env \<Rightarrow> nat \<Rightarrow> rstr \<Rightarrow> repo_file \<Rightarrow> repo_file \<Rightarrow> compare_state \<Rightarrow> compare_state result" where
  "compare_commit_trees env 0 root target expected st = Inl (Panic ''stack overflow'')"
| "compare_commit_trees env (Suc fuel) root target expected st =
     and_then (enumerate_children expected) (\<lambda>children.
     try_fold (\<lambda>(name, expected_child) st.
         let path = root @ name
         in case query_child target name of
              Some target_child \<Rightarrow>
                if is_dir expected_child then
                  if contents_checksum expected_child \<noteq> contents_checksum target_child
                  then compare_commit_trees env fuel (path @ str ''/'') expected_child target_child st
                  else Inr st
                else compare_files env path target_child expected_child st
            | None \<Rightarrow> Inr (st\<lparr>cs_unknown_corrupted := insert path (cs_unknown_corrupted st)\<rparr>))
       children st)"

section \<open>Lemmas\<close>

subsection \<open>Paths in a tree\<close>

fun lookup_path :: "repo_file \<Rightarrow> rstr list \<Rightarrow> repo_file option" where
  "lookup_path t [] = Some t"
| "lookup_path t (n # ns) = (case query_child t n of None \<Rightarrow> None | Some c \<Rightarrow> lookup_path c ns)"

definition path_string :: "rstr \<Rightarrow> rstr list \<Rightarrow> rstr" where
  "path_string prefix ps = prefix @ join_str (str ''/'') ps"

lemma path_string_simps:
  "path_string prefix [n] = prefix @ n"
  "ns \<noteq> [] \<Longrightarrow> path_string prefix (n # ns) = path_string (prefix @ n @ str ''/'') ns"
  by (cases ns; simp add: path_string_def)+

definition dir_at :: "repo_file \<Rightarrow> rstr list \<Rightarrow> bool" where
  "dir_at t ps \<longleftrightarrow> (case lookup_path t ps of Some f \<Rightarrow> is_dir f | None \<Rightarrow> False)"

text \<open>The paths, below directories both trees have, at which the trees are related by \<open>Q\<close>.\<close>

definition diff_paths :: "(repo_file option \<Rightarrow> repo_file option \<Rightarrow> bool) \<Rightarrow> repo_file \<Rightarrow> repo_file \<Rightarrow> rstr list set" where
  "diff_paths Q from to =
     {ps. ps \<noteq> [] \<and> dir_at from (butlast ps) \<and> dir_at to (butlast ps) \<and> Q (lookup_path from ps) (lookup_path to ps)}"

lemma dir_at_Cons: "dir_at t (n # ns) \<longleftrightarrow> (\<exists>c. query_child t n = Some c \<and> dir_at c ns)"
  by (auto simp: dir_at_def split: option.splits)

lemma diff_paths_iff:
  assumes "is_dir from" "is_dir to"
  shows "ps \<in> diff_paths Q from to \<longleftrightarrow>
    (\<exists>n. ps = [n] \<and> Q (query_child from n) (query_child to n)) \<or>
    (\<exists>n ns a b. ps = n # ns \<and> query_child from n = Some a \<and> query_child to n = Some b \<and> ns \<in> diff_paths Q a b)"
proof (cases ps)
  case (Cons n ns)
  have one: "dir_at from []" "dir_at to []" using assms by (simp_all add: dir_at_def)
  show ?thesis
  proof (cases "ns = []")
    case True
    have "lookup_path t [n] = query_child t n" for t by (simp split: option.split)
    with True Cons one show ?thesis by (simp add: diff_paths_def)
  next
    case False
    with Cons show ?thesis by (auto simp: diff_paths_def dir_at_Cons)
  qed
qed (simp add: diff_paths_def)

lemma diff_paths_file: "\<not> is_dir a \<or> \<not> is_dir b \<Longrightarrow> diff_paths Q a b = {}"
proof -
  have plain: "\<not> dir_at t ps" if "\<not> is_dir t" for t ps
    using that by (cases t; cases ps) (simp_all add: dir_at_def)
  assume "\<not> is_dir a \<or> \<not> is_dir b"
  then show ?thesis using plain by (auto simp: diff_paths_def)
qed

lemma lookup_path_same_children:
  "ps \<noteq> [] \<Longrightarrow> lookup_path (RDir c m children) ps = lookup_path (RDir c' m' children) ps"
  by (cases ps) simp_all

subsection \<open>The kinds of difference\<close>

datatype diff_kind = AddedFile | AddedDir | RemovedFile | RemovedDir | ChangedFile | ChangedDir

fun diff_field :: "diff_kind \<Rightarrow> file_tree_diff \<Rightarrow> rstr set" where
  "diff_field AddedFile = added_files"
| "diff_field AddedDir = added_dirs"
| "diff_field RemovedFile = removed_files"
| "diff_field RemovedDir = removed_dirs"
| "diff_field ChangedFile = changed_files"
| "diff_field ChangedDir = changed_dirs"

fun differs :: "diff_kind \<Rightarrow> repo_file option \<Rightarrow> repo_file option \<Rightarrow> bool" where
  "differs AddedFile None (Some t) \<longleftrightarrow> \<not> is_dir t"
| "differs AddedDir None (Some t) \<longleftrightarrow> is_dir t"
| "differs RemovedFile (Some f) None \<longleftrightarrow> \<not> is_dir f"
| "differs RemovedDir (Some f) None \<longleftrightarrow> is_dir f"
| "differs ChangedFile (Some f) (Some t) \<longleftrightarrow> \<not> is_dir f \<and> file_checksum f \<noteq> file_checksum t"
| "differs ChangedDir (Some f) (Some t) \<longleftrightarrow> is_dir f \<and> metadata_checksum f \<noteq> metadata_checksum t"
| "differs _ _ _ \<longleftrightarrow> False"

lemma differs_same [simp]: "\<not> differs k x x"
  by (cases k; cases x) simp_all

lemma diff_paths_same_children: "diff_paths (differs k) (RDir c m children) (RDir c' m' children) = {}"
  using lookup_path_same_children [of _ c m children c' m'] by (auto simp: diff_paths_def)

text \<open>Content addressing: a checksum determines the children of a directory, and names are distinct.\<close>

fun consistent :: "(rstr \<Rightarrow> (rstr \<times> repo_file) list) \<Rightarrow> repo_file \<Rightarrow> bool" where
  "consistent tree_of (RFile _ _) \<longleftrightarrow> True"
| "consistent tree_of (RDir c m children) \<longleftrightarrow>
     children = tree_of c \<and> distinct (map fst children) \<and> (\<forall>e \<in> set children. consistent tree_of (snd e))"

lemma consistent_same_contents:
  assumes "consistent tree_of a" "consistent tree_of b" "contents_checksum a = contents_checksum b"
  shows "diff_paths (differs k) a b = {}"
  using assms diff_paths_file diff_paths_same_children by (cases a; cases b) auto

lemma consistent_child: "consistent tree_of t \<Longrightarrow> query_child t n = Some c \<Longrightarrow> consistent tree_of c"
  by (cases t) (auto dest!: map_of_SomeD)

text \<open>What the first loop finds: a set of children against the target.\<close>

definition found_from :: "diff_kind \<Rightarrow> rstr \<Rightarrow> (rstr \<times> repo_file) list \<Rightarrow> repo_file \<Rightarrow> rstr set" where
  "found_from k prefix children to =
     {prefix @ n |n a. (n, a) \<in> set children \<and> differs k (Some a) (query_child to n)} \<union>
     {path_string (prefix @ n @ str ''/'') ns |n ns a b. (n, a) \<in> set children \<and> query_child to n = Some b \<and>
        ns \<in> diff_paths (differs k) a b}"

lemma found_from_Cons:
  "found_from k prefix ((n, a) # rest) to =
     (if differs k (Some a) (query_child to n) then {prefix @ n} else {}) \<union>
     (case query_child to n of Some b \<Rightarrow> path_string (prefix @ n @ str ''/'') ` diff_paths (differs k) a b | None \<Rightarrow> {}) \<union>
     found_from k prefix rest to"
  by (auto simp: found_from_def split: option.splits) blast+

lemma diff_field_steps:
  "diff_field k (add_removed a p d) = diff_field k d \<union> (if differs k (Some a) None then {p} else {})"
  "\<not> is_dir a \<Longrightarrow> diff_field k (add_changed_file a b p d) = diff_field k d \<union> (if differs k (Some a) (Some b) then {p} else {})"
  "is_dir a \<Longrightarrow> diff_field k (add_changed_dir a b p d) = diff_field k d \<union> (if differs k (Some a) (Some b) then {p} else {})"
  "diff_field k (add_new prefix from (n, t) d) =
     diff_field k d \<union> (if query_child from n = None \<and> differs k None (Some t) then {prefix @ n} else {})"
  by (cases k; simp add: add_removed_def add_changed_file_def add_changed_dir_def add_new_def)+

lemma fold_add_new:
  "diff_field k (fold (add_new prefix from) children d) =
     diff_field k d \<union> {prefix @ n |n t. (n, t) \<in> set children \<and> query_child from n = None \<and> differs k None (Some t)}"
  by (induction children arbitrary: d) (auto simp: diff_field_steps split: if_splits)

lemma differs_cases:
  "differs k x y \<Longrightarrow> (\<exists>a. x = Some a) \<or> (x = None \<and> (\<exists>t. y = Some t))"
  by (cases k; cases x; cases y) auto

text \<open>Both loops together find the differences of the two directories.\<close>

lemma both_loops:
  assumes "distinct (map fst children)" "is_dir to" "to = RDir c' m' to_children" "distinct (map fst to_children)"
  shows "found_from k prefix children to \<union>
      {prefix @ n |n t. (n, t) \<in> set to_children \<and> query_child (RDir c m children) n = None \<and> differs k None (Some t)} =
    path_string prefix ` diff_paths (differs k) (RDir c m children) to" (is "?found = path_string prefix ` ?paths")
proof -
  have mem: "(n, a) \<in> set children \<longleftrightarrow> map_of children n = Some a" "(n, t) \<in> set to_children \<longleftrightarrow> map_of to_children n = Some t" for n a t
    using assms(1,4) by simp_all
  have paths: "ps \<in> ?paths \<longleftrightarrow> (\<exists>n. ps = [n] \<and> differs k (map_of children n) (map_of to_children n)) \<or>
      (\<exists>n ns a b. ps = n # ns \<and> map_of children n = Some a \<and> map_of to_children n = Some b \<and> ns \<in> diff_paths (differs k) a b)" for ps
    using diff_paths_iff [of "RDir c m children" to ps] assms(2,3) by simp
  have deep: "path_string prefix (n # ns) = path_string (prefix @ n @ str ''/'') ns" if "ns \<in> diff_paths Q a b" for n ns Q a b
    using that by (intro path_string_simps) (simp add: diff_paths_def)
  show ?thesis
  proof (intro equalityI subsetI)
    fix x assume "x \<in> ?found"
    then consider n a where "x = prefix @ n" "map_of children n = Some a" "differs k (Some a) (map_of to_children n)"
      | n ns a b where "x = path_string (prefix @ n @ str ''/'') ns" "map_of children n = Some a" "map_of to_children n = Some b"
          "ns \<in> diff_paths (differs k) a b"
      | n t where "x = prefix @ n" "map_of to_children n = Some t" "map_of children n = None" "differs k None (Some t)"
      using mem assms(3) by (auto simp: found_from_def)
    then show "x \<in> path_string prefix ` ?paths"
    proof cases
      case (1 n a)
      then have "[n] \<in> ?paths" using paths by auto
      with 1(1) show ?thesis by (metis image_eqI path_string_simps(1))
    next
      case (2 n ns a b)
      then have "n # ns \<in> ?paths" using paths by auto
      with 2(1) deep [OF 2(4)] show ?thesis by (metis image_eqI)
    next
      case (3 n t)
      then have "[n] \<in> ?paths" using paths by auto
      with 3(1) show ?thesis by (metis image_eqI path_string_simps(1))
    qed
  next
    fix x assume "x \<in> path_string prefix ` ?paths"
    then obtain ps where ps: "x = path_string prefix ps" "ps \<in> ?paths" by blast
    from ps(2) paths consider n where "ps = [n]" "differs k (map_of children n) (map_of to_children n)"
      | n ns a b where "ps = n # ns" "map_of children n = Some a" "map_of to_children n = Some b" "ns \<in> diff_paths (differs k) a b"
      by blast
    then show "x \<in> ?found"
    proof cases
      case (1 n)
      then have x: "x = prefix @ n" using ps(1) by (simp add: path_string_simps)
      from differs_cases [OF 1(2)] show ?thesis
      proof (elim disjE exE conjE)
        fix a assume "map_of children n = Some a"
        with 1(2) x mem assms(3) show ?thesis by (auto simp: found_from_def)
      next
        fix t assume "map_of children n = None" "map_of to_children n = Some t"
        with 1(2) x mem show ?thesis by auto
      qed
    next
      case (2 n ns a b)
      then have "x = path_string (prefix @ n @ str ''/'') ns" using ps(1) deep by simp
      with 2 mem assms(3) show ?thesis by (auto simp: found_from_def)
    qed
  qed
qed

text \<open>One child of the first tree, given what the recursion into it finds.\<close>

lemma diff_child_correct:
  assumes "(case query_child to name of
       Some to_child \<Rightarrow>
         if is_dir from_child then
           and_then (if contents_checksum from_child \<noteq> contents_checksum to_child
                     then diff_recurse (p @ str ''/'') from_child to_child d else Inr d)
             (\<lambda>d. Inr (add_changed_dir from_child to_child p d))
         else Inr (add_changed_file from_child to_child p d)
     | None \<Rightarrow> Inr (add_removed from_child p d)) = Inr d1"
    and "consistent tree_of from_child" "consistent tree_of to"
    and "\<And>b d2. query_child to name = Some b \<Longrightarrow> is_dir from_child \<Longrightarrow> contents_checksum from_child \<noteq> contents_checksum b \<Longrightarrow>
      diff_recurse (p @ str ''/'') from_child b d = Inr d2 \<Longrightarrow> consistent tree_of b \<Longrightarrow>
      diff_field k d2 = diff_field k d \<union> path_string (p @ str ''/'') ` diff_paths (differs k) from_child b"
  shows "diff_field k d1 = diff_field k d \<union> (if differs k (Some from_child) (query_child to name) then {p} else {}) \<union>
     (case query_child to name of Some b \<Rightarrow> path_string (p @ str ''/'') ` diff_paths (differs k) from_child b | None \<Rightarrow> {})"
proof (cases "query_child to name")
  case None
  with assms(1) have "d1 = add_removed from_child p d" by simp
  with None show ?thesis by (simp add: diff_field_steps)
next
  case (Some b)
  have cons: "consistent tree_of b" using assms(3) consistent_child [of tree_of to name b] Some by auto
  show ?thesis
  proof (cases "is_dir from_child")
    case False
    with Some assms(1) show ?thesis by (auto simp: diff_field_steps diff_paths_file)
  next
    case True
    show ?thesis
    proof (cases "contents_checksum from_child = contents_checksum b")
      case same: True
      then have "diff_paths (differs k) from_child b = {}" by (rule consistent_same_contents [OF assms(2) cons])
      with same True Some assms(1) show ?thesis by (auto simp: diff_field_steps)
    next
      case False
      with Some True assms(1) obtain d2 where d2: "diff_recurse (p @ str ''/'') from_child b d = Inr d2"
          "d1 = add_changed_dir from_child b p d2" by (auto simp: result_simps)
      from assms(4) [OF Some True False d2(1) cons] d2(2) True Some show ?thesis by (auto simp: diff_field_steps)
    qed
  qed
qed

lemma diff_recurse_correct:
  "diff_recurse prefix from to d = Inr d' \<Longrightarrow> consistent tree_of from \<Longrightarrow> consistent tree_of to \<Longrightarrow>
     diff_field k d' = diff_field k d \<union> path_string prefix ` diff_paths (differs k) from to"
  "diff_from prefix children to d = Inr d' \<Longrightarrow> \<forall>e \<in> set children. consistent tree_of (snd e) \<Longrightarrow> consistent tree_of to \<Longrightarrow>
     diff_field k d' = diff_field k d \<union> found_from k prefix children to"
proof (induction prefix "from" to d and prefix children to d arbitrary: d' and d' rule: diff_recurse_diff_from.induct)
  case (2 prefix c m children to d)
  obtain d1 to_children where r: "diff_from prefix children to d = Inr d1" "enumerate_children to = Inr to_children"
      "d' = fold (add_new prefix (RDir c m children)) to_children d1"
    using "2.prems"(1) by (auto simp: result_simps)
  obtain c' m' where to: "to = RDir c' m' to_children" using r(2) by (cases to) auto
  have "diff_field k d1 = diff_field k d \<union> found_from k prefix children to"
    using 2 r(1) by simp
  then have "diff_field k d' = diff_field k d \<union> (found_from k prefix children to \<union>
      {prefix @ n |n t. (n, t) \<in> set to_children \<and> query_child (RDir c m children) n = None \<and> differs k None (Some t)})"
    unfolding r(3) fold_add_new by (simp only: Un_assoc)
  moreover have dist: "distinct (map fst children)" "distinct (map fst to_children)"
    using "2.prems"(2,3) to by auto
  ultimately show ?case
    using both_loops [OF dist(1) _ to dist(2), of k prefix c m] to by (simp only: is_dir.simps simp_thms)
next
  case (4 prefix name from_child rest to d)
  let ?p = "prefix @ name"
  obtain d1 where d1: "(case query_child to name of
             Some to_child \<Rightarrow>
               if is_dir from_child then
                 and_then
                   (if contents_checksum from_child \<noteq> contents_checksum to_child
                    then diff_recurse (?p @ str ''/'') from_child to_child d else Inr d)
                   (\<lambda>d. Inr (add_changed_dir from_child to_child ?p d))
               else Inr (add_changed_file from_child to_child ?p d)
           | None \<Rightarrow> Inr (add_removed from_child ?p d)) = Inr d1" "diff_from prefix rest to d1 = Inr d'"
    using "4.prems"(1) by (auto simp: result_simps Let_def)
  have rest: "diff_field k d' = diff_field k d1 \<union> found_from k prefix rest to"
    using "4.IH"(2) [OF d1(2)] "4.prems"(2,3) by simp
  have child: "diff_field k d1 = diff_field k d \<union> (if differs k (Some from_child) (query_child to name) then {?p} else {}) \<union>
     (case query_child to name of Some b \<Rightarrow> path_string (?p @ str ''/'') ` diff_paths (differs k) from_child b | None \<Rightarrow> {})"
    by (rule diff_child_correct [OF d1(1)]) (use "4.prems"(2,3) "4.IH"(1) in auto)
  from rest child [unfolded append_assoc] show ?case by (auto simp: found_from_Cons)
qed (simp_all add: found_from_def)

subsection \<open>When a difference exists\<close>

definition dirs_stay_dirs :: "repo_file \<Rightarrow> repo_file \<Rightarrow> bool" where
  "dirs_stay_dirs from to \<longleftrightarrow>
     (\<forall>ps a b. lookup_path from ps = Some a \<and> lookup_path to ps = Some b \<and> is_dir a \<longrightarrow> is_dir b)"

lemma dirs_stay_dirs_child:
  assumes "dirs_stay_dirs from to" "query_child from n = Some a" "query_child to n = Some b"
  shows "dirs_stay_dirs a b" "is_dir a \<Longrightarrow> is_dir b"
proof -
  show "dirs_stay_dirs a b"
    unfolding dirs_stay_dirs_def
  proof (intro allI impI)
    fix ps x y assume "lookup_path a ps = Some x \<and> lookup_path b ps = Some y \<and> is_dir x"
    then have "lookup_path from (n # ps) = Some x" "lookup_path to (n # ps) = Some y" "is_dir x"
      using assms(2,3) by simp_all
    with assms(1) show "is_dir y" unfolding dirs_stay_dirs_def by blast
  qed
  then show "is_dir a \<Longrightarrow> is_dir b"
    unfolding dirs_stay_dirs_def by (metis lookup_path.simps(1))
qed

lemma diff_recurse_ok:
  "is_dir from \<Longrightarrow> is_dir to \<Longrightarrow> consistent tree_of from \<Longrightarrow> dirs_stay_dirs from to \<Longrightarrow>
     is_ok (diff_recurse prefix from to d)"
  "\<forall>(n, a) \<in> set children. consistent tree_of a \<and> (\<forall>b. query_child to n = Some b \<longrightarrow> dirs_stay_dirs a b \<and> (is_dir a \<longrightarrow> is_dir b)) \<Longrightarrow>
     is_ok (diff_from prefix children to d)"
proof (induction prefix "from" to d and prefix children to d rule: diff_recurse_diff_from.induct)
  case (2 prefix c m children to d)
  have "\<forall>(n, a) \<in> set children. consistent tree_of a \<and> (\<forall>b. query_child to n = Some b \<longrightarrow> dirs_stay_dirs a b \<and> (is_dir a \<longrightarrow> is_dir b))"
  proof (intro ballI, clarify, intro conjI allI impI)
    fix n a assume na: "(n, a) \<in> set children"
    with "2.prems"(3) show "consistent tree_of a" by auto
    have "query_child (RDir c m children) n = Some a" using na "2.prems"(3) by (auto intro: map_of_is_SomeI)
    with dirs_stay_dirs_child [OF "2.prems"(4)] show "dirs_stay_dirs a b" "is_dir a \<Longrightarrow> is_dir b" if "query_child to n = Some b" for b
      using that by blast+
  qed
  then have "is_ok (diff_from prefix children to d)" by (rule "2.IH")
  moreover have "is_ok (enumerate_children to)" using "2.prems"(2) by (cases to) auto
  ultimately show ?case by (auto simp: is_ok_iff result_simps)
next
  case (4 prefix name from_child rest to d)
  let ?step = "let path = prefix @ name in case query_child to name of
             Some to_child \<Rightarrow>
               if is_dir from_child then
                 and_then
                   (if contents_checksum from_child \<noteq> contents_checksum to_child
                    then diff_recurse (path @ str ''/'') from_child to_child d else Inr d)
                   (\<lambda>d. Inr (add_changed_dir from_child to_child path d))
               else Inr (add_changed_file from_child to_child path d)
           | None \<Rightarrow> Inr (add_removed from_child path d)"
  have "is_ok ?step"
  proof (cases "query_child to name")
    case (Some b)
    show ?thesis
    proof (cases "is_dir from_child \<and> contents_checksum from_child \<noteq> contents_checksum b")
      case True
      have "is_ok (diff_recurse ((prefix @ name) @ str ''/'') from_child b d)"
        using "4.IH"(1) [OF refl Some] True "4.prems" Some by auto
      with True Some show ?thesis by (auto simp: is_ok_iff result_simps)
    qed (use Some in \<open>auto simp: Let_def\<close>)
  qed simp
  moreover have "is_ok (diff_from prefix rest to y)" if "?step = Inr y" for y
    using "4.IH"(2) [of y] "4.prems" by auto
  ultimately show ?case unfolding diff_from.simps(2) is_ok_and_then by (auto simp: is_ok_iff)
qed simp_all

section \<open>Properties\<close>

text \<open>C11: the difference of two commits is complete and exact.  For trees of a content-addressed store in
  which no directory became a file, the difference can be computed, and each of its six sets holds exactly
  the paths, below directories both trees have, at which the trees differ in this way.\<close>

theorem diff_exact:
  assumes "read_commit from = Inr f" "read_commit to = Inr t" "is_dir f" "is_dir t"
    and "consistent tree_of f" "consistent tree_of t" "dirs_stay_dirs f t"
  shows "\<exists>d. diff read_commit resolve from to None = Inr d \<and>
    (\<forall>k. diff_field k d = path_string (str ''/'') ` diff_paths (differs k) f t)"
proof -
  obtain d where d: "diff_recurse (str ''/'') f t (empty_diff None) = Inr d"
    using diff_recurse_ok(1) [OF assms(3-5,7)] by (auto simp: is_ok_iff)
  have "diff_field k (empty_diff None) = {}" for k by (cases k) (simp_all add: empty_diff_def)
  with diff_recurse_correct(1) [OF d assms(5,6)] d assms(1,2) show ?thesis by (simp add: diff_def)
qed

definition sample_info :: file_info where
  "sample_info = \<lparr>fi_type = FRegular, fi_size = 1, fi_uid = 0, fi_gid = 0, fi_mode = 0x81A4, fi_symlink_target = None\<rparr>"

definition sample_from :: repo_file where
  "sample_from = RDir [1] [9] [(str ''usr'', RDir [2] [9] [(str ''a'', RFile [7] sample_info)])]"

definition sample_to :: repo_file where
  "sample_to = RDir [3] [9] [(str ''usr'', RDir [4] [9] [(str ''a'', RFile [8] sample_info), (str ''b'', RFile [7] sample_info)])]"

definition sample_tree_of :: "rstr \<Rightarrow> (rstr \<times> repo_file) list" where
  "sample_tree_of c =
     (if c = [1] then [(str ''usr'', RDir [2] [9] [(str ''a'', RFile [7] sample_info)])]
      else if c = [2] then [(str ''a'', RFile [7] sample_info)]
      else if c = [3] then [(str ''usr'', RDir [4] [9] [(str ''a'', RFile [8] sample_info), (str ''b'', RFile [7] sample_info)])]
      else [(str ''a'', RFile [8] sample_info), (str ''b'', RFile [7] sample_info)])"


lemma sample_trees:
  "is_dir sample_from" "is_dir sample_to" "consistent sample_tree_of sample_from" "consistent sample_tree_of sample_to"
  by (simp_all add: sample_from_def sample_to_def sample_tree_of_def)

lemma sample_dirs_stay: "dirs_stay_dirs sample_from sample_to"
proof -
  have "is_dir b" if "lookup_path sample_from ps = Some a" "lookup_path sample_to ps = Some b" "is_dir a" for ps a b
    using that by (cases ps; cases "tl ps"; cases "tl (tl ps)") (auto simp: sample_from_def sample_to_def split: if_splits)
  then show ?thesis by (auto simp: dirs_stay_dirs_def)
qed

theorem diff_exact_witness:
  "\<exists>d. diff (\<lambda>c. if c = [102] then Inr sample_from else Inr sample_to) (\<lambda>f _. Inr f) [102] [116] None = Inr d \<and>
     (\<forall>k. diff_field k d = path_string (str ''/'') ` diff_paths (differs k) sample_from sample_to) \<and>
     changed_files d = {str ''/usr/a''} \<and> added_files d = {str ''/usr/b''}"
proof -
  let ?read = "\<lambda>c. if c = [102] then Inr sample_from else Inr sample_to"
  have "map_sum id changed_files (diff ?read (\<lambda>f _. Inr f) [102] [116] None) = Inr {str ''/usr/a''}"
    "map_sum id added_files (diff ?read (\<lambda>f _. Inr f) [102] [116] None) = Inr {str ''/usr/b''}"
    by code_simp+
  moreover obtain d where d: "diff ?read (\<lambda>f _. Inr f) [102] [116] None = Inr d"
      "\<forall>k. diff_field k d = path_string (str ''/'') ` diff_paths (differs k) sample_from sample_to"
    using diff_exact [of ?read "[102]" sample_from "[116]" sample_to sample_tree_of "\<lambda>f _. Inr f"] sample_trees sample_dirs_stay
    by auto
  ultimately show ?thesis by auto
qed

text \<open>The check of a merge commit exchanges the two trees at every level, so that one directory down the
  merged tree takes the role of the expected one: a file a derived layer adds to an existing directory is
  reported as missing, and a file of the base that the merge commit lacks goes unnoticed.\<close>

lemma compare_commit_trees_swaps:
  "map_sum id cs_unknown_corrupted
     (compare_commit_trees \<lparr>ce_dir_info = sample_info, ce_inode = (\<lambda>_. Inr 0), ce_exact = True, ce_colliding = {}\<rparr> 9 (str ''/'')
        (RDir [3] [9] [(str ''usr'', RDir [4] [9] [(str ''a'', RFile [7] sample_info), (str ''b'', RFile [8] sample_info)])])
        (RDir [1] [9] [(str ''usr'', RDir [2] [9] [(str ''a'', RFile [7] sample_info)])]) compare_state_default) =
   Inr {str ''/usr/b''}"
  "map_sum id compare_state_is_ok
     (compare_commit_trees \<lparr>ce_dir_info = sample_info, ce_inode = (\<lambda>_. Inr 0), ce_exact = True, ce_colliding = {}\<rparr> 9 (str ''/'')
        (RDir [1] [9] [(str ''usr'', RDir [2] [9] [(str ''a'', RFile [7] sample_info)])])
        (RDir [3] [9] [(str ''usr'', RDir [4] [9] [(str ''a'', RFile [7] sample_info), (str ''b'', RFile [8] sample_info)])])
        compare_state_default) = Inr True"
  by code_simp+

end
