(* ===== verification/Repair.thy ===== *)
theory Repair
  imports Deploy TreeDiff
begin

text \<open>
  Detection and repair of merge commits damaged by truncated inode numbers (\<^verbatim>\<open>lib/src/repair.rs\<close>, and
  \<^verbatim>\<open>verify_container_image\<close> in \<^verbatim>\<open>lib/src/container/store.rs\<close>).  The object directories are arguments, as
  enumerations of their entries; the trees of commits are those of \<open>TreeDiff\<close>.
\<close>

section \<open>Definitions\<close>

subsection \<open>Colliding inodes\<close>

text \<open>A file name of the operating system: a string, or that many bytes that are not UTF-8.\<close>

datatype os_name = Utf8 rstr | NotUtf8 nat

fun os_len :: "os_name \<Rightarrow> nat" where
  "os_len (Utf8 s) = str_len s"
| "os_len (NotUtf8 n) = n"

fun to_str :: "os_name \<Rightarrow> rstr result" where
  "to_str (Utf8 s) = Inr s"
| "to_str (NotUtf8 n) = Inl (Err ''Invalid name'')"

text \<open>An entry of an object directory with the part of its metadata that is used.\<close>

record object_entry =
  oe_name :: os_name
  oe_file_or_symlink :: bool
  oe_ino :: u64

type_synonym inode_maps = "(u32, rstr) kvmap \<times> (u64, rstr) kvmap"

definition insert_inode :: "u64 \<Rightarrow> rstr \<Rightarrow> inode_maps \<Rightarrow> inode_maps" where
  "insert_inode inode checksum = (\<lambda>(little_inodes, big_inodes).
     if unat inode < 2 ^ 32 then (kv_insert (ucast inode) checksum little_inodes, big_inodes)
     else (little_inodes, kv_insert inode checksum big_inodes))"

definition gather_inode :: "rstr \<Rightarrow> object_entry result \<Rightarrow> inode_maps \<Rightarrow> inode_maps result" where
  "gather_inode prefix child st =
     and_then child (\<lambda>child.
     if \<not> oe_file_or_symlink child then Inr st
     else and_then (to_str (oe_name child)) (\<lambda>name.
          and_then (ok_or (Err ''Invalid object'') (split_once 46 name)) (\<lambda>(object_rest, _).
          Inr (insert_inode (oe_ino child) (prefix @ object_rest) st))))"

definition gather_inodes :: "rstr \<Rightarrow> object_entry result list result \<Rightarrow> inode_maps \<Rightarrow> inode_maps result" where
  "gather_inodes prefix entries st = and_then entries (\<lambda>entries. try_fold (gather_inode prefix) entries st)"

text \<open>An entry of the \<^verbatim>\<open>objects\<close> directory, with what opening it as a directory gives.\<close>

record objects_child =
  oc_is_dir :: "bool result"
  oc_name :: os_name
  oc_open_dir :: "object_entry result list result result"

definition gather_child :: "objects_child result \<Rightarrow> inode_maps \<Rightarrow> inode_maps result" where
  "gather_child child st =
     and_then child (\<lambda>child.
     and_then (oc_is_dir child) (\<lambda>d.
     if \<not> d then Inr st
     else if os_len (oc_name child) \<noteq> 2 then Inr st
     else and_then (to_str (oc_name child)) (\<lambda>name.
          and_then (oc_open_dir child) (\<lambda>objdir. gather_inodes name objdir st))))"

record inode_check =
  ik_inode64 :: u64
  ik_inode32 :: u64
  ik_collisions :: "u64 set"

definition inode_check_is_ok :: "inode_check \<Rightarrow> bool" where
  "inode_check_is_ok c \<longleftrightarrow> ik_collisions c = {}"

definition inode_check_default :: inode_check where
  "inode_check_default = \<lparr>ik_inode64 = 0, ik_inode32 = 0, ik_collisions = {}\<rparr>"

definition inode_check_fmt :: "inode_check \<Rightarrow> rstr" where
  "inode_check_fmt c =
     str ''ostree inode check:'' @ [10] @ str ''  64bit inodes: '' @ fmt_dec (unat (ik_inode64 c)) @ [10] @
     str ''  32 bit inodes: '' @ fmt_dec (unat (ik_inode32 c)) @ [10] @
     str ''  collisions: '' @ fmt_dec (card (ik_collisions c)) @ [10]"

definition colliding_inodes :: "(u32, rstr) kvmap \<Rightarrow> (u64, rstr) kvmap \<Rightarrow> (u64, rstr) kvmap" where
  "colliding_inodes little_inodes big_inodes =
     fold (\<lambda>(big_inum, big_inum_checksum) colliding.
         let truncated = ucast big_inum :: u32
         in if kv_lookup little_inodes truncated \<noteq> None then kv_insert big_inum big_inum_checksum colliding
            else colliding)
       big_inodes []"

definition check_inode_collision :: "objects_child result list result \<Rightarrow> inode_check result" where
  "check_inode_collision objects =
     and_then objects (\<lambda>children.
     and_then (try_fold gather_child children ([], [])) (\<lambda>(little_inodes, big_inodes).
     Inr \<lparr>ik_inode64 = of_nat (length big_inodes), ik_inode32 = of_nat (length little_inodes),
          ik_collisions = set (map fst (colliding_inodes little_inodes big_inodes))\<rparr>))"

subsection \<open>Verifying an image\<close>

text \<open>What is read besides the refs: the objects directory, the trees of commits, the attributes reported for a
  directory and the inode of an object.\<close>

record 's repair_env =
  rn_objects :: "'s \<Rightarrow> objects_child result list result"
  rn_read_commit :: "'s \<Rightarrow> rstr \<Rightarrow> repo_file result"
  rn_dir_info :: file_info
  rn_inode :: "rstr \<Rightarrow> u64 result"

text \<open>The height of a tree; a comparison never descends further.\<close>

fun tree_height :: "repo_file \<Rightarrow> nat" where
  "tree_height (RFile _ _) = 0"
| "tree_height (RDir _ _ children) = Suc (foldr (\<lambda>e. max (tree_height (snd e))) children 0)"

definition compare_trees ::
  "'s repair_env \<Rightarrow> bool \<Rightarrow> u64 set \<Rightarrow> repo_file \<Rightarrow> repo_file \<Rightarrow> compare_state \<Rightarrow> compare_state result" where
  "compare_trees env exact colliding target expected st =
     compare_commit_trees
       \<lparr>ce_dir_info = rn_dir_info env, ce_inode = rn_inode env, ce_exact = exact, ce_colliding = colliding\<rparr>
       (Suc (tree_height target)) (str ''/'') target expected st"

definition verify_container_image ::
  "('s, 'z) ostree_repo_scheme \<Rightarrow> 's repair_env \<Rightarrow> 's \<Rightarrow> layered_image_state \<Rightarrow> u64 set \<Rightarrow> bool result" where
  "verify_container_image repo env s state colliding =
     and_then (rn_read_commit env s (ls_merge_commit state)) (\<lambda>merge_commit_root.
     and_then (parse_manifest_layout (ls_manifest state) (ls_configuration state)) (\<lambda>(commit_layer, _, remaining_layers).
     and_then (rn_read_commit env s (ls_base_commit state)) (\<lambda>base_tree.
     and_then (ref_for_layer commit_layer) (\<lambda>_.
     and_then (compare_trees env True colliding merge_commit_root base_tree compare_state_default) (\<lambda>comparison_state.
     and_then (try_map (query_layer repo s) remaining_layers) (\<lambda>remaining_layers.
     and_then (try_fold (\<lambda>layer comparison_state.
           and_then (ok_or (Err ''Missing layer'') (ml_commit layer)) (\<lambda>layer_commit.
           and_then (rn_read_commit env s layer_commit) (\<lambda>layer_tree.
           compare_trees env False colliding merge_commit_root layer_tree comparison_state)))
         (rev remaining_layers) comparison_state) (\<lambda>comparison_state.
     Inr (compare_state_is_ok comparison_state))))))))"

subsection \<open>Repairing\<close>

record repair_result =
  rr_inodes :: inode_check
  rr_likely_corrupted_container_image_merges :: "rstr list"
  rr_booted_is_likely_corrupted :: bool
  rr_staged_is_likely_corrupted :: bool

definition repair_result_of :: "inode_check \<Rightarrow> repair_result" where
  "repair_result_of inodes = \<lparr>rr_inodes = inodes, rr_likely_corrupted_container_image_merges = [],
     rr_booted_is_likely_corrupted = False, rr_staged_is_likely_corrupted = False\<rparr>"

definition analyze_image ::
  "('s, 'z) ostree_repo_scheme \<Rightarrow> oci_json \<Rightarrow> 's repair_env \<Rightarrow> 's \<Rightarrow> rstr option \<Rightarrow> rstr option \<Rightarrow>
   image_reference \<Rightarrow> repair_result \<Rightarrow> repair_result result" where
  "analyze_image repo js env s booted_checksum staged_checksum imgref r =
     and_then (query_image repo js s imgref) (\<lambda>found.
     case found of
       None \<Rightarrow> Inr r
     | Some state \<Rightarrow>
         and_then (verify_container_image repo env s state (ik_collisions (rr_inodes r))) (\<lambda>ok.
         if \<not> ok then
           let r = r\<lparr>rr_likely_corrupted_container_image_merges :=
                       rr_likely_corrupted_container_image_merges r @ [image_reference_fmt imgref]\<rparr>;
               merge_commit = ls_merge_commit state
           in if booted_checksum = Some merge_commit then Inr (r\<lparr>rr_booted_is_likely_corrupted := True\<rparr>)
              else if staged_checksum = Some merge_commit then Inr (r\<lparr>rr_staged_is_likely_corrupted := True\<rparr>)
              else Inr r
         else Inr r))"

definition analyze_for_repair ::
  "('s, 'z) ostree_repo_scheme \<Rightarrow> oci_json \<Rightarrow> 's repair_env \<Rightarrow> rstr option \<Rightarrow> rstr option \<Rightarrow> 's \<Rightarrow> repair_result result" where
  "analyze_for_repair repo js env booted_checksum staged_checksum s =
     and_then (check_inode_collision (rn_objects env s)) (\<lambda>inodes.
     if inode_check_is_ok inodes then Inr (repair_result_of inodes)
     else and_then (list_images repo s) (\<lambda>all_images.
          and_then (try_map image_reference_try_from all_images) (\<lambda>all_images.
          try_fold (analyze_image repo js env s booted_checksum staged_checksum) all_images (repair_result_of inodes))))"

definition repair_result_check :: "repair_result \<Rightarrow> unit result" where
  "repair_result_check r =
     ensure (rr_likely_corrupted_container_image_merges r = []) (Err ''Found corruption in images'')"

text \<open>The warnings printed by the check, as flags: for the booted and for the staged deployment.\<close>

definition repair_result_warnings :: "repair_result \<Rightarrow> bool \<times> bool" where
  "repair_result_warnings r = (rr_booted_is_likely_corrupted r, rr_booted_is_likely_corrupted r)"

definition flush_image :: "('s, 'z) ostree_repo_scheme \<Rightarrow> rstr \<Rightarrow> ('s, unit) action" where
  "flush_image repo imgref =
     act_bind (act_result (image_reference_try_from imgref)) (\<lambda>imgref s.
     let (s', res) = remove_images repo [imgref] s in (res, s'))"

definition repair :: "('s, 'z) ostree_repo_scheme \<Rightarrow> repair_result \<Rightarrow> ('s, unit) action" where
  "repair repo r =
     act_bind (act_fold (\<lambda>imgref _. flush_image repo imgref)
       (rr_likely_corrupted_container_image_merges r) ()) (\<lambda>_.
     act_bind (act_result (ensure (\<not> rr_booted_is_likely_corrupted r) (Err ''TODO redeploy and reboot''))) (\<lambda>_.
     act_result (ensure (\<not> rr_staged_is_likely_corrupted r) (Err ''TODO undeploy''))))"

section \<open>Lemmas\<close>

subsection \<open>Gathered inodes\<close>

text \<open>The inodes of the objects of a repository: of the regular files and symbolic links in its object
  directories.\<close>

definition dir_inodes :: "object_entry result list \<Rightarrow> u64 set" where
  "dir_inodes entries = {oe_ino e | e. Inr e \<in> set entries \<and> oe_file_or_symlink e}"

definition child_inodes :: "objects_child result \<Rightarrow> u64 set" where
  "child_inodes child =
     (case child of
        Inl _ \<Rightarrow> {}
      | Inr c \<Rightarrow>
          if oc_is_dir c = Inr True \<and> os_len (oc_name c) = 2
          then (case oc_open_dir c of Inr (Inr entries) \<Rightarrow> dir_inodes entries | _ \<Rightarrow> {})
          else {})"

definition object_inodes :: "objects_child result list \<Rightarrow> u64 set" where
  "object_inodes children = (\<Union>c \<in> set children. child_inodes c)"

text \<open>The two maps hold the given inodes, split by whether they fit 32 bits.\<close>

definition maps_hold :: "u64 set \<Rightarrow> inode_maps \<Rightarrow> bool" where
  "maps_hold I st \<longleftrightarrow> kv_wf (fst st) \<and> kv_wf (snd st) \<and>
     set (map fst (fst st)) = ucast ` {i \<in> I. unat i < 2 ^ 32} \<and> set (map fst (snd st)) = {i \<in> I. \<not> unat i < 2 ^ 32}"

lemma maps_hold_empty: "maps_hold {} ([], [])"
  by (simp add: maps_hold_def)

lemma maps_hold_insert:
  assumes "maps_hold I st"
  shows "maps_hold (insert i I) (insert_inode i csum st)"
proof -
  obtain little big where st: "st = (little, big)" by force
  have "{j \<in> insert i I. P j} = (if P i then insert i {j \<in> I. P j} else {j \<in> I. P j})" for P by auto
  with assms show ?thesis
    by (cases "unat i < 2 ^ 32") (simp_all add: maps_hold_def insert_inode_def st kv_wf_insert del: set_map)
qed

lemma gather_inode_holds:
  assumes "maps_hold I st" "gather_inode prefix child st = Inr st'"
  shows "maps_hold (I \<union> dir_inodes [child]) st'"
proof -
  obtain e where e: "child = Inr e" using assms(2) by (cases child) (auto simp: gather_inode_def)
  show ?thesis
  proof (cases "oe_file_or_symlink e")
    case True
    have "I \<union> dir_inodes [child] = insert (oe_ino e) I" using True e by (auto simp: dir_inodes_def)
    moreover obtain csum where "st' = insert_inode (oe_ino e) csum st"
      using assms(2) True e by (auto simp: gather_inode_def result_simps)
    ultimately show ?thesis using maps_hold_insert [OF assms(1)] by simp
  next
    case False
    then show ?thesis using assms e by (auto simp: gather_inode_def dir_inodes_def)
  qed
qed

lemma dir_inodes_Nil [simp]: "dir_inodes [] = {}"
  by (simp add: dir_inodes_def)

lemma dir_inodes_Cons: "dir_inodes (c # cs) = dir_inodes [c] \<union> dir_inodes cs"
  by (auto simp: dir_inodes_def)

lemma gather_inodes_holds:
  assumes "maps_hold I st" "try_fold (gather_inode prefix) entries st = Inr st'"
  shows "maps_hold (I \<union> dir_inodes entries) st'"
  using assms
proof (induction entries arbitrary: I st)
  case (Cons c cs)
  obtain st1 where "gather_inode prefix c st = Inr st1" "try_fold (gather_inode prefix) cs st1 = Inr st'"
    using Cons.prems(2) by (auto simp: result_simps)
  from Cons.IH [OF gather_inode_holds [OF Cons.prems(1) this(1)] this(2)]
  show ?case by (subst dir_inodes_Cons) (simp add: Un_assoc)
qed simp

lemma gather_child_holds:
  assumes "maps_hold I st" "gather_child child st = Inr st'"
  shows "maps_hold (I \<union> child_inodes child) st'"
proof -
  obtain c d where c: "child = Inr c" "oc_is_dir c = Inr d"
    using assms(2) by (auto simp: gather_child_def result_simps)
  show ?thesis
  proof (cases "d \<and> os_len (oc_name c) = 2")
    case True
    then obtain name entries where "oc_open_dir c = Inr (Inr entries)" "try_fold (gather_inode name) entries st = Inr st'"
      using assms(2) c by (auto simp: gather_child_def gather_inodes_def result_simps)
    with gather_inodes_holds [OF assms(1)] True c show ?thesis by (simp add: child_inodes_def)
  next
    case False
    with assms c show ?thesis by (auto simp: gather_child_def child_inodes_def split: if_splits)
  qed
qed

lemma gathered_holds:
  assumes "maps_hold I st" "try_fold gather_child children st = Inr st'"
  shows "maps_hold (I \<union> object_inodes children) st'"
  using assms
proof (induction children arbitrary: I st)
  case (Cons c cs)
  obtain st1 where "gather_child c st = Inr st1" "try_fold gather_child cs st1 = Inr st'"
    using Cons.prems(2) by (auto simp: result_simps)
  from Cons.IH [OF gather_child_holds [OF Cons.prems(1) this(1)] this(2)]
  show ?case by (simp add: object_inodes_def Un_assoc)
qed (simp add: object_inodes_def)

lemma kv_collect_keys:
  "set (map fst (fold (\<lambda>e m. if P (fst e) then kv_insert (fst e) (snd e) m else m) es acc)) =
    set (map fst acc) \<union> {k \<in> set (map fst es). P k}"
proof (induction es arbitrary: acc)
  case (Cons e es)
  have "{k \<in> insert (fst e) (set (map fst es)). P k} =
      (if P (fst e) then insert (fst e) {k \<in> set (map fst es). P k} else {k \<in> set (map fst es). P k})" by auto
  with Cons.IH show ?case by (cases "P (fst e)") (simp_all del: set_map)
qed simp

lemma colliding_keys:
  "set (map fst (colliding_inodes little big)) = {i \<in> set (map fst big). kv_lookup little (ucast i) \<noteq> None}"
  using kv_collect_keys [of "\<lambda>i. kv_lookup little (ucast i) \<noteq> None" big "[]"]
  unfolding colliding_inodes_def case_prod_beta Let_def by simp

lemma length_kv: "kv_wf m \<Longrightarrow> length m = card (set (map fst m))"
  using distinct_card [OF kv_wf_distinct, of m] by simp

lemma ucast_small_inj: "inj_on (ucast :: u64 \<Rightarrow> u32) {i. unat i < 2 ^ 32}"
proof (rule inj_onI)
  fix i j :: u64 assume "i \<in> {i. unat i < 2 ^ 32}" "j \<in> {i. unat i < 2 ^ 32}" "(ucast i :: u32) = ucast j"
  then have "unat i mod 2 ^ 32 = unat j mod 2 ^ 32" "unat i < 2 ^ 32" "unat j < 2 ^ 32"
    by (simp_all add: word_unat_eq_iff unsigned_ucast_eq take_bit_eq_mod)
  then show "i = j" by (simp add: word_unat_eq_iff)
qed

lemma unat_truncated: "unat (ucast (i :: u64) :: u32) = unat i mod 2 ^ 32"
  by (simp add: unsigned_ucast_eq take_bit_eq_mod)

lemma check_inode_collision_run:
  assumes "check_inode_collision objects = Inr check"
  obtains children little big where "objects = Inr children" "maps_hold (object_inodes children) (little, big)"
    and "ik_inode64 check = of_nat (length big)" "ik_inode32 check = of_nat (length little)"
    and "ik_collisions check = set (map fst (colliding_inodes little big))"
proof -
  obtain children st where r: "objects = Inr children" "try_fold gather_child children ([], []) = Inr st"
      "check = \<lparr>ik_inode64 = of_nat (length (snd st)), ik_inode32 = of_nat (length (fst st)),
          ik_collisions = set (map fst (colliding_inodes (fst st) (snd st)))\<rparr>"
    using assms by (auto simp: check_inode_collision_def result_simps)
  have "maps_hold (object_inodes children) st"
    using gathered_holds [OF maps_hold_empty r(2)] by simp
  with that [of children "fst st" "snd st"] r show ?thesis by simp
qed

lemma small_inode_key:
  assumes "maps_hold I (little, big)"
  shows "kv_lookup little k \<noteq> None \<longleftrightarrow> (\<exists>i \<in> I. unat i < 2 ^ 32 \<and> unat k = unat i)"
proof -
  have "kv_lookup little k \<noteq> None \<longleftrightarrow> k \<in> ucast ` {i \<in> I. unat i < 2 ^ 32}"
    using assms unfolding maps_hold_def kv_lookup_None by (simp add: image_image)
  also have "\<dots> \<longleftrightarrow> (\<exists>i \<in> I. unat i < 2 ^ 32 \<and> unat k = unat i)"
    by (auto simp: image_iff word_unat_eq_iff unsigned_ucast_eq take_bit_eq_mod)
  finally show ?thesis .
qed

subsection \<open>Depth of a comparison\<close>

lemma child_height: "(n, c) \<in> set children \<Longrightarrow> tree_height c < tree_height (RDir d m children)"
proof -
  have "tree_height c \<le> foldr (\<lambda>e. max (tree_height (snd e))) es 0" if "(n, c) \<in> set es" for es
    using that by (induction es) (auto simp: le_max_iff_disj)
  then show "(n, c) \<in> set children \<Longrightarrow> ?thesis" by (simp add: le_imp_less_Suc)
qed

lemma query_child_height: "query_child t n = Some c \<Longrightarrow> tree_height c < tree_height t"
  by (cases t) (auto dest!: map_of_SomeD intro: child_height simp del: tree_height.simps)

lemma try_fold_eqI: "(\<And>x s. x \<in> set xs \<Longrightarrow> f x s = g x s) \<Longrightarrow> try_fold f xs s = try_fold g xs s"
  by (induction xs arbitrary: s) (auto intro!: arg_cong2 [where f = and_then] simp: fun_eq_iff)

lemma try_fold_no_panic:
  "(\<And>x s. x \<in> set xs \<Longrightarrow> \<not> is_panic (f x s)) \<Longrightarrow> \<not> is_panic (try_fold f xs s)"
  by (induction xs arbitrary: s) (auto simp: is_panic_and_then)

lemma compare_commit_trees_fuel:
  "min (tree_height target) (tree_height expected) < fuel \<Longrightarrow> fuel \<le> fuel' \<Longrightarrow>
   compare_commit_trees env fuel prefix target expected st = compare_commit_trees env fuel' prefix target expected st"
proof (induction fuel arbitrary: fuel' prefix target expected st)
  case (Suc fuel)
  obtain fuel1 where fuel': "fuel' = Suc fuel1" "fuel \<le> fuel1" using Suc.prems(2) by (cases fuel') auto
  have step: "compare_commit_trees env fuel path ec tc st = compare_commit_trees env fuel1 path ec tc st"
    if "(n, ec) \<in> set children" "expected = RDir d m children" "query_child target n = Some tc" for path n ec tc children d m st
    using Suc.IH [OF _ fuel'(2), of ec tc path st] Suc.prems(1) child_height [OF that(1), of d m] query_child_height [OF that(3)]
    unfolding that(2) by simp
  show ?case
  proof (cases expected)
    case (RDir d m children)
    then show ?thesis
      unfolding fuel' compare_commit_trees.simps RDir enumerate_children.simps and_then_simps
      by (intro try_fold_eqI) (auto simp: Let_def step [OF _ RDir] split: option.split)
  qed (simp add: fuel')
qed simp

lemma compare_commit_trees_no_panic:
  assumes "\<And>c. \<not> is_panic (ce_inode env c)"
  shows "min (tree_height target) (tree_height expected) < fuel \<Longrightarrow>
    \<not> is_panic (compare_commit_trees env fuel prefix target expected st)"
proof (induction fuel arbitrary: prefix target expected st)
  case (Suc fuel)
  show ?case
  proof (cases expected)
    case (RDir d m children)
    have "\<not> is_panic (compare_commit_trees env fuel path ec tc st)"
      if "(n, ec) \<in> set children" "query_child target n = Some tc" for path n ec tc st
      using Suc.IH [of ec tc path st] Suc.prems child_height [OF that(1), of d m] query_child_height [OF that(2)]
      unfolding RDir by simp
    moreover have "\<not> is_panic (compare_files env path tc ec st)" for path tc ec st
      using assms by (auto simp: compare_files_def Let_def is_panic_and_then)
    ultimately show ?thesis
      unfolding compare_commit_trees.simps RDir enumerate_children.simps and_then_simps
      by (intro try_fold_no_panic) (auto simp: Let_def split: option.splits if_splits)
  qed simp
qed simp

subsection \<open>Analysis and repair\<close>

text \<open>When a tree \<open>target\<close> does not hold what another one, \<open>expected\<close>, says: an entry is missing, a file differs (in its
  checksum, or in type, size, owner and mode when only these are compared), or a subdirectory with other contents is
  damaged in turn.  For subdirectories the roles of the two trees are exchanged, as in the code.\<close>

definition file_differs :: "file_info \<Rightarrow> bool \<Rightarrow> repo_file \<Rightarrow> repo_file \<Rightarrow> bool" where
  "file_differs dir_info exact t e \<longleftrightarrow>
     (if exact then file_checksum t \<noteq> file_checksum e
      else (\<lambda>i. (fi_type i, fi_size i, fi_uid i, fi_gid i, fi_mode i)) (repo_file_info dir_info t) \<noteq>
           (\<lambda>i. (fi_type i, fi_size i, fi_uid i, fi_gid i, fi_mode i)) (repo_file_info dir_info e))"

inductive damaged :: "file_info \<Rightarrow> bool \<Rightarrow> repo_file \<Rightarrow> repo_file \<Rightarrow> bool" for dir_info exact where
  absent: "(n, e) \<in> set children \<Longrightarrow> query_child target n = None \<Longrightarrow> damaged dir_info exact target (RDir d m children)"
| differing: "(n, e) \<in> set children \<Longrightarrow> query_child target n = Some t \<Longrightarrow> \<not> is_dir e \<Longrightarrow> file_differs dir_info exact t e \<Longrightarrow>
    damaged dir_info exact target (RDir d m children)"
| subdir: "(n, e) \<in> set children \<Longrightarrow> query_child target n = Some t \<Longrightarrow> is_dir e \<Longrightarrow>
    contents_checksum e \<noteq> contents_checksum t \<Longrightarrow> damaged dir_info exact e t \<Longrightarrow> damaged dir_info exact target (RDir d m children)"

inductive_simps damaged_dir: "damaged dir_info exact target (RDir d m children)"

text \<open>What one child contributes.\<close>

definition child_damaged :: "file_info \<Rightarrow> bool \<Rightarrow> repo_file \<Rightarrow> rstr \<times> repo_file \<Rightarrow> bool" where
  "child_damaged dir_info exact target = (\<lambda>(n, e).
     case query_child target n of
       None \<Rightarrow> True
     | Some t \<Rightarrow> if is_dir e then contents_checksum e \<noteq> contents_checksum t \<and> damaged dir_info exact e t
                else file_differs dir_info exact t e)"

lemma damaged_children: "damaged dir_info exact target (RDir d m children) \<longleftrightarrow> (\<exists>c \<in> set children. child_damaged dir_info exact target c)"
proof
  assume "damaged dir_info exact target (RDir d m children)"
  then show "\<exists>c \<in> set children. child_damaged dir_info exact target c"
    unfolding damaged_dir by (elim disjE exE conjE) (rule rev_bexI, assumption, simp add: child_damaged_def)+
next
  assume "\<exists>c \<in> set children. child_damaged dir_info exact target c"
  then obtain n e where c: "(n, e) \<in> set children" "child_damaged dir_info exact target (n, e)" by force
  then show "damaged dir_info exact target (RDir d m children)"
    by (auto simp: child_damaged_def split: option.splits if_splits intro: damaged.intros)
qed

lemma try_fold_none:
  assumes "\<And>x s s'. x \<in> set xs \<Longrightarrow> f x s = Inr s' \<Longrightarrow> P s' \<longleftrightarrow> P s \<and> \<not> D x"
  shows "try_fold f xs s = Inr s' \<Longrightarrow> P s' \<longleftrightarrow> P s \<and> (\<forall>x \<in> set xs. \<not> D x)"
  using assms
proof (induction xs arbitrary: s)
  case (Cons x xs)
  then obtain s1 where s1: "f x s = Inr s1" "try_fold f xs s1 = Inr s'" by (auto simp: result_simps)
  from Cons.IH [OF s1(2)] Cons.prems(2) [of x s s1] Cons.prems(2) s1(1) show ?case by auto
qed simp

lemma compare_files_ok:
  "compare_files env path t e st = Inr st' \<Longrightarrow>
   compare_state_is_ok st' \<longleftrightarrow> compare_state_is_ok st \<and> \<not> file_differs (ce_dir_info env) (ce_exact env) t e"
  by (auto simp: compare_files_def file_differs_def compare_file_info_def compare_state_is_ok_def Let_def result_simps
      split: if_splits)

lemma compare_commit_trees_damaged:
  "compare_commit_trees env fuel prefix target expected st = Inr st' \<Longrightarrow>
   compare_state_is_ok st' \<longleftrightarrow> compare_state_is_ok st \<and> \<not> damaged (ce_dir_info env) (ce_exact env) target expected"
proof (induction fuel arbitrary: prefix target expected st st')
  case (Suc fuel)
  obtain d m children where e: "expected = RDir d m children"
    using Suc.prems by (cases expected) auto
  let ?D = "child_damaged (ce_dir_info env) (ce_exact env) target"
  have "compare_state_is_ok st' \<longleftrightarrow> compare_state_is_ok st \<and> (\<forall>c \<in> set children. \<not> ?D c)"
    using Suc.prems unfolding e compare_commit_trees.simps enumerate_children.simps and_then_simps
  proof (rule try_fold_none [rotated])
    fix x st st'
    assume step: "(case x of (name, expected_child) \<Rightarrow> \<lambda>st.
         let path = prefix @ name
         in case query_child target name of
              Some target_child \<Rightarrow>
                if is_dir expected_child then
                  if contents_checksum expected_child \<noteq> contents_checksum target_child
                  then compare_commit_trees env fuel (path @ str ''/'') expected_child target_child st
                  else Inr st
                else compare_files env path target_child expected_child st
            | None \<Rightarrow> Inr (st\<lparr>cs_unknown_corrupted := insert path (cs_unknown_corrupted st)\<rparr>)) st = Inr st'"
    show "compare_state_is_ok st' \<longleftrightarrow> compare_state_is_ok st \<and> \<not> child_damaged (ce_dir_info env) (ce_exact env) target x"
    proof (cases x)
      case (Pair n c)
      with step show ?thesis
        by (cases "query_child target n")
           (auto simp: child_damaged_def Let_def compare_state_is_ok_def [of "_\<lparr>cs_unknown_corrupted := _\<rparr>"]
             dest: Suc.IH compare_files_ok split: if_splits)
    qed
  qed
  then show ?case unfolding e damaged_children by blast
qed simp

text \<open>An image that can be queried and whose merge commit does not match the commits it was made of: the base, or
  one of the derived layers.\<close>

definition corrupted_image ::
  "('s, 'z) ostree_repo_scheme \<Rightarrow> oci_json \<Rightarrow> 's repair_env \<Rightarrow> ('s \<Rightarrow> rstr \<Rightarrow> rstr option) \<Rightarrow> 's \<Rightarrow> image_reference \<Rightarrow> bool" where
  "corrupted_image repo js env refs_of s ir \<longleftrightarrow>
     (\<exists>state merged. query_image repo js s ir = Inr (Some state) \<and> rn_read_commit env s (ls_merge_commit state) = Inr merged \<and>
        ((\<exists>base. rn_read_commit env s (ls_base_commit state) = Inr base \<and> damaged (rn_dir_info env) True merged base) \<or>
         (\<exists>first comps derived l r c tree. parse_manifest_layout (ls_manifest state) (ls_configuration state) = Inr (first, comps, derived) \<and>
            l \<in> set derived \<and> ref_for_layer l = Inr r \<and> refs_of s r = Some c \<and> rn_read_commit env s c = Inr tree \<and>
            damaged (rn_dir_info env) False merged tree)))"

lemma compare_trees_damaged:
  "compare_trees env exact colliding target expected st = Inr st' \<Longrightarrow>
   compare_state_is_ok st' \<longleftrightarrow> compare_state_is_ok st \<and> \<not> damaged (rn_dir_info env) exact target expected"
  unfolding compare_trees_def by (drule compare_commit_trees_damaged) simp

lemma verify_container_image_damaged:
  assumes "refs_spec repo refs_of" "verify_container_image repo env s state colliding = Inr ok"
    and "query_image repo js s ir = Inr (Some state)"
  shows "ok \<longleftrightarrow> \<not> corrupted_image repo js env refs_of s ir"
proof -
  obtain merged first comps derived base st0 qs st1 where v: "rn_read_commit env s (ls_merge_commit state) = Inr merged"
      "parse_manifest_layout (ls_manifest state) (ls_configuration state) = Inr (first, comps, derived)"
      "rn_read_commit env s (ls_base_commit state) = Inr base"
      "compare_trees env True colliding merged base compare_state_default = Inr st0"
      "try_map (query_layer repo s) derived = Inr qs"
      "try_fold (\<lambda>layer comparison_state.
           and_then (ok_or (Err ''Missing layer'') (ml_commit layer)) (\<lambda>layer_commit.
           and_then (rn_read_commit env s layer_commit) (\<lambda>layer_tree.
           compare_trees env False colliding merged layer_tree comparison_state)))
         (rev qs) st0 = Inr st1"
      "ok \<longleftrightarrow> compare_state_is_ok st1"
    using assms(2) unfolding verify_container_image_def by (auto simp: result_simps)
  let ?D = "\<lambda>q. \<exists>c tree. ml_commit q = Some c \<and> rn_read_commit env s c = Inr tree \<and> damaged (rn_dir_info env) False merged tree"
  have "compare_state_is_ok st1 \<longleftrightarrow> compare_state_is_ok st0 \<and> (\<forall>q \<in> set (rev qs). \<not> ?D q)"
    using v(6) by (rule try_fold_none [rotated]) (auto simp: result_simps dest: compare_trees_damaged)
  moreover have "compare_state_is_ok st0 \<longleftrightarrow> \<not> damaged (rn_dir_info env) True merged base"
    using compare_trees_damaged [OF v(4)] by (simp add: compare_state_is_ok_def compare_state_default_def)
  moreover have "(\<exists>q \<in> set qs. ?D q) \<longleftrightarrow> (\<exists>l \<in> set derived. \<exists>r c tree. ref_for_layer l = Inr r \<and> refs_of s r = Some c \<and>
      rn_read_commit env s c = Inr tree \<and> damaged (rn_dir_info env) False merged tree)"
  proof -
    have found: "ref_for_layer (ml_layer q) = Inr (ml_ostree_ref q) \<and> ml_commit q = refs_of s (ml_ostree_ref q)" if "q \<in> set qs" for q
      using that query_layers_Inr(2) [OF assms(1) v(5)] by (auto simp: list_all_iff layer_found_def)
    then have "?D q \<longleftrightarrow> (\<exists>r c tree. ref_for_layer (ml_layer q) = Inr r \<and> refs_of s r = Some c \<and>
        rn_read_commit env s c = Inr tree \<and> damaged (rn_dir_info env) False merged tree)" if "q \<in> set qs" for q
      using that by fastforce
    moreover have "set derived = ml_layer ` set qs" using query_layers_Inr(1) [OF assms(1) v(5)] by (metis set_map)
    ultimately show ?thesis by auto
  qed
  ultimately show ?thesis
    using v(1-3,7) assms(3) unfolding corrupted_image_def by auto
qed

text \<open>The commit that a stored image's ref holds is the merge commit of the image.\<close>

definition image_commit :: "('s, 'z) ostree_repo_scheme \<Rightarrow> oci_json \<Rightarrow> 's \<Rightarrow> image_reference \<Rightarrow> rstr option" where
  "image_commit repo js s ir = (case query_image repo js s ir of Inr (Some state) \<Rightarrow> Some (ls_merge_commit state) | _ \<Rightarrow> None)"

lemma analyze_image_Inr:
  assumes "refs_spec repo refs_of" "analyze_image repo js env s booted staged ir r = Inr r'"
  shows "rr_inodes r' = rr_inodes r" "rr_likely_corrupted_container_image_merges r' =
    rr_likely_corrupted_container_image_merges r @ (if corrupted_image repo js env refs_of s ir then [image_reference_fmt ir] else [])"
    and "rr_booted_is_likely_corrupted r' \<or> rr_staged_is_likely_corrupted r' \<longleftrightarrow>
      rr_booted_is_likely_corrupted r \<or> rr_staged_is_likely_corrupted r \<or>
      corrupted_image repo js env refs_of s ir \<and> image_commit repo js s ir \<in> {booted, staged}"
proof -
  obtain found where q: "query_image repo js s ir = Inr found"
    using assms(2) by (auto simp: analyze_image_def result_simps)
  have "rr_inodes r' = rr_inodes r \<and> rr_likely_corrupted_container_image_merges r' =
      rr_likely_corrupted_container_image_merges r @ (if corrupted_image repo js env refs_of s ir then [image_reference_fmt ir] else []) \<and>
    (rr_booted_is_likely_corrupted r' \<or> rr_staged_is_likely_corrupted r' \<longleftrightarrow>
      rr_booted_is_likely_corrupted r \<or> rr_staged_is_likely_corrupted r \<or>
      corrupted_image repo js env refs_of s ir \<and> image_commit repo js s ir \<in> {booted, staged})"
  proof (cases found)
    case (Some state)
    then obtain ok where ok: "verify_container_image repo env s state (ik_collisions (rr_inodes r)) = Inr ok"
      using assms(2) q by (auto simp: analyze_image_def result_simps)
    note verdict = verify_container_image_damaged [OF assms(1) ok q [unfolded Some]]
    have "image_commit repo js s ir = Some (ls_merge_commit state)" using q Some by (simp add: image_commit_def)
    with assms(2) q Some ok verdict show ?thesis
      by (cases ok) (auto simp: analyze_image_def Let_def split: if_splits)
  next
    case None
    then have "\<not> corrupted_image repo js env refs_of s ir" using q by (simp add: corrupted_image_def)
    with assms(2) q None show ?thesis by (simp add: analyze_image_def)
  qed
  then show "rr_inodes r' = rr_inodes r" "rr_likely_corrupted_container_image_merges r' =
      rr_likely_corrupted_container_image_merges r @ (if corrupted_image repo js env refs_of s ir then [image_reference_fmt ir] else [])"
    "rr_booted_is_likely_corrupted r' \<or> rr_staged_is_likely_corrupted r' \<longleftrightarrow>
      rr_booted_is_likely_corrupted r \<or> rr_staged_is_likely_corrupted r \<or>
      corrupted_image repo js env refs_of s ir \<and> image_commit repo js s ir \<in> {booted, staged}"
    by blast+
qed

lemma analyze_loop:
  assumes "refs_spec repo refs_of" "try_fold (analyze_image repo js env s booted staged) irs r = Inr r'"
  shows "rr_inodes r' = rr_inodes r \<and> rr_likely_corrupted_container_image_merges r' =
    rr_likely_corrupted_container_image_merges r @ map image_reference_fmt (filter (corrupted_image repo js env refs_of s) irs) \<and>
    (rr_booted_is_likely_corrupted r' \<or> rr_staged_is_likely_corrupted r' \<longleftrightarrow>
     rr_booted_is_likely_corrupted r \<or> rr_staged_is_likely_corrupted r \<or>
     (\<exists>ir \<in> set irs. corrupted_image repo js env refs_of s ir \<and> image_commit repo js s ir \<in> {booted, staged}))"
  using assms(2)
proof (induction irs arbitrary: r)
  case (Cons ir irs)
  obtain r1 where r1: "analyze_image repo js env s booted staged ir r = Inr r1"
      "try_fold (analyze_image repo js env s booted staged) irs r1 = Inr r'"
    using Cons.prems by (auto simp: result_simps)
  with Cons.IH [OF r1(2)] analyze_image_Inr [OF assms(1) r1(1)] show ?case by auto
qed simp

lemma try_map_parsed: "try_map image_reference_try_from names = Inr irs \<Longrightarrow> parsed_images names = irs"
  by (induction names arbitrary: irs) (auto simp: parsed_images_def List.map_filter_simps result_simps)

lemma analyze_run:
  assumes "refs_spec repo refs_of" "image_refs_canonical (refs_of s)"
    and "analyze_for_repair repo js env booted staged s = Inr r" "\<not> inode_check_is_ok (rr_inodes r)"
  obtains irs where "set irs = {ir \<in> stored_images (refs_of s). corrupted_image repo js env refs_of s ir}"
    and "distinct irs" "rr_likely_corrupted_container_image_merges r = map image_reference_fmt irs"
    and "rr_booted_is_likely_corrupted r \<or> rr_staged_is_likely_corrupted r \<longleftrightarrow>
      (\<exists>ir \<in> set irs. image_commit repo js s ir \<in> {booted, staged})"
proof -
  obtain inodes where i: "check_inode_collision (rn_objects env s) = Inr inodes"
    using assms(3) by (auto simp: analyze_for_repair_def result_simps)
  have "\<not> inode_check_is_ok inodes"
    using assms(3,4) i by (auto simp: analyze_for_repair_def repair_result_of_def)
  then obtain names irs where n: "list_images repo s = Inr names" "try_map image_reference_try_from names = Inr irs"
      "try_fold (analyze_image repo js env s booted staged) irs (repair_result_of inodes) = Inr r"
    using assms(3) i by (auto simp: analyze_for_repair_def result_simps)
  note listed = listed_images [OF assms(1,2) n(1), unfolded try_map_parsed [OF n(2)]]
  let ?irs = "filter (corrupted_image repo js env refs_of s) irs"
  have r: "rr_likely_corrupted_container_image_merges r = map image_reference_fmt ?irs"
    "rr_booted_is_likely_corrupted r \<or> rr_staged_is_likely_corrupted r \<longleftrightarrow>
      (\<exists>ir \<in> set ?irs. image_commit repo js s ir \<in> {booted, staged})"
    using analyze_loop [OF assms(1) n(3)] by (auto simp: repair_result_of_def)
  show ?thesis by (rule that [of ?irs]) (use r listed in auto)
qed

lemma remove_one:
  assumes "refs_spec repo refs_of" "\<forall>r s. is_ok (rp_set_ref repo r None s)" "ir \<in> stored_images (refs_of s)"
  shows "\<exists>s'. remove_images repo [ir] s = (s', Inr ()) \<and> refs_of s' = without_images {ir} (refs_of s)"
proof -
  obtain r where r: "ref_for_image ir = Inr r" "refs_of s r \<noteq> None" using assms(3) by (auto simp: stored_images_def)
  obtain s' where "remove_image repo ir s = Inr (True, s')" "refs_of s' = (refs_of s)(r := None)"
    using remove_image_spec [OF assms(1) r(1), of s] assms(2) r(2) by auto
  with r(1) show ?thesis
    by (auto simp: remove_images_def without_images_def fun_eq_iff)
qed

lemma repair_loop:
  assumes "refs_spec repo refs_of" "\<forall>r s. is_ok (rp_set_ref repo r None s)"
    and "set irs \<subseteq> stored_images (refs_of s)" "distinct irs"
  shows "\<exists>s'. act_fold (\<lambda>imgref _. flush_image repo imgref) (map image_reference_fmt irs) () s = (Inr (), s') \<and>
    refs_of s' = without_images (set irs) (refs_of s)"
  using assms(3,4)
proof (induction irs arbitrary: s)
  case (Cons ir irs)
  obtain s1 where s1: "remove_images repo [ir] s = (s1, Inr ())" "refs_of s1 = without_images {ir} (refs_of s)"
    using remove_one [OF assms(1,2), of ir s] Cons.prems(1) by auto
  have st: "storable_imgref ir" using Cons.prems(1) by (simp add: stored_images_def)
  then have "stored_images (refs_of s1) = stored_images (refs_of s) - {ir}"
    using stored_images_without [of "{ir}"] s1(2) by simp
  then have "set irs \<subseteq> stored_images (refs_of s1)" using Cons.prems by auto
  from Cons.IH [OF this] Cons.prems(2) obtain s' where
      s': "act_fold (\<lambda>imgref _. flush_image repo imgref) (map image_reference_fmt irs) () s1 = (Inr (), s')"
      "refs_of s' = without_images (set irs) (refs_of s1)"
    by auto
  have "image_reference_try_from (image_reference_fmt ir) = Inr ir"
    using st by (simp add: storable_imgref_def image_reference_parse_print)
  then have "flush_image repo (image_reference_fmt ir) s = (Inr (), s1)"
    using s1(1) by (simp add: flush_image_def)
  with s' s1 show ?case by (simp add: act_bind_def without_images_union)
qed (simp add: without_images_def act_result_def)

section \<open>Properties\<close>

text \<open>C33: the inode check splits the inode numbers of all objects by whether they fit 32 bits, counts each once,
  and reports as colliding exactly the large inode numbers whose value modulo \<open>2 ^ 32\<close> is the inode number of
  another object.\<close>

theorem check_inode_collision_exact:
  assumes "check_inode_collision (Inr children) = Inr check"
  shows "ik_collisions check = {i \<in> object_inodes children. 2 ^ 32 \<le> unat i \<and>
      (\<exists>j \<in> object_inodes children. unat j = unat i mod 2 ^ 32)} \<and>
    ik_inode32 check = of_nat (card {i \<in> object_inodes children. unat i < 2 ^ 32}) \<and>
    ik_inode64 check = of_nat (card {i \<in> object_inodes children. 2 ^ 32 \<le> unat i})"
proof -
  let ?I = "object_inodes children"
  obtain little big where h: "maps_hold ?I (little, big)"
      and r: "ik_inode64 check = of_nat (length big)" "ik_inode32 check = of_nat (length little)"
        "ik_collisions check = set (map fst (colliding_inodes little big))"
    by (rule check_inode_collision_run [OF assms]) auto
  have keys: "set (map fst big) = {i \<in> ?I. 2 ^ 32 \<le> unat i}" "set (map fst little) = ucast ` {i \<in> ?I. unat i < 2 ^ 32}"
    using h by (auto simp: maps_hold_def simp del: set_map)
  have "length little = card {i \<in> ?I. unat i < 2 ^ 32}"
    using h length_kv [of little] card_image [OF inj_on_subset [OF ucast_small_inj, of "{i \<in> ?I. unat i < 2 ^ 32}"]]
    unfolding keys(2) by (auto simp: maps_hold_def)
  moreover have "length big = card {i \<in> ?I. 2 ^ 32 \<le> unat i}"
    using h length_kv [of big] unfolding keys(1) by (simp add: maps_hold_def)
  moreover have "kv_lookup little (ucast i) \<noteq> None \<longleftrightarrow> (\<exists>j \<in> ?I. unat j = unat i mod 2 ^ 32)" for i :: u64
    unfolding small_inode_key [OF h] unat_truncated by (rule bex_cong) auto
  then have "ik_collisions check = {i \<in> ?I. 2 ^ 32 \<le> unat i \<and> (\<exists>j \<in> ?I. unat j = unat i mod 2 ^ 32)}"
    unfolding r(3) colliding_keys keys(1) by auto
  ultimately show ?thesis using r by simp
qed

text \<open>Objects whose inode numbers differ by a multiple of \<open>2 ^ 32\<close>.\<close>

definition sample_entry :: "string \<Rightarrow> nat \<Rightarrow> object_entry" where
  "sample_entry name ino = \<lparr>oe_name = Utf8 (str name), oe_file_or_symlink = True, oe_ino = of_nat ino\<rparr>"

definition sample_objects :: "objects_child result list" where
  "sample_objects = [Inr \<lparr>oc_is_dir = Inr True, oc_name = Utf8 (str ''ab''),
     oc_open_dir = Inr (Inr [Inr (sample_entry ''0.file'' 7), Inr (sample_entry ''1.file'' 4294967303), Inr (sample_entry ''2.file'' 4294967304)])\<rparr>]"

theorem check_inode_collision_exact_witness:
  "\<exists>check. check_inode_collision (Inr sample_objects) = Inr check \<and> 4294967303 \<in> ik_collisions check \<and>
     ik_collisions check = {i \<in> object_inodes sample_objects. 2 ^ 32 \<le> unat i \<and>
       (\<exists>j \<in> object_inodes sample_objects. unat j = unat i mod 2 ^ 32)} \<and> ik_inode32 check = 1 \<and> ik_inode64 check = 2"
proof -
  define check where "check = \<lparr>ik_inode64 = 2, ik_inode32 = 1, ik_collisions = set [4294967303 :: u64]\<rparr>"
  have "check_inode_collision (Inr sample_objects) = Inr check"
    unfolding check_def by code_simp
  moreover have "4294967303 \<in> ik_collisions check" "ik_inode32 check = 1" "ik_inode64 check = 2"
    by (simp_all add: check_def)
  ultimately show ?thesis using check_inode_collision_exact [of sample_objects check] by blast
qed

text \<open>Comparing trees terminates: the recursion never goes deeper than the trees, whatever the bound on its
  depth above that, and the comparison never runs out of it.\<close>

theorem compare_trees_terminates:
  assumes "\<forall>c. \<not> is_panic (rn_inode env c)" "tree_height target < fuel"
  shows "\<not> is_panic (compare_trees env exact colliding target expected st) \<and>
    compare_commit_trees \<lparr>ce_dir_info = rn_dir_info env, ce_inode = rn_inode env, ce_exact = exact, ce_colliding = colliding\<rparr>
      fuel (str ''/'') target expected st = compare_trees env exact colliding target expected st"
  using assms compare_commit_trees_no_panic [of _ target expected "Suc (tree_height target)"]
    compare_commit_trees_fuel [of target expected "Suc (tree_height target)" fuel]
  unfolding compare_trees_def by (simp add: min_less_iff_disj Suc_leI)

text \<open>A repository in which the file of the merge commit is not the one of the base layer.\<close>

definition repair_json :: oci_json where
  "repair_json = stored_json\<lparr>oj_default_config := stored_config\<lparr>
     c_config := Some (default_container_config\<lparr>cc_labels := Some [(DIFFID_LABEL, str ''d0'')]\<rparr>), c_diff_ids := [str ''d0'']\<rparr>\<rparr>"

definition repair_file :: "string \<Rightarrow> repo_file" where
  "repair_file c = RDir (str ''t'') (str ''m'') [(str ''f'', RFile (str c)
     \<lparr>fi_type = FRegular, fi_size = 0, fi_uid = 0, fi_gid = 0, fi_mode = 0, fi_symlink_target = None\<rparr>)]"

definition sample_repair_env :: "(rstr \<times> rstr) list repair_env" where
  "sample_repair_env = \<lparr>rn_objects = (\<lambda>_. Inr sample_objects),
     rn_read_commit = (\<lambda>_ c. Inr (repair_file (if c = [51] then ''good'' else ''bad''))),
     rn_dir_info = \<lparr>fi_type = FDirectory, fi_size = 0, fi_uid = 0, fi_gid = 0, fi_mode = 0, fi_symlink_target = None\<rparr>,
     rn_inode = (\<lambda>c. Inr (if c = str ''bad'' then 4294967303 else 7))\<rparr>"

theorem compare_trees_terminates_witness:
  "\<not> is_panic (compare_trees sample_repair_env True {} (repair_file ''good'') (repair_file ''bad'') compare_state_default) \<and>
   compare_commit_trees \<lparr>ce_dir_info = rn_dir_info sample_repair_env, ce_inode = rn_inode sample_repair_env, ce_exact = True, ce_colliding = {}\<rparr>
     5 (str ''/'') (repair_file ''good'') (repair_file ''bad'') compare_state_default =
   compare_trees sample_repair_env True {} (repair_file ''good'') (repair_file ''bad'') compare_state_default"
  by (rule compare_trees_terminates) (simp_all add: sample_repair_env_def repair_file_def)



end
