(* ===== verification/CommitClean.thy ===== *)
theory CommitClean
  imports HostConfig Action
begin

text \<open>
  The cleanup of a root file system before it is committed (\<^verbatim>\<open>lib/src/commit.rs\<close>).  The file system is a tree
  whose nodes carry the device they live on and the answer of \<^verbatim>\<open>statx\<close>; every system call may fail, as the
  environment says.  A run returns its result and the tree it leaves behind, also when it fails.
\<close>

section \<open>Definitions\<close>

record fs_attr =
  fa_dev :: u64
  fa_statx :: "statx_error + statx"

datatype fs_node =
    FsFile fs_attr
  | FsDir fs_attr "(rstr \<times> fs_node) list"

fun node_attr :: "fs_node \<Rightarrow> fs_attr" where
  "node_attr (FsFile a) = a"
| "node_attr (FsDir a _) = a"

datatype fs_op = ReadDir "rstr list" | Metadata "rstr list" | RemoveFile "rstr list" | RemoveDir "rstr list"

type_synonym fs_env = "fs_op \<Rightarrow> failure option"

text \<open>What is left of an entry.\<close>

definition keep_entry :: "rstr \<Rightarrow> fs_node option \<Rightarrow> (rstr \<times> fs_node) list" where
  "keep_entry n c = (case c of Some c \<Rightarrow> [(n, c)] | None \<Rightarrow> [])"

definition FORCE_CLEAN_PATHS :: "rstr list" where
  "FORCE_CLEAN_PATHS = [str ''run'', str ''tmp'', str ''var/tmp'', str ''var/cache'']"

text \<open>A directory with its path, and the loop over its entries with the flag \<open>skipped\<close>; the second component is
  what is left, \<open>None\<close> for a directory that was removed.\<close>

fun remove_all_on_mount_recurse :: "fs_env \<Rightarrow> u64 \<Rightarrow> rstr list \<Rightarrow> fs_node \<Rightarrow> bool result \<times> fs_node option"
  and remove_entries :: "fs_env \<Rightarrow> u64 \<Rightarrow> rstr list \<Rightarrow> bool \<Rightarrow> (rstr \<times> fs_node) list \<Rightarrow> bool result \<times> (rstr \<times> fs_node) list"
where
  "remove_all_on_mount_recurse env rootdev path (FsFile a) = (Inl (Err ''Not a directory''), Some (FsFile a))"
| "remove_all_on_mount_recurse env rootdev path (FsDir a entries) =
     (case env (ReadDir path) of
        Some e \<Rightarrow> (Inl e, Some (FsDir a entries))
      | None \<Rightarrow>
          let (r, entries') = remove_entries env rootdev path False entries
          in case r of
               Inl e \<Rightarrow> (Inl e, Some (FsDir a entries'))
             | Inr skipped \<Rightarrow>
                 if \<not> skipped then
                   (case env (RemoveDir path) of
                      Some e \<Rightarrow> (Inl e, Some (FsDir a entries'))
                    | None \<Rightarrow> if entries' = [] then (Inr skipped, None)
                             else (Inl (Err ''Directory not empty''), Some (FsDir a entries')))
                 else (Inr skipped, Some (FsDir a entries')))"
| "remove_entries env rootdev path skipped [] = (Inr skipped, [])"
| "remove_entries env rootdev path skipped ((name, c) # entries) =
     (case env (Metadata (path @ [name])) of
        Some e \<Rightarrow> (Inl e, (name, c) # entries)
      | None \<Rightarrow>
          if fa_dev (node_attr c) \<noteq> rootdev then
            let (r, rest) = remove_entries env rootdev path True entries in (r, (name, c) # rest)
          else
            (case c of
               FsDir _ _ \<Rightarrow>
                 let (r, c') = remove_all_on_mount_recurse env rootdev (path @ [name]) c
                 in (case r of
                       Inl e \<Rightarrow> (Inl e, keep_entry name c' @ entries)
                     | Inr s \<Rightarrow>
                         let (r, rest) = remove_entries env rootdev path (skipped \<or> s) entries
                         in (r, keep_entry name c' @ rest))
             | FsFile _ \<Rightarrow>
                 (case env (RemoveFile (path @ [name])) of
                    Some e \<Rightarrow> (Inl e, (name, c) # entries)
                  | None \<Rightarrow> remove_entries env rootdev path skipped entries)))"

text \<open>One entry of a directory to clean: what is left of it.\<close>

definition clean_entry :: "fs_env \<Rightarrow> u64 \<Rightarrow> rstr list \<Rightarrow> rstr \<Rightarrow> fs_node \<Rightarrow> unit result \<times> fs_node option" where
  "clean_entry env rootdev path name c =
     (case env (Metadata (path @ [name])) of
        Some e \<Rightarrow> (Inl e, Some c)
      | None \<Rightarrow>
          if fa_dev (node_attr c) \<noteq> rootdev then (Inr (), Some c)
          else
            (case is_mountpoint (fa_statx (node_attr c)) of
               Inl e \<Rightarrow> (Inl e, Some c)
             | Inr m \<Rightarrow>
                 if m = Some True then (Inr (), Some c)
                 else
                   (case c of
                      FsDir _ _ \<Rightarrow>
                        let (r, c') = remove_all_on_mount_recurse env rootdev (path @ [name]) c
                        in (and_then r (\<lambda>_. Inr ()), c')
                    | FsFile _ \<Rightarrow>
                        (case env (RemoveFile (path @ [name])) of Some e \<Rightarrow> (Inl e, Some c) | None \<Rightarrow> (Inr (), None)))))"

fun clean_entries :: "fs_env \<Rightarrow> u64 \<Rightarrow> rstr list \<Rightarrow> ((rstr \<times> fs_node) list, unit) action" where
  "clean_entries env rootdev path [] = (Inr (), [])"
| "clean_entries env rootdev path ((name, c) # entries) =
     (let (r, c') = clean_entry env rootdev path name c
      in case r of
           Inl e \<Rightarrow> (Inl e, keep_entry name c' @ entries)
         | Inr _ \<Rightarrow> let (r, rest) = clean_entries env rootdev path entries in (r, keep_entry name c' @ rest))"

definition clean_subdir :: "fs_env \<Rightarrow> u64 \<Rightarrow> rstr list \<Rightarrow> ((rstr \<times> fs_node) list, unit) action" where
  "clean_subdir env rootdev path entries =
     (case env (ReadDir path) of Some e \<Rightarrow> (Inl e, entries) | None \<Rightarrow> clean_entries env rootdev path entries)"

text \<open>An action on the entries of the directory at a path.\<close>

fun at_dir :: "rstr list \<Rightarrow> ((rstr \<times> fs_node) list, unit) action \<Rightarrow> (fs_node, unit) action" where
  "at_dir path m (FsFile a) = (Inl (Err ''Not a directory''), FsFile a)"
| "at_dir [] m (FsDir a entries) = (let (r, entries') = m entries in (r, FsDir a entries'))"
| "at_dir (n # path) m (FsDir a entries) =
     (case map_of entries n of
        None \<Rightarrow> (Inl (Err ''No such directory''), FsDir a entries)
      | Some c \<Rightarrow>
          let (r, c') = at_dir path m c
          in (r, FsDir a (map (\<lambda>(k, v). if k = n then (k, c') else (k, v)) entries)))"

text \<open>\<open>open_dir\<close> opens a directory below the root: the path it is found at after symbolic links are followed,
  or nothing when it does not exist.\<close>

definition clean_paths_in ::
  "fs_env \<Rightarrow> (fs_node \<Rightarrow> rstr \<Rightarrow> rstr list option result) \<Rightarrow> u64 \<Rightarrow> (fs_node, unit) action" where
  "clean_paths_in env open_dir rootdev =
     act_fold (\<lambda>path _.
         act_bind (act_query (\<lambda>root. open_dir root path)) (\<lambda>subdir.
         case subdir of
           None \<Rightarrow> act_ret ()
         | Some p \<Rightarrow> at_dir p (clean_subdir env rootdev p)))
       FORCE_CLEAN_PATHS ()"

definition prepare_ostree_commit_in ::
  "fs_env \<Rightarrow> (fs_node \<Rightarrow> rstr \<Rightarrow> rstr list option result) \<Rightarrow> (fs_node, unit) action" where
  "prepare_ostree_commit_in env open_dir root =
     (case env (Metadata []) of
        Some e \<Rightarrow> (Inl e, root)
      | None \<Rightarrow> clean_paths_in env open_dir (fa_dev (node_attr root)) root)"

definition prepare_ostree_commit_in_nonstrict ::
  "fs_env \<Rightarrow> (fs_node \<Rightarrow> rstr \<Rightarrow> rstr list option result) \<Rightarrow> (fs_node, unit) action" where
  "prepare_ostree_commit_in_nonstrict env open_dir root =
     (case env (Metadata []) of
        Some e \<Rightarrow> (Inl e, root)
      | None \<Rightarrow> clean_paths_in env open_dir (fa_dev (node_attr root)) root)"

text \<open>\<open>in_container\<close> is the answer of \<open>require_ostree_container\<close>.\<close>

definition container_commit ::
  "unit result \<Rightarrow> fs_env \<Rightarrow> (fs_node \<Rightarrow> rstr \<Rightarrow> rstr list option result) \<Rightarrow> (fs_node, unit) action" where
  "container_commit in_container env open_dir =
     act_bind (act_result in_container) (\<lambda>_. prepare_ostree_commit_in env open_dir)"

section \<open>Lemmas\<close>

text \<open>What is left of a tree: foreign nodes as they are, and the directories above them.\<close>

fun left_over :: "u64 \<Rightarrow> fs_node \<Rightarrow> fs_node option"
  and left_overs :: "u64 \<Rightarrow> (rstr \<times> fs_node) list \<Rightarrow> (rstr \<times> fs_node) list"
where
  "left_over rootdev (FsFile a) = (if fa_dev a \<noteq> rootdev then Some (FsFile a) else None)"
| "left_over rootdev (FsDir a entries) =
     (if fa_dev a \<noteq> rootdev then Some (FsDir a entries)
      else let es = left_overs rootdev entries in if es = [] then None else Some (FsDir a es))"
| "left_overs rootdev [] = []"
| "left_overs rootdev ((n, c) # entries) = keep_entry n (left_over rootdev c) @ left_overs rootdev entries"

text \<open>The nodes on other devices that are reached through nodes of the own device, with their paths.\<close>

fun foreign :: "u64 \<Rightarrow> rstr list \<Rightarrow> fs_node \<Rightarrow> (rstr list \<times> fs_node) list"
  and foreigns :: "u64 \<Rightarrow> rstr list \<Rightarrow> (rstr \<times> fs_node) list \<Rightarrow> (rstr list \<times> fs_node) list"
where
  "foreign rootdev path (FsFile a) = (if fa_dev a \<noteq> rootdev then [(path, FsFile a)] else [])"
| "foreign rootdev path (FsDir a entries) =
     (if fa_dev a \<noteq> rootdev then [(path, FsDir a entries)] else foreigns rootdev path entries)"
| "foreigns rootdev path [] = []"
| "foreigns rootdev path ((n, c) # entries) = foreign rootdev (path @ [n]) c @ foreigns rootdev path entries"

lemma foreigns_append: "foreigns rootdev path (xs @ ys) = foreigns rootdev path xs @ foreigns rootdev path ys"
  by (induction xs) auto

lemma keep_entry_simps [simp]: "keep_entry n (Some c) = [(n, c)]" "keep_entry n None = []"
  by (simp_all add: keep_entry_def)

text \<open>A successful removal leaves what it should, and says whether that is anything.\<close>

lemma remove_all_left_over:
  "remove_all_on_mount_recurse env rootdev path c = (Inr skipped, c') \<Longrightarrow> fa_dev (node_attr c) = rootdev \<Longrightarrow>
     c' = left_over rootdev c \<and> (skipped \<longleftrightarrow> c' \<noteq> None)"
  "remove_entries env rootdev path skipped0 entries = (Inr skipped, entries') \<Longrightarrow>
     entries' = left_overs rootdev entries \<and> (skipped \<longleftrightarrow> skipped0 \<or> entries' \<noteq> [])"
proof (induction env rootdev path c and env rootdev path skipped0 entries arbitrary: skipped c' and skipped entries'
    rule: remove_all_on_mount_recurse_remove_entries.induct)
  case (2 env rootdev path a entries)
  obtain r es where r: "remove_entries env rootdev path False entries = (r, es)" by force
  have ok: "env (ReadDir path) = None" using 2(2) by (auto split: option.splits)
  with r 2(2) obtain sk where sk: "r = Inr sk" by (cases r) auto
  from 2(1) [OF ok] r sk have es: "es = left_overs rootdev entries" "sk \<longleftrightarrow> es \<noteq> []" by auto
  show ?case
  proof (cases sk)
    case True
    then show ?thesis using 2(2,3) ok r sk es by auto
  next
    case False
    then show ?thesis using 2(2,3) ok r sk es by (auto split: option.splits)
  qed
next
  case (4 env rootdev path skipped0 name c entries)
  have ok: "env (Metadata (path @ [name])) = None" using 4(5) by (auto split: option.splits)
  show ?case
  proof (cases "fa_dev (node_attr c) = rootdev")
    case False
    obtain r rest where r: "remove_entries env rootdev path True entries = (r, rest)" by force
    then have "r = Inr skipped" "entries' = (name, c) # rest" using 4(5) ok False by auto
    with 4(1) [OF ok False] r False show ?thesis by (cases c) auto
  next
    case own: True
    show ?thesis
    proof (cases c)
      case (FsFile a)
      then have rm: "env (RemoveFile (path @ [name])) = None"
          "remove_entries env rootdev path skipped0 entries = (Inr skipped, entries')"
        using 4(5) ok own by (auto split: option.splits)
      with 4(2) [OF ok _ FsFile rm(1)] own FsFile show ?thesis by simp
    next
      case (FsDir a es)
      obtain r c' where r: "remove_all_on_mount_recurse env rootdev (path @ [name]) c = (r, c')" by force
      then obtain s where s: "r = Inr s" using 4(5) ok own FsDir by (cases r) auto
      obtain r' rest where r': "remove_entries env rootdev path (skipped0 \<or> s) entries = (r', rest)" by force
      then have res: "r' = Inr skipped" "entries' = keep_entry name c' @ rest" using 4(5) ok own FsDir r s by auto
      have "c' = left_over rootdev c" "s \<longleftrightarrow> c' \<noteq> None"
        using 4(3) [OF ok _ FsDir] own r s by auto
      moreover have "rest = left_overs rootdev entries" "skipped \<longleftrightarrow> (skipped0 \<or> s) \<or> rest \<noteq> []"
        using 4(4) [OF ok _ FsDir r [symmetric] _ s] own r' res by auto
      ultimately show ?thesis using res by (cases c') auto
    qed
  qed
qed auto

text \<open>No run touches a foreign node, whether it succeeds or fails.\<close>

lemma remove_all_keeps_foreign:
  "remove_all_on_mount_recurse env rootdev path c = (r, c') \<Longrightarrow> fa_dev (node_attr c) = rootdev \<Longrightarrow>
     foreign rootdev p c = (case c' of Some c' \<Rightarrow> foreign rootdev p c' | None \<Rightarrow> [])"
  "remove_entries env rootdev path skipped0 entries = (r, entries') \<Longrightarrow>
     foreigns rootdev p entries = foreigns rootdev p entries'"
proof (induction env rootdev path c and env rootdev path skipped0 entries arbitrary: r c' p and r entries' p
    rule: remove_all_on_mount_recurse_remove_entries.induct)
  case (2 env rootdev path a entries)
  show ?case
  proof (cases "env (ReadDir path)")
    case None
    obtain r1 es where r1: "remove_entries env rootdev path False entries = (r1, es)" by force
    from 2(1) [OF None r1] have "foreigns rootdev p entries = foreigns rootdev p es" .
    then show ?thesis
      using 2(2,3) None r1 by (cases r1) (auto split: option.splits if_splits)
  qed (use 2(2,3) in auto)
next
  case (4 env rootdev path skipped0 name c entries)
  show ?case
  proof (cases "env (Metadata (path @ [name]))")
    case None
    show ?thesis
    proof (cases "fa_dev (node_attr c) = rootdev")
      case False
      obtain r1 rest where r1: "remove_entries env rootdev path True entries = (r1, rest)" by force
      with 4(1) [OF None False r1, of p] 4(5) None False show ?thesis by auto
    next
      case own: True
      show ?thesis
      proof (cases c)
        case (FsFile a)
        show ?thesis
        proof (cases "env (RemoveFile (path @ [name]))")
          case rm: None
          with 4(2) [OF None _ FsFile rm, of r entries' p] 4(5) None own FsFile show ?thesis by simp
        qed (use 4(5) None own FsFile in auto)
      next
        case (FsDir a es)
        obtain r1 c1 where r1: "remove_all_on_mount_recurse env rootdev (path @ [name]) c = (r1, c1)" by force
        have one: "foreign rootdev (p @ [name]) c = foreigns rootdev p (keep_entry name c1)"
          using 4(3) [OF None _ FsDir r1, of "p @ [name]"] own by (cases c1) auto
        show ?thesis
        proof (cases r1)
          case (Inl e)
          with one r1 4(5) None own FsDir show ?thesis by (auto simp: foreigns_append)
        next
          case (Inr s)
          obtain r' rest where r': "remove_entries env rootdev path (skipped0 \<or> s) entries = (r', rest)" by force
          have "foreigns rootdev p entries = foreigns rootdev p rest"
            using 4(4) [OF None _ FsDir r1 [symmetric] _ Inr r'] own by simp
          with one r1 r' Inr 4(5) None own FsDir show ?thesis by (auto simp: foreigns_append)
        qed
      qed
    qed
  qed (use 4(5) in auto)
qed auto

lemma remove_all_attr:
  "remove_all_on_mount_recurse env rootdev path c = (r, Some c') \<Longrightarrow> node_attr c' = node_attr c"
  by (cases c) (auto split: option.splits prod.splits sum.splits if_splits)

lemma remove_all_succeeds:
  "env = (\<lambda>_. None) \<Longrightarrow> c = FsDir a es \<Longrightarrow> is_ok (fst (remove_all_on_mount_recurse env rootdev path c))"
  "env = (\<lambda>_. None) \<Longrightarrow> is_ok (fst (remove_entries env rootdev path skipped0 entries))"
proof (induction env rootdev path c and env rootdev path skipped0 entries arbitrary: a es
    rule: remove_all_on_mount_recurse_remove_entries.induct)
  case (2 env rootdev path b entries)
  have "is_ok (fst (remove_entries env rootdev path False entries))" by (rule 2(1)) (use 2(2) in simp_all)
  then obtain sk es' where r: "remove_entries env rootdev path False entries = (Inr sk, es')"
    by (cases "remove_entries env rootdev path False entries") (auto simp: is_ok_iff)
  with remove_all_left_over(2) [OF r] 2(2) show ?case by auto
next
  case (4 env rootdev path skipped0 name c entries)
  have env: "env op = None" for op using 4(5) by simp
  show ?case
  proof (cases "fa_dev (node_attr c) = rootdev")
    case False
    with 4(1) [OF env False 4(5)] 4(5) show ?thesis by (auto split: prod.splits)
  next
    case own: True
    show ?thesis
    proof (cases c)
      case (FsFile b)
      with 4(2) [OF env _ FsFile env 4(5)] own 4(5) show ?thesis by simp
    next
      case (FsDir b bs)
      from 4(3) [OF env _ FsDir 4(5) FsDir] own
      obtain s c' where r: "remove_all_on_mount_recurse env rootdev (path @ [name]) c = (Inr s, c')"
        by (cases "remove_all_on_mount_recurse env rootdev (path @ [name]) c") (auto simp: is_ok_iff)
      from 4(4) [OF env _ FsDir r [symmetric] _ refl 4(5)] own r FsDir 4(5) show ?thesis
        by (auto split: prod.splits simp del: remove_all_on_mount_recurse.simps)
    qed
  qed
qed auto

text \<open>What must stay in a directory that is cleaned: the direct children reported as mount points, and what is on other
  devices, at any depth.\<close>

definition is_mount :: "fs_node \<Rightarrow> bool" where
  "is_mount c \<longleftrightarrow> is_mountpoint (fa_statx (node_attr c)) = Inr (Some True)"

definition protected_nodes :: "u64 \<Rightarrow> rstr list \<Rightarrow> rstr \<times> fs_node \<Rightarrow> (rstr list \<times> fs_node) list" where
  "protected_nodes rootdev path = (\<lambda>(n, c). if is_mount c then [(path @ [n], c)] else foreign rootdev (path @ [n]) c)"

text \<open>What a clean directory looks like.\<close>

definition cleaned :: "u64 \<Rightarrow> (rstr \<times> fs_node) list \<Rightarrow> (rstr \<times> fs_node) list" where
  "cleaned rootdev entries =
     concat (map (\<lambda>(n, c). keep_entry n (if is_mount c then Some c else left_over rootdev c)) entries)"

lemma foreign_other: "fa_dev (node_attr c) \<noteq> rootdev \<Longrightarrow> foreign rootdev p c = [(p, c)] \<and> left_over rootdev c = Some c"
  by (cases c) auto

lemma clean_entry_protects:
  assumes "clean_entry env rootdev path name c = (r, c')"
  shows "concat (map (protected_nodes rootdev p) (keep_entry name c')) = protected_nodes rootdev p (name, c)"
proof (cases "env (Metadata (path @ [name])) = None \<and> fa_dev (node_attr c) = rootdev \<and>
    (\<exists>m. is_mountpoint (fa_statx (node_attr c)) = Inr m \<and> m \<noteq> Some True)")
  case True
  then have nm: "\<not> is_mount c" by (auto simp: is_mount_def)
  show ?thesis
  proof (cases c)
    case (FsFile a)
    with True assms show ?thesis
      by (auto simp: clean_entry_def protected_nodes_def is_mount_def split: option.splits)
  next
    case (FsDir a es)
    then obtain r1 where r1: "remove_all_on_mount_recurse env rootdev (path @ [name]) c = (r1, c')"
      using True assms by (auto simp: clean_entry_def split: prod.splits)
    from remove_all_keeps_foreign(1) [OF this, of "p @ [name]"] True nm remove_all_attr [of env rootdev "path @ [name]" c r1]
    show ?thesis using r1 by (cases c') (auto simp: protected_nodes_def is_mount_def)
  qed
next
  case False
  then have "c' = Some c"
    using assms by (auto simp: clean_entry_def split: option.splits sum.splits if_splits)
  then show ?thesis by simp
qed

lemma clean_entry_cleans:
  assumes "clean_entry env rootdev path name c = (Inr (), c')"
  shows "c' = (if is_mount c then Some c else left_over rootdev c)"
proof (cases "fa_dev (node_attr c) = rootdev \<and> \<not> is_mount c")
  case True
  show ?thesis
  proof (cases c)
    case (FsFile a)
    with True assms show ?thesis by (auto simp: clean_entry_def is_mount_def split: option.splits sum.splits if_splits)
  next
    case (FsDir a es)
    then obtain s where "remove_all_on_mount_recurse env rootdev (path @ [name]) c = (Inr s, c')"
      using True assms
      by (auto simp: clean_entry_def is_mount_def result_simps split: option.splits sum.splits if_splits prod.splits)
    with remove_all_left_over(1) [OF this] True show ?thesis by simp
  qed
next
  case False
  with assms foreign_other [of c rootdev] show ?thesis
    by (auto simp: clean_entry_def is_mount_def split: option.splits sum.splits if_splits)
qed

lemma clean_entry_succeeds:
  assumes "env = (\<lambda>_. None)" "is_ok (is_mountpoint (fa_statx (node_attr c)))"
  shows "is_ok (fst (clean_entry env rootdev path name c))"
proof (cases c)
  case (FsDir a es)
  obtain s c' where "remove_all_on_mount_recurse env rootdev (path @ [name]) c = (Inr s, c')"
    using remove_all_succeeds(1) [OF assms(1) FsDir, of rootdev "path @ [name]"]
    by (cases "remove_all_on_mount_recurse env rootdev (path @ [name]) c") (auto simp: is_ok_iff)
  with FsDir assms show ?thesis by (auto simp: clean_entry_def is_ok_iff simp del: remove_all_on_mount_recurse.simps)
qed (use assms in \<open>auto simp: clean_entry_def is_ok_iff\<close>)

lemma clean_entries_run:
  assumes "clean_entries env rootdev path entries = (r, entries')"
  shows "concat (map (protected_nodes rootdev p) entries') = concat (map (protected_nodes rootdev p) entries) \<and>
    (r = Inr () \<longrightarrow> entries' = cleaned rootdev entries) \<and>
    (env = (\<lambda>_. None) \<and> (\<forall>(n, c) \<in> set entries. is_ok (is_mountpoint (fa_statx (node_attr c)))) \<longrightarrow> r = Inr ())"
  using assms
proof (induction entries arbitrary: r entries')
  case (Cons e entries)
  obtain name c where e: "e = (name, c)" by force
  obtain r1 c' where one: "clean_entry env rootdev path name c = (r1, c')" by force
  note p1 = clean_entry_protects [OF one, of p]
  show ?case
  proof (cases r1)
    case (Inl f)
    with one Cons.prems e have "r = Inl f" "entries' = keep_entry name c' @ entries" by auto
    with p1 clean_entry_succeeds [of env c rootdev path name] one Inl e show ?thesis by auto
  next
    case (Inr u)
    obtain r2 rest where rest: "clean_entries env rootdev path entries = (r2, rest)" by force
    with one Cons.prems Inr e have "r = r2" "entries' = keep_entry name c' @ rest" by auto
    with p1 Cons.IH [OF rest] clean_entry_cleans [of env rootdev path name c c'] one Inr e
    show ?thesis by (simp add: cleaned_def)
  qed
qed (auto simp: cleaned_def)

section \<open>Properties\<close>

text \<open>C9: cleaning a directory never touches two kinds of things, not even when it fails half way: a direct child of
  the directory that the kernel reports as a mount point, whatever its device, and anything on another device than the directory, at any
  depth.  When it succeeds, exactly these and the directories above them are left, and it does succeed when no system
  call fails, \<^verbatim>\<open>statx\<close> on the direct children included (a kernel without it counts as no answer, not as a failure).  A bind mount of the same device
  further below is not recognised as one: it is treated like a plain directory, so its content is removed and then the
  removal of the directory, which is busy, is the system call that fails (\<open>nested_bind_mount_emptied\<close>).\<close>

theorem clean_subdir_exact:
  "case clean_subdir env rootdev path entries of (r, entries') \<Rightarrow>
     concat (map (protected_nodes rootdev path) entries') = concat (map (protected_nodes rootdev path) entries) \<and>
     (r = Inr () \<longrightarrow> entries' = cleaned rootdev entries) \<and>
     (env = (\<lambda>_. None) \<and> (\<forall>(n, c) \<in> set entries. is_ok (is_mountpoint (fa_statx (node_attr c)))) \<longrightarrow> r = Inr ())"
proof (cases "env (ReadDir path)")
  case None
  obtain r entries' where run: "clean_entries env rootdev path entries = (r, entries')" by force
  with clean_entries_run [OF run, of path] None show ?thesis by (simp add: clean_subdir_def)
qed (auto simp: clean_subdir_def)

text \<open>A directory on the own device that holds a file, a mount of another device, and a bind mount of the own
  device with a file in it.\<close>

definition own_attr :: fs_attr where
  "own_attr = \<lparr>fa_dev = 1, fa_statx = Inr \<lparr>stx_attributes = 0, stx_attributes_mask = 0x2000\<rparr>\<rparr>"

definition bind_attr :: fs_attr where
  "bind_attr = \<lparr>fa_dev = 1, fa_statx = Inr \<lparr>stx_attributes = 0x2000, stx_attributes_mask = 0x2000\<rparr>\<rparr>"

definition other_attr :: fs_attr where
  "other_attr = \<lparr>fa_dev = 2, fa_statx = Inr \<lparr>stx_attributes = 0x2000, stx_attributes_mask = 0x2000\<rparr>\<rparr>"

definition sample_dir :: "(rstr \<times> fs_node) list" where
  "sample_dir = [(str ''f'', FsFile own_attr),
     (str ''d'', FsDir own_attr [(str ''g'', FsFile own_attr), (str ''m'', FsDir other_attr [(str ''h'', FsFile other_attr)])]),
     (str ''b'', FsDir bind_attr [(str ''i'', FsFile own_attr)])]"

theorem clean_subdir_exact_witness:
  "clean_subdir (\<lambda>_. None) 1 [str ''run''] sample_dir = (Inr (), cleaned 1 sample_dir) \<and>
   cleaned 1 sample_dir = [(str ''d'', FsDir own_attr [(str ''m'', FsDir other_attr [(str ''h'', FsFile other_attr)])]),
     (str ''b'', FsDir bind_attr [(str ''i'', FsFile own_attr)])]"
proof -
  obtain r entries' where run: "clean_subdir (\<lambda>_. None) 1 [str ''run''] sample_dir = (r, entries')" by force
  have ok: "\<forall>(n, c) \<in> set sample_dir. is_ok (is_mountpoint (fa_statx (node_attr c)))" by code_simp
  from clean_subdir_exact [where env = "\<lambda>_. None" and rootdev = 1 and path = "[str ''run'']" and entries = sample_dir] ok run
  have "r = Inr ()" "entries' = cleaned 1 sample_dir" by auto
  moreover have "cleaned 1 sample_dir = [(str ''d'', FsDir own_attr [(str ''m'', FsDir other_attr [(str ''h'', FsFile other_attr)])]),
     (str ''b'', FsDir bind_attr [(str ''i'', FsFile own_attr)])]" by code_simp
  ultimately show ?thesis using run by simp
qed

text \<open>Below the first level only devices are compared: a bind mount of the own device is emptied, and the run
  then fails on the mount point itself.\<close>

lemma nested_bind_mount_emptied:
  "clean_subdir (\<lambda>op. if op = RemoveDir [str ''run'', str ''d'', str ''b''] then Some (Err ''Device or resource busy'') else None)
     1 [str ''run''] [(str ''d'', FsDir own_attr [(str ''b'', FsDir bind_attr [(str ''i'', FsFile own_attr)])])] =
   (Inl (Err ''Device or resource busy''), [(str ''d'', FsDir own_attr [(str ''b'', FsDir bind_attr [])])])"
  by code_simp

text \<open>The nonstrict variant does what the strict one does, errors included.\<close>

lemma nonstrict_is_strict:
  "prepare_ostree_commit_in_nonstrict (\<lambda>op. if op = ReadDir [str ''run''] then Some (Err ''EACCES'') else None)
     (\<lambda>_ p. Inr (Some [p])) (FsDir own_attr [(str ''run'', FsDir own_attr [])]) =
   (Inl (Err ''EACCES''), FsDir own_attr [(str ''run'', FsDir own_attr [])])"
  by code_simp

end
