(* ===== verification/UpdateDetached.thy ===== *)
theory UpdateDetached
  imports Encapsulate HostConfig
begin

text \<open>
  Replacing the detached metadata of a container image (\<^verbatim>\<open>lib/src/container/update_detachedmeta.rs\<close>): the image is
  copied to a temporary OCI directory, its commit layer is rewritten, and the image is copied on.  The copies
  by skopeo and the OCI directory are arguments; the state is that of the temporary directory.
\<close>

section \<open>Definitions\<close>

text \<open>The entries of the index of an OCI directory carry an optional platform.  A layer that is read is the
  decompressed tar stream of its blob.\<close>

record ('o, 'p) update_env =
  ue_copy :: "image_reference \<Rightarrow> image_reference \<Rightarrow> ('o, digest) action"
  ue_open :: "'o \<Rightarrow> unit result"
  ue_read_index :: "'o \<Rightarrow> (descriptor \<times> 'p option) list option result"
  ue_read_manifest :: "'o \<Rightarrow> descriptor \<Rightarrow> image_manifest result"
  ue_read_config :: "'o \<Rightarrow> descriptor \<Rightarrow> image_configuration result"
  ue_read_layer :: "'o \<Rightarrow> descriptor \<Rightarrow> tar_entry list result"
  ue_create_gzip_layer :: "tar_entry list \<Rightarrow> 'o \<Rightarrow> (oci_layer \<times> 'o) result"
  ue_write_config :: "image_configuration \<Rightarrow> 'o \<Rightarrow> (descriptor \<times> 'o) result"
  ue_replace_with_single_manifest :: "image_manifest \<Rightarrow> 'p \<Rightarrow> 'o \<Rightarrow> 'o result"
  ue_default_platform :: 'p

definition layer_descriptor :: "oci_layer \<Rightarrow> descriptor" where
  "layer_descriptor l = \<lparr>d_media_type = ImageLayerGzip,
     d_digest = \<lparr>dg_algorithm = str ''sha256'', dg_hex = ol_blob_sha256 l\<rparr>, d_size = ol_blob_size l, d_annotations = None, d_other = []\<rparr>"

text \<open>The new commit layer is put in the place of the old one, in the manifest and in the configuration.\<close>

definition splice_layer ::
  "nat \<Rightarrow> oci_layer \<Rightarrow> image_manifest \<Rightarrow> image_configuration \<Rightarrow> container_config \<Rightarrow>
   (image_manifest \<times> image_configuration) result" where
  "splice_layer commit_layer_idx out_layer manifest config ctrcfg =
     (let out_layer_diffid = str ''sha256:'' @ ol_uncompressed_sha256 out_layer;
          manifest = manifest\<lparr>m_layers := (m_layers manifest)[commit_layer_idx := layer_descriptor out_layer]\<rparr>
      in and_then (ensure (commit_layer_idx < length (c_diff_ids config)) (Panic ''index out of bounds'')) (\<lambda>_.
         let config = config\<lparr>c_diff_ids := (c_diff_ids config)[commit_layer_idx := out_layer_diffid]\<rparr>;
             labels = (case cc_labels ctrcfg of Some l \<Rightarrow> l | None \<Rightarrow> []);
             labels = (if length (m_layers manifest) = 1 then kv_insert DIFFID_LABEL out_layer_diffid labels else labels)
         in Inr (manifest, config\<lparr>c_config := Some (ctrcfg\<lparr>cc_labels := Some labels\<rparr>)\<rparr>)))"

text \<open>The thread that rewrites the image in the temporary directory.\<close>

definition regenerate ::
  "('o, 'p) update_env \<Rightarrow> digest \<Rightarrow> bytes option \<Rightarrow> ('o, image_manifest \<times> image_configuration) action" where
  "regenerate env pulled_digest detached_buf =
     act_bind (act_query (ue_open env)) (\<lambda>_.
     act_bind (act_query (ue_read_index env)) (\<lambda>idx.
     act_bind (act_result (ok_or (Err ''Reading image index from source'') idx)) (\<lambda>idx.
     act_bind (act_result (case idx of [] \<Rightarrow> Inl (Err ''No manifests in index'') | m # _ \<Rightarrow> Inr m)) (\<lambda>(manifest_descriptor, platform).
     act_bind (act_query (\<lambda>o'. ue_read_manifest env o' manifest_descriptor)) (\<lambda>manifest.
     act_bind (act_result (ensure (d_digest manifest_descriptor = pulled_digest) (Err ''Condition failed''))) (\<lambda>_.
     let platform = (case platform of Some p \<Rightarrow> p | None \<Rightarrow> ue_default_platform env)
     in act_bind (act_query (\<lambda>o'. ue_read_config env o' (m_config manifest))) (\<lambda>config.
        act_bind (act_result (ok_or (Err ''Image is missing container configuration'') (c_config config))) (\<lambda>ctrcfg.
        act_bind (act_result (parse_manifest_layout manifest config)) (\<lambda>(commit_layer, _, _).
        act_bind (act_result (ok_or (Panic ''unwrap on None'') (index_of commit_layer (m_layers manifest)))) (\<lambda>commit_layer_idx.
        act_bind (act_query (\<lambda>o'. ue_read_layer env o' commit_layer)) (\<lambda>src_layer.
        act_bind (act_result (reinject_detached_metadata src_layer detached_buf)) (\<lambda>entries.
        act_bind (act_lift (ue_create_gzip_layer env entries)) (\<lambda>out_layer.
        act_bind (act_result (splice_layer commit_layer_idx out_layer manifest config ctrcfg)) (\<lambda>(manifest, config).
        act_bind (act_lift (ue_write_config env config)) (\<lambda>new_config_descriptor.
        let manifest = manifest\<lparr>m_config := new_config_descriptor\<rparr>
        in act_bind (act_update (ue_replace_with_single_manifest env manifest platform)) (\<lambda>_.
           act_ret (manifest, config)))))))))))))))))"

definition update_detached_metadata ::
  "('o, 'p) update_env \<Rightarrow> rstr \<Rightarrow> image_reference \<Rightarrow> image_reference \<Rightarrow> bytes option \<Rightarrow> ('o, digest) action" where
  "update_detached_metadata env tempsrc src dest detached_buf =
     (let tempsrc_ref = \<lparr>ir_transport = OciDir, ir_name = tempsrc\<rparr>
      in act_bind (ue_copy env src tempsrc_ref) (\<lambda>pulled_digest.
         act_bind (regenerate env pulled_digest detached_buf) (\<lambda>_.
         ue_copy env tempsrc_ref dest)))"

section \<open>Lemmas\<close>

lemma parse_layout_hd:
  assumes "parse_manifest_layout m c = Inr (l, comps, derived)"
  shows "\<exists>ls. m_layers m = l # ls" "index_of l (m_layers m) = Some 0"
proof -
  obtain pre target where "l = hd (m_layers m)" "m_layers m = pre @ target # derived"
    using parse_layout_backward [OF assms] by blast
  then show ls: "\<exists>ls. m_layers m = l # ls" by (cases pre) auto
  then show "index_of l (m_layers m) = Some 0" by auto
qed

lemma index_of_mem: "index_of x xs = Some i \<Longrightarrow> x \<in> set xs"
  by (induction xs arbitrary: i) (auto split: if_splits)

lemma index_of_update:
  assumes "index_of x xs = Some i" "0 < i" "y \<noteq> x"
  shows "index_of x (xs[0 := y]) = Some i"
  using assms by (cases xs) (auto split: if_splits)

text \<open>The layout of the image whose first layer is replaced.\<close>

lemma splice_layout:
  assumes layout: "parse_manifest_layout m c = Inr (l, comps, derived)"
    and distinct: "distinct (m_layers m)"
    and fresh: "layer_descriptor out \<notin> set (m_layers m)" "diff_id out \<notin> set (c_diff_ids c)"
    and chunked: "comps \<noteq> [] \<or> derived = []"
    and splice: "c_config c = Some ctrcfg" "splice_layer 0 out m c ctrcfg = Inr (m', c')"
    and labels: "labels_of c = Some labels"
  shows "m' = m\<lparr>m_layers := layer_descriptor out # tl (m_layers m)\<rparr>" "m_layers m \<noteq> []"
    and "c' = c\<lparr>c_diff_ids := diff_id out # tl (c_diff_ids c), c_config := Some (ctrcfg\<lparr>cc_labels := Some
      (if length (m_layers m) = 1 then kv_insert DIFFID_LABEL (diff_id out) labels else labels)\<rparr>)\<rparr>"
    and "parse_manifest_layout m' c' = Inr (layer_descriptor out, comps, derived)"
proof -
  from parse_layout_backward [OF layout] obtain diffid idx pre target where
      p: "labels_of c = Some labels" "kv_lookup labels DIFFID_LABEL = Some diffid"
      "index_of diffid (c_diff_ids c) = Some idx" "idx < length (m_layers m)" "target = m_layers m ! idx"
      "l = hd (m_layers m)" "m_layers m = pre @ target # derived" "target \<notin> set pre" "target \<notin> set derived"
      "comps = filter (\<lambda>x. x \<noteq> l) (pre @ [target])"
    using labels by force
  have ids: "c_diff_ids c \<noteq> []" using p(3) by auto
  have m': "m' = m\<lparr>m_layers := (m_layers m)[0 := layer_descriptor out]\<rparr>"
    and c': "c' = c\<lparr>c_diff_ids := (c_diff_ids c)[0 := diff_id out], c_config := Some (ctrcfg\<lparr>cc_labels := Some
      (if length (m_layers m) = 1 then kv_insert DIFFID_LABEL (diff_id out) labels else labels)\<rparr>)\<rparr>"
    using splice p(1) ids
    by (auto simp: splice_layer_def Let_def result_simps diff_id_def labels_of_def split: option.splits)
  show ne: "m_layers m \<noteq> []" using p(7) by simp
  then show "m' = m\<lparr>m_layers := layer_descriptor out # tl (m_layers m)\<rparr>" by (cases "m_layers m") (simp_all add: m')
  then have layers: "m_layers m' = layer_descriptor out # tl (m_layers m)" by simp
  show "c' = c\<lparr>c_diff_ids := diff_id out # tl (c_diff_ids c), c_config := Some (ctrcfg\<lparr>cc_labels := Some
      (if length (m_layers m) = 1 then kv_insert DIFFID_LABEL (diff_id out) labels else labels)\<rparr>)\<rparr>"
    using ids by (cases "c_diff_ids c") (simp_all add: c')
  then have ids': "c_diff_ids c' = diff_id out # tl (c_diff_ids c)" by simp
  have "m_layers m ! idx = m_layers m ! length pre" using p(5,7) by simp
  then have idx: "idx = length pre"
    using nth_eq_iff_index_eq [OF distinct p(4), of "length pre"] p(7) by simp
  show "parse_manifest_layout m' c' = Inr (layer_descriptor out, comps, derived)"
  proof (cases pre)
    case Nil
    then have one: "derived = []" "comps = []" using chunked p(6,7,10) by auto
    have "parse_manifest_layout m' c' = Inr (layer_descriptor out, filter (\<lambda>x. x \<noteq> layer_descriptor out) ([] @ [layer_descriptor out]), [])"
      by (rule parse_layout_forward [where idx = 0])
         (use layers ids' p(7) Nil one in \<open>auto simp: c' labels_of_def kv_lookup_insert\<close>)
    with one show ?thesis by simp
  next
    case (Cons l0 pre')
    have l0: "l0 = l" using p(6,7) Cons by simp
    have new: "m_layers m' = (layer_descriptor out # pre') @ target # derived" using layers p(7) Cons by simp
    have ix: "index_of diffid (c_diff_ids c') = Some idx"
      using index_of_update [OF p(3), of "diff_id out"] idx Cons ids' ids fresh(2) index_of_mem [OF p(3)]
      by (cases "c_diff_ids c") auto
    have lb: "labels_of c' = Some labels" using p(7) Cons by (simp add: c' labels_of_def)
    have at: "idx < length (m_layers m')" "target = m_layers m' ! idx" "layer_descriptor out = hd (m_layers m')"
      by (simp_all add: new idx Cons nth_append)
    have other: "target \<notin> set (layer_descriptor out # pre')" using Cons fresh(1) p(7,8) by auto
    note parse_layout_forward [OF lb p(2) ix at new other p(9)]
    moreover have "filter (\<lambda>x. x \<noteq> layer_descriptor out) (pre' @ [target]) = pre' @ [target]"
      using fresh(1) p(7) Cons by (intro filter_True) auto
    moreover have "comps = pre' @ [target]"
      using p(7,10) Cons l0 distinct by (auto intro!: filter_True)
    ultimately show ?thesis by simp
  qed
qed

lemma regenerate_run:
  assumes "regenerate env pulled buf o0 = (Inr (m', c'), o1)"
  obtains d platform idx m c ctrcfg l comps derived src entries out o2 m1 conf o3
  where "ue_read_index env o0 = Inr (Some ((d, platform) # idx))" "d_digest d = pulled"
    and "ue_read_manifest env o0 d = Inr m" "ue_read_config env o0 (m_config m) = Inr c" "c_config c = Some ctrcfg"
    and "parse_manifest_layout m c = Inr (l, comps, derived)" "ue_read_layer env o0 l = Inr src"
    and "reinject_detached_metadata src buf = Inr entries" "ue_create_gzip_layer env entries o0 = Inr (out, o2)"
    and "splice_layer 0 out m c ctrcfg = Inr (m1, c')" "ue_write_config env c' o2 = Inr (conf, o3)" "m' = m1\<lparr>m_config := conf\<rparr>"
    and "ue_replace_with_single_manifest env m' (case platform of Some p \<Rightarrow> p | None \<Rightarrow> ue_default_platform env) o3 = Inr o1"
proof -
  obtain x where x: "ue_read_index env o0 = Inr x" using assms by (auto simp: regenerate_def act_simps)
  have "x \<noteq> None" "x \<noteq> Some []" using assms x by (auto simp: regenerate_def act_bind_query act_bind_result_app ok_or_iff split: sum.splits)
  then obtain d platform idx where d: "x = Some ((d, platform) # idx)" by (metis list.exhaust not_None_eq surj_pair)
  from assms x d obtain m c ctrcfg l comps derived ix src entries out o2 m1 conf o3 where
      r: "d_digest d = pulled" "ue_read_manifest env o0 d = Inr m" "ue_read_config env o0 (m_config m) = Inr c"
      "c_config c = Some ctrcfg" "parse_manifest_layout m c = Inr (l, comps, derived)" "ue_read_layer env o0 l = Inr src"
      "reinject_detached_metadata src buf = Inr entries" "ue_create_gzip_layer env entries o0 = Inr (out, o2)"
      and ix: "index_of l (m_layers m) = Some ix" and s: "splice_layer ix out m c ctrcfg = Inr (m1, c')" "ue_write_config env c' o2 = Inr (conf, o3)" "m' = m1\<lparr>m_config := conf\<rparr>"
      "ue_replace_with_single_manifest env m' (case platform of Some p \<Rightarrow> p | None \<Rightarrow> ue_default_platform env) o3 = Inr o1"
    by (auto simp: regenerate_def act_simps Let_def ok_or_iff ensure_iff)
  from ix parse_layout_hd(2) [OF r(5)] have "ix = 0" by simp
  with that [OF x [unfolded d] r] s show thesis by simp
qed

section \<open>Properties\<close>

text \<open>C13: rewriting the detached metadata keeps the image.  For an image whose layers differ from each other, of which the
  commit layer is not the only ostree layer followed by derived layers, and a new layer and diff id that do not occur
  in it: when it succeeds, the new manifest is the old one except for the first layer, which is that of the stream in
  which the metadata was replaced, and for the descriptor of the configuration; the new configuration is the old one
  except for the first diff id, and for the label of the last diff id when there is one layer only; history,
  annotations, the other labels, layers and diff ids stay.  The result, which is what the directory then holds, has the
  same component and derived layers as before.\<close>

theorem regenerate_keeps_layout:
  assumes "regenerate env pulled buf o0 = (Inr (m', c'), o1)"
    and "ue_read_index env o0 = Inr (Some ((d, platform) # idx))" "ue_read_manifest env o0 d = Inr m"
    and "ue_read_config env o0 (m_config m) = Inr c" "parse_manifest_layout m c = Inr (l, comps, derived)"
    and "distinct (m_layers m)" "comps \<noteq> [] \<or> derived = []"
    and "\<forall>entries out o2. ue_create_gzip_layer env entries o0 = Inr (out, o2) \<longrightarrow>
      layer_descriptor out \<notin> set (m_layers m) \<and> diff_id out \<notin> set (c_diff_ids c)"
  shows "\<exists>src entries out conf ctrcfg labels o2 o3. ue_read_layer env o0 l = Inr src \<and>
    reinject_detached_metadata src buf = Inr entries \<and> ue_create_gzip_layer env entries o0 = Inr (out, o2) \<and>
    d_digest d = pulled \<and> c_config c = Some ctrcfg \<and> cc_labels ctrcfg = Some labels \<and>
    m' = m\<lparr>m_layers := layer_descriptor out # tl (m_layers m), m_config := conf\<rparr> \<and>
    c' = c\<lparr>c_diff_ids := diff_id out # tl (c_diff_ids c), c_config := Some (ctrcfg\<lparr>cc_labels := Some
      (if length (m_layers m) = 1 then kv_insert DIFFID_LABEL (diff_id out) labels else labels)\<rparr>)\<rparr> \<and>
    ue_write_config env c' o2 = Inr (conf, o3) \<and>
    ue_replace_with_single_manifest env m' (case platform of Some p \<Rightarrow> p | None \<Rightarrow> ue_default_platform env) o3 = Inr o1 \<and>
    parse_manifest_layout m' c' = Inr (layer_descriptor out, comps, derived)"
proof -
  obtain ctrcfg src entries out o2 m1 conf o3 where r: "d_digest d = pulled" "c_config c = Some ctrcfg"
      "ue_read_layer env o0 l = Inr src" "reinject_detached_metadata src buf = Inr entries"
      "ue_create_gzip_layer env entries o0 = Inr (out, o2)" "splice_layer 0 out m c ctrcfg = Inr (m1, c')"
      "ue_write_config env c' o2 = Inr (conf, o3)" "m' = m1\<lparr>m_config := conf\<rparr>"
      "ue_replace_with_single_manifest env m' (case platform of Some p \<Rightarrow> p | None \<Rightarrow> ue_default_platform env) o3 = Inr o1"
    by (rule regenerate_run [OF assms(1)]) (use assms(2-5) in auto)
  obtain labels where labels: "labels_of c = Some labels" using parse_layout_backward [OF assms(5)] by blast
  then have cl: "cc_labels ctrcfg = Some labels" using r(2) by (simp add: labels_of_def)
  have "layer_descriptor out \<notin> set (m_layers m)" "diff_id out \<notin> set (c_diff_ids c)"
    using assms(8) r(5) by blast+
  note s = splice_layout [OF assms(5,6) this assms(7) r(2,6) labels]
  have m': "m' = m\<lparr>m_layers := layer_descriptor out # tl (m_layers m), m_config := conf\<rparr>"
    unfolding r(8) s(1) by (cases m) simp
  have layers: "m_layers m' = m_layers m1" unfolding r(8) by simp
  have "parse_manifest_layout m' c' = parse_manifest_layout m1 c'"
    unfolding parse_manifest_layout_def layer_from_diffid_def layers by (rule refl)
  then have "parse_manifest_layout m' c' = Inr (layer_descriptor out, comps, derived)" using s(4) by simp
  with r cl m' s(3) show ?thesis by blast
qed

text \<open>An OCI directory with an image of two layers; the label names the diff id of one of them.\<close>

definition two_layer_manifest :: image_manifest where
  "two_layer_manifest = stored_manifest\<lparr>m_layers := [stored_layer ''a'', stored_layer ''b'']\<rparr>"

definition two_layer_config :: "string \<Rightarrow> image_configuration" where
  "two_layer_config label = stored_config\<lparr>c_diff_ids := [str ''d0'', str ''d1''],
     c_config := Some (default_container_config\<lparr>cc_labels := Some [(DIFFID_LABEL, str label)]\<rparr>)\<rparr>"

definition sample_update_env :: "string \<Rightarrow> (nat, unit) update_env" where
  "sample_update_env label = \<lparr>ue_copy = (\<lambda>_ _ w. (Inr (d_digest (stored_layer ''m'')), w)), ue_open = (\<lambda>_. Inr ()),
     ue_read_index = (\<lambda>_. Inr (Some [(stored_layer ''m'', None)])), ue_read_manifest = (\<lambda>_ _. Inr two_layer_manifest),
     ue_read_config = (\<lambda>_ _. Inr (two_layer_config label)), ue_read_layer = (\<lambda>_ _. Inr sample_commit_stream),
     ue_create_gzip_layer = (\<lambda>_ w. Inr (\<lparr>ol_blob_sha256 = str ''n'', ol_blob_size = 1, ol_uncompressed_sha256 = str ''n''\<rparr>, w)),
     ue_write_config = (\<lambda>_ w. Inr (stored_layer ''c'', w)), ue_replace_with_single_manifest = (\<lambda>_ _ w. Inr w),
     ue_default_platform = ()\<rparr>"

definition updated_config :: "string \<Rightarrow> image_configuration" where
  "updated_config label = (two_layer_config label)\<lparr>c_diff_ids := [str ''sha256:n'', str ''d1'']\<rparr>"

definition updated_manifest :: image_manifest where
  "updated_manifest = two_layer_manifest\<lparr>m_layers := [layer_descriptor
     \<lparr>ol_blob_sha256 = str ''n'', ol_blob_size = 1, ol_uncompressed_sha256 = str ''n''\<rparr>, stored_layer ''b'']\<rparr>"

lemma sample_regenerate:
  "regenerate (sample_update_env ''d1'') (d_digest (stored_layer ''m'')) (Some [9]) 0 = (Inr (updated_manifest, updated_config ''d1''), 0)"
  "regenerate (sample_update_env ''d0'') (d_digest (stored_layer ''m'')) (Some [9]) 0 = (Inr (updated_manifest, updated_config ''d0''), 0)"
  by code_simp+

theorem regenerate_keeps_layout_witness:
  "regenerate (sample_update_env ''d1'') (d_digest (stored_layer ''m'')) (Some [9]) 0 = (Inr (updated_manifest, updated_config ''d1''), 0) \<and>
   (\<exists>new. parse_manifest_layout updated_manifest (updated_config ''d1'') = Inr (new, [stored_layer ''b''], []))"
proof -
  have env: "ue_read_index (sample_update_env ''d1'') 0 = Inr (Some ((stored_layer ''m'', None) # []))"
      "ue_read_manifest (sample_update_env ''d1'') 0 (stored_layer ''m'') = Inr two_layer_manifest"
      "ue_read_config (sample_update_env ''d1'') 0 (m_config two_layer_manifest) = Inr (two_layer_config ''d1'')"
    by (simp_all add: sample_update_env_def)
  have layout: "parse_manifest_layout two_layer_manifest (two_layer_config ''d1'') = Inr (stored_layer ''a'', [stored_layer ''b''], [])"
      "distinct (m_layers two_layer_manifest)"
    by code_simp+
  have fresh: "layer_descriptor \<lparr>ol_blob_sha256 = str ''n'', ol_blob_size = 1, ol_uncompressed_sha256 = str ''n''\<rparr> \<notin> set (m_layers two_layer_manifest)"
      "diff_id \<lparr>ol_blob_sha256 = str ''n'', ol_blob_size = 1, ol_uncompressed_sha256 = str ''n''\<rparr> \<notin> set (c_diff_ids (two_layer_config ''d1''))"
    by code_simp+
  have create: "\<forall>entries out o2. ue_create_gzip_layer (sample_update_env ''d1'') entries 0 = Inr (out, o2) \<longrightarrow>
      layer_descriptor out \<notin> set (m_layers two_layer_manifest) \<and> diff_id out \<notin> set (c_diff_ids (two_layer_config ''d1''))"
    using fresh by (auto simp: sample_update_env_def)
  from regenerate_keeps_layout [OF sample_regenerate(1) env layout _ create] sample_regenerate(1) show ?thesis by auto
qed

text \<open>An image with one ostree layer and a derived layer: the label still names the diff id of the old commit
  layer, and the layout of the updated image cannot be read any more.\<close>

lemma update_breaks_derived_image:
  "is_ok (parse_manifest_layout two_layer_manifest (two_layer_config ''d0'')) \<and>
   fst (regenerate (sample_update_env ''d0'') (d_digest (stored_layer ''m'')) (Some [9]) 0) = Inr (updated_manifest, updated_config ''d0'') \<and>
   parse_manifest_layout updated_manifest (updated_config ''d0'') = Inl (Err ''Missing diffid'')"
  unfolding sample_regenerate(2) fst_conv by code_simp

end
