(* ===== verification/Ima.thy ===== *)
theory Ima
  imports HostConfig Repo TarWrite
begin

text \<open>
  Writing IMA signatures into a commit (\<^verbatim>\<open>lib/src/ima.rs\<close>): every regular file of the commit's tree is stored
  again with a signature among its extended attributes, and the directories and the commit are rewritten on top.
  The repository's objects and the program that signs are arguments.
\<close>

section \<open>Definitions\<close>

definition IMA_XATTR :: bytes where "IMA_XATTR = str ''security.ima''"

record ima_opts =
  io_algorithm :: rstr
  io_key :: rstr
  io_overwrite :: bool

type_synonym xattrs = "(bytes \<times> bytes) list"

definition xattrs_to_map :: "xattrs \<Rightarrow> (bytes, bytes) kvmap" where
  "xattrs_to_map v = fold (\<lambda>(k, v) map. kv_insert k v map) v []"

definition new_variant_a_ayay :: "(bytes, bytes) kvmap \<Rightarrow> xattrs" where
  "new_variant_a_ayay items = map (\<lambda>(a, b). (a, b)) items"

text \<open>The objects of the repository: a file is its content, none for a symbolic link, its attributes and its
  extended attributes.  \<open>iv_run\<close> runs a program in a directory on a copy of a file: whether it succeeded, and the extended
  attributes the copy then has.\<close>

record 's ima_env =
  iv_require_rev :: "'s \<Rightarrow> rstr \<Rightarrow> rstr result"
  iv_load_commit :: "'s \<Rightarrow> rstr \<Rightarrow> commit_object result"
  iv_load_dirtree :: "'s \<Rightarrow> rstr \<Rightarrow> dirtree result"
  iv_load_file :: "'s \<Rightarrow> rstr \<Rightarrow> (bytes option \<times> file_info \<times> xattrs) result"
  iv_write_content :: "bytes \<Rightarrow> file_info \<Rightarrow> xattrs \<Rightarrow> 's \<Rightarrow> (rstr \<times> 's) result"
  iv_write_dirtree :: "dirtree \<Rightarrow> 's \<Rightarrow> (rstr \<times> 's) result"
  iv_write_commit :: "commit_object \<Rightarrow> 's \<Rightarrow> (rstr \<times> 's) result"
  iv_tempdir :: "rstr result"
  iv_tempfile :: "bytes \<Rightarrow> rstr result"
  iv_run :: "rstr \<Rightarrow> command \<Rightarrow> bytes \<Rightarrow> (bool \<times> (rstr \<Rightarrow> bytes option)) result"

definition steal_xattr :: "(rstr \<Rightarrow> bytes option) \<Rightarrow> rstr \<Rightarrow> bytes result" where
  "steal_xattr f k =
     and_then (ensure (0 \<notin> set k) (Err ''nul byte found'')) (\<lambda>_. ok_or (Err ''fgetxattr'') (f k))"

text \<open>The state of the rewriter: the files that were signed already, and the repository.\<close>

type_synonym 's rewriter = "(rstr, rstr) kvmap \<times> 's"

definition evmctl_command :: "ima_opts \<Rightarrow> rstr \<Rightarrow> command" where
  "evmctl_command ima file =
     (command_new (str ''evmctl''))\<lparr>cmd_args := [str ''ima_sign'', str ''--xattr-user'', str ''--key'', io_key ima] @
        [str ''--hashalgo'', io_algorithm ima] @ [file]\<rparr>"

definition ima_sign_file :: "'s ima_env \<Rightarrow> rstr \<Rightarrow> ima_opts \<Rightarrow> bytes \<Rightarrow> (bytes, bytes) kvmap result" where
  "ima_sign_file env tempdir ima instream =
     and_then (iv_tempfile env instream) (\<lambda>tempf.
     and_then (iv_run env tempdir (evmctl_command ima tempf) instream) (\<lambda>(success, attrs).
     if \<not> success then Inl (Err ''evmctl failed'')
     else let user_k = str ''user.'' @ drop (length (str ''security.'')) IMA_XATTR
          in and_then (steal_xattr attrs user_k) (\<lambda>v. Inr (kv_insert IMA_XATTR v []))))"

definition on_store :: "('s, 'a) action \<Rightarrow> ('s rewriter, 'a) action" where
  "on_store m = (\<lambda>(memo, s). let (r, s') = m s in (r, (memo, s')))"

definition map_file :: "'s ima_env \<Rightarrow> rstr \<Rightarrow> ima_opts \<Rightarrow> rstr \<Rightarrow> ('s, rstr option) action" where
  "map_file env tempdir ima checksum =
     act_bind (act_query (\<lambda>s. iv_load_file env s checksum)) (\<lambda>(instream, meta, xattrs).
     case instream of
       None \<Rightarrow> act_ret None
     | Some instream \<Rightarrow>
         let xattrs = xattrs_to_map xattrs;
             existing_sig = kv_lookup xattrs IMA_XATTR;
             xattrs = kv_remove IMA_XATTR xattrs
         in if existing_sig \<noteq> None \<and> \<not> io_overwrite ima then act_ret None
            else act_bind (act_result (ima_sign_file env tempdir ima instream)) (\<lambda>signed.
                 let xattrs = new_variant_a_ayay (kv_extend xattrs signed)
                 in act_bind (act_query (\<lambda>s. iv_load_file env s checksum)) (\<lambda>(instream, _, _).
                    act_bind (act_result (ok_or (Panic ''unwrap on None'') instream)) (\<lambda>instream.
                    act_bind (act_lift (iv_write_content env instream meta xattrs)) (\<lambda>new_checksum.
                    act_ret (Some new_checksum))))))"

definition map_dir_file :: "'s ima_env \<Rightarrow> rstr \<Rightarrow> ima_opts \<Rightarrow> rstr \<times> rstr \<Rightarrow> ('s rewriter, rstr \<times> rstr) action" where
  "map_dir_file env tempdir ima = (\<lambda>(name, checksum) (memo, s).
     case kv_lookup memo checksum of
       Some mapped \<Rightarrow> (Inr (name, mapped), (memo, s))
     | None \<Rightarrow>
         act_bind (on_store (map_file env tempdir ima checksum)) (\<lambda>mapped (memo, s).
           case mapped of
             Some mapped \<Rightarrow> (Inr (name, mapped), (kv_insert checksum mapped memo, s))
           | None \<Rightarrow> (Inr (name, checksum), (memo, s))) (memo, s))"

text \<open>\<open>fuel\<close> bounds the depth of the tree.\<close>

fun map_dirtree :: "'s ima_env \<Rightarrow> rstr \<Rightarrow> ima_opts \<Rightarrow> nat \<Rightarrow> rstr \<Rightarrow> ('s rewriter, rstr) action" where
  "map_dirtree env tempdir ima 0 checksum = act_result (Inl (Panic ''stack overflow''))"
| "map_dirtree env tempdir ima (Suc fuel) checksum =
     act_bind (on_store (act_query (\<lambda>s. iv_load_dirtree env s checksum))) (\<lambda>src.
     act_bind (act_collect (map_dir_file env tempdir ima) (dt_files src)) (\<lambda>new_files.
     act_bind (act_collect (\<lambda>(name, contents_csum, meta_csum).
         act_bind (map_dirtree env tempdir ima fuel contents_csum) (\<lambda>mapped. act_ret (name, mapped, meta_csum)))
       (dt_dirs src)) (\<lambda>new_dirs.
     on_store (act_lift (iv_write_dirtree env \<lparr>dt_files = new_files, dt_dirs = new_dirs\<rparr>)))))"

definition map_commit :: "'s ima_env \<Rightarrow> rstr \<Rightarrow> ima_opts \<Rightarrow> nat \<Rightarrow> rstr \<Rightarrow> ('s rewriter, rstr) action" where
  "map_commit env tempdir ima fuel ostree_rev =
     act_bind (on_store (act_query (\<lambda>s. iv_require_rev env s ostree_rev))) (\<lambda>checksum.
     act_bind (on_store (act_query (\<lambda>s. iv_load_commit env s checksum))) (\<lambda>commit.
     act_bind (map_dirtree env tempdir ima fuel (co_tree commit)) (\<lambda>new_dt.
     on_store (act_lift (iv_write_commit env (commit\<lparr>co_tree := new_dt\<rparr>))))))"

definition ima_sign :: "'s ima_env \<Rightarrow> ima_opts \<Rightarrow> nat \<Rightarrow> rstr \<Rightarrow> ('s, rstr) action" where
  "ima_sign env opts fuel ostree_ref s =
     (case iv_tempdir env of
        Inl e \<Rightarrow> (Inl e, s)
      | Inr tempdir \<Rightarrow> let (r, (_, s')) = map_commit env tempdir opts fuel ostree_ref ([], s) in (r, s'))"

section \<open>Lemmas\<close>

lemma on_store_Inr [act_simps]:
  "on_store m st = (Inr x, st') \<longleftrightarrow> (\<exists>s'. m (snd st) = (Inr x, s') \<and> st' = (fst st, s'))"
  by (cases st) (auto simp: on_store_def split: prod.splits)

subsection \<open>What is relied on of the object store\<close>

text \<open>Objects that can be loaded stay as they are.\<close>

definition objects_kept :: "'s ima_env \<Rightarrow> 's \<Rightarrow> 's \<Rightarrow> bool" where
  "objects_kept env s s' \<longleftrightarrow>
     (\<forall>c x. iv_load_file env s c = Inr x \<longrightarrow> iv_load_file env s' c = Inr x) \<and>
     (\<forall>c x. iv_load_dirtree env s c = Inr x \<longrightarrow> iv_load_dirtree env s' c = Inr x) \<and>
     (\<forall>c x. iv_load_commit env s c = Inr x \<longrightarrow> iv_load_commit env s' c = Inr x)"

text \<open>An object that is written can be loaded under the returned checksum, and other objects are kept.\<close>

definition store_spec :: "'s ima_env \<Rightarrow> bool" where
  "store_spec env \<longleftrightarrow>
     (\<forall>content info x s c s'. iv_write_content env content info x s = Inr (c, s') \<longrightarrow>
        iv_load_file env s' c = Inr (Some content, info, x) \<and> objects_kept env s s') \<and>
     (\<forall>dt s c s'. iv_write_dirtree env dt s = Inr (c, s') \<longrightarrow> iv_load_dirtree env s' c = Inr dt \<and> objects_kept env s s') \<and>
     (\<forall>co s c s'. iv_write_commit env co s = Inr (c, s') \<longrightarrow> iv_load_commit env s' c = Inr co \<and> objects_kept env s s')"

lemma store_specD:
  assumes "store_spec env"
  shows "iv_write_content env content info x s = Inr (c, s') \<Longrightarrow> iv_load_file env s' c = Inr (Some content, info, x)"
    and "iv_write_content env content info x s = Inr (c, s') \<Longrightarrow> objects_kept env s s'"
    and "iv_write_dirtree env dt s = Inr (c, s') \<Longrightarrow> iv_load_dirtree env s' c = Inr dt"
    and "iv_write_dirtree env dt s = Inr (c, s') \<Longrightarrow> objects_kept env s s'"
    and "iv_write_commit env co s = Inr (c, s') \<Longrightarrow> iv_load_commit env s' c = Inr co"
    and "iv_write_commit env co s = Inr (c, s') \<Longrightarrow> objects_kept env s s'"
  using assms unfolding store_spec_def by blast+

lemma objects_kept_refl [simp]: "objects_kept env s s"
  by (simp add: objects_kept_def)

lemma objects_kept_trans: "objects_kept env s s1 \<Longrightarrow> objects_kept env s1 s2 \<Longrightarrow> objects_kept env s s2"
  by (simp add: objects_kept_def)

lemma objects_keptD:
  assumes "objects_kept env s s'"
  shows "iv_load_file env s c = Inr f \<Longrightarrow> iv_load_file env s' c = Inr f"
    and "iv_load_dirtree env s c = Inr d \<Longrightarrow> iv_load_dirtree env s' c = Inr d"
    and "iv_load_commit env s c = Inr co \<Longrightarrow> iv_load_commit env s' c = Inr co"
  using assms unfolding objects_kept_def by blast+

subsection \<open>Signed files and trees\<close>

text \<open>The file \<open>c'\<close> is what signing makes of \<open>c\<close>: the same object when there is nothing to sign, otherwise the same
  content and attributes, and the same extended attributes but for the signature.\<close>

definition signed_file :: "'s ima_env \<Rightarrow> rstr \<Rightarrow> ima_opts \<Rightarrow> 's \<Rightarrow> rstr \<Rightarrow> rstr \<Rightarrow> bool" where
  "signed_file env tempdir ima s c c' \<longleftrightarrow>
     (\<exists>instream info xattrs. iv_load_file env s c = Inr (instream, info, xattrs) \<and>
        (case instream of
           None \<Rightarrow> c' = c
         | Some content \<Rightarrow>
             if kv_lookup (xattrs_to_map xattrs) IMA_XATTR \<noteq> None \<and> \<not> io_overwrite ima then c' = c
             else \<exists>sig xattrs'. ima_sign_file env tempdir ima content = Inr (kv_insert IMA_XATTR sig []) \<and>
                  iv_load_file env s c' = Inr (Some content, info, xattrs') \<and>
                  kv_lookup (xattrs_to_map xattrs') = (kv_lookup (xattrs_to_map xattrs))(IMA_XATTR \<mapsto> sig)))"

fun signed_tree :: "'s ima_env \<Rightarrow> rstr \<Rightarrow> ima_opts \<Rightarrow> 's \<Rightarrow> nat \<Rightarrow> rstr \<Rightarrow> rstr \<Rightarrow> bool" where
  "signed_tree env tempdir ima s 0 t t' \<longleftrightarrow> False"
| "signed_tree env tempdir ima s (Suc d) t t' \<longleftrightarrow>
     (\<exists>dt dt'. iv_load_dirtree env s t = Inr dt \<and> iv_load_dirtree env s t' = Inr dt' \<and>
        list_all2 (\<lambda>(n, c) (n', c'). n' = n \<and> signed_file env tempdir ima s c c') (dt_files dt) (dt_files dt') \<and>
        list_all2 (\<lambda>(n, c, m) (n', c', m'). n' = n \<and> m' = m \<and> signed_tree env tempdir ima s d c c') (dt_dirs dt) (dt_dirs dt'))"

lemma signed_file_kept: "signed_file env tempdir ima s c c' \<Longrightarrow> objects_kept env s s' \<Longrightarrow> signed_file env tempdir ima s' c c'"
proof -
  assume a: "signed_file env tempdir ima s c c'" "objects_kept env s s'"
  obtain i info x where i: "iv_load_file env s c = Inr (i, info, x)" using a(1) by (auto simp: signed_file_def)
  have "iv_load_file env s' c = Inr (i, info, x)" by (rule objects_keptD(1) [OF a(2) i])
  moreover have "iv_load_file env s' c' = Inr f" if "iv_load_file env s c' = Inr f" for f
    by (rule objects_keptD(1) [OF a(2) that])
  ultimately show ?thesis
    using a(1) i by (cases i) (auto simp: signed_file_def split: if_splits)
qed

lemma signed_tree_kept:
  "signed_tree env tempdir ima s d t t' \<Longrightarrow> objects_kept env s s' \<Longrightarrow> signed_tree env tempdir ima s' d t t'"
proof (induction d arbitrary: t t')
  case (Suc d)
  from Suc.prems(1) obtain dt dt' where t: "iv_load_dirtree env s t = Inr dt" "iv_load_dirtree env s t' = Inr dt'"
      "list_all2 (\<lambda>(n, c) (n', c'). n' = n \<and> signed_file env tempdir ima s c c') (dt_files dt) (dt_files dt')"
      "list_all2 (\<lambda>(n, c, m) (n', c', m'). n' = n \<and> m' = m \<and> signed_tree env tempdir ima s d c c') (dt_dirs dt) (dt_dirs dt')"
    by auto
  have "list_all2 (\<lambda>(n, c) (n', c'). n' = n \<and> signed_file env tempdir ima s' c c') (dt_files dt) (dt_files dt')"
    using t(3) by (rule list_all2_mono) (auto intro: signed_file_kept [OF _ Suc.prems(2)])
  moreover have "list_all2 (\<lambda>(n, c, m) (n', c', m'). n' = n \<and> m' = m \<and> signed_tree env tempdir ima s' d c c') (dt_dirs dt) (dt_dirs dt')"
    using t(4) by (rule list_all2_mono) (auto intro: Suc.IH [OF _ Suc.prems(2)])
  ultimately show ?case using t(1,2) objects_keptD(2) [OF Suc.prems(2)] by auto
qed simp

lemma xattrs_map_id: "kv_wf m \<Longrightarrow> xattrs_to_map (new_variant_a_ayay m) = m"
proof -
  assume wf: "kv_wf m"
  have "xattrs_to_map (new_variant_a_ayay m) = kv_extend [] m"
    by (simp add: xattrs_to_map_def new_variant_a_ayay_def kv_extend_def case_prod_unfold)
  moreover have "kv_lookup (kv_extend [] m) = kv_lookup m"
    unfolding kv_lookup_extend kv_lookup_Nil empty_map_add unfolding kv_lookup_def
    using map_of_inject_set [of "rev m" m] kv_wf_distinct [OF wf] by (simp flip: rev_map)
  ultimately show ?thesis using kv_eqI [OF kv_wf_extend wf, of "[]" m] by simp
qed

lemma xattrs_map_wf: "kv_wf (xattrs_to_map x)"
  using kv_wf_extend [of "[]" x] by (simp add: xattrs_to_map_def kv_extend_def case_prod_unfold)

lemma ima_sign_file_Inr: "ima_sign_file env tempdir ima content = Inr m \<Longrightarrow> \<exists>v. m = kv_insert IMA_XATTR v []"
  by (auto simp: ima_sign_file_def result_simps Let_def split: if_splits)

lemma map_file_signs:
  assumes "store_spec env" "map_file env tempdir ima c s = (Inr mapped, s')"
  shows "objects_kept env s s'" "signed_file env tempdir ima s' c (case mapped of Some c' \<Rightarrow> c' | None \<Rightarrow> c)"
proof -
  obtain i info x where f: "iv_load_file env s c = Inr (i, info, x)"
    using assms(2) by (auto simp: map_file_def act_simps)
  show "objects_kept env s s'" "signed_file env tempdir ima s' c (case mapped of Some c' \<Rightarrow> c' | None \<Rightarrow> c)"
  proof (atomize (full), cases "\<exists>content. i = Some content \<and> \<not> (kv_lookup (xattrs_to_map x) IMA_XATTR \<noteq> None \<and> \<not> io_overwrite ima)")
    case True
    then obtain content where content: "i = Some content" "\<not> (kv_lookup (xattrs_to_map x) IMA_XATTR \<noteq> None \<and> \<not> io_overwrite ima)"
      by blast
    with assms(2) f obtain signed c' where w: "ima_sign_file env tempdir ima content = Inr signed" "mapped = Some c'"
        "iv_write_content env content info (new_variant_a_ayay (kv_extend (kv_remove IMA_XATTR (xattrs_to_map x)) signed)) s = Inr (c', s')"
      by (auto simp: map_file_def act_simps Let_def ok_or_iff split: if_splits)
    obtain v where v: "signed = kv_insert IMA_XATTR v []" using ima_sign_file_Inr [OF w(1)] by blast
    note kept = store_specD(2) [OF assms(1) w(3)]
    have "kv_lookup (xattrs_to_map (new_variant_a_ayay (kv_extend (kv_remove IMA_XATTR (xattrs_to_map x)) signed))) =
        (kv_lookup (xattrs_to_map x))(IMA_XATTR \<mapsto> v)"
      by (simp add: xattrs_map_id kv_wf_insert kv_wf_remove xattrs_map_wf v kv_lookup_insert kv_lookup_remove)
    then have "signed_file env tempdir ima s' c c'"
      unfolding signed_file_def using objects_keptD(1) [OF kept f] content w(1) store_specD(1) [OF assms(1) w(3)] v by auto
    with kept w(2) show "objects_kept env s s' \<and> signed_file env tempdir ima s' c (case mapped of Some c' \<Rightarrow> c' | None \<Rightarrow> c)" by simp
  next
    case False
    then have "mapped = None" "s' = s"
      using assms(2) f by (cases i; auto simp: map_file_def act_simps Let_def split: if_splits)+
    with False f show "objects_kept env s s' \<and> signed_file env tempdir ima s' c (case mapped of Some c' \<Rightarrow> c' | None \<Rightarrow> c)"
      by (cases i) (auto simp: signed_file_def)
  qed
qed

subsection \<open>The rewriter\<close>

text \<open>The invariant of the rewriter: what it remembers are signed files of the repository.\<close>

definition memo_ok :: "'s ima_env \<Rightarrow> rstr \<Rightarrow> ima_opts \<Rightarrow> 's rewriter \<Rightarrow> bool" where
  "memo_ok env tempdir ima st \<longleftrightarrow> (\<forall>c c'. kv_lookup (fst st) c = Some c' \<longrightarrow> signed_file env tempdir ima (snd st) c c')"

lemma memo_ok_kept: "memo_ok env tempdir ima (memo, s) \<Longrightarrow> objects_kept env s s' \<Longrightarrow> memo_ok env tempdir ima (memo, s')"
  by (auto simp: memo_ok_def intro: signed_file_kept)

text \<open>What every successful step of the rewriter does.\<close>

definition rewriter_step :: "'s ima_env \<Rightarrow> rstr \<Rightarrow> ima_opts \<Rightarrow> ('s \<Rightarrow> 'a \<Rightarrow> bool) \<Rightarrow> ('s rewriter, 'a) action \<Rightarrow> bool" where
  "rewriter_step env tempdir ima Q m \<longleftrightarrow> (\<forall>st x st'. memo_ok env tempdir ima st \<longrightarrow> m st = (Inr x, st') \<longrightarrow>
     memo_ok env tempdir ima st' \<and> objects_kept env (snd st) (snd st') \<and> Q (snd st') x)"

lemma rewriter_stepD:
  assumes "rewriter_step env tempdir ima Q m" "memo_ok env tempdir ima st" "m st = (Inr x, st')"
  shows "memo_ok env tempdir ima st'" "objects_kept env (snd st) (snd st')" "Q (snd st') x"
  using assms unfolding rewriter_step_def by blast+

lemma rewriter_step_collect:
  assumes "\<And>x. x \<in> set xs \<Longrightarrow> rewriter_step env tempdir ima (\<lambda>s. P s x) (f x)"
    and "\<And>x y s s'. P s x y \<Longrightarrow> objects_kept env s s' \<Longrightarrow> P s' x y"
  shows "rewriter_step env tempdir ima (\<lambda>s. list_all2 (P s) xs) (act_collect f xs)"
  using assms(1)
proof (induction xs)
  case (Cons x xs)
  show ?case
    unfolding rewriter_step_def
  proof (intro allI impI)
    fix st ys st' assume ok: "memo_ok env tempdir ima st" and run: "act_collect f (x # xs) st = (Inr ys, st')"
    obtain y st1 ys' where r: "f x st = (Inr y, st1)" "act_collect f xs st1 = (Inr ys', st')" "ys = y # ys'"
      using run by (auto simp: act_simps)
    note one = rewriter_stepD [OF Cons.prems [of x, simplified] ok r(1)]
    note rest = rewriter_stepD [OF Cons.IH one(1) r(2)]
    show "memo_ok env tempdir ima st' \<and> objects_kept env (snd st) (snd st') \<and> list_all2 (P (snd st')) (x # xs) ys"
      using one rest Cons.prems r(3) assms(2) [OF one(3)] objects_kept_trans [OF one(2)] by simp
  qed
qed (auto simp: rewriter_step_def act_simps)

lemma map_dir_file_step:
  assumes "store_spec env"
  shows "rewriter_step env tempdir ima
    (\<lambda>s y. case (x, y) of ((n, c), (n', c')) \<Rightarrow> n' = n \<and> signed_file env tempdir ima s c c') (map_dir_file env tempdir ima x)"
  unfolding rewriter_step_def
proof (intro allI impI)
  fix st y st' assume ok: "memo_ok env tempdir ima st" and run: "map_dir_file env tempdir ima x st = (Inr y, st')"
  obtain n c memo s where x: "x = (n, c)" "st = (memo, s)" by (metis surj_pair)
  show "memo_ok env tempdir ima st' \<and> objects_kept env (snd st) (snd st') \<and>
      (case (x, y) of ((n, c), (n', c')) \<Rightarrow> n' = n \<and> signed_file env tempdir ima (snd st') c c')"
  proof (cases "kv_lookup memo c")
    case (Some c')
    with run ok x show ?thesis by (auto simp: map_dir_file_def memo_ok_def)
  next
    case None
    then obtain mapped s1 where m: "map_file env tempdir ima c s = (Inr mapped, s1)"
        and st': "(case mapped of Some c' \<Rightarrow> (Inr (n, c'), (kv_insert c c' memo, s1)) | None \<Rightarrow> (Inr (n, c), (memo, s1))) = ((Inr y :: (rstr \<times> rstr) result), st')"
      using run x by (auto simp: map_dir_file_def act_simps)
    note one = map_file_signs [OF assms m]
    note memo = memo_ok_kept [OF ok [unfolded x(2)] one(1)]
    show ?thesis
      using one memo st' x by (cases mapped) (auto simp: memo_ok_def kv_lookup_insert split: if_splits)
  qed
qed

lemma map_dirtree_step:
  assumes "store_spec env"
  shows "rewriter_step env tempdir ima (\<lambda>s t'. signed_tree env tempdir ima s fuel t t') (map_dirtree env tempdir ima fuel t)"
proof (induction fuel arbitrary: t)
  case (Suc fuel)
  show ?case
    unfolding rewriter_step_def
  proof (intro allI impI)
    fix st t' st' assume ok: "memo_ok env tempdir ima st" and run: "map_dirtree env tempdir ima (Suc fuel) t st = (Inr t', st')"
    let ?dir = "\<lambda>(name, contents_csum, meta_csum).
         act_bind (map_dirtree env tempdir ima fuel contents_csum) (\<lambda>mapped. act_ret (name, mapped, meta_csum))"
    obtain src fs st1 ds st2 where r: "iv_load_dirtree env (snd st) t = Inr src"
        "act_collect (map_dir_file env tempdir ima) (dt_files src) st = (Inr fs, st1)"
        "act_collect ?dir (dt_dirs src) st1 = (Inr ds, st2)"
        "iv_write_dirtree env \<lparr>dt_files = fs, dt_dirs = ds\<rparr> (snd st2) = Inr (t', snd st')" "fst st' = fst st2"
      using run by (auto simp: act_simps)
    have files: "rewriter_step env tempdir ima (\<lambda>s. list_all2 (\<lambda>(n, c) (n', c'). n' = n \<and> signed_file env tempdir ima s c c') (dt_files src))
        (act_collect (map_dir_file env tempdir ima) (dt_files src))"
      using map_dir_file_step [OF assms] by (intro rewriter_step_collect) (auto intro: signed_file_kept)
    have dirs: "rewriter_step env tempdir ima (\<lambda>s. list_all2 (\<lambda>(n, c, m) (n', c', m'). n' = n \<and> m' = m \<and>
        signed_tree env tempdir ima s fuel c c') (dt_dirs src)) (act_collect ?dir (dt_dirs src))"
    proof (rule rewriter_step_collect, goal_cases)
      case (1 x)
      obtain n c m where x: "x = (n, c, m)" by (metis surj_pair)
      show ?case
        using Suc.IH [of c] unfolding rewriter_step_def x by (auto simp: act_simps)
    qed (auto intro: signed_tree_kept)
    note f = rewriter_stepD [OF files ok r(2)]
    note d = rewriter_stepD [OF dirs f(1) r(3)]
    note kept = store_specD(4) [OF assms r(4)]
    have all_kept: "objects_kept env (snd st) (snd st')" "objects_kept env (snd st1) (snd st')"
      using objects_kept_trans [OF objects_kept_trans [OF f(2) d(2)] kept] objects_kept_trans [OF d(2) kept] by simp_all
    have "list_all2 (\<lambda>(n, c) (n', c'). n' = n \<and> signed_file env tempdir ima (snd st') c c') (dt_files src) fs"
      using f(3) by (rule list_all2_mono) (auto intro: signed_file_kept [OF _ all_kept(2)])
    moreover have "list_all2 (\<lambda>(n, c, m) (n', c', m'). n' = n \<and> m' = m \<and> signed_tree env tempdir ima (snd st') fuel c c') (dt_dirs src) ds"
      using d(3) by (rule list_all2_mono) (auto intro: signed_tree_kept [OF _ kept])
    ultimately have "signed_tree env tempdir ima (snd st') (Suc fuel) t t'"
      using objects_keptD(2) [OF all_kept(1) r(1)] store_specD(3) [OF assms r(4)] by auto
    then show "memo_ok env tempdir ima st' \<and> objects_kept env (snd st) (snd st') \<and> signed_tree env tempdir ima (snd st') (Suc fuel) t t'"
      using memo_ok_kept [of env tempdir ima "fst st2" "snd st2" "snd st'"] d(1) kept r(5) all_kept(1)
      by (metis prod.collapse)
  qed
qed (simp add: rewriter_step_def act_simps)

subsection \<open>Enough fuel\<close>

text \<open>A tree of depth at most \<open>d\<close> all of whose objects can be loaded, and a signing program that works.\<close>

fun tree_present :: "'s ima_env \<Rightarrow> 's \<Rightarrow> nat \<Rightarrow> rstr \<Rightarrow> bool" where
  "tree_present env s 0 t \<longleftrightarrow> False"
| "tree_present env s (Suc d) t \<longleftrightarrow>
     (case iv_load_dirtree env s t of
        Inl _ \<Rightarrow> False
      | Inr dt \<Rightarrow> list_all (\<lambda>(n, c). is_ok (iv_load_file env s c)) (dt_files dt) \<and>
          list_all (\<lambda>(n, c, m). tree_present env s d c) (dt_dirs dt))"

definition signer_works :: "'s ima_env \<Rightarrow> rstr \<Rightarrow> ima_opts \<Rightarrow> bool" where
  "signer_works env tempdir ima \<longleftrightarrow> (\<forall>content. is_ok (ima_sign_file env tempdir ima content)) \<and>
     (\<forall>content info x s. is_ok (iv_write_content env content info x s)) \<and>
     (\<forall>dt s. is_ok (iv_write_dirtree env dt s)) \<and> (\<forall>co s. is_ok (iv_write_commit env co s))"

lemma tree_present_kept: "tree_present env s d t \<Longrightarrow> objects_kept env s s' \<Longrightarrow> tree_present env s' d t"
proof (induction d arbitrary: t)
  case (Suc d)
  from Suc.prems(1) obtain dt where dt: "iv_load_dirtree env s t = Inr dt"
      "list_all (\<lambda>(n, c). is_ok (iv_load_file env s c)) (dt_files dt)" "list_all (\<lambda>(n, c, m). tree_present env s d c) (dt_dirs dt)"
    by (auto split: sum.splits)
  have "list_all (\<lambda>(n, c). is_ok (iv_load_file env s' c)) (dt_files dt)"
    using dt(2) by (rule list.pred_mono_strong) (auto simp: is_ok_iff dest: objects_keptD(1) [OF Suc.prems(2)])
  moreover have "list_all (\<lambda>(n, c, m). tree_present env s' d c) (dt_dirs dt)"
    using dt(3) by (rule list.pred_mono_strong) (auto intro: Suc.IH [OF _ Suc.prems(2)])
  ultimately show ?case using objects_keptD(2) [OF Suc.prems(2) dt(1)] by simp
qed simp

lemma map_file_returns:
  assumes "signer_works env tempdir ima" "is_ok (iv_load_file env s c)"
  shows "\<exists>mapped s'. map_file env tempdir ima c s = (Inr mapped, s')"
proof -
  obtain i info x where f: "iv_load_file env s c = Inr (i, info, x)" using assms(2) by (auto simp: is_ok_iff)
  show ?thesis
  proof (cases i)
    case (Some content)
    obtain signed where "ima_sign_file env tempdir ima content = Inr signed"
      using assms(1) unfolding signer_works_def is_ok_iff by blast
    moreover obtain c' s' where
        "iv_write_content env content info (new_variant_a_ayay (kv_extend (kv_remove IMA_XATTR (xattrs_to_map x)) signed)) s = Inr (c', s')"
      using assms(1) unfolding signer_works_def is_ok_iff by (metis surj_pair)
    ultimately show ?thesis
      using f Some by (auto simp: map_file_def act_bind_query act_bind_result_app act_bind_def act_lift_def act_query_def act_result_def Let_def)
  qed (use f in \<open>simp add: map_file_def act_bind_query act_result_def\<close>)
qed

lemma map_dir_file_returns:
  assumes "signer_works env tempdir ima" "is_ok (iv_load_file env (snd st) (snd x))"
  shows "\<exists>y st'. map_dir_file env tempdir ima x st = (Inr y, st')"
proof -
  obtain n c memo s where x: "x = (n, c)" "st = (memo, s)" by (metis surj_pair)
  obtain mapped s' where "map_file env tempdir ima c s = (Inr mapped, s')"
    using map_file_returns [OF assms(1), of s c] assms(2) x by auto
  then show ?thesis
    by (cases "kv_lookup memo c"; cases mapped) (auto simp: x map_dir_file_def act_bind_def on_store_def)
qed

lemma collect_returns:
  assumes "\<And>x. x \<in> set xs \<Longrightarrow> rewriter_step env tempdir ima (Q x) (f x)"
    and "\<And>x st. x \<in> set xs \<Longrightarrow> memo_ok env tempdir ima st \<Longrightarrow> objects_kept env s (snd st) \<Longrightarrow> \<exists>y st'. f x st = (Inr y, st')"
    and "memo_ok env tempdir ima st" "objects_kept env s (snd st)"
  shows "\<exists>ys st'. act_collect f xs st = (Inr ys, st')"
  using assms
proof (induction xs arbitrary: st)
  case (Cons x xs)
  obtain y st1 where one: "f x st = (Inr y, st1)" using Cons.prems(2) [OF _ Cons.prems(3,4), of x] by auto
  note step = rewriter_stepD [OF Cons.prems(1) [of x, simplified] Cons.prems(3) one]
  have "\<exists>ys st'. act_collect f xs st1 = (Inr ys, st')"
    using Cons.prems(1,2) by (intro Cons.IH) (simp_all add: step objects_kept_trans [OF Cons.prems(4) step(2)])
  with one show ?case by (auto simp: act_bind_def act_result_def)
qed (simp add: act_result_def)

lemma map_dirtree_returns:
  assumes "store_spec env" "signer_works env tempdir ima"
  shows "tree_present env (snd st) fuel t \<Longrightarrow> memo_ok env tempdir ima st \<Longrightarrow>
    \<exists>t' st'. map_dirtree env tempdir ima fuel t st = (Inr t', st')"
proof (induction fuel arbitrary: t st)
  case (Suc fuel)
  from Suc.prems(1) obtain dt where dt: "iv_load_dirtree env (snd st) t = Inr dt"
      "\<forall>(n, c) \<in> set (dt_files dt). is_ok (iv_load_file env (snd st) c)"
      "\<forall>(n, c, m) \<in> set (dt_dirs dt). tree_present env (snd st) fuel c"
    by (auto simp: list_all_iff split: sum.splits)
  let ?dir = "\<lambda>(name, contents_csum, meta_csum).
       act_bind (map_dirtree env tempdir ima fuel contents_csum) (\<lambda>mapped. act_ret (name, mapped, meta_csum))"
  let ?file = "map_dir_file env tempdir ima"
  have fstep: "rewriter_step env tempdir ima (\<lambda>_ _. True) (?file x)" for x
    using map_dir_file_step [OF assms(1), of tempdir ima x] by (auto simp: rewriter_step_def)
  have dstep: "rewriter_step env tempdir ima (\<lambda>_ _. True) (?dir x)" for x
    using map_dirtree_step [OF assms(1), of tempdir ima fuel "fst (snd x)"]
    by (cases x) (auto simp: rewriter_step_def act_simps)
  have "\<exists>fs st1. act_collect ?file (dt_files dt) st = (Inr fs, st1)"
  proof (rule collect_returns [where s = "snd st" and Q = "\<lambda>_ _ _. True"])
    fix x and st1 :: "'a rewriter" assume x: "x \<in> set (dt_files dt)" "objects_kept env (snd st) (snd st1)"
    then have "is_ok (iv_load_file env (snd st1) (snd x))"
      using dt(2) objects_keptD(1) [OF x(2)] by (fastforce simp: is_ok_iff)
    then show "\<exists>y st'. ?file x st1 = (Inr y, st')" by (rule map_dir_file_returns [OF assms(2)])
  qed (use fstep Suc.prems(2) in auto)
  then obtain fs st1 where fs: "act_collect ?file (dt_files dt) st = (Inr fs, st1)" by blast
  have "rewriter_step env tempdir ima (\<lambda>_. list_all2 (\<lambda>_ _. True) (dt_files dt)) (act_collect ?file (dt_files dt))"
    by (rule rewriter_step_collect) (use fstep in simp_all)
  note one = rewriter_stepD [OF this Suc.prems(2) fs]
  have "\<exists>ds st2. act_collect ?dir (dt_dirs dt) st1 = (Inr ds, st2)"
  proof (rule collect_returns [where s = "snd st" and Q = "\<lambda>_ _ _. True"])
    fix x and st2 :: "'a rewriter"
    assume x: "x \<in> set (dt_dirs dt)" "memo_ok env tempdir ima st2" "objects_kept env (snd st) (snd st2)"
    obtain n c m where c: "x = (n, c, m)" by (metis surj_pair)
    have "tree_present env (snd st2) fuel c"
      using dt(3) x(1) c tree_present_kept [OF _ x(3)] by auto
    from Suc.IH [OF this x(2)] show "\<exists>y st'. ?dir x st2 = (Inr y, st')"
      unfolding c by (auto simp: act_bind_def act_result_def)
  qed (use dstep one in auto)
  then obtain ds st2 where ds: "act_collect ?dir (dt_dirs dt) st1 = (Inr ds, st2)" by blast
  obtain t' s' where "iv_write_dirtree env \<lparr>dt_files = fs, dt_dirs = ds\<rparr> (snd st2) = Inr (t', s')"
    using assms(2) unfolding signer_works_def is_ok_iff by (metis surj_pair)
  then have "map_dirtree env tempdir ima (Suc fuel) t st = (Inr t', (fst st2, s'))"
    using dt(1) fs ds by (cases st; cases st2) (simp add: act_bind_def on_store_def act_query_def act_lift_def)
  then show ?case by blast
qed simp

lemma tree_present_mono: "tree_present env s d t \<Longrightarrow> d \<le> d' \<Longrightarrow> tree_present env s d' t"
proof (induction d arbitrary: t d')
  case (Suc d)
  obtain d1 where d': "d' = Suc d1" "d \<le> d1" using Suc.prems(2) by (cases d') auto
  with Suc.prems(1) Suc.IH [OF _ d'(2)] show ?case by (auto simp: list_all_iff split: sum.splits)
qed simp

lemma ima_sign_signs:
  assumes "store_spec env" "iv_tempdir env = Inr tempdir" "iv_require_rev env s ostree_ref = Inr c" "iv_load_commit env s c = Inr co"
    and "ima_sign env opts fuel ostree_ref s = (Inr c', s')"
  shows "\<exists>t'. iv_load_commit env s' c' = Inr (co\<lparr>co_tree := t'\<rparr>) \<and> signed_tree env tempdir opts s' fuel (co_tree co) t' \<and>
    objects_kept env s s'"
proof -
  obtain memo where "map_commit env tempdir opts fuel ostree_ref ([], s) = (Inr c', (memo, s'))"
    using assms(2,5) by (auto simp: ima_sign_def split: prod.splits)
  with assms(3,4) obtain t' st1 where r: "map_dirtree env tempdir opts fuel (co_tree co) ([], s) = (Inr t', st1)"
      "iv_write_commit env (co\<lparr>co_tree := t'\<rparr>) (snd st1) = Inr (c', s')"
    by (auto simp: map_commit_def act_simps)
  have "memo_ok env tempdir opts ([], s)" by (simp add: memo_ok_def)
  note tree = rewriter_stepD [OF map_dirtree_step [OF assms(1)] this r(1)]
  note kept = store_specD(6) [OF assms(1) r(2)]
  show ?thesis
    using store_specD(5) [OF assms(1) r(2)] signed_tree_kept [OF tree(3) kept] objects_kept_trans [OF tree(2) kept] by auto
qed

lemma ima_sign_returns:
  assumes "store_spec env" "iv_tempdir env = Inr tempdir" "signer_works env tempdir opts"
    and "iv_require_rev env s ostree_ref = Inr c" "iv_load_commit env s c = Inr co" "tree_present env s fuel (co_tree co)"
  shows "\<exists>c' s'. ima_sign env opts fuel ostree_ref s = (Inr c', s')"
proof -
  have "memo_ok env tempdir opts ([], s)" by (simp add: memo_ok_def)
  with map_dirtree_returns [OF assms(1,3), of "([], s)" fuel "co_tree co"] assms(6)
  obtain t' st1 where r: "map_dirtree env tempdir opts fuel (co_tree co) ([], s) = (Inr t', st1)" by auto
  moreover obtain c' s' where "iv_write_commit env (co\<lparr>co_tree := t'\<rparr>) (snd st1) = Inr (c', s')"
    using assms(3) unfolding signer_works_def is_ok_iff by (metis surj_pair)
  ultimately show ?thesis
    using assms(2,4,5)
    by (cases st1) (simp add: ima_sign_def map_commit_def act_bind_def on_store_def act_query_def act_lift_def)
qed

section \<open>Properties\<close>

text \<open>C8: signing a commit returns whenever its tree can be loaded and the signing program works, for every bound on
  the recursion from the depth of the tree on.  The new commit differs from the old one only in its tree, and its
  tree has the same names and directory metadata; every regular file has the same content and attributes and carries
  a signature made for this content, and files that are signed already are left alone unless they are to be
  overwritten.  All objects of the repository are kept.\<close>

theorem ima_sign_correct:
  assumes "store_spec env" "iv_tempdir env = Inr tempdir" "signer_works env tempdir opts"
    and "iv_require_rev env s ostree_ref = Inr c" "iv_load_commit env s c = Inr co"
    and "tree_present env s depth (co_tree co)" "depth \<le> fuel"
  shows "\<exists>c' s' t'. ima_sign env opts fuel ostree_ref s = (Inr c', s') \<and>
    iv_load_commit env s' c' = Inr (co\<lparr>co_tree := t'\<rparr>) \<and> signed_tree env tempdir opts s' fuel (co_tree co) t' \<and>
    objects_kept env s s'"
proof -
  obtain c' s' where "ima_sign env opts fuel ostree_ref s = (Inr c', s')"
    using ima_sign_returns [OF assms(1-5) tree_present_mono [OF assms(6,7)]] by blast
  with ima_sign_signs [OF assms(1,2,4,5) this] show ?thesis by blast
qed

text \<open>An object store in a list, whose checksums are longer than all before, and a program that signs a file with
  its length.\<close>

datatype sample_object = OFile "bytes option \<times> file_info \<times> xattrs" | ODir dirtree | OCommit commit_object

definition store_object :: "sample_object \<Rightarrow> (rstr \<times> sample_object) list \<Rightarrow> (rstr \<times> (rstr \<times> sample_object) list) result" where
  "store_object ob s = (let c = replicate (Suc (sum_list (map (length \<circ> fst) s))) 48 in Inr (c, s @ [(c, ob)]))"

definition sample_ima_env :: "(rstr \<times> sample_object) list ima_env" where
  "sample_ima_env = \<lparr>iv_require_rev = (\<lambda>_ r. Inr r),
     iv_load_commit = (\<lambda>s c. case map_of s c of Some (OCommit co) \<Rightarrow> Inr co | _ \<Rightarrow> Inl (Err ''no commit'')),
     iv_load_dirtree = (\<lambda>s c. case map_of s c of Some (ODir d) \<Rightarrow> Inr d | _ \<Rightarrow> Inl (Err ''no dirtree'')),
     iv_load_file = (\<lambda>s c. case map_of s c of Some (OFile f) \<Rightarrow> Inr f | _ \<Rightarrow> Inl (Err ''no file'')),
     iv_write_content = (\<lambda>content info x. store_object (OFile (Some content, info, x))),
     iv_write_dirtree = (\<lambda>d. store_object (ODir d)), iv_write_commit = (\<lambda>co. store_object (OCommit co)),
     iv_tempdir = Inr (str ''tmp''), iv_tempfile = (\<lambda>_. Inr (str ''f'')),
     iv_run = (\<lambda>_ _ content. Inr (True, \<lambda>_. Some [length content]))\<rparr>"

lemma store_object_fresh: "store_object ob s = Inr (c, s') \<Longrightarrow> map_of s' c = Some ob \<and> (\<forall>k x. map_of s k = Some x \<longrightarrow> map_of s' k = Some x)"
proof -
  assume a: "store_object ob s = Inr (c, s')"
  have "length k \<le> sum_list (map (length \<circ> fst) s)" if "(k, x) \<in> set s" for k :: rstr and x
    using that by (induction s) auto
  then have "map_of s (replicate (Suc (sum_list (map (length \<circ> fst) s))) 48) = None"
    by (fastforce simp: map_of_eq_None_iff)
  with a show ?thesis by (auto simp: store_object_def Let_def map_add_def)
qed

lemma sample_store_kept:
  assumes "store_object ob s = Inr (c, s')"
  shows "objects_kept sample_ima_env s s'"
  using store_object_fresh [OF assms]
  by (auto simp: objects_kept_def sample_ima_env_def split: option.splits sample_object.splits)

lemma sample_store_spec: "store_spec sample_ima_env"
  using store_object_fresh sample_store_kept by (fastforce simp: store_spec_def sample_ima_env_def)

lemma sample_signer: "signer_works sample_ima_env tempdir opts"
proof -
  have "0 \<notin> set (str ''user.'' @ drop (length (str ''security.'')) IMA_XATTR)" by code_simp
  then show ?thesis
    by (auto simp: signer_works_def sample_ima_env_def store_object_def Let_def ima_sign_file_def steal_xattr_def ensure_def)
qed

definition sample_ima_opts :: ima_opts where
  "sample_ima_opts = \<lparr>io_algorithm = str ''sha256'', io_key = str ''k'', io_overwrite = False\<rparr>"

definition sample_ima_commit :: commit_object where
  "sample_ima_commit = \<lparr>co_metadata = [], co_parent = None, co_subject = [], co_body = [], co_timestamp = 0,
     co_tree = str ''t'', co_meta = str ''m''\<rparr>"

definition sample_ima_store :: "(rstr \<times> sample_object) list" where
  "sample_ima_store = [(str ''c'', OCommit sample_ima_commit),
     (str ''t'', ODir \<lparr>dt_files = [(str ''a'', str ''f''), (str ''b'', str ''f'')], dt_dirs = []\<rparr>),
     (str ''f'', OFile (Some [1, 2, 3], \<lparr>fi_type = FRegular, fi_size = 3, fi_uid = 0, fi_gid = 0, fi_mode = 0, fi_symlink_target = None\<rparr>, []))]"

theorem ima_sign_correct_witness:
  "\<exists>c' s' t'. ima_sign sample_ima_env sample_ima_opts 5 (str ''c'') sample_ima_store = (Inr c', s') \<and>
     iv_load_commit sample_ima_env s' c' = Inr (sample_ima_commit\<lparr>co_tree := t'\<rparr>) \<and>
     signed_tree sample_ima_env (str ''tmp'') sample_ima_opts s' 5 (str ''t'') t'"
proof -
  have "iv_tempdir sample_ima_env = Inr (str ''tmp'')" "iv_require_rev sample_ima_env sample_ima_store (str ''c'') = Inr (str ''c'')"
      "iv_load_commit sample_ima_env sample_ima_store (str ''c'') = Inr sample_ima_commit"
      "tree_present sample_ima_env sample_ima_store 1 (co_tree sample_ima_commit)"
    by code_simp+
  from ima_sign_correct [OF sample_store_spec this(1) sample_signer this(2-4), of 5 sample_ima_opts] show ?thesis
    by (auto simp: sample_ima_commit_def)
qed

end
