(* ===== verification/Cli.thy ===== *)
theory Cli
  imports StoreExport Repair CommitClean UpdateDetached Ima
begin

text \<open>
  The command line (\<^verbatim>\<open>lib/src/cli.rs\<close>): what the subcommands do with the library, from their parsed options on.
  The state is that of the repository, or of the importer, together with the lines written to the standard output so far.
  Warnings and progress bars, which go elsewhere, and the parsing of options by clap are left out; \<open>format_size\<close> is
  glib's.  A line that is printed in pieces counts once it is complete.
\<close>

section \<open>Definitions\<close>

subsection \<open>Output\<close>

definition say :: "rstr \<Rightarrow> ('s \<times> rstr list, unit) action" where
  "say line = (\<lambda>(s, out). (Inr (), (s, out @ [line])))"

definition in_base :: "('s, 'a) action \<Rightarrow> ('s \<times> rstr list, 'a) action" where
  "in_base m = (\<lambda>(s, out). let (r, s') = m s in (r, (s', out)))"

definition say_all :: "rstr list \<Rightarrow> ('s \<times> rstr list, unit) action" where
  "say_all ls = act_fold (\<lambda>l _. say l) ls ()"

definition layer_progress_format :: "(u64 \<Rightarrow> rstr) \<Rightarrow> import_progress \<Rightarrow> rstr" where
  "layer_progress_format format_size p =
     (let (starting, s, layer) = (case p of
            OstreeChunkStarted v \<Rightarrow> (True, str ''ostree chunk'', v)
          | OstreeChunkCompleted v \<Rightarrow> (False, str ''ostree chunk'', v)
          | DerivedLayerStarted v \<Rightarrow> (True, str ''layer'', v)
          | DerivedLayerCompleted v \<Rightarrow> (False, str ''layer'', v));
          short_digest = take (12 + 7) (dg_hex (d_digest layer))
      in if starting
         then str ''Fetching '' @ s @ str '' '' @ short_digest @ str '' ('' @ format_size (d_size layer) @ str '')''
         else str ''Fetched '' @ s @ str '' '' @ short_digest)"

definition pad_left4 :: "rstr \<Rightarrow> rstr" where
  "pad_left4 s = s @ replicate (4 - length s) 32"

definition manifest_diff_print :: "(u64 \<Rightarrow> rstr) \<Rightarrow> manifest_diff \<Rightarrow> rstr list" where
  "manifest_diff_print format_size d =
     [str ''Total new layers: '' @ pad_left4 (fmt_dec (unat (md_total d))) @ str ''  Size: '' @ format_size (md_total_size d),
      str ''Removed layers:   '' @ pad_left4 (fmt_dec (unat (md_n_removed d))) @ str ''  Size: '' @ format_size (md_removed_size d),
      str ''Added layers:     '' @ pad_left4 (fmt_dec (unat (md_n_added d))) @ str ''  Size: '' @ format_size (md_added_size d)]"

text \<open>A string cut after a number of bytes; \<open>None\<close> inside a character or past the end.\<close>

fun take_bytes :: "nat \<Rightarrow> rstr \<Rightarrow> rstr option" where
  "take_bytes n [] = (if n = 0 then Some [] else None)"
| "take_bytes n (c # cs) =
     (if n = 0 then Some []
      else if utf8_width c \<le> n then map_option (Cons c) (take_bytes (n - utf8_width c) cs)
      else None)"

text \<open>The text printed for a column, and the width that remains of the terminal's.\<close>

definition print_column :: "rstr \<Rightarrow> nat \<Rightarrow> nat \<Rightarrow> (rstr \<times> nat) result" where
  "print_column s clen rest =
     and_then (ensure (str_len s < 2 ^ 16) (Panic ''try_into().unwrap()'')) (\<lambda>_.
     let l = min (str_len s) rest
     in and_then (ok_or (Panic ''byte index is not a char boundary'') (take_bytes l s)) (\<lambda>text.
        if 0 < clen then
          let pad = (clen - l) + 2
          in and_then (ensure (l + pad < 2 ^ 16) (Panic ''attempt to add with overflow'')) (\<lambda>_.
             and_then (ensure (l + pad \<le> rest) (Panic ''checked_sub().unwrap()'')) (\<lambda>_.
             Inr (text @ replicate pad 32, rest - (l + pad))))
        else Inr (text, rest)))"

definition history_columns :: "(rstr \<times> nat) list" where
  "history_columns = [(str ''ID'', 20), (str ''SIZE'', 10), (str ''CREATED BY'', 0)]"

definition print_columns :: "(rstr \<times> nat) list \<Rightarrow> nat \<Rightarrow> rstr result" where
  "print_columns cols width =
     and_then (try_fold (\<lambda>(s, clen) (line, rest).
         and_then (print_column s clen rest) (\<lambda>(text, rest). Inr (line @ text, rest)))
       cols ([], width)) (\<lambda>(line, _). Inr line)"

definition history_line :: "(u64 \<Rightarrow> rstr) \<Rightarrow> nat \<Rightarrow> descriptor \<Rightarrow> history option \<Rightarrow> rstr result" where
  "history_line format_size width layer histent =
     (let created_by = (case Option.bind histent h_created_by of Some c \<Rightarrow> c | None \<Rightarrow> []);
          digest = dg_hex (d_digest layer)
      in and_then (ensure (list_all (\<lambda>c. c < 128) digest) (Panic ''assertion failed: digest.is_ascii()'')) (\<lambda>_.
         and_then (ok_or (Panic ''byte index out of bounds'') (take_bytes 20 digest)) (\<lambda>digest.
         print_columns [(digest, 20), (format_size (d_size layer), 10), (created_by, 0)] width)))"

definition container_history ::
  "('s, 'z) ostree_repo_scheme \<Rightarrow> oci_json \<Rightarrow> (u64 \<Rightarrow> rstr) \<Rightarrow> nat option \<Rightarrow> image_reference \<Rightarrow> ('s \<times> rstr list, unit) action" where
  "container_history repo js format_size terminal_width imgref =
     act_bind (in_base (act_query (\<lambda>s. query_image repo js s imgref))) (\<lambda>img.
     act_bind (act_result (ok_or (Err ''No such image'') img)) (\<lambda>img.
     let width = (case terminal_width of Some w \<Rightarrow> w | None \<Rightarrow> 80);
         hist = map Some (c_history (ls_configuration img)) @ replicate (length (m_layers (ls_manifest img))) None
     in act_bind (act_result (print_columns history_columns width)) (\<lambda>header.
        act_bind (say header) (\<lambda>_.
        act_fold (\<lambda>(layer, histent) _. act_bind (act_result (history_line format_size width layer histent)) say)
          (zip (m_layers (ls_manifest img)) hist) ()))))"

definition container_info ::
  "'i image_proxy \<Rightarrow> oci_json \<Rightarrow> ostree_image_reference \<Rightarrow> ('s \<times> rstr list, unit) action" where
  "container_info proxy js imgref =
     act_bind (act_result (fetch_manifest proxy js imgref)) (\<lambda>(_, digest).
     say (ostree_image_reference_fmt False imgref @ str '' digest: '' @ digest_to_string digest))"

definition container_compare ::
  "'i image_proxy \<Rightarrow> oci_json \<Rightarrow> (u64 \<Rightarrow> rstr) \<Rightarrow> ostree_image_reference \<Rightarrow> ostree_image_reference \<Rightarrow> ('s \<times> rstr list, unit) action" where
  "container_compare proxy js format_size imgref_old imgref_new =
     act_bind (act_result (fetch_manifest proxy js imgref_old)) (\<lambda>(manifest_old, _).
     act_bind (act_result (fetch_manifest proxy js imgref_new)) (\<lambda>(manifest_new, _).
     say_all (manifest_diff_print format_size (manifest_diff_new manifest_old manifest_new))))"

definition image_list_command :: "('s, 'z) ostree_repo_scheme \<Rightarrow> ('s \<times> rstr list, unit) action" where
  "image_list_command repo = act_bind (in_base (act_query (list_images repo))) say_all"

definition image_metadata_command ::
  "('s, 'z) ostree_repo_scheme \<Rightarrow> oci_json \<Rightarrow> image_reference \<Rightarrow> bool \<Rightarrow> ('s \<times> rstr list, unit) action" where
  "image_metadata_command repo js imgref config =
     act_bind (in_base (act_query (\<lambda>s. query_image repo js s imgref))) (\<lambda>img.
     act_bind (act_result (ok_or (Err ''No such image'') img)) (\<lambda>img.
     act_bind (act_result (if config then oj_write_config js (ls_configuration img)
                           else oj_write_manifest js (ls_manifest img))) say))"

subsection \<open>Encapsulating\<close>

definition parse_labels :: "rstr list \<Rightarrow> (rstr, rstr) kvmap result" where
  "parse_labels labels =
     and_then (try_map (\<lambda>l. ok_or (Err ''Missing = in label'') (split_once 61 l)) labels) (\<lambda>kvs. Inr (kv_extend [] kvs))"

record raw_meta =
  rm_version :: u32
  rm_created :: "rstr option"
  rm_labels :: "(rstr, rstr) kvmap option"
  rm_layers :: "(rstr \<times> rstr) list"
  rm_mapping :: "(rstr \<times> rstr) list"
  rm_ordered :: "bool option"

definition raw_meta_layer :: "rstr \<times> rstr \<Rightarrow> object_source_meta_sized" where
  "raw_meta_layer = (\<lambda>(k, v). \<lparr>oms_meta = \<lparr>osm_identifier = k, osm_name = v, osm_srcid = k, osm_change_time_offset = 1,
     osm_change_frequency = (if k = str ''unpackaged'' then 2 ^ 32 - 1 else 1)\<rparr>, oms_size = 1\<rparr>)"

definition check_raw_meta :: "raw_meta \<Rightarrow> unit result" where
  "check_raw_meta raw =
     and_then (ensure (rm_version raw = 1) (Err ''Unsupported metadata version'')) (\<lambda>_.
     ensure (rm_ordered raw \<noteq> Some True) (Err ''Ordered mapping not currently supported.''))"

record container_export_args =
  ca_authfile :: "rstr option"
  ca_copy_meta_keys :: "rstr list"
  ca_copy_meta_opt_keys :: "rstr list"
  ca_container_config :: "container_config option"
  ca_cmd :: "rstr list option"
  ca_compression_fast :: bool

text \<open>The configuration and the options passed on; \<open>raw\<close> is the file named by the \<^verbatim>\<open>contentmeta\<close> option.\<close>

definition container_export_opts ::
  "container_export_args \<Rightarrow> (rstr, rstr) kvmap \<Rightarrow> raw_meta option \<Rightarrow> (encap_config \<times> export_opts) result" where
  "container_export_opts args labels raw =
     and_then (case raw of None \<Rightarrow> Inr () | Some raw \<Rightarrow> check_raw_meta raw) (\<lambda>_.
     let contentmeta_data = map_option (\<lambda>raw. \<lparr>oz_map = rm_mapping raw, oz_sizes = map raw_meta_layer (rm_layers raw)\<rparr>) raw;
         created = Option.bind raw rm_created;
         labels = kv_extend labels (case Option.bind raw rm_labels of Some l \<Rightarrow> l | None \<Rightarrow> [])
     in and_then (case contentmeta_data of
            None \<Rightarrow> Inr None
          | Some m \<Rightarrow> and_then (ensure (length (oz_sizes m) + 1 < 2 ^ 32) (Panic ''try_into().unwrap()''))
                        (\<lambda>_. Inr (Some (length (oz_sizes m) + 1)))) (\<lambda>max_layers.
        Inr (\<lparr>ec_labels = Some labels, ec_cmd = ca_cmd args\<rparr>,
          \<lparr>eo_skip_compression = ca_compression_fast args, eo_copy_meta_keys = ca_copy_meta_keys args,
           eo_copy_meta_opt_keys = ca_copy_meta_opt_keys args, eo_max_layers = max_layers, eo_authfile = ca_authfile args,
           eo_legacy_version_label = False, eo_container_config = ca_container_config args, eo_prior_build = None,
           eo_contentmeta = contentmeta_data, eo_created = created\<rparr>)))"

subsection \<open>Importing\<close>

definition container_import ::
  "('s, 'i) import_ctx \<Rightarrow> ('i image_proxy \<times> 'i image_importer) result \<Rightarrow> rstr option \<Rightarrow> ('s world \<times> rstr list, unit) action" where
  "container_import ctx new_importer write_ref =
     act_bind (act_result new_importer) (\<lambda>(proxy, importer).
     act_bind (in_base (unencapsulate (ctx\<lparr>ic_proxy := proxy\<rparr>) importer)) (\<lambda>imp.
     case write_ref of
       Some r \<Rightarrow>
         act_bind (in_base (on_repo (act_update (rp_set_ref (ic_repo ctx) r (Some (im_ostree_commit imp)))))) (\<lambda>_.
         say (str ''Imported: '' @ r @ str '' => '' @ im_ostree_commit imp))
     | None \<Rightarrow> say (str ''Imported: '' @ im_ostree_commit imp)))"

text \<open>\<open>write_check\<close> writes the manifest to the file named by the \<^verbatim>\<open>check\<close> option; \<open>printer\<close> receives the
  progress.\<close>

definition container_store ::
  "('s, 'i) import_ctx \<Rightarrow> ('i image_proxy \<times> 'i image_importer) result \<Rightarrow> (u64 \<Rightarrow> rstr) \<Rightarrow>
   ((rstr, u32) kvmap \<Rightarrow> (rstr \<times> u32) list) \<Rightarrow> (import_progress \<Rightarrow> unit result) option \<Rightarrow> ostree_image_reference \<Rightarrow>
   (image_manifest \<Rightarrow> unit result) option \<Rightarrow> ('s world \<times> rstr list, unit) action" where
  "container_store ctx new_importer format_size order printer imgref write_check =
     act_bind (act_result new_importer) (\<lambda>(proxy, imp).
     let ctx = ctx\<lparr>ic_proxy := proxy\<rparr>
     in act_bind (in_base (on_repo (prepare ctx imp))) (\<lambda>prep.
        case prep of
          AlreadyPresent c \<Rightarrow>
            say (str ''No changes in '' @ ostree_image_reference_fmt False imgref @ str '' => '' @ ls_merge_commit c)
        | Ready prep \<Rightarrow>
            (case write_check of
               Some write \<Rightarrow> act_result (write (pi_manifest prep))
             | None \<Rightarrow>
                 act_bind (case pi_previous_state prep of
                     Some prev \<Rightarrow> say_all (manifest_diff_print format_size (manifest_diff_new (ls_manifest prev) (pi_manifest prep)))
                   | None \<Rightarrow> act_ret ()) (\<lambda>_.
                 act_bind (case format_layer_status format_size prep of Some status \<Rightarrow> say status | None \<Rightarrow> act_ret ()) (\<lambda>_.
                 act_bind (case printer of Some p \<Rightarrow> act_result (request_progress p imp) | None \<Rightarrow> act_ret imp) (\<lambda>imp.
                 act_bind (in_base (import_image ctx imp prep)) (\<lambda>import.
                 act_bind (in_base (on_repo (act_query (\<lambda>s. image_filtered_content_warning (ic_repo ctx) order s (oir_imgref imgref))))) (\<lambda>_.
                 say (str ''Wrote: '' @ ostree_image_reference_fmt False imgref @ str '' => '' @ ls_merge_commit import)))))))))"

subsection \<open>Removing and pruning\<close>

definition remove_command ::
  "('s, 'z) ostree_repo_scheme \<Rightarrow> oci_json \<Rightarrow> image_reference list \<Rightarrow> bool \<Rightarrow> ('s \<times> rstr list, unit) action" where
  "remove_command repo js imgrefs skip_gc =
     act_bind (in_base (\<lambda>s. let (s', r) = remove_images repo imgrefs s in (r, s'))) (\<lambda>_.
     if \<not> skip_gc then
       act_bind (in_base (gc_image_layers repo js)) (\<lambda>nlayers.
       say (str ''Removed images: '' @ fmt_dec (length imgrefs) @ str '' layers: '' @ fmt_dec (unat nlayers)))
     else say (str ''Removed images: '' @ fmt_dec (length imgrefs)))"

definition prune_layers_command :: "('s, 'z) ostree_repo_scheme \<Rightarrow> oci_json \<Rightarrow> ('s \<times> rstr list, unit) action" where
  "prune_layers_command repo js =
     act_bind (in_base (gc_image_layers repo js)) (\<lambda>nlayers.
     say (str ''Removed layers: '' @ fmt_dec (unat nlayers)))"

definition prune_images_command ::
  "('s, 'z) ostree_repo_scheme \<Rightarrow> oci_json \<Rightarrow> (u64 \<Rightarrow> rstr) \<Rightarrow> ('s, int \<times> u64) action \<Rightarrow> keyfile option list \<Rightarrow> bool \<Rightarrow> bool \<Rightarrow>
   ('s \<times> rstr list, unit) action" where
  "prune_images_command repo js format_size prune_objects deployments and_layers full =
     (if full then
        act_bind (in_base (prune repo js prune_objects deployments)) (\<lambda>res.
        if pruned_is_empty res then say (str ''No content was pruned.'')
        else say_all [str ''Removed images: '' @ fmt_dec (unat (pr_n_images res)),
               str ''Removed layers: '' @ fmt_dec (unat (pr_n_layers res)),
               str ''Removed objects: '' @ fmt_dec (unat (pr_n_objects_pruned res)),
               str ''Freed: '' @ format_size (pr_objsize res)])
      else
        act_bind (in_base (remove_undeployed_images repo deployments)) (\<lambda>removed.
        if removed = [] then say (str ''No unreferenced images.'')
        else act_bind (say_all (map (\<lambda>i. str ''Removed: '' @ image_reference_fmt i) removed)) (\<lambda>_.
             if and_layers then
               act_bind (in_base (gc_image_layers repo js)) (\<lambda>nlayers.
               say (str ''Removed layers: '' @ fmt_dec (unat nlayers)))
             else act_ret ())))"

subsection \<open>Deploying\<close>

record deploy_args =
  da_stateroot :: "rstr option"
  da_imgref :: "rstr option"
  da_image :: "rstr option"
  da_transport :: "rstr option"
  da_no_signature_verification :: bool
  da_enforce_container_sigpolicy :: bool
  da_ostree_remote :: "rstr option"
  da_target_imgref :: "ostree_image_reference option"
  da_no_imgref :: bool
  da_karg :: "rstr list option"

definition STATEROOT_DEFAULT :: rstr where "STATEROOT_DEFAULT = str ''default''"

text \<open>\<open>booted\<close> is the stateroot of the booted deployment.\<close>

definition deploy_stateroot :: "rstr option \<Rightarrow> deploy_args \<Rightarrow> rstr" where
  "deploy_stateroot booted args =
     (case da_stateroot args of
        Some s \<Rightarrow> s
      | None \<Rightarrow> (case booted of Some s \<Rightarrow> s | None \<Rightarrow> STATEROOT_DEFAULT))"

definition deploy_imgref :: "deploy_args \<Rightarrow> ostree_image_reference result" where
  "deploy_imgref args =
     (let no_signature_verification = (\<not> da_enforce_container_sigpolicy args)
      in case da_image args of
           Some name \<Rightarrow>
             and_then (transport_try_from (case da_transport args of Some t \<Rightarrow> t | None \<Rightarrow> str ''registry'')) (\<lambda>transport.
             let sigverify =
               (if no_signature_verification then ContainerPolicyAllowInsecure
                else case da_ostree_remote args of Some remote \<Rightarrow> OstreeRemote remote | None \<Rightarrow> ContainerPolicy)
             in Inr \<lparr>oir_sigverify = sigverify, oir_imgref = \<lparr>ir_transport = transport, ir_name = name\<rparr>\<rparr>)
         | None \<Rightarrow>
             and_then (ok_or (Panic ''imgref option should be set'') (da_imgref args)) ostree_image_reference_try_from)"

text \<open>\<open>write_commitid\<close> writes the file named by the \<^verbatim>\<open>write_commitid_to\<close> option.\<close>

definition deploy_command ::
  "'f sysroot \<Rightarrow> ('f proxy_config \<Rightarrow> 'i image_proxy result) \<Rightarrow> ('s, 'i) import_ctx \<Rightarrow> ((rstr, u32) kvmap \<Rightarrow> (rstr \<times> u32) list) \<Rightarrow>
   rstr option \<Rightarrow> deploy_args \<Rightarrow> 'f proxy_config \<Rightarrow> (rstr \<Rightarrow> unit result) option \<Rightarrow> ('s world \<times> sysroot_call list, unit) action" where
  "deploy_command sys start_proxy ctx order booted args proxyopts write_commitid =
     (let stateroot = deploy_stateroot booted args
      in act_bind (act_result (deploy_imgref args)) (\<lambda>imgref.
         let options = \<lparr>do_kargs = da_karg args, do_target_imgref = da_target_imgref args, do_proxy_cfg = Some proxyopts,
                        do_no_imgref = da_no_imgref args, do_no_clean = False\<rparr>
         in act_bind (deploy sys start_proxy ctx stateroot imgref options) (\<lambda>state.
            let wrote_imgref = (case da_target_imgref args of Some t \<Rightarrow> t | None \<Rightarrow> imgref)
            in act_bind (on_world (on_repo (act_query (\<lambda>s.
                   image_filtered_content_warning (ic_repo ctx) order s (oir_imgref wrote_imgref))))) (\<lambda>_.
               case write_commitid of Some write \<Rightarrow> act_result (write (ls_merge_commit state)) | None \<Rightarrow> act_ret ()))))"

subsection \<open>Signing and repairing\<close>

text \<open>\<open>begin_tx\<close> starts a transaction, \<open>commit_tx\<close> ends it; a transaction that is not committed is undone.\<close>

definition ima_sign_command ::
  "'s ima_env \<Rightarrow> ('s \<Rightarrow> 's result) \<Rightarrow> (rstr \<Rightarrow> rstr \<Rightarrow> 's \<Rightarrow> 's) \<Rightarrow> ('s \<Rightarrow> 's result) \<Rightarrow> nat \<Rightarrow> ima_opts \<Rightarrow> rstr \<Rightarrow> rstr \<Rightarrow>
   's \<Rightarrow> rstr result \<times> 's" where
  "ima_sign_command env begin_tx set_ref commit_tx fuel signopts src_rev target_ref s =
     (case act_bind (act_update begin_tx) (\<lambda>_.
           act_bind (ima_sign env signopts fuel src_rev) (\<lambda>signed_commit.
           act_bind (act_update (\<lambda>s. commit_tx (set_ref target_ref signed_commit s))) (\<lambda>_.
           act_ret (target_ref @ str '' => '' @ signed_commit)))) s of
        (Inr c, s') \<Rightarrow> (Inr c, s')
      | (Inl e, _) \<Rightarrow> (Inl e, s))"

definition remount_command :: "rstr \<Rightarrow> command" where
  "remount_command sysroot = (command_new (str ''mount''))\<lparr>cmd_args := [str ''-o'', str ''remount,rw'', sysroot]\<rparr>"

definition container_remount_sysroot :: "bool \<Rightarrow> (command \<Rightarrow> bool result) \<Rightarrow> rstr \<Rightarrow> unit result" where
  "container_remount_sysroot in_container run sysroot =
     (if \<not> in_container then Inr ()
      else and_then (run (remount_command sysroot)) (\<lambda>ok. ensure ok (Err ''Failed to remount'')))"

text \<open>\<open>serialize\<close> writes the result to the file named by the \<^verbatim>\<open>write_result_to\<close> option.\<close>

definition analyze_inodes_command ::
  "objects_child result list result \<Rightarrow> (inode_check \<Rightarrow> unit result) \<Rightarrow> rstr result" where
  "analyze_inodes_command objects serialize =
     and_then (check_inode_collision objects) (\<lambda>check_res.
     and_then (serialize check_res) (\<lambda>_.
     Inr (if ik_collisions check_res = {} then str ''OK: No colliding objects found.''
          else str ''warning: '' @ fmt_dec (card (ik_collisions check_res)) @ str '' potentially colliding inodes found'')))"

definition repair_command ::
  "('s, 'z) ostree_repo_scheme \<Rightarrow> oci_json \<Rightarrow> 's repair_env \<Rightarrow> unit result \<Rightarrow> rstr option \<Rightarrow> rstr option \<Rightarrow>
   (repair_result \<Rightarrow> unit result) \<Rightarrow> bool \<Rightarrow> ('s, unit) action" where
  "repair_command repo js env remounted booted staged serialize dry_run =
     act_bind (act_result remounted) (\<lambda>_.
     act_bind (act_query (analyze_for_repair repo js env booted staged)) (\<lambda>result.
     act_bind (act_result (serialize result)) (\<lambda>_.
     if dry_run then act_result (repair_result_check result) else repair repo result)))"

section \<open>Lemmas\<close>

lemma in_base_Inr [act_simps]: "in_base m (s, out) = (Inr x, so) \<longleftrightarrow> (\<exists>s'. m s = (Inr x, s') \<and> so = (s', out))"
  by (auto simp: in_base_def Let_def split: prod.splits)

lemma say_app [simp, act_simps]: "say l (s, out) = (r, so) \<longleftrightarrow> r = Inr () \<and> so = (s, out @ [l])"
  by (auto simp: say_def)

subsection \<open>Columns\<close>

lemma take_bytes_len: "take_bytes n s = Some t \<Longrightarrow> str_len t = n"
  by (induction n s arbitrary: t rule: take_bytes.induct) (auto simp: str_len_def split: if_splits)

lemma str_len_spaces [simp]: "str_len (replicate n 32) = n"
  by (induction n) (simp_all add: str_len_def utf8_width_def)

lemma str_len_space_Cons [simp]: "str_len (32 # s) = Suc (str_len s)"
  by (simp add: str_len_def utf8_width_def)

lemma print_column_width:
  assumes "print_column s clen rest = Inr (piece, rest')"
  shows "str_len piece \<le> rest" "0 < clen \<Longrightarrow> str_len piece + rest' = rest"
  using assms by (auto simp: print_column_def result_simps Let_def take_bytes_len split: if_splits)

lemma print_columns_prefix:
  assumes "try_fold (\<lambda>(s, clen) (line, rest).
      and_then (print_column s clen rest) (\<lambda>(piece, rest). Inr (line @ piece, rest))) cols (line, rest) = Inr (line', rest')"
    and "list_all (\<lambda>(_, clen). 0 < clen) cols"
  shows "str_len line' + rest' = str_len line + rest"
  using assms
proof (induction cols arbitrary: line rest)
  case (Cons c cols)
  obtain s clen where c: "c = (s, clen)" by force
  from Cons.prems c obtain piece left1 where p: "print_column s clen rest = Inr (piece, left1)"
    by (cases "print_column s clen rest") auto
  have "str_len line' + rest' = str_len (line @ piece) + left1"
    by (rule Cons.IH) (use Cons.prems c p in auto)
  then show ?case
    using print_column_width(2) [OF p] Cons.prems(2) c by simp
qed simp

lemma print_columns_fit:
  assumes "print_columns (cols @ [(s, 0)]) width = Inr line" "list_all (\<lambda>(_, clen). 0 < clen) cols"
  shows "str_len line \<le> width"
proof -
  obtain line1 rest piece rest' where p:
      "try_fold (\<lambda>(s, clen) (line, rest).
         and_then (print_column s clen rest) (\<lambda>(piece, rest). Inr (line @ piece, rest))) cols ([], width) = Inr (line1, rest)"
      "print_column s 0 rest = Inr (piece, rest')" "line = line1 @ piece"
    using assms(1) by (auto simp: print_columns_def try_fold_append result_simps)
  from print_columns_prefix [OF p(1) assms(2)] print_column_width(1) [OF p(2)] p(3) show ?thesis
    by (simp add: str_len_def)
qed

lemma history_line_fits:
  assumes "history_line format_size width layer histent = Inr line"
  shows "str_len line \<le> width"
proof -
  obtain a b c where "print_columns ([(a, 20), (b, 10)] @ [(c, 0)]) width = Inr line"
    using assms by (auto simp: history_line_def result_simps Let_def)
  then show ?thesis by (rule print_columns_fit) simp
qed

lemma print_column_room: "print_column s clen rest = Inr (piece, rest') \<Longrightarrow> 0 < clen \<Longrightarrow> clen + 2 + rest' \<le> rest"
  by (auto simp: print_column_def result_simps Let_def)

lemma history_header_fits:
  assumes "print_columns history_columns width = Inr line"
  shows "34 \<le> width" "str_len line \<le> width"
proof -
  obtain a ra b rb where p: "print_column (str ''ID'') 20 width = Inr (a, ra)" "print_column (str ''SIZE'') 10 ra = Inr (b, rb)"
    using assms by (auto simp: print_columns_def history_columns_def result_simps)
  from print_column_room [OF p(1)] print_column_room [OF p(2)] show "34 \<le> width" by simp
  from assms show "str_len line \<le> width"
    unfolding history_columns_def
    by (intro print_columns_fit [of "[(str ''ID'', 20), (str ''SIZE'', 10)]" "str ''CREATED BY''"]) simp_all
qed

text \<open>A relation on the states of a repository, for actions that print.\<close>

definition base_rel :: "('s \<Rightarrow> 's \<Rightarrow> bool) \<Rightarrow> 's \<times> rstr list \<Rightarrow> 's \<times> rstr list \<Rightarrow> bool" where
  "base_rel R x y \<longleftrightarrow> R (fst x) (fst y)"

lemma base_rel_preorder [leads_intros]: "reflp R \<Longrightarrow> reflp (base_rel R)" "transp R \<Longrightarrow> transp (base_rel R)"
  by (auto simp: base_rel_def reflp_def transp_def)

lemma leads_say [leads_intros]: "reflp R \<Longrightarrow> leads (base_rel R) (say l)"
  by (auto simp: leads_def say_def base_rel_def reflp_def)

lemma leads_in_base [leads_intros]: "leads R m \<Longrightarrow> leads (base_rel R) (in_base m)"
  by (auto simp: leads_def in_base_def base_rel_def Let_def split: prod.split) (metis snd_conv)

lemma leads_say_all [leads_intros]: "reflp R \<Longrightarrow> transp R \<Longrightarrow> leads (base_rel R) (say_all ls)"
  unfolding say_all_def by (intro leads_intros)

lemma eq_preorder: "reflp (=)" "transp (=)"
  by (simp_all add: reflp_def transp_def)

lemma leads_case_prod [leads_intros]: "(\<And>a b. leads R (f a b)) \<Longrightarrow> leads R (case_prod f x)"
  by (cases x) simp

lemma container_history_reads: "leads (base_rel (=)) (container_history repo js format_size terminal_width imgref)"
  unfolding container_history_def Let_def by (intro leads_intros eq_preorder; auto intro!: leads_intros eq_preorder)

lemma history_lines:
  assumes "act_fold (\<lambda>(layer, histent) _. act_bind (act_result (history_line format_size width layer histent)) say)
      entries () (s, out) = (Inr (), (s', out'))"
  shows "s' = s \<and> (\<exists>lines. out' = out @ lines \<and> list_all2 (\<lambda>(layer, histent) l. history_line format_size width layer histent = Inr l)
    entries lines)"
  using assms
proof (induction entries arbitrary: out)
  case (Cons e entries)
  obtain layer histent where e: "e = (layer, histent)" by force
  from Cons.prems e obtain l where l: "history_line format_size width layer histent = Inr l"
      "act_fold (\<lambda>(layer, histent) _. act_bind (act_result (history_line format_size width layer histent)) say)
         entries () (s, out @ [l]) = (Inr (), (s', out'))"
    by (auto simp: act_simps)
  from Cons.IH [OF l(2)] obtain lines where "s' = s" "out' = out @ l # lines"
      "list_all2 (\<lambda>(layer, histent) l. history_line format_size width layer histent = Inr l) entries lines"
    by auto
  with l(1) e show ?case by (intro conjI exI [of _ "l # lines"]) auto
qed auto

subsection \<open>Removing\<close>

text \<open>The refs of some images.\<close>

definition image_refs :: "image_reference list \<Rightarrow> rstr set" where
  "image_refs imgs = {r. \<exists>img \<in> set imgs. ref_for_image img = Inr r}"

lemma image_ref_no_layer: "under LAYER_PREFIX r \<Longrightarrow> r \<notin> image_refs imgs"
  using ref_for_under(3) ref_prefixes(3) by (auto simp: image_refs_def)

lemma remove_image_ok:
  assumes "refs_spec repo refs_of" "remove_image repo img s = Inr (found, s')"
  shows "is_ok (ref_for_image img)" "refs_of s' = (\<lambda>r. if ref_for_image img = Inr r then None else refs_of s r)"
    "rp_load_commit repo s' = rp_load_commit repo s" "rp_detached repo s' = rp_detached repo s"
proof -
  obtain r where r: "ref_for_image img = Inr r"
      "if refs_of s r \<noteq> None then rp_set_ref repo r None s = Inr s' else s' = s"
    using assms(2) resolve_image(1) [OF assms(1)] by (auto simp: remove_image_def result_simps split: if_splits)
  then show "is_ok (ref_for_image img)" "refs_of s' = (\<lambda>r. if ref_for_image img = Inr r then None else refs_of s r)"
      "rp_load_commit repo s' = rp_load_commit repo s" "rp_detached repo s' = rp_detached repo s"
    using refs_specD(5-7) [OF assms(1)] by (auto simp: fun_eq_iff split: if_splits)
qed

lemma remove_images_loop_ok:
  assumes "refs_spec repo refs_of" "remove_images_loop repo imgs missing s = (s', Inr missing')"
  shows "refs_of s' = (\<lambda>r. if r \<in> image_refs imgs then None else refs_of s r) \<and>
    rp_load_commit repo s' = rp_load_commit repo s \<and> rp_detached repo s' = rp_detached repo s \<and>
    (\<forall>img \<in> set imgs. is_ok (ref_for_image img))"
  using assms(2)
proof (induction imgs arbitrary: missing s)
  case (Cons img imgs)
  then obtain found s1 where s1: "remove_image repo img s = Inr (found, s1)"
      "remove_images_loop repo imgs (if found then missing else missing @ [img]) s1 = (s', Inr missing')"
    by (auto split: sum.splits)
  with Cons.IH [OF s1(2)] remove_image_ok [OF assms(1) s1(1)] show ?case
    by (auto simp: image_refs_def fun_eq_iff)
qed (simp add: image_refs_def)

lemma remove_images_ok:
  assumes "refs_spec repo refs_of" "remove_images repo imgs s = (s', Inr u)"
  shows "refs_of s' = (\<lambda>r. if r \<in> image_refs imgs then None else refs_of s r)"
    "rp_load_commit repo s' = rp_load_commit repo s" "rp_detached repo s' = rp_detached repo s"
    "img \<in> set imgs \<Longrightarrow> is_ok (ref_for_image img)"
proof -
  obtain missing where "remove_images_loop repo imgs [] s = (s', Inr missing)"
    using assms(2) by (auto simp: remove_images_def Let_def result_simps split: prod.splits)
  from remove_images_loop_ok [OF assms(1) this]
  show "refs_of s' = (\<lambda>r. if r \<in> image_refs imgs then None else refs_of s r)"
    "rp_load_commit repo s' = rp_load_commit repo s" "rp_detached repo s' = rp_detached repo s"
    "img \<in> set imgs \<Longrightarrow> is_ok (ref_for_image img)" by simp_all
qed

text \<open>The repository after removing images and collecting layers.\<close>

lemma remove_then_gc:
  assumes "refs_spec repo refs_of" "json_valid js" "layer_refs_canonical (refs_of s)"
    and "remove_images repo imgs s = (s1, Inr u)" "gc_image_layers repo js s1 = (Inr n, s')"
  obtains ms where "all_manifests repo js s1 = Inr ms"
    and "refs_of s' = (\<lambda>r. if r \<in> image_refs imgs \<or> under LAYER_PREFIX r \<and> r \<notin> layer_refs ms then None else refs_of s r)"
    and "rp_load_commit repo s' = rp_load_commit repo s" "rp_detached repo s' = rp_detached repo s"
    and "unat n = card {r. under LAYER_PREFIX r \<and> refs_of s r \<noteq> None \<and> refs_of s' r = None} mod 2 ^ 32"
proof -
  note s1 = remove_images_ok [OF assms(1,4)]
  have canon: "layer_refs_canonical (refs_of s1)"
    using assms(3) by (auto simp: layer_refs_canonical_def s1(1))
  obtain ms where ms: "all_manifests repo js s1 = Inr ms"
    using assms(5) by (auto simp: gc_image_layers_Inr)
  have valid: "\<forall>m \<in> set ms. list_all (\<lambda>l. valid_str (digest_to_string (d_digest l))) (m_layers m)"
    using all_manifests_valid [OF assms(2) ms] by blast
  note s' = gc_image_layers_refs [OF assms(1) canon ms valid assms(5)]
  have refs': "refs_of s' = (\<lambda>r. if r \<in> image_refs imgs \<or> under LAYER_PREFIX r \<and> r \<notin> layer_refs ms then None else refs_of s r)"
    by (auto simp: s'(1) s1(1) fun_eq_iff)
  have "{r. under LAYER_PREFIX r \<and> refs_of s1 r \<noteq> None \<and> r \<notin> layer_refs ms} =
      {r. under LAYER_PREFIX r \<and> refs_of s r \<noteq> None \<and> refs_of s' r = None}"
    using image_ref_no_layer by (auto simp: refs' s1(1))
  then have "unat n = card {r. under LAYER_PREFIX r \<and> refs_of s r \<noteq> None \<and> refs_of s' r = None} mod 2 ^ 32"
    using s'(5) by (simp add: unat_of_nat)
  with that ms refs' s'(2,3) s1(2,3) show ?thesis by simp
qed

lemma remove_then_gc_keeps:
  assumes "refs_spec repo refs_of" "json_valid js" "layer_refs_canonical (refs_of s)"
    and "remove_images repo imgs s = (s1, Inr u)" "gc_image_layers repo js s1 = (Inr n, s')"
    and "storable_imgref img" "ref_for_image img = Inr r" "r \<notin> image_refs imgs"
  shows "query_image repo js s' img = query_image repo js s img"
proof (rule remove_then_gc [OF assms(1-5)])
  fix ms assume ms: "all_manifests repo js s1 = Inr ms"
    and refs': "refs_of s' = (\<lambda>r. if r \<in> image_refs imgs \<or> under LAYER_PREFIX r \<and> r \<notin> layer_refs ms then None else refs_of s r)"
    and load: "rp_load_commit repo s' = rp_load_commit repo s" "rp_detached repo s' = rp_detached repo s"
  note s1 = remove_images_ok [OF assms(1,4)]
  have r': "refs_of s' r = refs_of s r" "refs_of s1 r = refs_of s r"
    using ref_for_under(3) [OF assms(7)] ref_prefixes(3) [of r] assms(8) by (auto simp: refs' s1(1))
  have "query_image_commit repo js s' c = query_image_commit repo js s c" if c: "refs_of s r = Some c" for c
  proof (rule query_image_commit_cong [OF assms(1)])
    fix co m d l q
    assume co: "rp_load_commit repo s c = Inr co" "manifest_data_from_commitmeta js (co_metadata co) = Inr (m, d)"
      and l: "l \<in> set (m_layers m)" "ref_for_layer l = Inr q"
    have "live_commit (refs_of s1) c"
      using assms(6,7) r'(2) c by (auto simp: live_commit_def storable_imgref_def)
    then have "q \<in> layer_refs ms"
      using all_manifests_complete [OF assms(1) ms] co l by (auto simp: layer_refs_def s1(2))
    then show "refs_of s' q = refs_of s q"
      using image_ref_no_layer ref_for_under(1) [OF l(2)] by (simp add: refs')
  qed (simp_all add: load)
  with r'(1) show ?thesis
    using resolve_image(1) [OF assms(1,7)] assms(7) by (simp add: query_image_def split: option.split)
qed

section \<open>Properties\<close>

text \<open>C17: removing images from the command line, with the collection of their layers.  When it succeeds, none of
  the given images can be found any more, every other stored image gives the same answer to a query as before, the
  refs of deployments stay, and the line printed has the number of images and the number of layer refs that went,
  as a 32-bit word.\<close>

theorem remove_command_exact:
  assumes "refs_spec repo refs_of" "json_valid js" "layer_refs_canonical (refs_of s)"
    and "remove_command repo js imgs False (s, out) = (Inr (), (s', out'))"
  shows "(\<forall>img \<in> set imgs. query_image repo js s' img = Inr None)
    \<and> (\<forall>img. storable_imgref img \<and> ref_for_image img \<notin> Inr ` image_refs imgs \<longrightarrow>
         query_image repo js s' img = query_image repo js s img)
    \<and> (\<forall>r. \<not> under LAYER_PREFIX r \<and> r \<notin> image_refs imgs \<longrightarrow> refs_of s' r = refs_of s r)
    \<and> out' = out @ [str ''Removed images: '' @ fmt_dec (length imgs) @ str '' layers: '' @
         fmt_dec (card {r. under LAYER_PREFIX r \<and> refs_of s r \<noteq> None \<and> refs_of s' r = None} mod 2 ^ 32)]"
proof -
  obtain s1 n where rm: "remove_images repo imgs s = (s1, Inr ())" and gc: "gc_image_layers repo js s1 = (Inr n, s')"
    and out: "out' = out @ [str ''Removed images: '' @ fmt_dec (length imgs) @ str '' layers: '' @ fmt_dec (unat n)]"
    using assms(4) by (auto simp: remove_command_def act_simps Let_def split: prod.splits)
  obtain ms where s': "refs_of s' = (\<lambda>r. if r \<in> image_refs imgs \<or> under LAYER_PREFIX r \<and> r \<notin> layer_refs ms then None else refs_of s r)"
    and n: "unat n = card {r. under LAYER_PREFIX r \<and> refs_of s r \<noteq> None \<and> refs_of s' r = None} mod 2 ^ 32"
    by (rule remove_then_gc [OF assms(1-3) rm gc])
  have "query_image repo js s' img = Inr None" if img: "img \<in> set imgs" for img
  proof -
    obtain r where r: "ref_for_image img = Inr r"
      using remove_images_ok(4) [OF assms(1) rm img] by (auto simp: is_ok_iff)
    then have "refs_of s' r = None" using img by (auto simp: s' image_refs_def)
    with r show ?thesis using resolve_image(1) [OF assms(1) r, of s'] by (simp add: query_image_def)
  qed
  moreover have "query_image repo js s' img = query_image repo js s img"
    if "storable_imgref img" "ref_for_image img \<notin> Inr ` image_refs imgs" for img
    using that remove_then_gc_keeps [OF assms(1-3) rm gc, of img] ref_for_image_ok [of img]
    by (auto simp: storable_imgref_def is_ok_iff)
  ultimately show ?thesis using out n by (simp add: s')
qed

theorem remove_command_exact_witness:
  "\<exists>s'. remove_command stored_repo stored_json [stored_image] False (stored_state, []) =
     (Inr (), (s', [str ''Removed images: 1 layers: 2''])) \<and> query_image stored_repo stored_json s' stored_image = Inr None"
proof -
  have run: "remove_command stored_repo stored_json [stored_image] False (stored_state, []) =
      (Inr (), ([], [str ''Removed images: 1 layers: 2'']))"
    by code_simp
  from remove_command_exact [OF stored_repo_refs stored_json_valid stored_state_canonical this] run
  show ?thesis by auto
qed

text \<open>C39: the history of an image.  Printing it never changes the repository, whether it succeeds, fails or panics; when
  it succeeds there is one line per layer of the manifest below the header, also where the configuration has less history,
  and no line is longer than the terminal, whose width is then at least 34.\<close>

theorem container_history_fits:
  assumes "container_history repo js format_size terminal_width imgref (s, out) = (r, (s', out'))"
  defines "width \<equiv> (case terminal_width of Some w \<Rightarrow> w | None \<Rightarrow> 80)"
  shows "s' = s \<and> (r = Inr () \<longrightarrow> 34 \<le> width \<and> (\<exists>img lines. query_image repo js s imgref = Inr (Some img) \<and> out' = out @ lines \<and>
    length lines = Suc (length (m_layers (ls_manifest img))) \<and> list_all (\<lambda>l. str_len l \<le> width) lines))"
proof (intro conjI impI)
  show "s' = s" using leadsD [OF container_history_reads assms(1)] by (simp add: base_rel_def)
next
  assume "r = Inr ()"
  obtain img header where img: "query_image repo js s imgref = Inr (Some img)"
    and header: "print_columns history_columns width = Inr header"
    and loop: "act_fold (\<lambda>(layer, histent) _. act_bind (act_result (history_line format_size width layer histent)) say)
      (zip (m_layers (ls_manifest img)) (map Some (c_history (ls_configuration img)) @
        replicate (length (m_layers (ls_manifest img))) None)) () (s, out @ [header]) = (Inr (), (s', out'))"
    using assms(1) \<open>r = Inr ()\<close> unfolding container_history_def
    by (auto simp: act_simps Let_def result_simps width_def)
  from history_lines [OF loop] obtain lines where l: "out' = out @ header # lines"
      "list_all2 (\<lambda>(layer, histent) l. history_line format_size width layer histent = Inr l)
         (zip (m_layers (ls_manifest img)) (map Some (c_history (ls_configuration img)) @
           replicate (length (m_layers (ls_manifest img))) None)) lines"
    by auto
  have "length lines = length (m_layers (ls_manifest img))"
    using list_all2_lengthD [OF l(2)] by simp
  moreover have "list_all (\<lambda>l. str_len l \<le> width) lines"
    using l(2) history_line_fits by (fastforce simp: list_all_iff list_all2_conv_all_nth in_set_conv_nth)
  ultimately show "34 \<le> width" "\<exists>img lines. query_image repo js s imgref = Inr (Some img) \<and> out' = out @ lines \<and>
      length lines = Suc (length (m_layers (ls_manifest img))) \<and> list_all (\<lambda>l. str_len l \<le> width) lines"
    using l(1) img history_header_fits [OF header] by (auto intro!: exI [of _ img] exI [of _ "header # lines"])
qed

definition history_manifest :: image_manifest where
  "history_manifest = stored_manifest\<lparr>m_layers := [stored_layer ''0123456789012345678901234'']\<rparr>"

definition history_json :: oci_json where
  "history_json = stored_json\<lparr>oj_read_manifest := (\<lambda>_. Inr history_manifest)\<rparr>"

definition history_state :: "(rstr \<times> rstr) list" where
  "history_state = (str ''ostree/container/blob/sha256_3A_0123456789012345678901234'', [52]) # stored_state"

theorem container_history_fits_witness:
  "\<exists>s' out'. container_history stored_repo history_json (\<lambda>_. str ''5 bytes'') None stored_image (history_state, []) =
     (Inr (), (s', out')) \<and> s' = history_state \<and> length out' = 2 \<and> list_all (\<lambda>l. str_len l \<le> 80) out'"
proof -
  define out' where "out' = snd (snd (container_history stored_repo history_json (\<lambda>_. str ''5 bytes'') None stored_image
    (history_state, [])))"
  have run: "container_history stored_repo history_json (\<lambda>_. str ''5 bytes'') None stored_image (history_state, []) =
      (Inr (), (history_state, out'))" and len: "length out' = 2"
    unfolding out'_def by code_simp+
  from container_history_fits [OF run] run len show ?thesis by auto
qed

text \<open>On a narrower terminal the command panics, as it does for a text that is cut inside a character.\<close>

lemma history_narrow_terminal:
  assumes "width < 34"
  shows "\<not> is_ok (print_columns history_columns width)"
  using assms history_header_fits(1) [of width] by (auto simp: is_ok_iff)

lemma history_cut_character:
  "print_column (replicate 30 0xE9) 0 41 = Inl (Panic ''byte index is not a char boundary'')"
  by code_simp

text \<open>C18: content metadata from a file.  The options passed on make packing without a prior build put each layer of
  the file into a bin of its own, in the order of the file, followed by the empty reserved bin; but with fewer than
  three layers packing is refused, since the number of bins is then below the minimum.\<close>

theorem contentmeta_one_bin_per_layer:
  assumes "container_export_opts args labels (Some raw) = Inr (config, opts)"
  shows "\<exists>meta n. eo_contentmeta opts = Some meta \<and> eo_max_layers opts = Some n \<and>
    map (osm_identifier \<circ> oms_meta) (oz_sizes meta) = map fst (rm_layers raw) \<and>
    basic_packing (oz_sizes meta) n (eo_prior_build opts) =
      (if 3 \<le> length (rm_layers raw) then Inr (map (\<lambda>c. [c]) (oz_sizes meta) @ [[]])
       else Inl (Err ''bin_size.get() >= MIN_CHUNKED_LAYERS''))"
proof -
  have opts: "eo_contentmeta opts = Some \<lparr>oz_map = rm_mapping raw, oz_sizes = map raw_meta_layer (rm_layers raw)\<rparr>"
      "eo_max_layers opts = Some (length (rm_layers raw) + 1)" "eo_prior_build opts = None"
    using assms by (auto simp: container_export_opts_def result_simps Let_def)
  then show ?thesis
    by (auto simp: basic_packing_def MIN_CHUNKED_LAYERS_def raw_meta_layer_def comp_def case_prod_beta)
qed

definition sample_raw_meta :: raw_meta where
  "sample_raw_meta = \<lparr>rm_version = 1, rm_created = None, rm_labels = Some [(str ''k'', str ''file'')],
     rm_layers = [(str ''a'', str ''A''), (str ''b'', str ''B''), (str ''unpackaged'', str ''C'')],
     rm_mapping = [(str ''0'', str ''a'')], rm_ordered = None\<rparr>"

definition sample_export_args :: container_export_args where
  "sample_export_args = \<lparr>ca_authfile = None, ca_copy_meta_keys = [], ca_copy_meta_opt_keys = [], ca_container_config = None,
     ca_cmd = None, ca_compression_fast = False\<rparr>"

theorem contentmeta_one_bin_per_layer_witness:
  "\<exists>opts meta. container_export_opts sample_export_args [] (Some sample_raw_meta) =
      Inr (\<lparr>ec_labels = Some [(str ''k'', str ''file'')], ec_cmd = None\<rparr>, opts) \<and> eo_contentmeta opts = Some meta \<and>
    basic_packing (oz_sizes meta) 4 None = Inr (map (\<lambda>c. [c]) (oz_sizes meta) @ [[]])"
proof -
  obtain opts where run: "container_export_opts sample_export_args [] (Some sample_raw_meta) =
      Inr (\<lparr>ec_labels = Some [(str ''k'', str ''file'')], ec_cmd = None\<rparr>, opts)"
    and opts: "eo_prior_build opts = None" "eo_max_layers opts = Some 4"
    by (auto simp: container_export_opts_def check_raw_meta_def sample_raw_meta_def sample_export_args_def Let_def kv_extend_def)
  from contentmeta_one_bin_per_layer [OF run] run opts show ?thesis
    by (auto simp: sample_raw_meta_def)
qed

text \<open>A label of the metadata file wins over the same label of the command line.\<close>

lemma metadata_labels_win:
  "map_option (\<lambda>(c, _). ec_labels c) (case container_export_opts sample_export_args [(str ''k'', str ''arg'')] (Some sample_raw_meta) of
      Inr x \<Rightarrow> Some x | Inl _ \<Rightarrow> None) = Some (Some [(str ''k'', str ''file'')])"
  by code_simp

text \<open>Without the option that enforces the container policy a remote given for verification has no effect.\<close>

lemma deploy_remote_ignored:
  assumes "\<not> da_enforce_container_sigpolicy args" "da_image args = Some name" "deploy_imgref args = Inr imgref"
  shows "oir_sigverify imgref = ContainerPolicyAllowInsecure"
  using assms by (auto simp: deploy_imgref_def result_simps Let_def)

end
