(* ===== verification/CliRun.thy ===== *)
theory CliRun
  imports Cli
begin

text \<open>
  The dispatcher of the command line (\<^verbatim>\<open>run_from_opt\<close> in \<^verbatim>\<open>lib/src/cli.rs\<close>) and the options it is given.  A machine has the
  repositories by their paths, the tree of the root directory, the calls made to the sysroot, and what was written to the
  standard output, lines and tar entries.  Repositories share their operations and differ in their states.  The options
  of the features \<^verbatim>\<open>docgen\<close> and \<^verbatim>\<open>internal-testing-api\<close> are left out.
\<close>

section \<open>Definitions\<close>

subsection \<open>Options\<close>

record proxy_opts =
  po_auth_anonymous :: bool
  po_authfile :: "rstr option"
  po_cert_dir :: "rstr option"
  po_insecure_skip_tls_verification :: bool

definition proxy_opts_into :: "proxy_opts \<Rightarrow> 'f proxy_config" where
  "proxy_opts_into opts = \<lparr>pc_auth_anonymous = po_auth_anonymous opts, pc_authfile = po_authfile opts, pc_auth_data = None,
     pc_skopeo_cmd = None, pc_certificate_directory = po_cert_dir opts,
     pc_insecure_skip_tls_verification = Some (po_insecure_skip_tls_verification opts)\<rparr>"

record import_opts =
  ti_repo :: rstr
  ti_path :: "rstr option"

record tar_export_opts =
  tx_repo :: rstr
  tx_format_version :: u32
  tx_rev :: rstr

datatype tar_opts = ImportTar import_opts | ExportTar tar_export_opts

record encapsulate_opts =
  en_repo :: rstr
  en_rev :: rstr
  en_imgref :: image_reference
  en_labels :: "rstr list"
  en_authfile :: "rstr option"
  en_config :: "rstr option"
  en_copy_meta_keys :: "rstr list"
  en_copy_meta_opt_keys :: "rstr list"
  en_cmd :: "rstr list option"
  en_compression_fast :: bool
  en_contentmeta :: "rstr option"

text \<open>The arguments of the constructors are in the order of the source: those of \<open>ImagePull\<close> are the repository, the
  image, the proxy's options, whether to be quiet, and the file of the \<^verbatim>\<open>check\<close> option.\<close>

datatype container_image_opts =
    ImageList rstr
  | ImagePull rstr ostree_image_reference proxy_opts bool "rstr option"
  | ImageHistory rstr image_reference
  | ImageMetadata rstr image_reference bool
  | ImageCopy rstr rstr ostree_image_reference
  | ImageReexport rstr image_reference image_reference "rstr option" bool
  | ReplaceDetachedMetadata image_reference image_reference "rstr option"
  | ImageRemove rstr "image_reference list" bool
  | PruneLayers rstr
  | PruneImages rstr bool bool
  | ImageDeploy "rstr option" deploy_args proxy_opts "rstr option"

datatype container_opts =
    Unencapsulate rstr proxy_opts ostree_image_reference "rstr option" bool
  | Info ostree_image_reference
  | EncapsulateCommit encapsulate_opts
  | ContainerCommit
  | ImageOpts container_image_opts
  | Compare ostree_image_reference ostree_image_reference

datatype repair_opts =
    AnalyzeInodes rstr bool "rstr option"
  | RepairSysroot rstr bool "rstr option" bool

record ima_sign_opts =
  ms_repo :: rstr
  ms_src_rev :: rstr
  ms_target_ref :: rstr
  ms_algorithm :: rstr
  ms_key :: rstr
  ms_overwrite :: bool

datatype opt =
    Tar tar_opts
  | Container container_opts
  | ImaSign ima_sign_opts
  | ProvisionalRepair repair_opts

subsection \<open>The machine\<close>

record 's machine =
  mc_repos :: "rstr \<Rightarrow> 's option"
  mc_root :: fs_node
  mc_calls :: "sysroot_call list"
  mc_out :: "rstr list"
  mc_stream :: "tar_entry list"

text \<open>A loaded sysroot: the path of its repository, its calls, the stateroot of the booted deployment, the commits of the
  booted and the staged one, and the origins of all deployments.\<close>

record 'f loaded_sysroot =
  ss_repo :: rstr
  ss_sysroot :: "'f sysroot"
  ss_booted_stateroot :: "rstr option"
  ss_booted :: "rstr option"
  ss_staged :: "rstr option"
  ss_deployments :: "keyfile option list"

record ('s, 'i, 'f, 'o, 'p) cli_env =
  cv_ctx :: "('s, 'i) import_ctx"
  cv_host :: "'f host"
  cv_start_proxy :: "'f proxy_config \<Rightarrow> 'i image_proxy result"
  cv_ostree_2024_3 :: bool
  cv_load_sysroot :: "rstr option \<Rightarrow> 'f loaded_sysroot result"
  cv_format_size :: "u64 \<Rightarrow> rstr"
  cv_order :: "(rstr, u32) kvmap \<Rightarrow> (rstr \<times> u32) list"
  cv_terminal_width :: "nat option"
  cv_printer :: "import_progress \<Rightarrow> unit result"
  cv_read_archive :: "rstr option \<Rightarrow> tar_entry list result"
  cv_read_config :: "rstr \<Rightarrow> container_config option result"
  cv_read_raw_meta :: "rstr \<Rightarrow> raw_meta result"
  cv_read_file :: "rstr \<Rightarrow> bytes result"
  cv_write_manifest :: "rstr \<Rightarrow> image_manifest \<Rightarrow> unit result"
  cv_write_file :: "rstr \<Rightarrow> rstr \<Rightarrow> unit result"
  cv_write_inode_check :: "rstr \<Rightarrow> inode_check \<Rightarrow> unit result"
  cv_write_repair_result :: "rstr \<Rightarrow> repair_result \<Rightarrow> unit result"
  cv_export_env :: "'s \<Rightarrow> export_env"
  cv_fuel :: "'s \<Rightarrow> nat"
  cv_oci_host :: "'o oci_host"
  cv_reexport_env :: "('s, 'o) reexport_env"
  cv_update :: "('o, 'p) update_env"
  cv_tempdir :: "(rstr \<times> 'o) result"
  cv_pull :: "'s \<Rightarrow> rstr \<Rightarrow> ('s, unit) action"
  cv_prune_objects :: "('s, int \<times> u64) action"
  cv_ima :: "'s ima_env"
  cv_begin_tx :: "'s \<Rightarrow> 's result"
  cv_set_ref :: "rstr \<Rightarrow> rstr \<Rightarrow> 's \<Rightarrow> 's"
  cv_commit_tx :: "'s \<Rightarrow> 's result"
  cv_repair :: "'s repair_env"
  cv_in_containerenv :: bool
  cv_run :: "command \<Rightarrow> bool result"
  cv_in_container :: "unit result"
  cv_fs :: fs_env
  cv_open_dir :: "fs_node \<Rightarrow> rstr \<Rightarrow> rstr list option result"

text \<open>Commands that need no repository.\<close>

definition on_output :: "(unit \<times> rstr list, 'a) action \<Rightarrow> ('s machine, 'a) action" where
  "on_output act m = (let (r, _, out) = act ((), mc_out m) in (r, m\<lparr>mc_out := out\<rparr>))"

text \<open>Opening the repository at a path, and acting on it; nothing is done when there is none.\<close>

definition with_repo :: "rstr \<Rightarrow> ('s \<times> rstr list, 'a) action \<Rightarrow> ('s machine, 'a) action" where
  "with_repo path act m =
     (case mc_repos m path of
        None \<Rightarrow> (Inl (Err ''Opening ostree repository''), m)
      | Some s \<Rightarrow>
          let (r, s', out) = act (s, mc_out m)
          in (r, m\<lparr>mc_repos := (mc_repos m)(path \<mapsto> s'), mc_out := out\<rparr>))"

text \<open>An importer works on a repository and starts without progress messages.\<close>

definition new_world :: "'s \<Rightarrow> 's world" where
  "new_world s = \<lparr>w_repo = s, w_sent = []\<rparr>"

definition in_world :: "('s world \<times> rstr list, 'a) action \<Rightarrow> ('s \<times> rstr list, 'a) action" where
  "in_world act = (\<lambda>(s, out). let (r, w, out') = act (new_world s, out) in (r, (w_repo w, out')))"

text \<open>Acting on the repository of a sysroot, with calls to the sysroot.\<close>

definition with_sysroot :: "rstr \<Rightarrow> ('s world \<times> sysroot_call list, 'a) action \<Rightarrow> ('s machine, 'a) action" where
  "with_sysroot path act m =
     (case mc_repos m path of
        None \<Rightarrow> (Inl (Err ''Opening ostree repository''), m)
      | Some s \<Rightarrow>
          let (r, w, calls) = act (new_world s, mc_calls m)
          in (r, m\<lparr>mc_repos := (mc_repos m)(path \<mapsto> w_repo w), mc_calls := calls\<rparr>))"

subsection \<open>Subcommands that pass their arguments on\<close>

definition new_importer ::
  "('s, 'i, 'f, 'o, 'p) cli_env \<Rightarrow> ostree_image_reference \<Rightarrow> proxy_opts \<Rightarrow> ('i image_proxy \<times> 'i image_importer) result" where
  "new_importer env imgref proxyopts =
     image_importer_new (cv_host env) (cv_start_proxy env) (cv_ostree_2024_3 env) imgref (proxy_opts_into proxyopts)"

definition tar_import :: "('s, 'i, 'f, 'o, 'p) cli_env \<Rightarrow> import_opts \<Rightarrow> ('s machine, unit) action" where
  "tar_import env opts =
     with_repo (ti_repo opts) (
       act_bind (act_result (cv_read_archive env (ti_path opts))) (\<lambda>src.
       act_bind (in_base (in_txn (cv_ctx env) (\<lambda>s.
           and_then (import_tar (rp_import_env (ic_repo (cv_ctx env)) s) src None) (\<lambda>(checksum, log).
           Inr (checksum, [TxnEvents log]))))) (\<lambda>imported.
       say (str ''Imported: '' @ imported))))"

definition tar_export :: "('s, 'i, 'f, 'o, 'p) cli_env \<Rightarrow> tar_export_opts \<Rightarrow> ('s machine, unit) action" where
  "tar_export env opts =
     act_bind (with_repo (tx_repo opts) (in_base (act_query (\<lambda>s.
         export_commit (cv_export_env env s) (cv_fuel env s) (tx_rev opts))))) (\<lambda>entries.
     (\<lambda>m. (Inr (), m\<lparr>mc_stream := mc_stream m @ entries\<rparr>)))"

definition container_export ::
  "('s, 'i, 'f, 'o, 'p) cli_env \<Rightarrow> encapsulate_opts \<Rightarrow> (rstr, rstr) kvmap \<Rightarrow> ('s \<times> rstr list, unit) action" where
  "container_export env opts labels =
     act_bind (act_result (case en_config opts of Some path \<Rightarrow> cv_read_config env path | None \<Rightarrow> Inr None)) (\<lambda>container_config.
     act_bind (act_result (case en_contentmeta opts of
         Some path \<Rightarrow> and_then (cv_read_raw_meta env path) (\<lambda>raw. Inr (Some raw)) | None \<Rightarrow> Inr None)) (\<lambda>raw.
     let args = \<lparr>ca_authfile = en_authfile opts, ca_copy_meta_keys = en_copy_meta_keys opts,
                 ca_copy_meta_opt_keys = en_copy_meta_opt_keys opts, ca_container_config = container_config,
                 ca_cmd = en_cmd opts, ca_compression_fast = en_compression_fast opts\<rparr>
     in act_bind (act_result (container_export_opts args labels raw)) (\<lambda>(config, export_opts).
        act_bind (in_base (act_query (\<lambda>s.
            build_impl (cv_export_env env s) (cv_oci_host env) (fetch_manifest (ic_proxy (cv_ctx env)) (ic_json (cv_ctx env)))
              (cv_fuel env s) (en_rev opts) config export_opts (en_imgref opts)))) (\<lambda>pushed.
        say (digest_to_string pushed)))))"

definition encapsulate_command ::
  "('s, 'i, 'f, 'o, 'p) cli_env \<Rightarrow> encapsulate_opts \<Rightarrow> ('s machine, unit) action" where
  "encapsulate_command env opts =
     (let labels = parse_labels (en_labels opts)
      in with_repo (en_repo opts) (act_bind (act_result labels) (container_export env opts)))"

definition reexport_command ::
  "('s, 'i, 'f, 'o, 'p) cli_env \<Rightarrow> image_reference \<Rightarrow> image_reference \<Rightarrow> rstr option \<Rightarrow> bool \<Rightarrow> ('s \<times> rstr list, unit) action" where
  "reexport_command env src_imgref dest_imgref authfile compression_fast =
     (let opts = \<lparr>xo_skip_compression = compression_fast, xo_authfile = authfile, xo_progress_to_stdout = False\<rparr>
      in act_bind (in_base (act_query (\<lambda>s. export_image (cv_reexport_env env) (ic_repo (cv_ctx env)) (ic_json (cv_ctx env))
             (cv_fuel env s) (cv_oci_host env) s src_imgref dest_imgref opts))) (\<lambda>digest.
         say (str ''Exported: '' @ digest_to_string digest)))"

definition copy_command ::
  "('s, 'i, 'f, 'o, 'p) cli_env \<Rightarrow> rstr \<Rightarrow> rstr \<Rightarrow> ostree_image_reference \<Rightarrow> ('s machine, unit) action" where
  "copy_command env src_repo dest_repo imgref =
     act_bind (with_repo src_repo (in_base (act_query Inr))) (\<lambda>s.
     with_repo dest_repo (in_base (
       copy_image (ic_repo (cv_ctx env)) (ic_json (cv_ctx env)) s (ic_repo (cv_ctx env)) (cv_pull env s)
         (oir_imgref imgref) (oir_imgref imgref))))"

definition replace_detached_command ::
  "('s, 'i, 'f, 'o, 'p) cli_env \<Rightarrow> image_reference \<Rightarrow> image_reference \<Rightarrow> rstr option \<Rightarrow> ('s machine, unit) action" where
  "replace_detached_command env src dest contents =
     act_bind (act_result (case contents of
         Some path \<Rightarrow> and_then (cv_read_file env path) (\<lambda>b. Inr (Some b)) | None \<Rightarrow> Inr None)) (\<lambda>contents.
     act_bind (act_result (cv_tempdir env)) (\<lambda>(tempsrc, w).
     act_bind (act_result (fst (update_detached_metadata (cv_update env) tempsrc src dest contents w))) (\<lambda>digest.
     on_output (say (str ''Pushed: '' @ digest_to_string digest)))))"

definition inodes_command ::
  "('s, 'i, 'f, 'o, 'p) cli_env \<Rightarrow> rstr option \<Rightarrow> ('s \<times> rstr list, unit) action" where
  "inodes_command env write_result_to =
     act_bind (in_base (act_query (\<lambda>s. analyze_inodes_command (rn_objects (cv_repair env) s)
         (case write_result_to of Some path \<Rightarrow> cv_write_inode_check env path | None \<Rightarrow> (\<lambda>_. Inr ()))))) (\<lambda>line.
     if line = str ''OK: No colliding objects found.'' then say line else act_ret ())"

definition repair_sysroot_command ::
  "('s, 'i, 'f, 'o, 'p) cli_env \<Rightarrow> rstr \<Rightarrow> bool \<Rightarrow> rstr option \<Rightarrow> ('s machine, unit) action" where
  "repair_sysroot_command env path dry_run write_result_to =
     act_bind (if cv_in_containerenv env
               then on_output (say (str ''Running in container, assuming we can remount '' @ path @ str '' writable'')) else act_ret ()) (\<lambda>_.
     act_bind (act_result (container_remount_sysroot (cv_in_containerenv env) (cv_run env) path)) (\<lambda>_.
     act_bind (act_result (cv_load_sysroot env (Some path))) (\<lambda>sysroot.
     with_repo (ss_repo sysroot) (in_base (
       repair_command (ic_repo (cv_ctx env)) (ic_json (cv_ctx env)) (cv_repair env) (Inr ()) (ss_booted sysroot) (ss_staged sysroot)
         (case write_result_to of Some path \<Rightarrow> cv_write_repair_result env path | None \<Rightarrow> (\<lambda>_. Inr ())) dry_run)))))"

definition commit_command :: "('s, 'i, 'f, 'o, 'p) cli_env \<Rightarrow> ('s machine, unit) action" where
  "commit_command env m =
     (let (r, t) = container_commit (cv_in_container env) (cv_fs env) (cv_open_dir env) (mc_root m)
      in (r, m\<lparr>mc_root := t\<rparr>))"

subsection \<open>The dispatcher\<close>

fun run_image :: "('s, 'i, 'f, 'o, 'p) cli_env \<Rightarrow> container_image_opts \<Rightarrow> ('s machine, unit) action" where
  "run_image env (ImageList repo) = with_repo repo (image_list_command (ic_repo (cv_ctx env)))"
| "run_image env (ImagePull repo imgref proxyopts quiet check) =
     with_repo repo (in_world (
       container_store (cv_ctx env) (new_importer env imgref proxyopts) (cv_format_size env) (cv_order env)
         (if quiet then None else Some (cv_printer env)) imgref (map_option (cv_write_manifest env) check)))"
| "run_image env (ImageHistory repo imgref) =
     with_repo repo (container_history (ic_repo (cv_ctx env)) (ic_json (cv_ctx env)) (cv_format_size env) (cv_terminal_width env) imgref)"
| "run_image env (ImageMetadata repo imgref config) =
     with_repo repo (image_metadata_command (ic_repo (cv_ctx env)) (ic_json (cv_ctx env)) imgref config)"
| "run_image env (ImageCopy src_repo dest_repo imgref) = copy_command env src_repo dest_repo imgref"
| "run_image env (ImageReexport repo src_imgref dest_imgref authfile compression_fast) =
     with_repo repo (reexport_command env src_imgref dest_imgref authfile compression_fast)"
| "run_image env (ReplaceDetachedMetadata src dest contents) = replace_detached_command env src dest contents"
| "run_image env (ImageRemove repo imgrefs skip_gc) =
     with_repo repo (remove_command (ic_repo (cv_ctx env)) (ic_json (cv_ctx env)) imgrefs skip_gc)"
| "run_image env (PruneLayers repo) = with_repo repo (prune_layers_command (ic_repo (cv_ctx env)) (ic_json (cv_ctx env)))"
| "run_image env (PruneImages path and_layers full) =
     act_bind (act_result (cv_load_sysroot env (Some path))) (\<lambda>sysroot.
     with_repo (ss_repo sysroot) (
       prune_images_command (ic_repo (cv_ctx env)) (ic_json (cv_ctx env)) (cv_format_size env) (cv_prune_objects env)
         (ss_deployments sysroot) and_layers full))"
| "run_image env (ImageDeploy path args proxyopts write_commitid_to) =
     act_bind (act_result (cv_load_sysroot env path)) (\<lambda>sysroot.
     with_sysroot (ss_repo sysroot) (
       deploy_command (ss_sysroot sysroot) (cv_start_proxy env) (cv_ctx env) (cv_order env) (ss_booted_stateroot sysroot) args
         (proxy_opts_into proxyopts) (map_option (cv_write_file env) write_commitid_to)))"

fun run_container :: "('s, 'i, 'f, 'o, 'p) cli_env \<Rightarrow> container_opts \<Rightarrow> ('s machine, unit) action" where
  "run_container env (Info imgref) = on_output (container_info (ic_proxy (cv_ctx env)) (ic_json (cv_ctx env)) imgref)"
| "run_container env ContainerCommit = commit_command env"
| "run_container env (Unencapsulate repo proxyopts imgref write_ref quiet) =
     with_repo repo (in_world (container_import (cv_ctx env) (new_importer env imgref proxyopts) write_ref))"
| "run_container env (EncapsulateCommit opts) = encapsulate_command env opts"
| "run_container env (ImageOpts opts) = run_image env opts"
| "run_container env (Compare imgref_old imgref_new) =
     on_output (container_compare (ic_proxy (cv_ctx env)) (ic_json (cv_ctx env)) (cv_format_size env) imgref_old imgref_new)"

definition run_ima_sign :: "('s, 'i, 'f, 'o, 'p) cli_env \<Rightarrow> ima_sign_opts \<Rightarrow> ('s \<times> rstr list, unit) action" where
  "run_ima_sign env opts =
     (let signopts = \<lparr>io_algorithm = ms_algorithm opts, io_key = ms_key opts, io_overwrite = ms_overwrite opts\<rparr>
      in act_bind (\<lambda>(s, out).
             let (r, s') = ima_sign_command (cv_ima env) (cv_begin_tx env) (cv_set_ref env) (cv_commit_tx env) (cv_fuel env s) signopts
                   (ms_src_rev opts) (ms_target_ref opts) s
             in (r, (s', out))) say)"

fun run_from_opt :: "('s, 'i, 'f, 'o, 'p) cli_env \<Rightarrow> opt \<Rightarrow> ('s machine, unit) action" where
  "run_from_opt env (Tar (ImportTar opts)) = tar_import env opts"
| "run_from_opt env (Tar (ExportTar opts)) = tar_export env opts"
| "run_from_opt env (Container opts) = run_container env opts"
| "run_from_opt env (ImaSign opts) = with_repo (ms_repo opts) (run_ima_sign env opts)"
| "run_from_opt env (ProvisionalRepair (AnalyzeInodes repo verbose write_result_to)) =
     with_repo repo (inodes_command env write_result_to)"
| "run_from_opt env (ProvisionalRepair (RepairSysroot path dry_run write_result_to verbose)) =
     repair_sysroot_command env path dry_run write_result_to"

section \<open>Lemmas\<close>

subsection \<open>What a run may change\<close>

text \<open>The repositories whose refs and objects a run may change, and those in which it may only keep metadata beside a commit.\<close>

definition sysroot_repo :: "('s, 'i, 'f, 'o, 'p) cli_env \<Rightarrow> rstr option \<Rightarrow> rstr set" where
  "sysroot_repo env path = (case cv_load_sysroot env path of Inr sysroot \<Rightarrow> {ss_repo sysroot} | Inl _ \<Rightarrow> {})"

fun image_writes :: "('s, 'i, 'f, 'o, 'p) cli_env \<Rightarrow> container_image_opts \<Rightarrow> rstr set" where
  "image_writes env (ImagePull repo _ _ _ check) = (if check = None then {repo} else {})"
| "image_writes env (ImageCopy _ dest_repo _) = {dest_repo}"
| "image_writes env (ImageRemove repo _ _) = {repo}"
| "image_writes env (PruneLayers repo) = {repo}"
| "image_writes env (PruneImages path _ _) = sysroot_repo env (Some path)"
| "image_writes env (ImageDeploy path _ _ _) = sysroot_repo env path"
| "image_writes env _ = {}"

fun run_writes :: "('s, 'i, 'f, 'o, 'p) cli_env \<Rightarrow> opt \<Rightarrow> rstr set" where
  "run_writes env (Tar (ImportTar opts)) = {ti_repo opts}"
| "run_writes env (Container (Unencapsulate repo _ _ _ _)) = {repo}"
| "run_writes env (Container (ImageOpts opts)) = image_writes env opts"
| "run_writes env (ImaSign opts) = {ms_repo opts}"
| "run_writes env (ProvisionalRepair (RepairSysroot path dry_run _ _)) = (if dry_run then {} else sysroot_repo env (Some path))"
| "run_writes env _ = {}"

fun run_caches :: "opt \<Rightarrow> rstr set" where
  "run_caches (Container (ImageOpts (ImagePull repo _ _ _ _))) = {repo}"
| "run_caches _ = {}"

text \<open>What a run does to the state of one repository.\<close>

definition repo_change :: "('s \<Rightarrow> 'r) \<Rightarrow> rstr set \<Rightarrow> rstr set \<Rightarrow> rstr \<Rightarrow> 's \<Rightarrow> 's \<Rightarrow> bool" where
  "repo_change refs_of W C p s s' \<longleftrightarrow> p \<in> W \<or> p \<in> C \<and> refs_of s' = refs_of s \<or> s' = s"

definition repos_rel :: "(rstr \<Rightarrow> 's \<Rightarrow> 's \<Rightarrow> bool) \<Rightarrow> 's machine \<Rightarrow> 's machine \<Rightarrow> bool" where
  "repos_rel R m m' \<longleftrightarrow> (\<forall>p. rel_option (R p) (mc_repos m p) (mc_repos m' p))"

text \<open>The root directory and the deployments stay as they are.\<close>

definition host_kept :: "'s machine \<Rightarrow> 's machine \<Rightarrow> bool" where
  "host_kept m m' \<longleftrightarrow> mc_root m' = mc_root m \<and> mc_calls m' = mc_calls m"

lemma leads_in_world: "leads (base_rel (repo_rel R)) act \<Longrightarrow> leads (base_rel R) (in_world act)"
  by (auto simp: leads_def in_world_def base_rel_def repo_rel_def new_world_def Let_def split: prod.split)
     (metis fst_conv snd_conv world.select_convs(1))

lemma leads_anything: "leads (base_rel (\<lambda>_ _. True)) m"
  by (simp add: leads_def base_rel_def)

definition change_rel :: "('s \<Rightarrow> 'r) \<Rightarrow> rstr set \<Rightarrow> rstr set \<Rightarrow> 's machine \<Rightarrow> 's machine \<Rightarrow> bool" where
  "change_rel refs_of W C m m' \<longleftrightarrow> repos_rel (repo_change refs_of W C) m m' \<and> host_kept m m'"

lemma change_rel_preorder [leads_intros]: "reflp (change_rel refs_of W C)" "transp (change_rel refs_of W C)"
proof -
  have refl: "reflp (repo_change refs_of W C p)" and trans: "transp (repo_change refs_of W C p)" for p
    by (auto simp: repo_change_def reflp_def transp_def)
  show "reflp (change_rel refs_of W C)"
    using refl by (auto simp: change_rel_def repos_rel_def host_kept_def reflp_def intro: option.rel_refl)
  show "transp (change_rel refs_of W C)"
    using trans by (auto simp: change_rel_def repos_rel_def host_kept_def intro!: transpI) (meson option.rel_transp transpE)
qed

lemma leads_with_repo:
  assumes "leads (base_rel (repo_change refs_of W C path)) act"
  shows "leads (change_rel refs_of W C) (with_repo path act)"
  unfolding leads_def
proof
  fix m
  show "change_rel refs_of W C m (snd (with_repo path act m))"
  proof (cases "mc_repos m path")
    case None
    then show ?thesis using reflpD [OF change_rel_preorder(1)] by (simp add: with_repo_def)
  next
    case (Some s)
    obtain r s' out where a: "act (s, mc_out m) = (r, s', out)" by (metis prod_cases3)
    with assms have "repo_change refs_of W C path s s'" by (auto dest: leadsD simp: base_rel_def)
    moreover have "rel_option (repo_change refs_of W C p) x x" for p x
      by (cases x) (simp_all add: repo_change_def)
    ultimately show ?thesis
      using Some a by (simp add: with_repo_def change_rel_def repos_rel_def host_kept_def)
  qed
qed

lemma leads_on_output [leads_intros]: "leads (change_rel refs_of W C) (on_output act)"
proof -
  have "rel_option (repo_change refs_of W C p) x x" for p x
    by (cases x) (simp_all add: repo_change_def)
  then show ?thesis
    by (auto simp: leads_def on_output_def change_rel_def repos_rel_def host_kept_def Let_def split: prod.split)
qed

lemma leads_mono: "leads R m \<Longrightarrow> (\<And>s s'. R s s' \<Longrightarrow> R' s s') \<Longrightarrow> leads R' m"
  by (auto simp: leads_def)

text \<open>The three ways in which a command uses a repository.\<close>

lemma leads_repo_written: "path \<in> W \<Longrightarrow> leads (change_rel refs_of W C) (with_repo path act)"
  by (rule leads_with_repo, rule leads_mono [OF leads_anything]) (simp add: base_rel_def repo_change_def)

lemma leads_repo_read: "leads (base_rel (=)) act \<Longrightarrow> leads (change_rel refs_of W C) (with_repo path act)"
  by (rule leads_with_repo, erule leads_mono) (simp add: base_rel_def repo_change_def)

lemma leads_repo_cached:
  "path \<in> C \<Longrightarrow> leads (base_rel (\<lambda>s s'. refs_of s' = refs_of s)) act \<Longrightarrow> leads (change_rel refs_of W C) (with_repo path act)"
  by (rule leads_with_repo, erule leads_mono) (simp add: base_rel_def repo_change_def)

lemmas reads_intros = leads_intros eq_preorder leads_repo_read

lemma read_commands:
  "leads (base_rel (=)) (image_list_command repo)" "leads (base_rel (=)) (container_history repo js fs w img)"
  "leads (base_rel (=)) (image_metadata_command repo js img cfg)" "leads (base_rel (=)) (reexport_command env a b auth fast)"
  "leads (base_rel (=)) (container_export env opts labels)" "leads (base_rel (=)) (inodes_command env out)"
  unfolding image_list_command_def container_history_def image_metadata_command_def reexport_command_def container_export_def
    inodes_command_def Let_def
  by (intro reads_intros; auto intro!: reads_intros)+

text \<open>Preparing an import writes metadata beside the commit of an image at most.\<close>

definition detached_keeps_refs :: "('s, 'z) ostree_repo_scheme \<Rightarrow> ('s \<Rightarrow> 'r) \<Rightarrow> bool" where
  "detached_keeps_refs repo refs_of \<longleftrightarrow> (\<forall>c d s s'. rp_write_detached repo c d s = Inr s' \<longrightarrow> refs_of s' = refs_of s)"

lemma same_refs_preorder: "reflp (\<lambda>s s'. refs_of s' = refs_of s)" "transp (\<lambda>s s'. refs_of s' = refs_of s)"
  by (simp_all add: reflp_def transp_def)

lemma prepare_keeps_refs:
  assumes "detached_keeps_refs (ic_repo ctx) refs_of"
  shows "leads (\<lambda>s s'. refs_of s' = refs_of s) (prepare ctx im)"
proof -
  have "leads (\<lambda>s s'. refs_of s' = refs_of s) (cache_pending ctx commit digest manifest config)" for commit digest manifest config
    unfolding cache_pending_def Let_def using assms
    by (intro leads_intros same_refs_preorder) (simp add: detached_keeps_refs_def)
  then have "leads (\<lambda>s s'. refs_of s' = refs_of s) (prepare_new ctx im digest manifest previous imageid)" for digest manifest previous imageid
    unfolding prepare_new_def by (cases previous) (auto intro!: leads_intros same_refs_preorder)
  then show ?thesis
    unfolding prepare_def prepare_internal_def Let_def
    by (intro leads_intros same_refs_preorder)
       (auto split: option.split intro!: leads_intros same_refs_preorder)
qed

lemma check_keeps_refs:
  assumes "detached_keeps_refs (ic_repo ctx) refs_of"
  shows "leads (base_rel (\<lambda>s s'. refs_of s' = refs_of s))
    (in_world (container_store ctx created fs order printer imgref (Some write)))"
proof -
  have "leads (\<lambda>s s'. refs_of s' = refs_of s) (prepare (ctx\<lparr>ic_proxy := proxy\<rparr>) im)" for proxy im
    by (rule prepare_keeps_refs) (use assms in simp)
  then show ?thesis
    unfolding container_store_def Let_def
    by (intro leads_in_world leads_intros same_refs_preorder)
       (auto split: prepare_result.split intro!: leads_intros same_refs_preorder)
qed

lemma dry_run_reads: "leads (=) (repair_command repo js renv remounted booted staged serialize True)"
  unfolding repair_command_def by (auto intro!: leads_intros eq_preorder)

subsection \<open>Runs\<close>

fun deploys :: "opt \<Rightarrow> bool" where
  "deploys (Container (ImageOpts (ImageDeploy _ _ _ _))) = True"
| "deploys _ = False"

lemma image_changes:
  assumes "detached_keeps_refs (ic_repo (cv_ctx env)) refs_of" "\<not> deploys (Container (ImageOpts opts))"
  shows "leads (change_rel refs_of (image_writes env opts) (run_caches (Container (ImageOpts opts)))) (run_image env opts)"
proof (cases opts)
  case (ImagePull repo imgref proxyopts quiet check)
  show ?thesis
  proof (cases check)
    case None
    with ImagePull show ?thesis by (simp add: leads_repo_written)
  next
    case (Some f)
    with ImagePull show ?thesis by (simp add: leads_repo_cached check_keeps_refs [OF assms(1)])
  qed
next
  case (PruneImages path and_layers full)
  then show ?thesis
    by (cases "cv_load_sysroot env (Some path)") (auto simp: sysroot_repo_def leads_repo_written intro!: leads_intros)
next
  case (ImageCopy src dest imgref)
  have "leads (change_rel refs_of {dest} C) (copy_command env src dest imgref)" for C
    unfolding copy_command_def
    by (intro leads_bind change_rel_preorder leads_repo_written leads_repo_read leads_in_base leads_query eq_preorder) simp
  with ImageCopy show ?thesis by simp
next
  case (ReplaceDetachedMetadata src dest contents)
  then show ?thesis
    by (auto simp: replace_detached_command_def intro!: leads_intros)
qed (use assms(2) in \<open>simp_all add: leads_repo_read leads_repo_written read_commands\<close>)

lemma run_changes:
  assumes "detached_keeps_refs (ic_repo (cv_ctx env)) refs_of" "\<not> deploys opt" "opt \<noteq> Container ContainerCommit"
  shows "leads (change_rel refs_of (run_writes env opt) (run_caches opt)) (run_from_opt env opt)"
proof (cases opt)
  case (Tar t)
  have "leads (change_rel refs_of W C) (\<lambda>m. (Inr (), m\<lparr>mc_stream := mc_stream m @ entries\<rparr>))" for W C entries
    using reflpD [OF change_rel_preorder(1), of refs_of W C]
    by (auto simp: leads_def change_rel_def repos_rel_def host_kept_def)
  with Tar show ?thesis
    by (cases t) (simp add: tar_import_def leads_repo_written, auto simp: tar_export_def intro!: reads_intros)
next
  case (Container c)
  then show ?thesis
    using assms image_changes [OF assms(1)] 
    by (cases c) (auto simp: encapsulate_command_def read_commands leads_repo_written intro!: leads_repo_read leads_intros eq_preorder)
next
  case (ProvisionalRepair r)
  show ?thesis
  proof (cases r)
    case (RepairSysroot path dry_run out verbose)
    note defs = ProvisionalRepair RepairSysroot repair_sysroot_command_def sysroot_repo_def
    show ?thesis
    proof (cases dry_run)
      case True
      then show ?thesis by (auto simp: defs dry_run_reads intro!: reads_intros)
    next
      case False
      then show ?thesis
        by (cases "cv_load_sysroot env (Some path)") (auto simp: defs leads_repo_written intro!: leads_intros)
    qed
  qed (simp add: ProvisionalRepair leads_repo_read read_commands)
qed (simp add: leads_repo_written)

lemma run_commit: "run_from_opt env (Container ContainerCommit) m = (r, m') \<Longrightarrow> mc_repos m' = mc_repos m \<and> mc_calls m' = mc_calls m"
  by (auto simp: commit_command_def Let_def split: prod.splits)

lemma run_deploy:
  assumes "run_from_opt env opt m = (r, m')" "deploys opt"
  shows "p \<notin> run_writes env opt \<Longrightarrow> mc_repos m' p = mc_repos m p" "mc_root m' = mc_root m"
proof -
  obtain path args proxyopts out where opt: "opt = Container (ImageOpts (ImageDeploy path args proxyopts out))"
    using assms(2) by (cases opt rule: deploys.cases) auto
  show "p \<notin> run_writes env opt \<Longrightarrow> mc_repos m' p = mc_repos m p" "mc_root m' = mc_root m"
    using assms(1)
    by (auto simp: opt sysroot_repo_def with_sysroot_def act_bind_result_app Let_def split: sum.splits option.splits prod.splits)
qed

text \<open>An image that has a ref is listed.\<close>

lemma say_all_out: "say_all ls (s, out) = (Inr (), (s, out @ ls))"
  unfolding say_all_def by (induction ls arbitrary: out) (simp_all add: act_bind_def say_def act_result_def)

lemma run_list:
  assumes "run_from_opt env (Container (ImageOpts (ImageList repo))) m = (Inr (), m')"
  obtains s names where "mc_repos m repo = Some s" "list_images (ic_repo (cv_ctx env)) s = Inr names"
    "m' = m\<lparr>mc_out := mc_out m @ names\<rparr>"
proof -
  obtain s where s: "mc_repos m repo = Some s"
    using assms by (auto simp: with_repo_def split: option.splits)
  obtain names where names: "list_images (ic_repo (cv_ctx env)) s = Inr names"
    using assms s by (cases "list_images (ic_repo (cv_ctx env)) s")
      (auto simp: with_repo_def image_list_command_def act_bind_def in_base_def act_query_def Let_def)
  have "m' = m\<lparr>mc_repos := (mc_repos m)(repo \<mapsto> s), mc_out := mc_out m @ names\<rparr>"
    using assms by (simp add: s names with_repo_def image_list_command_def act_bind_def in_base_def act_query_def say_all_out)
  then have "m' = m\<lparr>mc_out := mc_out m @ names\<rparr>"
    using s by (simp add: map_upd_triv)
  with s names that show thesis by blast
qed

lemma import_sets_ref:
  assumes "refs_spec (ic_repo ctx) refs_of" "txn_spec (ic_repo ctx) refs_of" "import_image ctx im imp w = (Inr st, w')"
    and "ii_target_imgref im = None" "\<not> ii_no_imgref im"
  shows "\<exists>r c. ref_for_image (oir_imgref (ii_imgref im)) = Inr r \<and> refs_of (w_repo w') r = Some c"
proof -
  obtain r base commits derived metadata timestamp s where run: "ref_for_image (oir_imgref (ii_imgref im)) = Inr r"
      "merge_layers ctx im r base commits derived metadata timestamp s = (Inr st, w_repo w')"
    using import_image_merges [OF assms(3)] assms(4) by auto
  have "\<not> under LAYER_PREFIX r" using ref_for_under(3) [OF run(1)] ref_prefixes(3) by blast
  from merge_layers_Inr [OF assms(1,2) this run(2)] assms(5) run(1) show ?thesis by blast
qed

lemma present_has_ref:
  assumes "refs_spec (ic_repo ctx) refs_of" "prepare ctx im s = (Inr (AlreadyPresent st), s')"
  shows "\<exists>r c. ref_for_image (oir_imgref (ii_imgref im)) = Inr r \<and> refs_of s' r = Some c"
proof -
  have new: "\<not> (\<exists>s s'. prepare_new ctx im digest manifest prev imageid s = (Inr (AlreadyPresent st), s'))" for digest manifest prev imageid
    using prepare_new_Inr by fastforce
  obtain st' where "try_query_image (ic_repo ctx) (ic_json ctx) s (oir_imgref (ii_imgref im)) = Inr (Some st')" "s' = s"
    using assms(2) new unfolding prepare_def prepare_internal_def Let_def
    by (auto simp: act_simps split: option.splits if_splits)
  then show ?thesis
    using resolve_image(1) [OF assms(1)]
    by (auto simp: try_query_image_def result_simps split: option.splits)
qed

lemma pull_sets_ref:
  fixes ctx :: "('s, 'i) import_ctx"
  assumes "refs_spec (ic_repo ctx) refs_of" "txn_spec (ic_repo ctx) refs_of"
    and "created = image_importer_new host start v imgref config"
    and "container_store ctx created fs order printer imgref None (w, out) = (Inr (), (w', out'))"
  shows "\<exists>r c. ref_for_image (oir_imgref imgref) = Inr r \<and> refs_of (w_repo w') r = Some c"
proof -
  obtain proxy im where im: "created = Inr (proxy, im)"
    using assms(4) by (auto simp: container_store_def act_simps)
  then have im': "ii_imgref im = imgref" "ii_target_imgref im = None" "\<not> ii_no_imgref im"
    using assms(3) by (auto simp: image_importer_new_def result_simps)
  let ?ctx = "ctx\<lparr>ic_proxy := proxy\<rparr>"
  have spec: "refs_spec (ic_repo ?ctx) refs_of" "txn_spec (ic_repo ?ctx) refs_of" using assms(1,2) by simp_all
  obtain prep s1 where prep: "prepare ?ctx im (w_repo w) = (Inr prep, s1)"
    using assms(4) by (auto simp: im container_store_def act_simps on_repo_def Let_def split: prod.splits)
  show ?thesis
  proof (cases prep)
    case (AlreadyPresent st)
    then have "w_repo w' = s1"
      using assms(4) prep by (auto simp: im container_store_def act_simps on_repo_def Let_def)
    with present_has_ref [OF spec(1) prep [unfolded AlreadyPresent]] im'(1) show ?thesis by simp
  next
    case (Ready imp)
    let ?watch = "case printer of Some p \<Rightarrow> act_result (request_progress p im) | None \<Rightarrow> act_ret im"
    obtain im1 st w1 and so so' :: "'s world \<times> rstr list" where watch: "?watch so = (Inr im1, so')" and imported: "import_image ?ctx im1 imp w1 = (Inr st, w')"
      using assms(4) prep unfolding im Ready container_store_def Let_def
      by (auto simp: act_simps on_repo_def act_query_def)
    have im1: "ii_imgref im1 = imgref" "ii_target_imgref im1 = None" "\<not> ii_no_imgref im1"
      using watch im' by (auto simp: request_progress_def result_simps split: option.splits)
    from import_sets_ref [OF spec imported im1(2,3)] im1(1) show ?thesis by simp
  qed
qed

lemma copy_sets_ref:
  assumes "refs_spec dest_repo refs_of" "copy_image src_repo js s dest_repo pull src_imgref dest_imgref d = (Inr (), d')"
  shows "\<exists>r c. ref_for_image dest_imgref = Inr r \<and> refs_of d' r = Some c"
  using assms(2) refs_specD(5) [OF assms(1)] unfolding copy_image_def Let_def
  by (auto simp: act_simps)

section \<open>Properties\<close>

text \<open>A machine with two empty repositories, and the image of the importer's example.\<close>

definition sample_sysroot :: "rstr sysroot" where
  "sample_sysroot = \<lparr>sy_host = sample_host, sy_merge_deployment = (\<lambda>_. None), sy_booted = False, sy_ostree_2024_3 = True,
     sy_default_proxy_cfg = sample_proxy_config, sy_answer = (\<lambda>_. Inr [])\<rparr>"

definition sample_no_ima :: "sample_state ima_env" where
  "sample_no_ima = \<lparr>iv_require_rev = (\<lambda>_ r. Inr r), iv_load_commit = (\<lambda>_ _. Inl (Err ''no commit'')),
     iv_load_dirtree = (\<lambda>_ _. Inl (Err ''no dirtree'')), iv_load_file = (\<lambda>_ _. Inl (Err ''no file'')),
     iv_write_content = (\<lambda>_ _ _ _. Inl (Err ''read only'')), iv_write_dirtree = (\<lambda>_ _. Inl (Err ''read only'')),
     iv_write_commit = (\<lambda>_ _. Inl (Err ''read only'')), iv_tempdir = Inr (str ''tmp''), iv_tempfile = (\<lambda>_. Inr (str ''f'')),
     iv_run = (\<lambda>_ _ _. Inl (Err ''no evmctl''))\<rparr>"

definition sample_oci_host :: "nat oci_host" where
  "sample_oci_host = oci_dir.extend sample_ocidir \<lparr>oh_ensure_dir = (\<lambda>_. Inr 0), oh_open_dir = (\<lambda>_. Inr 0), oh_temp_dir = Inr 0,
     oh_format_time = (\<lambda>_. Some []), oh_copy = (\<lambda>_ _ _ _ _. Inr (d_digest (stored_layer ''m'')))\<rparr>"

definition sample_cli_env :: "(sample_state, unit, rstr, nat, unit) cli_env" where
  "sample_cli_env = \<lparr>cv_ctx = sample_ctx, cv_host = sample_host, cv_start_proxy = (\<lambda>_. Inr sample_image_proxy),
     cv_ostree_2024_3 = True,
     cv_load_sysroot = (\<lambda>_. Inr \<lparr>ss_repo = str ''/ostree/repo'', ss_sysroot = sample_sysroot, ss_booted_stateroot = None,
       ss_booted = None, ss_staged = None, ss_deployments = []\<rparr>),
     cv_format_size = (\<lambda>n. fmt_dec (unat n)), cv_order = (\<lambda>l. l), cv_terminal_width = None, cv_printer = (\<lambda>_. Inr ()),
     cv_read_archive = (\<lambda>_. Inr []), cv_read_config = (\<lambda>_. Inr None), cv_read_raw_meta = (\<lambda>_. Inl (Err ''no file'')),
     cv_read_file = (\<lambda>_. Inr [9]), cv_write_manifest = (\<lambda>_ _. Inr ()), cv_write_file = (\<lambda>_ _. Inr ()),
     cv_write_inode_check = (\<lambda>_ _. Inr ()), cv_write_repair_result = (\<lambda>_ _. Inr ()), cv_export_env = (\<lambda>_. sample_export_env),
     cv_fuel = (\<lambda>_. 3), cv_oci_host = sample_oci_host,
     cv_reexport_env = \<lparr>re_objects = (\<lambda>_. sample_export_env), re_layer_files = (\<lambda>_ _. Inr []), re_validate_checksum = (\<lambda>_. Inr ()),
       re_ostree_export = (\<lambda>_ _. [7]), re_create_gzip_layer = re_create_gzip_layer sample_reexport_env\<rparr>, cv_update = sample_update_env ''d1'',
     cv_tempdir = Inr (str ''tmp'', 0), cv_pull = (\<lambda>_ _. act_ret ()), cv_prune_objects = act_ret (0, 0), cv_ima = sample_no_ima,
     cv_begin_tx = Inr, cv_set_ref = (\<lambda>r c. set_sample_ref r (Some c)), cv_commit_tx = Inr,
     cv_repair = \<lparr>rn_objects = (\<lambda>_. Inr sample_objects), rn_read_commit = (\<lambda>_ _. Inr (repair_file ''good'')),
       rn_dir_info = rn_dir_info sample_repair_env, rn_inode = rn_inode sample_repair_env\<rparr>,
     cv_in_containerenv = False, cv_run = (\<lambda>_. Inr True), cv_in_container = Inr (), cv_fs = (\<lambda>_. None),
     cv_open_dir = (\<lambda>_ _. Inr None)\<rparr>"

definition sample_machine :: "sample_state machine" where
  "sample_machine = \<lparr>mc_repos = (\<lambda>p. if p = str ''/a'' \<or> p = str ''/b'' then Some (w_repo sample_empty) else None),
     mc_root = FsDir own_attr [], mc_calls = [], mc_out = [], mc_stream = []\<rparr>"

definition sample_name :: ostree_image_reference where
  "sample_name = \<lparr>oir_sigverify = ContainerPolicyAllowInsecure, oir_imgref = stored_image\<rparr>"

definition sample_proxy_opts :: proxy_opts where
  "sample_proxy_opts = \<lparr>po_auth_anonymous = True, po_authfile = None, po_cert_dir = None, po_insecure_skip_tls_verification = False\<rparr>"

definition pull_opts :: "rstr option \<Rightarrow> container_image_opts" where
  "pull_opts check = ImagePull (str ''/a'') sample_name sample_proxy_opts True check"

lemma sample_pulled:
  "fst (run_from_opt sample_cli_env (Container (ImageOpts (pull_opts None))) sample_machine) = Inr ()"
  by code_simp

lemma sample_listed:
  "fst (run_from_opt sample_cli_env (Container (ImageOpts (ImageList (str ''/a''))))
     (snd (run_from_opt sample_cli_env (Container (ImageOpts (pull_opts None))) sample_machine))) = Inr ()"
  by code_simp

lemma sample_detached: "detached_keeps_refs (ic_repo (cv_ctx sample_cli_env)) fst"
  by (simp add: detached_keeps_refs_def sample_cli_env_def sample_ctx_def sample_import_repo_def)



text \<open>C20: a stored image is listed.  After an image was pulled into a repository, or copied into it from another one,
  listing the images of the repository prints the image, and changes nothing but the output.\<close>

theorem stored_image_listed:
  assumes "refs_spec (ic_repo (cv_ctx env)) refs_of" "txn_spec (ic_repo (cv_ctx env)) refs_of" "valid_str (ir_name (oir_imgref imgref))"
    and "stored = ImagePull repo imgref proxyopts quiet None \<or> stored = ImageCopy src_repo repo imgref"
    and "run_from_opt env (Container (ImageOpts stored)) m = (Inr (), m1)"
    and "run_from_opt env (Container (ImageOpts (ImageList repo))) m1 = (Inr (), m2)"
  shows "\<exists>names. m2 = m1\<lparr>mc_out := mc_out m1 @ names\<rparr> \<and> image_reference_fmt (oir_imgref imgref) \<in> set names"
proof -
  obtain s names where l: "mc_repos m1 repo = Some s" "list_images (ic_repo (cv_ctx env)) s = Inr names"
      "m2 = m1\<lparr>mc_out := mc_out m1 @ names\<rparr>"
    using assms(6) by (rule run_list)
  have "\<exists>r c. ref_for_image (oir_imgref imgref) = Inr r \<and> refs_of s r = Some c"
    using assms(4)
  proof
    assume pull: "stored = ImagePull repo imgref proxyopts quiet None"
    then obtain s0 w' out' where run: "container_store (cv_ctx env) (new_importer env imgref proxyopts) (cv_format_size env) (cv_order env)
        (if quiet then None else Some (cv_printer env)) imgref None (new_world s0, mc_out m) = (Inr (), (w', out'))" "s = w_repo w'"
      using assms(5) l(1) by (auto simp: with_repo_def in_world_def Let_def split: option.splits prod.splits)
    from pull_sets_ref [OF assms(1,2) new_importer_def run(1)] run(2) show ?thesis by simp
  next
    assume copied: "stored = ImageCopy src_repo repo imgref"
    then obtain s0 d where "copy_image (ic_repo (cv_ctx env)) (ic_json (cv_ctx env)) s0 (ic_repo (cv_ctx env)) (cv_pull env s0)
        (oir_imgref imgref) (oir_imgref imgref) d = (Inr (), s)"
      using assms(5) l(1) by (auto simp: copy_command_def act_simps with_repo_def in_base_def Let_def split: option.splits prod.splits)
    from copy_sets_ref [OF assms(1) this] show ?thesis .
  qed
  with image_name_listed [OF assms(1) l(2) _ _ assms(3)] l(3) show ?thesis by blast
qed

theorem stored_image_listed_witness:
  "\<exists>m1 m2 names. run_from_opt sample_cli_env (Container (ImageOpts (pull_opts None))) sample_machine = (Inr (), m1) \<and>
     run_from_opt sample_cli_env (Container (ImageOpts (ImageList (str ''/a'')))) m1 = (Inr (), m2) \<and>
     m2 = m1\<lparr>mc_out := mc_out m1 @ names\<rparr> \<and> image_reference_fmt stored_image \<in> set names"
proof -
  obtain m1 where run: "run_from_opt sample_cli_env (Container (ImageOpts (pull_opts None))) sample_machine = (Inr (), m1)"
    using sample_pulled by (metis prod.collapse)
  obtain m2 where listed: "run_from_opt sample_cli_env (Container (ImageOpts (ImageList (str ''/a'')))) m1 = (Inr (), m2)"
    using sample_listed run by (metis prod.collapse snd_conv)
  have spec: "refs_spec (ic_repo (cv_ctx sample_cli_env)) (\<lambda>s. map_of (fst s))" "txn_spec (ic_repo (cv_ctx sample_cli_env)) (\<lambda>s. map_of (fst s))"
    using sample_refs sample_txn by (simp_all add: sample_cli_env_def sample_ctx_def)
  have "valid_str (ir_name (oir_imgref sample_name))" by code_simp
  from stored_image_listed [OF spec this disjI1 [OF pull_opts_def] run listed] run listed
  show ?thesis by (auto simp: sample_name_def)
qed

subsection \<open>Where the command line departs from its documentation\<close>

text \<open>The format version of an export, documented to be 1, has no effect.\<close>

lemma format_version_ignored: "tar_export env (opts\<lparr>tx_format_version := v\<rparr>) = tar_export env opts"
  by (simp add: tar_export_def)

end
