(* ===== verification/Fixture.thy ===== *)
theory Fixture
  imports UpdateDetached StoreExport ImageImport Ima
begin

text \<open>
  The fixture that the crate's tests and its hidden testing commands are built on (\<^verbatim>\<open>lib/src/fixture.rs\<close>,
  \<^verbatim>\<open>lib/src/integrationtest.rs\<close>): a commit written from a list of file definitions, the package that owns each of its
  objects, and an image derived from another one by a further layer.  The mutable trees of libostree, the matching of
  regular expressions and the OCI directory are arguments.
\<close>

section \<open>Definitions\<close>

subsection \<open>File definitions\<close>

datatype file_def_type = DefRegular rstr | DefSymlink rstr | DefDirectory

record file_def =
  fd_uid :: u32
  fd_gid :: u32
  fd_mode :: u32
  fd_path :: rstr
  fd_ty :: file_def_type

definition DEFAULT_MODE :: u32 where "DEFAULT_MODE = 0x1A4"

definition file_def_try_from :: "rstr \<Rightarrow> file_def result" where
  "file_def_try_from value =
     (case split_char 32 value of
        [] \<Rightarrow> Inl (Err ''Missing type definition'')
      | [tydef] \<Rightarrow> Inl (Err ''Missing file name'')
      | tydef # name # parts \<Rightarrow>
          let contents = ok_or (Err ''Missing file contents'') (case parts of [] \<Rightarrow> None | c # _ \<Rightarrow> Some c)
          in if 1 < length parts then Inl (Err ''Invalid filedef'')
             else and_then
               (if tydef = str ''r'' then and_then contents (\<lambda>c. Inr (DefRegular c))
                else if tydef = str ''l'' then and_then contents (\<lambda>c. Inr (DefSymlink c))
                else if tydef = str ''d'' then Inr DefDirectory
                else Inl (Err ''Invalid filedef type''))
               (\<lambda>ty. Inr \<lparr>fd_uid = 0, fd_gid = 0, fd_mode = DEFAULT_MODE, fd_path = name, fd_ty = ty\<rparr>))"

text \<open>\<^verbatim>\<open>u32::from_str_radix\<close> for a radix up to ten; \<^verbatim>\<open>str::parse\<close> is that for ten.\<close>

fun parse_digits :: "nat \<Rightarrow> nat \<Rightarrow> rstr \<Rightarrow> nat result" where
  "parse_digits radix acc [] = Inr acc"
| "parse_digits radix acc (c # cs) =
     (if 48 \<le> c \<and> c < 48 + radix then
        if acc * radix + (c - 48) < 2 ^ 32 then parse_digits radix (acc * radix + (c - 48)) cs
        else Inl (Err ''number too large to fit in target type'')
      else Inl (Err ''invalid digit found in string''))"

definition u32_from_str_radix :: "nat \<Rightarrow> rstr \<Rightarrow> u32 result" where
  "u32_from_str_radix radix s =
     (case s of
        [] \<Rightarrow> Inl (Err ''cannot parse integer from empty string'')
      | c # cs \<Rightarrow> and_then (parse_digits radix 0 (if c = 43 \<and> cs \<noteq> [] then cs else s)) (\<lambda>n. Inr (of_nat n)))"

definition parse_mode :: "rstr \<Rightarrow> (u32 \<times> u32 \<times> u32) result" where
  "parse_mode line =
     (case drop 1 (split_char 32 line) of
        [] \<Rightarrow> Inr (0, 0, DEFAULT_MODE)
      | [uid] \<Rightarrow> Inl (Err ''Missing gid'')
      | [uid, gid] \<Rightarrow> Inl (Err ''Missing mode'')
      | [uid, gid, mode] \<Rightarrow>
          and_then (u32_from_str_radix 10 uid) (\<lambda>uid.
          and_then (u32_from_str_radix 10 gid) (\<lambda>gid.
          and_then (u32_from_str_radix 8 mode) (\<lambda>mode.
          Inr (uid, gid, mode))))
      | _ \<Rightarrow> Inl (Err ''Invalid mode''))"

text \<open>\<^verbatim>\<open>str::lines\<close>: a carriage return before a line feed belongs to the line's end, and the text after the
  last line feed is a line unless it is empty.\<close>

definition strip_cr :: "rstr \<Rightarrow> rstr" where
  "strip_cr l = (if l \<noteq> [] \<and> last l = 13 then butlast l else l)"

definition str_lines :: "rstr \<Rightarrow> rstr list" where
  "str_lines s =
     (let ps = split_char 10 s
      in map strip_cr (butlast ps) @ (if last ps = [] then [] else [last ps]))"

fun file_defs_of :: "u32 \<times> u32 \<times> u32 \<Rightarrow> rstr list \<Rightarrow> file_def result list" where
  "file_defs_of own [] = []"
| "file_defs_of (uid, gid, mode) (line # ls) =
     (if starts_with (str ''m'') line then
        case parse_mode line of
          Inr r \<Rightarrow> file_defs_of r ls
        | Inl e \<Rightarrow> Inl e # file_defs_of (uid, gid, mode) ls
      else and_then (file_def_try_from line) (\<lambda>def. Inr (def\<lparr>fd_uid := uid, fd_gid := gid, fd_mode := mode\<rparr>))
             # file_defs_of (uid, gid, mode) ls)"

definition file_def_iter_from :: "rstr \<Rightarrow> file_def result list" where
  "file_def_iter_from defs =
     file_defs_of (0, 0, DEFAULT_MODE)
       (filter (\<lambda>v. \<not> (v = [] \<or> starts_with (str ''#'') v)) (str_lines defs))"

definition CONTENTS_V0 :: rstr where
  "CONTENTS_V0 = concat (map (\<lambda>l. l @ [10])
     [str ''r usr/lib/modules/5.10.18-200.x86_64/vmlinuz this-is-a-kernel'',
      str ''r usr/lib/modules/5.10.18-200.x86_64/initramfs this-is-an-initramfs'',
      str ''m 0 0 755'',
      str ''r usr/bin/bash the-bash-shell'',
      str ''l usr/bin/sh bash'',
      str ''m 0 0 644'',
      str ''# Some empty files'',
      str ''r usr/lib/emptyfile '',
      str ''r usr/lib64/emptyfile2 '',
      str ''# Should be the same object'',
      str ''r usr/bin/hardlink-a testlink'',
      str ''r usr/bin/hardlink-b testlink'',
      str ''r usr/etc/someconfig.conf someconfig'',
      str ''m 10 10 644'',
      str ''r usr/etc/polkit.conf a-polkit-config'',
      str ''m 0 0 644'',
      str ''# See https://github.com/coreos/fedora-coreos-tracker/issues/1258'',
      str ''r usr/lib/sysimage/pkgdb some-package-database'',
      str ''r usr/lib/pkgdb/pkgdb some-package-database'',
      str ''m'',
      str ''d boot'',
      str ''d run'',
      str ''l opt var/opt'',
      str ''m 0 0 1755'',
      str ''d tmp''])"

subsection \<open>Labels and directory metadata\<close>

datatype se_label = LabelRoot | LabelUsr | LabelUsrLibSystemd | LabelBoot | LabelEtc | LabelEtcSystemConf

definition str_contains :: "rstr \<Rightarrow> rstr \<Rightarrow> bool" where
  "str_contains pat s = list_ex (\<lambda>i. starts_with pat (drop i s)) [0..<Suc (length s)]"

fun normal_name :: "component \<Rightarrow> rstr option" where
  "normal_name (Normal n) = Some n"
| "normal_name _ = None"

definition relative_path_components :: "rstr \<Rightarrow> rstr list" where
  "relative_path_components p = List.map_filter normal_name (components p)"

definition se_label_from_path :: "rstr \<Rightarrow> se_label" where
  "se_label_from_path p =
     (case relative_path_components p of
        [] \<Rightarrow> LabelRoot
      | rootdir # _ \<Rightarrow>
          if rootdir = str ''usr'' then if str_contains (str ''systemd'') p then LabelUsrLibSystemd else LabelUsr
          else if rootdir = str ''boot'' then LabelBoot
          else if rootdir = str ''etc'' then if even (str_len p) then LabelEtc else LabelEtcSystemConf
          else LabelUsr)"

fun se_label_to_str :: "se_label \<Rightarrow> rstr" where
  "se_label_to_str LabelRoot = str ''system_u:object_r:root_t:s0''"
| "se_label_to_str LabelUsr = str ''system_u:object_r:usr_t:s0''"
| "se_label_to_str LabelUsrLibSystemd = str ''system_u:object_r:systemd_unit_file_t:s0''"
| "se_label_to_str LabelBoot = str ''system_u:object_r:boot_t:s0''"
| "se_label_to_str LabelEtc = str ''system_u:object_r:etc_t:s0''"
| "se_label_to_str LabelEtcSystemConf = str ''system_u:object_r:system_conf_t:s0''"

definition se_label_xattrs :: "se_label \<Rightarrow> xattrs" where
  "se_label_xattrs l = [(str ''security.selinux'' @ [0], se_label_to_str l)]"

definition label_xattrs :: "bool \<Rightarrow> rstr \<Rightarrow> xattrs option" where
  "label_xattrs selinux path = (if selinux then Some (se_label_xattrs (se_label_from_path path)) else None)"

definition S_IFDIR :: u32 where "S_IFDIR = 0x4000"

definition create_dirmeta :: "rstr \<Rightarrow> bool \<Rightarrow> dirmeta" where
  "create_dirmeta path selinux =
     \<lparr>dm_uid = 0, dm_gid = 0, dm_mode = or S_IFDIR 0x1ED,
      dm_xattrs = (case label_xattrs selinux path of Some x \<Rightarrow> x | None \<Rightarrow> [])\<rparr>"

subsection \<open>The owners of objects\<close>

definition OWNERS :: "(rstr \<times> rstr) list" where
  "OWNERS =
     [(str ''usr/lib/modules/.*/initramfs'', str ''initramfs''), (str ''usr/lib/modules'', str ''kernel''),
      (str ''usr/bin/(ba)?sh'', str ''bash''), (str ''usr/lib.*/emptyfile.*'', str ''bash''),
      (str ''usr/bin/hardlink.*'', str ''testlink''), (str ''usr/etc/someconfig.conf'', str ''someconfig''),
      (str ''usr/etc/polkit.conf'', str ''a-polkit-config''), (str ''opt'', str ''filesystem''),
      (str ''usr/lib/pkgdb'', str ''pkgdb''), (str ''usr/lib/sysimage/pkgdb'', str ''pkgdb'')]"

text \<open>\<open>is_match re path\<close> tells whether the regular expression matches somewhere in the path.\<close>

definition owner_of :: "(rstr \<Rightarrow> rstr \<Rightarrow> bool) \<Rightarrow> rstr \<Rightarrow> rstr option" where
  "owner_of is_match path = map_option snd (find (\<lambda>(r, owner). is_match r path) OWNERS)"

definition owner_meta :: "rstr \<Rightarrow> object_source_meta" where
  "owner_meta owner = \<lparr>osm_identifier = owner, osm_name = owner, osm_srcid = owner, osm_change_time_offset = 2 ^ 32 - 1,
     osm_change_frequency = 2 ^ 32 - 1\<rparr>"

definition own_object :: "(rstr \<Rightarrow> rstr \<Rightarrow> bool) \<Rightarrow> rstr \<Rightarrow> rstr \<Rightarrow> object_meta \<Rightarrow> object_meta result" where
  "own_object is_match path checksum ret =
     and_then (ok_or (Err ''Unowned path'') (owner_of is_match path)) (\<lambda>owner.
     let ret = (if owner \<in> set (map osm_identifier (om_set ret)) then ret else ret\<lparr>om_set := om_set ret @ [owner_meta owner]\<rparr>)
     in case map_of (om_map ret) checksum of
          None \<Rightarrow> Inr (ret\<lparr>om_map := om_map ret @ [(checksum, owner)]\<rparr>)
        | Some prev_owner \<Rightarrow>
            if prev_owner \<noteq> owner then Inl (Err ''Duplicate object ownership'') else Inr ret)"

text \<open>\<^verbatim>\<open>PathBuf::pop\<close>.\<close>

definition pop :: "rstr \<Rightarrow> rstr" where
  "pop path = (case path_parent path of Some p \<Rightarrow> p | None \<Rightarrow> path)"

text \<open>The children of a directory of a commit are the entries of its dirtree: its files, then its directories.\<close>

definition map_file_owner ::
  "(rstr \<Rightarrow> rstr \<Rightarrow> bool) \<Rightarrow> object_store \<Rightarrow> rstr \<times> rstr \<Rightarrow> rstr \<times> object_meta \<Rightarrow> (rstr \<times> object_meta) result" where
  "map_file_owner is_match repo = (\<lambda>(name, checksum) (path, ret).
     and_then (query_file repo checksum) (\<lambda>childi.
     let path = path_push path name
     in if fi_type childi = FRegular \<or> fi_type childi = FSymbolicLink
        then and_then (own_object is_match path checksum ret) (\<lambda>ret. Inr (pop path, ret))
        else Inl (Err ''Unhandled file type'')))"

fun build_mapping_recurse ::
  "(rstr \<Rightarrow> rstr \<Rightarrow> bool) \<Rightarrow> object_store \<Rightarrow> nat \<Rightarrow> dirtree \<Rightarrow> rstr \<times> object_meta \<Rightarrow> (rstr \<times> object_meta) result" where
  "build_mapping_recurse is_match repo 0 dir s = Inl (Panic ''stack overflow'')"
| "build_mapping_recurse is_match repo (Suc fuel) dir s =
     and_then (try_fold (map_file_owner is_match repo) (dt_files dir) s) (\<lambda>s.
     try_fold (\<lambda>(name, contents_csum, _) (path, ret).
         and_then (load_dirtree repo contents_csum) (\<lambda>(_, child).
         and_then (build_mapping_recurse is_match repo fuel child (path_push path name, ret)) (\<lambda>(path, ret).
         Inr (pop path, ret))))
       (dt_dirs dir) s)"

definition TESTREF :: rstr where "TESTREF = str ''exampleos/x86_64/stable''"

definition get_object_meta :: "(rstr \<Rightarrow> rstr \<Rightarrow> bool) \<Rightarrow> object_store \<Rightarrow> nat \<Rightarrow> object_meta result" where
  "get_object_meta is_match repo fuel =
     and_then (require_rev repo TESTREF) (\<lambda>rev.
     and_then (load_commit repo rev) (\<lambda>commit.
     and_then (load_dirtree repo (co_tree commit)) (\<lambda>(_, root_dir).
     and_then (build_mapping_recurse is_match repo fuel root_dir ([slash], \<lparr>om_set = [], om_map = []\<rparr>)) (\<lambda>(_, ret).
     Inr ret))))"

subsection \<open>Listing a commit\<close>

definition ls_file :: "object_store \<Rightarrow> rstr \<times> rstr \<Rightarrow> rstr \<times> rstr \<Rightarrow> (rstr \<times> rstr) result" where
  "ls_file repo = (\<lambda>(name, checksum) (path, buf).
     let path = path_push path name
     in and_then (query_file repo checksum) (\<lambda>meta.
        let buf = buf @ str ''r '' @ path @ str '' '' @ fmt_dec (unat (fi_size meta)) @ [10]
        in and_then (ensure (path_parent path \<noteq> None) (Panic ''assertion failed: path.pop()'')) (\<lambda>_.
           Inr (pop path, buf))))"

fun ls_recurse :: "object_store \<Rightarrow> nat \<Rightarrow> dirtree \<Rightarrow> rstr \<times> rstr \<Rightarrow> (rstr \<times> rstr) result" where
  "ls_recurse repo 0 dt s = Inl (Panic ''stack overflow'')"
| "ls_recurse repo (Suc fuel) dt s =
     and_then (try_fold (ls_file repo) (dt_files dt) s) (\<lambda>s.
     try_fold (\<lambda>(name, contents_csum, _) (path, buf).
         and_then (load_dirtree repo contents_csum) (\<lambda>(_, child_v).
         and_then (ls_recurse repo fuel child_v (path_push path name, buf)) (\<lambda>(path, buf).
         and_then (ensure (path_parent path \<noteq> None) (Panic ''assertion failed: path.pop()'')) (\<lambda>_.
         Inr (pop path, buf)))))
       (dt_dirs dt) s)"

definition unwrap :: "'a result \<Rightarrow> 'a result" where
  "unwrap r = (case r of Inr x \<Rightarrow> Inr x | Inl _ \<Rightarrow> Inl (Panic ''unwrap() on an Err value''))"

definition ostree_ls :: "object_store \<Rightarrow> nat \<Rightarrow> rstr \<Rightarrow> rstr result" where
  "ostree_ls repo fuel r =
     and_then (unwrap (and_then (require_rev repo r) (load_commit repo))) (\<lambda>commit.
     and_then (unwrap (load_dirtree repo (co_tree commit))) (\<lambda>(_, root_contents).
     and_then (ls_recurse repo fuel root_contents ([slash], [])) (\<lambda>(_, contents_buf).
     Inr contents_buf)))"

definition assert_commits_filenames_equal :: "object_store \<Rightarrow> rstr \<Rightarrow> object_store \<Rightarrow> rstr \<Rightarrow> nat \<Rightarrow> unit result" where
  "assert_commits_filenames_equal a_repo a b_repo b fuel =
     and_then (unwrap (ostree_ls a_repo fuel a)) (\<lambda>a_contents_buf.
     and_then (unwrap (ostree_ls b_repo fuel b)) (\<lambda>b_contents_buf.
     ensure (a_contents_buf = b_contents_buf) (Panic ''assertion failed: left == right'')))"

text \<open>\<open>contentid\<close> is the checksum of a commit's content; \<open>ls_text\<close> runs \<^verbatim>\<open>ostree ls\<close>.\<close>

definition assert_commits_content_equal ::
  "(commit_object \<Rightarrow> rstr) \<Rightarrow> (object_store \<Rightarrow> rstr \<Rightarrow> rstr result) \<Rightarrow> object_store \<Rightarrow> rstr \<Rightarrow> object_store \<Rightarrow> rstr \<Rightarrow> unit result" where
  "assert_commits_content_equal contentid ls_text a_repo a b_repo b =
     and_then (unwrap (require_rev a_repo a)) (\<lambda>a.
     and_then (unwrap (require_rev a_repo b)) (\<lambda>b.
     and_then (unwrap (load_commit a_repo a)) (\<lambda>a_commit.
     and_then (unwrap (load_commit b_repo b)) (\<lambda>b_commit.
     if contentid a_commit = contentid b_commit then Inr ()
     else
       and_then (unwrap (ls_text a_repo a)) (\<lambda>a_contents.
       and_then (unwrap (ls_text b_repo b)) (\<lambda>b_contents.
       and_then (ensure (a_contents = b_contents) (Panic ''assertion failed: left == right'')) (\<lambda>_.
       Inl (Panic ''Should not be reached''))))))))"

subsection \<open>Writing commits\<close>

text \<open>The repository that is written, with the mutable trees of libostree; \<open>'t\<close> are references to such trees.  A
  written tree is known by the checksums of its contents and of its metadata.\<close>

record ('s, 't) fixture_env =
  fx_selinux :: bool
  fx_bootable :: bool
  fx_gpghome :: rstr
  fx_validate_dirmeta :: "dirmeta \<Rightarrow> unit result"
  fx_write_dirmeta :: "dirmeta \<Rightarrow> ('s, rstr) action"
  fx_write_regfile :: "u32 \<Rightarrow> u32 \<Rightarrow> u32 \<Rightarrow> xattrs option \<Rightarrow> rstr \<Rightarrow> ('s, rstr) action"
  fx_write_symlink :: "u32 \<Rightarrow> u32 \<Rightarrow> xattrs option \<Rightarrow> rstr \<Rightarrow> ('s, rstr) action"
  fx_new_tree :: "('s, 't) action"
  fx_tree_from_commit :: "rstr \<Rightarrow> ('s, 't) action"
  fx_ensure_parent_dirs :: "'t \<Rightarrow> rstr list \<Rightarrow> rstr \<Rightarrow> ('s, 't) action"
  fx_ensure_dir :: "'t \<Rightarrow> rstr \<Rightarrow> ('s, 't) action"
  fx_set_metadata_checksum :: "'t \<Rightarrow> rstr \<Rightarrow> ('s, unit) action"
  fx_replace_file :: "'t \<Rightarrow> rstr \<Rightarrow> rstr \<Rightarrow> ('s, unit) action"
  fx_walk :: "'t \<Rightarrow> rstr list \<Rightarrow> ('s, 't) action"
  fx_remove :: "'t \<Rightarrow> rstr \<Rightarrow> ('s, unit) action"
  fx_write_mtree :: "'t \<Rightarrow> ('s, rstr \<times> rstr) action"
  fx_write_commit :: "rstr option \<Rightarrow> vardict \<Rightarrow> rstr \<times> rstr \<Rightarrow> u64 \<Rightarrow> ('s, rstr) action"
  fx_begin :: "('s, unit) action"
  fx_set_ref :: "rstr \<Rightarrow> rstr \<Rightarrow> ('s, unit) action"
  fx_commit :: "('s, unit) action"
  fx_write_detached :: "rstr \<Rightarrow> vardict \<Rightarrow> ('s, unit) action"
  fx_sign :: "rstr \<Rightarrow> rstr \<Rightarrow> rstr \<Rightarrow> ('s, unit) action"
  fx_store :: "'s \<Rightarrow> object_store"
  fx_valid_time :: "u64 \<Rightarrow> bool"

definition require_dirmeta :: "('s, 't) fixture_env \<Rightarrow> rstr \<Rightarrow> ('s, rstr) action" where
  "require_dirmeta env path =
     (let v = create_dirmeta path (fx_selinux env)
      in act_bind (act_result (fx_validate_dirmeta env v)) (\<lambda>_. fx_write_dirmeta env v))"

definition ensure_parent_dirs :: "('s, 't) fixture_env \<Rightarrow> 't \<Rightarrow> rstr \<Rightarrow> rstr \<Rightarrow> ('s, 't) action" where
  "ensure_parent_dirs env mt path metadata_checksum =
     fx_ensure_parent_dirs env mt (relative_path_components path) metadata_checksum"

definition write_filedef :: "('s, 't) fixture_env \<Rightarrow> 't \<Rightarrow> file_def \<Rightarrow> ('s, unit) action" where
  "write_filedef env mt def =
     act_bind (case path_parent (fd_path def) of
         Some parent_path \<Rightarrow>
           act_bind (require_dirmeta env parent_path) (ensure_parent_dirs env mt (fd_path def))
       | None \<Rightarrow> act_ret mt) (\<lambda>parent.
     act_bind (act_result (ok_or (Panic ''file name'') (path_file_name (fd_path def)))) (\<lambda>name.
     let xattrs = label_xattrs (fx_selinux env) (fd_path def)
     in case fd_ty def of
          DefRegular contents \<Rightarrow>
            act_bind (fx_write_regfile env 0 0 (or S_IFREG (fd_mode def)) xattrs contents) (fx_replace_file env parent name)
        | DefSymlink target \<Rightarrow>
            act_bind (fx_write_symlink env (fd_uid def) (fd_gid def) xattrs target) (fx_replace_file env parent name)
        | DefDirectory \<Rightarrow>
            act_bind (fx_ensure_dir env parent name) (\<lambda>d.
            act_bind (require_dirmeta env (fd_path def)) (fx_set_metadata_checksum env d))))"

definition write_filedefs :: "('s, 't) fixture_env \<Rightarrow> 't \<Rightarrow> file_def result list \<Rightarrow> ('s, unit) action" where
  "write_filedefs env mt defs = act_fold (\<lambda>def _. act_bind (act_result def) (write_filedef env mt)) defs ()"

text \<open>The time stamp is that of Fri, 29 Aug 1997 10:30:42 PST.\<close>

definition fixture_metadata :: "bool \<Rightarrow> vardict" where
  "fixture_metadata bootable =
     kv_extend [] ([(str ''buildsys.checksum'', VString (str ''41af286dc0b172ed2f1ca934fd2278de4a1192302ffa07087cea2682e7d372e3'')),
        (str ''ostree.container-cmd'', VStrings [str ''/usr/bin/bash'']), (str ''version'', VString (str ''42.0''))] @
        (if bootable then [(METADATA_KEY_BOOTABLE, VBool True)] else []))"

definition TEST_GPG_KEYID_1 :: rstr where "TEST_GPG_KEYID_1 = str ''7FCA23D8472CDAFA''"

definition commit_filedefs :: "('s, 't) fixture_env \<Rightarrow> file_def result list \<Rightarrow> ('s, unit) action" where
  "commit_filedefs env defs =
     act_bind (fx_new_tree env) (\<lambda>mt.
     act_bind (fx_begin env) (\<lambda>_.
     act_bind (write_filedefs env mt defs) (\<lambda>_.
     act_bind (fx_write_mtree env mt) (\<lambda>mt.
     act_bind (fx_write_commit env None (fixture_metadata (fx_bootable env)) mt 872879442) (\<lambda>commit.
     act_bind (fx_set_ref env TESTREF commit) (\<lambda>_.
     act_bind (fx_commit env) (\<lambda>_.
     act_bind (fx_write_detached env commit (kv_extend [] [(str ''my-detached-key'', VString (str ''my-detached-value''))])) (\<lambda>_.
     fx_sign env commit TEST_GPG_KEYID_1 (fx_gpghome env)))))))))"

definition remove_path :: "('s, 't) fixture_env \<Rightarrow> 't \<Rightarrow> rstr \<Rightarrow> ('s, unit) action" where
  "remove_path env mt removal =
     act_bind (act_result (ok_or (Err ''Invalid path'') (path_file_name removal))) (\<lambda>filename.
     act_bind (fx_walk env mt (relative_path_components removal)) (\<lambda>parent.
     act_bind (fx_remove env parent filename) (\<lambda>_.
     act_bind (fx_write_mtree env parent) (\<lambda>_. act_ret ()))))"

definition update_fixture :: "('s, 't) fixture_env \<Rightarrow> file_def result list \<Rightarrow> rstr list \<Rightarrow> ('s, unit) action" where
  "update_fixture env additions removals =
     act_bind (act_query (\<lambda>s. require_rev (fx_store env s) TESTREF)) (\<lambda>rev.
     act_bind (act_query (\<lambda>s. load_commit (fx_store env s) rev)) (\<lambda>commit.
     act_bind (fx_tree_from_commit env rev) (\<lambda>mt.
     act_bind (act_result (ensure (fx_valid_time env (co_timestamp commit)) (Panic ''timestamp_opt().single().unwrap()''))) (\<lambda>_.
     act_bind (act_result (ensure (fx_valid_time env (co_timestamp commit + 86400)) (Panic ''DateTime + TimeDelta overflowed''))) (\<lambda>_.
     act_bind (fx_begin env) (\<lambda>_.
     act_bind (write_filedefs env mt additions) (\<lambda>_.
     act_bind (act_fold (\<lambda>removal _. remove_path env mt removal) removals ()) (\<lambda>_.
     act_bind (fx_write_mtree env mt) (\<lambda>mt.
     act_bind (fx_write_commit env (Some rev) (co_metadata commit) mt (co_timestamp commit + 86400)) (\<lambda>commit.
     act_bind (fx_set_ref env TESTREF commit) (\<lambda>_.
     fx_commit env)))))))))))"

subsection \<open>The destination repository\<close>

text \<open>\<open>list_all_refs\<close> lists every ref of the repository.\<close>

definition clear_destrepo ::
  "('s, 'z) ostree_repo_scheme \<Rightarrow> ('s \<Rightarrow> (rstr \<times> rstr) list result) \<Rightarrow> ('s, unit) action \<Rightarrow> ('s, unit) action" where
  "clear_destrepo repo list_all_refs prune_refs_only =
     act_bind (act_update (rp_set_ref repo TESTREF None)) (\<lambda>_.
     act_bind (act_query list_all_refs) (\<lambda>refs.
     act_bind (act_fold (\<lambda>(r, _) _. act_update (rp_set_ref repo r None)) refs ()) (\<lambda>_.
     prune_refs_only)))"

text \<open>\<open>new_importer\<close> opens the image without checking signatures.\<close>

definition must_import ::
  "('s, 'i) import_ctx \<Rightarrow> ('i image_proxy \<times> 'i image_importer) result \<Rightarrow> image_reference \<Rightarrow> ('s world, layered_image_state) action" where
  "must_import ctx new_importer imgref =
     act_bind (act_result (unwrap new_importer)) (\<lambda>(proxy, imp).
     let ctx = ctx\<lparr>ic_proxy := proxy\<rparr>
     in act_bind (on_repo (act_query (\<lambda>s. unwrap (query_image (ic_repo ctx) (ic_json ctx) s imgref)))) (\<lambda>found.
        act_bind (act_result (ensure (found = None) (Panic ''assertion failed: is_none()''))) (\<lambda>_.
        act_bind (on_repo (prepare ctx imp)) (\<lambda>prep.
        case prep of
          AlreadyPresent _ \<Rightarrow> act_result (Inl (Panic ''should not be already imported''))
        | Ready r \<Rightarrow> import_image ctx imp r))))"

subsection \<open>Exporting the fixture\<close>

definition new_v1 :: "('s, 't) fixture_env \<Rightarrow> ('s, unit) action" where
  "new_v1 env = commit_filedefs env (file_def_iter_from CONTENTS_V0)"

definition export_tar :: "export_env \<Rightarrow> nat \<Rightarrow> tar_entry list result" where
  "export_tar env fuel =
     and_then (require_rev (xe_store env) TESTREF) (\<lambda>rev.
     and_then (load_commit (xe_store env) rev) (\<lambda>commit.
     and_then (load_dirtree (xe_store env) (co_tree commit)) (\<lambda>_.
     export_commit env fuel rev)))"

definition PKGS_V0_LEN :: nat where "PKGS_V0_LEN = 7"

definition fixture_config :: encap_config where
  "fixture_config = \<lparr>ec_labels = Some (kv_extend [] [(str ''foo'', str ''bar''), (str ''test'', str ''value'')]), ec_cmd = None\<rparr>"

definition fixture_export_opts :: "object_meta_sized \<Rightarrow> export_opts" where
  "fixture_export_opts contentmeta = \<lparr>eo_skip_compression = False, eo_copy_meta_keys = [], eo_copy_meta_opt_keys = [],
     eo_max_layers = Some PKGS_V0_LEN, eo_authfile = None, eo_legacy_version_label = False, eo_container_config = None,
     eo_prior_build = None, eo_contentmeta = Some contentmeta, eo_created = None\<rparr>"

text \<open>\<open>remove_existing\<close> removes the directory of an earlier export, if there is one; \<open>host\<close> and \<open>inspect\<close> are
  those of \<^const>\<open>build_impl\<close>.\<close>

definition export_container ::
  "(rstr \<Rightarrow> unit result) \<Rightarrow> ('o, 'z) oci_host_scheme \<Rightarrow>
   (ostree_image_reference \<Rightarrow> (image_manifest \<times> digest) result) \<Rightarrow>
   (rstr \<Rightarrow> rstr \<Rightarrow> bool) \<Rightarrow> export_env \<Rightarrow> nat \<Rightarrow> rstr \<Rightarrow> (image_reference \<times> digest) result" where
  "export_container remove_existing host inspect is_match env fuel path =
     (let container_path = path_push path (str ''oci-v1'');
          imgref = \<lparr>ir_transport = OciDir, ir_name = container_path\<rparr>
      in and_then (remove_existing container_path) (\<lambda>_.
         and_then (get_object_meta is_match (xe_store env) fuel) (\<lambda>contentmeta.
         and_then (compute_sizes (xe_store env) contentmeta) (\<lambda>contentmeta.
         and_then (build_impl env host inspect fuel TESTREF fixture_config (fixture_export_opts contentmeta) imgref) (\<lambda>digest.
         Inr (imgref, digest))))))"

subsection \<open>Derived images\<close>

text \<open>\<open>add_layer\<close> writes the blob of the new layer; a tag, if there is one, is kept next to the other manifests of the
  directory, otherwise the new manifest is the only one.\<close>

record 'o derive_env =
  dv_read_index :: "'o \<Rightarrow> descriptor list option result"
  dv_read_manifest :: "'o \<Rightarrow> descriptor \<Rightarrow> image_manifest result"
  dv_read_config :: "'o \<Rightarrow> descriptor \<Rightarrow> image_configuration result"
  dv_add_layer :: "'o \<Rightarrow> (oci_layer \<times> 'o) result"
  dv_write_config :: "image_configuration \<Rightarrow> 'o \<Rightarrow> (descriptor \<times> 'o) result"
  dv_insert_manifest :: "image_manifest \<Rightarrow> rstr \<Rightarrow> rstr option \<Rightarrow> 'o \<Rightarrow> 'o result"
  dv_replace_with_single_manifest :: "image_manifest \<Rightarrow> rstr option \<Rightarrow> 'o \<Rightarrow> 'o result"

definition add_derived_layer ::
  "oci_layer \<Rightarrow> image_manifest \<times> image_configuration \<Rightarrow> image_manifest \<times> image_configuration" where
  "add_derived_layer new_layer = (\<lambda>(manifest, config).
     (manifest\<lparr>m_layers := m_layers manifest @ [layer_descriptor new_layer]\<rparr>,
      config\<lparr>c_history := c_history config @ [\<lparr>h_created_by = Some (str ''generate_derived_oci''), h_comment = None\<rparr>],
             c_diff_ids := c_diff_ids config @ [ol_uncompressed_sha256 new_layer]\<rparr>))"

definition generate_derived_oci_from_tar ::
  "'o derive_env \<Rightarrow> rstr option \<Rightarrow> rstr option \<Rightarrow> ('o, image_manifest \<times> image_configuration) action" where
  "generate_derived_oci_from_tar env tag arch =
     act_bind (act_query (dv_read_index env)) (\<lambda>idx.
     act_bind (act_result (ok_or (Err ''Reading image index from source'') idx)) (\<lambda>idx.
     act_bind (act_result (case idx of [] \<Rightarrow> Inl (Err ''No manifests in index'') | d # _ \<Rightarrow> Inr d)) (\<lambda>manifest_descriptor.
     act_bind (act_query (\<lambda>w. dv_read_manifest env w manifest_descriptor)) (\<lambda>manifest.
     act_bind (act_query (\<lambda>w. dv_read_config env w (m_config manifest))) (\<lambda>config.
     let config = (case arch of Some a \<Rightarrow> config\<lparr>c_architecture := a\<rparr> | None \<Rightarrow> config)
     in act_bind (act_lift (dv_add_layer env)) (\<lambda>new_layer.
        let (manifest, config) = add_derived_layer new_layer (manifest, config)
        in act_bind (act_lift (dv_write_config env config)) (\<lambda>new_config_desc.
           let manifest = manifest\<lparr>m_config := new_config_desc\<rparr>
           in act_bind (act_update (case tag of
                  Some tag \<Rightarrow> dv_insert_manifest env manifest tag arch
                | None \<Rightarrow> dv_replace_with_single_manifest env manifest arch)) (\<lambda>_.
              act_ret (manifest, config)))))))))"

definition detectenv :: "bool result \<Rightarrow> (rstr \<Rightarrow> bool) \<Rightarrow> bool \<Rightarrow> rstr result" where
  "detectenv ostree_container path_exists in_container =
     and_then ostree_container (\<lambda>b.
     Inr (if b then str ''ostree-container''
          else if path_exists (str ''/run/ostree-booted'') then str ''ostree''
          else if in_container then str ''container''
          else str ''none''))"

section \<open>Lemmas\<close>

subsection \<open>Walking a tree\<close>

text \<open>The files below a directory with their paths, in the order in which a directory is read.\<close>

fun tree_entries :: "object_store \<Rightarrow> nat \<Rightarrow> rstr \<Rightarrow> dirtree \<Rightarrow> (rstr \<times> rstr) list" where
  "tree_entries repo 0 p dt = []"
| "tree_entries repo (Suc d) p dt =
     map (\<lambda>(name, k). (path_push p name, k)) (dt_files dt) @
     concat (map (\<lambda>(name, c, _). case load_dirtree repo c of
         Inl _ \<Rightarrow> [] | Inr (_, sub) \<Rightarrow> tree_entries repo d (path_push p name) sub) (dt_dirs dt))"

lemma tree_entries_files: "snd ` set (tree_entries repo d p dt) = tree_files repo d dt"
proof (induction d arbitrary: p dt)
  case (Suc d)
  have "snd ` set (case load_dirtree repo c of Inl _ \<Rightarrow> [] | Inr (_, sub) \<Rightarrow> tree_entries repo d (path_push p name) sub) =
      (case load_dirtree repo c of Inl _ \<Rightarrow> {} | Inr (_, sub) \<Rightarrow> tree_files repo d sub)" for name c
    by (simp add: Suc split: sum.split prod.split)
  then show ?case
    by (simp add: image_Un image_UN image_image case_prod_beta)
qed simp

text \<open>A path that is its own normal form: pushing a name and popping it again gives it back.\<close>

definition norm_path :: "rstr \<Rightarrow> bool" where
  "norm_path p \<longleftrightarrow> path_collect (components p) = p"

lemma norm_path_root [simp]: "norm_path [slash]"
  by code_simp

lemma norm_path_push: "norm_path p \<Longrightarrow> plain_name n \<Longrightarrow> norm_path (path_push p n)"
  by (simp add: norm_path_def components_push path_collect_snoc)

lemma pop_path_push [simp]: "norm_path p \<Longrightarrow> plain_name n \<Longrightarrow> pop (path_push p n) = p"
  by (simp add: pop_def pop_push norm_path_def)

text \<open>What a loop does to its state, as a list of the files it visited.\<close>

locale traversal =
  fixes visits :: "'e list \<Rightarrow> 's \<Rightarrow> 's \<Rightarrow> bool"
  assumes visits_none: "visits [] s s"
    and visits_seq: "visits xs s t \<Longrightarrow> visits ys t u \<Longrightarrow> visits (xs @ ys) s u"
begin

lemma visits_loop:
  assumes "try_fold f items s = Inr t" "\<And>x a b. x \<in> set items \<Longrightarrow> f x a = Inr b \<Longrightarrow> visits (es x) a b"
  shows "visits (concat (map es items)) s t"
  using assms
proof (induction items arbitrary: s)
  case Nil
  then show ?case by (simp add: visits_none)
next
  case (Cons x items)
  from Cons.prems(1) obtain a where "f x s = Inr a" "try_fold f items a = Inr t" by (auto simp: result_simps)
  with Cons show ?case by (auto intro!: visits_seq)
qed

end

text \<open>The owners that were added to the map for some files, in a walk that starts and ends in a directory.\<close>

definition meta_wf :: "object_meta \<Rightarrow> bool" where
  "meta_wf m \<longleftrightarrow> distinct (map fst (om_map m)) \<and> distinct (map osm_identifier (om_set m)) \<and>
     osm_identifier ` set (om_set m) = snd ` set (om_map m) \<and> list_all (\<lambda>x. x = owner_meta (osm_identifier x)) (om_set m)"

definition owned ::
  "(rstr \<Rightarrow> rstr \<Rightarrow> bool) \<Rightarrow> rstr \<Rightarrow> (rstr \<times> rstr) list \<Rightarrow> rstr \<times> object_meta \<Rightarrow> rstr \<times> object_meta \<Rightarrow> bool" where
  "owned is_match dir es s t \<longleftrightarrow> fst s = dir \<longrightarrow>
     fst t = dir \<and> (meta_wf (snd s) \<longrightarrow> meta_wf (snd t)) \<and>
     (\<forall>(p, k) \<in> set es. owner_of is_match p \<noteq> None) \<and>
     set (om_map (snd t)) = set (om_map (snd s)) \<union> {(k, the (owner_of is_match p)) |p k. (p, k) \<in> set es}"

interpretation owned: traversal "owned is_match dir" for is_match dir
  by unfold_locales (auto simp: owned_def)

lemma own_object_Inr:
  assumes "own_object is_match path k m = Inr m'"
  obtains owner where "owner_of is_match path = Some owner" "set (om_map m') = insert (k, owner) (set (om_map m))"
    and "meta_wf m \<Longrightarrow> meta_wf m'"
proof -
  obtain owner where o: "owner_of is_match path = Some owner" using assms by (auto simp: own_object_def result_simps)
  define m1 where "m1 = (if owner \<in> osm_identifier ` set (om_set m) then m else m\<lparr>om_set := om_set m @ [owner_meta owner]\<rparr>)"
  have m1: "om_map m1 = om_map m" by (simp add: m1_def)
  have r: "(case map_of (om_map m) k of None \<Rightarrow> Inr (m1\<lparr>om_map := om_map m @ [(k, owner)]\<rparr>)
      | Some prev \<Rightarrow> if prev \<noteq> owner then Inl (Err ''Duplicate object ownership'') else Inr m1) = Inr m'"
    using assms o by (auto simp: own_object_def Let_def m1_def split: option.splits if_splits)
  show ?thesis
  proof (cases "map_of (om_map m) k")
    case None
    then have m': "m' = m1\<lparr>om_map := om_map m @ [(k, owner)]\<rparr>" using r by simp
    have "k \<notin> fst ` set (om_map m)" using None by (simp add: map_of_eq_None_iff)
    then have "meta_wf m \<Longrightarrow> meta_wf m'"
      by (auto simp: meta_wf_def m' m1_def owner_meta_def)
    then show ?thesis using that o m' by simp
  next
    case (Some prev)
    then have m': "m' = m1" "prev = owner" using r by (auto split: if_splits)
    then have mem: "(k, owner) \<in> set (om_map m)" using map_of_SomeD [OF Some] by simp
    then have "owner \<in> snd ` set (om_map m)" by (rule rev_image_eqI) simp
    then have "meta_wf m \<Longrightarrow> m1 = m" by (simp add: meta_wf_def m1_def)
    then show ?thesis using that o m' m1 mem by (simp add: insert_absorb)
  qed
qed

lemma map_file_owner_owned:
  assumes "map_file_owner is_match repo (name, k) (path, m) = Inr t" "plain_name name" "norm_path path"
  shows "owned is_match path [(path_push path name, k)] (path, m) t"
proof -
  obtain m' where m': "own_object is_match (path_push path name) k m = Inr m'" "t = (pop (path_push path name), m')"
    using assms(1) by (auto simp: map_file_owner_def result_simps Let_def split: if_splits)
  obtain owner where o: "owner_of is_match (path_push path name) = Some owner"
      "set (om_map m') = insert (k, owner) (set (om_map m))" "meta_wf m \<Longrightarrow> meta_wf m'"
    using own_object_Inr [OF m'(1)] by metis
  have "{(k', the (owner_of is_match p)) |p k'. (p, k') \<in> set [(path_push path name, k)]} = {(k, owner)}"
    using o(1) by auto
  then show ?thesis
    using assms(2,3) m'(2) o by (simp add: owned_def)
qed

lemma map_files_owned:
  assumes "try_fold (map_file_owner is_match repo) fs s = Inr t" "list_all (\<lambda>(name, _). plain_name name) fs" "norm_path p"
  shows "owned is_match p (map (\<lambda>(name, k). (path_push p name, k)) fs) s t"
proof -
  have "owned is_match p (concat (map (\<lambda>(name, k). [(path_push p name, k)]) fs)) s t"
    using assms(1)
  proof (rule owned.visits_loop)
    fix x a b assume x: "x \<in> set fs" and step: "map_file_owner is_match repo x a = Inr b"
    obtain name k where xk: "x = (name, k)" by force
    have "plain_name name" using x xk assms(2) by (auto simp: list_all_iff)
    with step xk assms(3) show "owned is_match p (case x of (name, k) \<Rightarrow> [(path_push p name, k)]) a b"
      using map_file_owner_owned [of is_match repo name k "fst a" "snd a" b]
      by (cases "fst a = p") (auto simp: owned_def)
  qed
  moreover have "concat (map (\<lambda>(name, k). [(path_push p name, k)]) fs) = map (\<lambda>(name, k). (path_push p name, k)) fs"
    by (induction fs) auto
  ultimately show ?thesis by simp
qed

lemma build_mapping_owned:
  assumes "build_mapping_recurse is_match repo d dt s = Inr t" "load_dirtree repo csum = Inr (n, dt)" "tree_loadable repo d csum"
    and "norm_path p"
  shows "owned is_match p (tree_entries repo d p dt) s t"
  using assms
proof (induction d arbitrary: dt s t csum n p)
  case (Suc d)
  let ?step = "\<lambda>(name, contents_csum, _) (path, ret).
       and_then (load_dirtree repo contents_csum) (\<lambda>(_, child).
       and_then (build_mapping_recurse is_match repo d child (path_push path name, ret)) (\<lambda>(path, ret). Inr (pop path, ret)))"
  let ?es = "\<lambda>(name, c, _). case load_dirtree repo c of Inl _ \<Rightarrow> [] | Inr (_, sub) \<Rightarrow> tree_entries repo d (path_push p name) sub"
  obtain u where u: "try_fold (map_file_owner is_match repo) (dt_files dt) s = Inr u" "try_fold ?step (dt_dirs dt) u = Inr t"
    using Suc.prems(1) by (auto simp: result_simps)
  have files: "list_all (\<lambda>(name, _). plain_name name) (dt_files dt)"
    and dirs: "list_all (\<lambda>(name, c, _). plain_name name \<and> tree_loadable repo d c) (dt_dirs dt)"
    using Suc.prems(2,3) by (auto simp: list_all_iff)
  have "owned is_match p (concat (map ?es (dt_dirs dt))) u t"
    using u(2)
  proof (rule owned.visits_loop)
    fix x a b assume x: "x \<in> set (dt_dirs dt)" and step: "?step x a = Inr b"
    obtain name c m where xk: "x = (name, c, m)" by (cases x) auto
    obtain k sub b' where r: "load_dirtree repo c = Inr (k, sub)"
        "build_mapping_recurse is_match repo d sub (path_push (fst a) name, snd a) = Inr b'" "b = (pop (fst b'), snd b')"
      using step xk by (cases a) (auto simp: result_simps)
    have ok: "plain_name name" "tree_loadable repo d c" using x xk dirs by (auto simp: list_all_iff)
    have norm: "norm_path (path_push p name)" by (rule norm_path_push [OF Suc.prems(4) ok(1)])
    show "owned is_match p (?es x) a b"
      using Suc.IH [OF r(2,1) ok(2) norm] r(1,3) xk ok(1) Suc.prems(4) by (auto simp: owned_def)
  qed
  from owned.visits_seq [OF map_files_owned [OF u(1) files Suc.prems(4)] this] show ?case by simp
qed simp

subsection \<open>Listing a commit\<close>

definition ls_line :: "object_store \<Rightarrow> rstr \<times> rstr \<Rightarrow> rstr" where
  "ls_line repo = (\<lambda>(path, k). str ''r '' @ path @ str '' '' @ fmt_dec (unat (object_size repo k)) @ [10])"

lemma try_fold_output:
  "(\<And>x buf. x \<in> set xs \<Longrightarrow> f x (p, buf) = Inr (p, buf @ g x)) \<Longrightarrow> try_fold f xs (p, buf) = Inr (p, buf @ concat (map g xs))"
  by (induction xs arbitrary: buf) auto

lemma concat_concat_map: "concat (concat (map f xs)) = concat (map (\<lambda>x. concat (f x)) xs)"
  by (induction xs) auto

lemma path_parent_push: "norm_path p \<Longrightarrow> plain_name n \<Longrightarrow> path_parent (path_push p n) = Some p"
  by (simp add: pop_push norm_path_def)

lemma ls_recurse_eq:
  assumes "load_dirtree repo csum = Inr (n, dt)" "tree_loadable repo d csum" "norm_path p"
  shows "ls_recurse repo d dt (p, buf) = Inr (p, buf @ concat (map (ls_line repo) (tree_entries repo d p dt)))"
  using assms
proof (induction d arbitrary: dt csum n p buf)
  case (Suc d)
  let ?es = "\<lambda>(name, c, _). case load_dirtree repo c of Inl _ \<Rightarrow> [] | Inr (_, sub) \<Rightarrow> tree_entries repo d (path_push p name) sub"
  let ?step = "\<lambda>(name, contents_csum, _) (path, buf).
         and_then (load_dirtree repo contents_csum) (\<lambda>(_, child_v).
         and_then (ls_recurse repo d child_v (path_push path name, buf)) (\<lambda>(path, buf).
         and_then (ensure (path_parent path \<noteq> None) (Panic ''assertion failed: path.pop()'')) (\<lambda>_.
         Inr (pop path, buf))))"
  have files: "list_all (\<lambda>(name, k). plain_name name \<and> is_ok (query_file repo k)) (dt_files dt)"
    and dirs: "list_all (\<lambda>(name, c, m). plain_name name \<and> tree_loadable repo d c) (dt_dirs dt)"
    using Suc.prems(1,2) by (auto simp: list_all_iff)
  have "try_fold (ls_file repo) (dt_files dt) (p, buf) =
      Inr (p, buf @ concat (map (\<lambda>(name, k). ls_line repo (path_push p name, k)) (dt_files dt)))" for buf
    using files Suc.prems(3)
    by (intro try_fold_output)
       (auto simp: list_all_iff ls_file_def ls_line_def object_size_def path_parent_push is_ok_iff Let_def)
  moreover have "try_fold ?step (dt_dirs dt) (p, buf) =
      Inr (p, buf @ concat (map (\<lambda>x. concat (map (ls_line repo) (?es x))) (dt_dirs dt)))" for buf
  proof (rule try_fold_output)
    fix x buf assume x: "x \<in> set (dt_dirs dt)"
    obtain name c m where xk: "x = (name, c, m)" by (cases x) auto
    have ok: "plain_name name" "tree_loadable repo d c" using x xk dirs by (auto simp: list_all_iff)
    then obtain k sub where ld: "load_dirtree repo c = Inr (k, sub)" by (cases d) (auto split: sum.splits)
    show "?step x (p, buf) = Inr (p, buf @ concat (map (ls_line repo) (?es x)))"
      using Suc.IH [OF ld ok(2) norm_path_push [OF Suc.prems(3) ok(1)]] ld ok(1) Suc.prems(3)
      by (simp add: xk path_parent_push)
  qed
  ultimately show ?case
    by (simp add: map_concat comp_def case_prod_beta' concat_concat_map)
qed simp

subsection \<open>Chunking the fixture\<close>

lemma get_object_meta_Inr:
  assumes "require_rev repo TESTREF = Inr commit" "load_commit repo commit = Inr co" "tree_loadable repo d (co_tree co)"
    and "load_dirtree repo (co_tree co) = Inr (n, dt)" "get_object_meta is_match repo d = Inr meta"
  shows "meta_wf meta" "\<forall>(p, k) \<in> set (tree_entries repo d [slash] dt). owner_of is_match p \<noteq> None"
    "set (om_map meta) = {(k, the (owner_of is_match p)) |p k. (p, k) \<in> set (tree_entries repo d [slash] dt)}"
    "fst ` set (om_map meta) = tree_files repo d dt"
proof -
  obtain p where "build_mapping_recurse is_match repo d dt ([slash], \<lparr>om_set = [], om_map = []\<rparr>) = Inr (p, meta)"
    using assms(1,2,4,5) by (auto simp: get_object_meta_def result_simps)
  from build_mapping_owned [OF this assms(4,3) norm_path_root]
  show "meta_wf meta" "\<forall>(p, k) \<in> set (tree_entries repo d [slash] dt). owner_of is_match p \<noteq> None"
    and map: "set (om_map meta) = {(k, the (owner_of is_match p)) |p k. (p, k) \<in> set (tree_entries repo d [slash] dt)}"
    by (simp_all add: owned_def meta_wf_def)
  have "fst ` {(k, the (owner_of is_match p)) |p k. (p, k) \<in> E} = snd ` E" for E by force
  from this [of "set (tree_entries repo d [slash] dt)"] show "fst ` set (om_map meta) = tree_files repo d dt"
    unfolding map tree_entries_files .
qed

lemma tree_files_query: "tree_loadable repo d csum \<Longrightarrow> load_dirtree repo csum = Inr (n, dt) \<Longrightarrow> k \<in> tree_files repo d dt \<Longrightarrow> is_ok (query_file repo k)"
proof (induction d arbitrary: csum n dt)
  case (Suc d)
  have loadable: "tree_loadable repo d (fst (snd e))" if "e \<in> set (dt_dirs dt)" for e
    using that Suc.prems(1,2) by (auto simp: list_all_iff)
  from Suc.prems(3) consider name where "(name, k) \<in> set (dt_files dt)"
    | e where "e \<in> set (dt_dirs dt)"
        "k \<in> (case load_dirtree repo (fst (snd e)) of Inl _ \<Rightarrow> {} | Inr (_, sub) \<Rightarrow> tree_files repo d sub)"
    by auto
  then show ?case
  proof cases
    case 1
    with Suc.prems(1,2) show ?thesis by (auto simp: list_all_iff)
  next
    case (2 e)
    then obtain m sub where "load_dirtree repo (fst (snd e)) = Inr (m, sub)" "k \<in> tree_files repo d sub"
      by (cases "load_dirtree repo (fst (snd e))") auto
    with Suc.IH [OF loadable [OF 2(1)]] show ?thesis by blast
  qed
qed simp

text \<open>Components of the highest frequency can always be packed: into one bin, or each into its own.\<close>

definition packed_bins :: "nat \<Rightarrow> bin \<Rightarrow> bin list" where
  "packed_bins m cs = (if length cs < m then map (\<lambda>c. [c]) cs @ (if cs \<noteq> [] then [[]] else []) else [cs, []])"

lemma max_frequency_packing:
  assumes "4 \<le> m" "list_all (\<lambda>c. change_frequency c = - 1) cs"
  shows "basic_packing cs m None = Inr (packed_bins m cs)"
proof (cases "length cs < m")
  case False
  then have "cs \<noteq> []" using assms(1) by auto
  moreover have "filter (\<lambda>c. change_frequency c = - 1) cs = cs" "filter (\<lambda>c. change_frequency c \<noteq> - 1) cs = []"
    using assms(2) by (auto simp: list_all_iff filter_id_conv filter_empty_conv)
  ultimately show ?thesis
    using False assms(1) by (simp add: packed_bins_def basic_packing_def MIN_CHUNKED_LAYERS_def Let_def)
qed (use assms(1) in \<open>simp add: packed_bins_def basic_packing_def MIN_CHUNKED_LAYERS_def\<close>)

lemma gathered_sizes:
  assumes "meta_wf meta" "\<And>k. k \<in> fst ` set (om_map meta) \<Longrightarrow> is_ok (query_file repo k)"
  obtains sized where "compute_sizes repo meta = Inr sized" "length (oz_sizes sized) = length (om_set meta)"
    and "list_all (\<lambda>c. change_frequency c = - 1) (oz_sizes sized)" "oz_map sized = om_map meta"
    and "(\<lambda>c. osm_identifier (oms_meta c)) ` set (oz_sizes sized) = snd ` set (om_map meta)"
proof -
  have "is_ok (query_file repo k) \<and> cid \<in> osm_identifier ` set (om_set meta)" if "(k, cid) \<in> set (om_map meta)" for k cid
    using assms(2) [of k] assms(1) that rev_image_eqI [OF that, of _ fst] rev_image_eqI [OF that, of _ snd] by (simp add: meta_wf_def)
  then have "is_ok (compute_sizes repo meta)" by (auto simp: compute_sizes_ok_iff)
  then obtain sized where sized: "compute_sizes repo meta = Inr sized" by (auto simp: is_ok_iff)
  note sz = compute_sizes_Inr [OF sized]
  have "length (oz_sizes sized) = length (om_set meta)"
    using distinct_card [OF sz(3)] distinct_card [of "map osm_identifier (om_set meta)"] assms(1) sz(4) by (simp add: meta_wf_def)
  moreover have "change_frequency c = - 1" if "c \<in> set (oz_sizes sized)" for c
  proof -
    have "oms_meta c = owner_meta (osm_identifier (oms_meta c))"
      using sz(5) [OF that] assms(1) by (auto simp: meta_wf_def list_all_iff)
    from arg_cong [OF this, of osm_change_frequency] show ?thesis by (simp add: change_frequency_def owner_meta_def)
  qed
  ultimately show ?thesis using that [OF sized] sz(1,4) by (simp add: list_all_iff)
qed

subsection \<open>Derived images\<close>

lemma add_derived_layer_layout:
  assumes "parse_manifest_layout manifest config = Inr (ostree_layer, comps, derived)"
    and "layer_descriptor l \<notin> set (m_layers manifest)" "add_derived_layer l (manifest, config) = (manifest', config')"
  shows "parse_manifest_layout (manifest'\<lparr>m_config := cd\<rparr>) config' = Inr (ostree_layer, comps, derived @ [layer_descriptor l])"
proof -
  from parse_layout_backward [OF assms(1)] obtain labels diffid idx pre target where
    l: "labels_of config = Some labels" "kv_lookup labels DIFFID_LABEL = Some diffid" "index_of diffid (c_diff_ids config) = Some idx"
      "idx < length (m_layers manifest)" "target = m_layers manifest ! idx" "ostree_layer = hd (m_layers manifest)"
      "m_layers manifest = pre @ target # derived" "target \<notin> set pre" "target \<notin> set derived"
      "comps = filter (\<lambda>l. l \<noteq> ostree_layer) (pre @ [target])"
    by blast
  let ?m = "manifest'\<lparr>m_config := cd\<rparr>"
  have m': "m_layers ?m = m_layers manifest @ [layer_descriptor l]" "c_diff_ids config' = c_diff_ids config @ [ol_uncompressed_sha256 l]"
      "labels_of config' = labels_of config"
    using assms(3) by (auto simp: add_derived_layer_def labels_of_def)
  have "parse_manifest_layout ?m config' = Inr (ostree_layer, filter (\<lambda>l. l \<noteq> ostree_layer) (pre @ [target]), derived @ [layer_descriptor l])"
  proof (rule parse_layout_forward [of config' labels diffid idx])
    show "labels_of config' = Some labels" "index_of diffid (c_diff_ids config') = Some idx" "idx < length (m_layers ?m)"
      using l(1,3,4) m' by (simp_all add: index_of_append)
    show "target = m_layers ?m ! idx" using l(4) by (simp only: m'(1) nth_append l(5) if_True)
    show "ostree_layer = hd (m_layers ?m)" unfolding m'(1) l(6) using l(4) by (intro hd_append2 [symmetric]) auto
    show "m_layers ?m = pre @ target # derived @ [layer_descriptor l]" unfolding m'(1) by (simp add: l(7))
    show "target \<notin> set (derived @ [layer_descriptor l])" using l(9) assms(2) by (auto simp: l(7))
  qed (fact l(2), fact l(8))
  with l(10) show ?thesis by simp
qed

section \<open>Properties\<close>

text \<open>C26: the packages of the fixture's objects.  When they can be gathered from a commit, every file of the commit has an
  owner, and the result is well formed: each object is in the map once, with the owner of each of its paths, and the
  set has exactly the owners in the map, each once.\<close>

theorem get_object_meta_wf:
  assumes "require_rev repo TESTREF = Inr commit" "load_commit repo commit = Inr co" "tree_loadable repo d (co_tree co)"
    and "load_dirtree repo (co_tree co) = Inr (n, dt)" "get_object_meta is_match repo d = Inr meta"
  shows "meta_wf meta \<and> fst ` set (om_map meta) = tree_files repo d dt \<and>
    (\<forall>(p, k) \<in> set (tree_entries repo d [slash] dt). \<exists>owner. owner_of is_match p = Some owner \<and> map_of (om_map meta) k = Some owner)"
proof -
  note meta = get_object_meta_Inr [OF assms]
  have "map_of (om_map meta) k = owner_of is_match p" if "(p, k) \<in> set (tree_entries repo d [slash] dt)" for p k
  proof -
    have "(k, the (owner_of is_match p)) \<in> set (om_map meta)" using that meta(3) by auto
    with meta(1) have "map_of (om_map meta) k = Some (the (owner_of is_match p))" by (simp add: meta_wf_def)
    with meta(2) that show ?thesis by auto
  qed
  then show ?thesis using meta(1,2,4) by (auto split: prod.splits)
qed

definition opt_match :: "rstr \<Rightarrow> rstr \<Rightarrow> bool" where
  "opt_match re path \<longleftrightarrow> re = str ''opt''"

definition sample_root :: dirtree where
  "sample_root = \<lparr>dt_files = [(str ''a'', [49])], dt_dirs = [(str ''usr'', [117], [109])]\<rparr>"

definition sample_root_commit :: commit_object where
  "sample_root_commit = \<lparr>co_metadata = [], co_parent = None, co_subject = [], co_body = [], co_timestamp = 0, co_tree = [114], co_meta = [109]\<rparr>"

lemma sample_root_loads:
  "require_rev Chunking.sample_store r = Inr [99]" "load_commit Chunking.sample_store [99] = Inr sample_root_commit"
  "tree_loadable Chunking.sample_store 2 (co_tree sample_root_commit)" "load_dirtree Chunking.sample_store (co_tree sample_root_commit) = Inr (40, sample_root)"
  "is_ok (load_dirmeta Chunking.sample_store (co_meta sample_root_commit))" "tree_files Chunking.sample_store 2 sample_root = {[49], [50]}"
proof -
  show "require_rev Chunking.sample_store r = Inr [99]" "load_commit Chunking.sample_store [99] = Inr sample_root_commit"
    "load_dirtree Chunking.sample_store (co_tree sample_root_commit) = Inr (40, sample_root)"
    "is_ok (load_dirmeta Chunking.sample_store (co_meta sample_root_commit))"
    by (simp_all add: Chunking.sample_store_def sample_root_commit_def sample_root_def)
  have load: "load_dirtree Chunking.sample_store [114] = Inr (40, sample_root)"
    "load_dirtree Chunking.sample_store [117] = Inr (30, \<lparr>dt_files = [(str ''b'', [50]), (str ''c'', [50])], dt_dirs = []\<rparr>)"
    by (simp_all add: Chunking.sample_store_def sample_root_def)
  show "tree_loadable Chunking.sample_store 2 (co_tree sample_root_commit)"
    by (simp add: load numeral_2_eq_2 sample_root_commit_def)
       (simp add: Chunking.sample_store_def sample_root_def load plain_name_def path_consts str_simps)
  show "tree_files Chunking.sample_store 2 sample_root = {[49], [50]}"
    by (auto simp: load numeral_2_eq_2 sample_root_def)
qed

definition sample_gathered :: object_meta where
  "sample_gathered = \<lparr>om_set = [owner_meta (str ''filesystem'')], om_map = [([49], str ''filesystem''), ([50], str ''filesystem'')]\<rparr>"

lemma sample_gathered: "get_object_meta opt_match Chunking.sample_store 2 = Inr sample_gathered"
  by code_simp

theorem get_object_meta_wf_witness:
  "get_object_meta opt_match Chunking.sample_store 2 = Inr sample_gathered \<and> meta_wf sample_gathered \<and>
     fst ` set (om_map sample_gathered) = {[49], [50]}"
  using get_object_meta_wf [OF sample_root_loads(1-4) sample_gathered] sample_gathered sample_root_loads(6) by simp

text \<open>C30: the fixture can be chunked.  For the owners gathered from its commit the sizes of all packages are computed, and
  distributing the objects of the commit, by its ref or its checksum, over at least four layers succeeds: with one chunk per package and the empty reserved one as
  long as they fit, with two chunks otherwise.\<close>

theorem fixture_chunking_succeeds:
  assumes "require_rev repo TESTREF = Inr commit" "load_commit repo commit = Inr co" "tree_loadable repo d (co_tree co)"
    and "load_dirtree repo (co_tree co) = Inr (n, dt)" "is_ok (load_dirmeta repo (co_meta co))"
    and "get_object_meta is_match repo d = Inr meta" "4 \<le> m" "tree_files repo d dt \<noteq> {}" "require_rev repo r = Inr commit"
  shows "\<exists>sized c. compute_sizes repo meta = Inr sized \<and> from_mapping repo d r sized (Some m) None = Inr c \<and>
    length (chunks c) = (if length (om_set meta) < m then Suc (length (om_set meta)) else 2)"
proof -
  note meta = get_object_meta_Inr [OF assms(1-4,6)]
  have "is_ok (query_file repo k)" if "k \<in> fst ` set (om_map meta)" for k
    using tree_files_query [OF assms(3,4)] that meta(4) by simp
  then obtain sized where sized: "compute_sizes repo meta = Inr sized" "length (oz_sizes sized) = length (om_set meta)"
      "list_all (\<lambda>c. change_frequency c = - 1) (oz_sizes sized)" "oz_map sized = om_map meta"
      "(\<lambda>c. osm_identifier (oms_meta c)) ` set (oz_sizes sized) = snd ` set (om_map meta)"
    using gathered_sizes [OF meta(1)] by blast
  obtain ck where ck: "chunking_new repo d r = Inr ck" "chunks ck = []" "\<not> processed_mapping ck" "chunk_inv (remainder ck)"
      "fst ` set (ck_content (remainder ck)) = tree_files repo d dt"
    using chunking_new_ok [OF assms(9,2-5)] by blast
  have "\<exists>s \<in> set (oz_sizes sized). (k, osm_identifier (oms_meta s)) \<in> set (oz_map sized)"
    if k: "k \<in> fst ` set (ck_content (remainder ck))" for k
  proof -
    obtain cid where kc: "(k, cid) \<in> set (om_map meta)" using k ck(5) meta(4) by (metis imageE prod.collapse)
    then have "cid \<in> snd ` set (om_map meta)" by (rule rev_image_eqI) simp
    then have "cid \<in> (\<lambda>c. osm_identifier (oms_meta c)) ` set (oz_sizes sized)" unfolding sized(5) .
    then obtain s where "s \<in> set (oz_sizes sized)" "cid = osm_identifier (oms_meta s)" by blast
    with kc sized(4) show ?thesis by auto
  qed
  moreover have "osm_identifier (oms_meta s) \<in> snd ` set (oz_map sized)" if "s \<in> set (oz_sizes sized)" for s
    unfolding sized(4) sized(5) [symmetric] using that by (rule imageI)
  moreover have "m \<noteq> 0" using assms(7) by simp
  ultimately have "\<exists>c. process_mapping sized (Some m) None ck = Inr c \<and>
      map ck_packages (chunks c) = map (map (\<lambda>v. osm_name (oms_meta v))) (packed_bins m (oz_sizes sized))"
    by (intro process_mapping_total [OF ck(3,2,4) _ max_frequency_packing [OF assms(7) sized(3)]] ballI)
  then obtain c where c: "process_mapping sized (Some m) None ck = Inr c"
    and pk: "map ck_packages (chunks c) = map (map (\<lambda>v. osm_name (oms_meta v))) (packed_bins m (oz_sizes sized))"
    by blast
  have "om_set meta \<noteq> []" using assms(8) meta(1,4) by (auto simp: meta_wf_def)
  then have "length (chunks c) = (if length (om_set meta) < m then Suc (length (om_set meta)) else 2)"
    using arg_cong [OF pk, of length] sized(2) by (auto simp: packed_bins_def)
  with sized(1) c ck(1) show ?thesis by (auto simp: from_mapping_def)
qed

theorem fixture_chunking_succeeds_witness:
  "\<exists>sized c. compute_sizes Chunking.sample_store sample_gathered = Inr sized \<and>
     from_mapping Chunking.sample_store 2 [99] sized (Some 7) None = Inr c \<and> length (chunks c) = 2"
proof -
  have "tree_files Chunking.sample_store 2 sample_root \<noteq> {}" unfolding sample_root_loads(6) by simp
  moreover have "length (om_set sample_gathered) = 1" by (simp add: sample_gathered_def)
  ultimately show ?thesis
    using fixture_chunking_succeeds [OF sample_root_loads(1-5) sample_gathered _ _ sample_root_loads(1), of 7 "[99]"] by (simp add: numeral_eq_Suc)
qed

text \<open>C24: an image derived from another one by a layer.  The new image is read back with the same ostree layer, the
  same chunks, and the new layer behind the derived layers of the base image, provided that the layer is new.\<close>

theorem derived_image_layout:
  assumes "generate_derived_oci_from_tar env tag arch w = (Inr (manifest', config'), w')"
  shows "\<exists>d ds manifest config l w1. dv_read_index env w = Inr (Some (d # ds)) \<and> dv_read_manifest env w d = Inr manifest \<and>
    dv_read_config env w (m_config manifest) = Inr config \<and> dv_add_layer env w = Inr (l, w1) \<and>
    (\<forall>ostree_layer comps derived. parse_manifest_layout manifest config = Inr (ostree_layer, comps, derived) \<and>
       layer_descriptor l \<notin> set (m_layers manifest) \<longrightarrow>
       parse_manifest_layout manifest' config' = Inr (ostree_layer, comps, derived @ [layer_descriptor l]))"
proof -
  let ?with_arch = "\<lambda>config. case arch of Some a \<Rightarrow> config\<lparr>c_architecture := a\<rparr> | None \<Rightarrow> config"
  obtain idx d manifest config l w1 cd where run: "dv_read_index env w = Inr (Some idx)"
      "(case idx of [] \<Rightarrow> Inl (Err ''No manifests in index'') | d # _ \<Rightarrow> Inr d) = Inr d" "dv_read_manifest env w d = Inr manifest"
      "dv_read_config env w (m_config manifest) = Inr config" "dv_add_layer env w = Inr (l, w1)"
      "manifest' = (fst (add_derived_layer l (manifest, ?with_arch config)))\<lparr>m_config := cd\<rparr>"
      "config' = snd (add_derived_layer l (manifest, ?with_arch config))"
    using assms unfolding generate_derived_oci_from_tar_def
    by (auto simp: act_simps Let_def result_simps case_prod_beta)
  from run(2) obtain ds where idx: "idx = d # ds" by (cases idx) auto
  note r = run(1) [unfolded idx] run(3-5)
  let ?config = "case arch of Some a \<Rightarrow> config\<lparr>c_architecture := a\<rparr> | None \<Rightarrow> config"
  have same: "parse_manifest_layout manifest ?config = parse_manifest_layout manifest config"
    by (simp add: parse_manifest_layout_def layer_from_diffid_def labels_of_def split: option.split)
  have "parse_manifest_layout manifest' config' = Inr (ostree_layer, comps, derived @ [layer_descriptor l])"
    if "parse_manifest_layout manifest config = Inr (ostree_layer, comps, derived)" "layer_descriptor l \<notin> set (m_layers manifest)"
    for ostree_layer comps derived
    using add_derived_layer_layout [of manifest ?config ostree_layer comps derived l] that same run(6,7) by (simp add: prod_eq_iff)
  with r show ?thesis by blast
qed

definition sample_derive_env :: "nat derive_env" where
  "sample_derive_env = \<lparr>dv_read_index = (\<lambda>_. Inr (Some [stored_layer ''i''])), dv_read_manifest = (\<lambda>_ _. Inr exported_manifest),
     dv_read_config = (\<lambda>_ _. Inr labelled_config), dv_add_layer = (\<lambda>w. Inr (sample_oci_layer 7, w)),
     dv_write_config = (\<lambda>_ w. Inr (stored_layer ''c'', w)), dv_insert_manifest = (\<lambda>_ _ _ w. Inr w),
     dv_replace_with_single_manifest = (\<lambda>_ _ w. Inr w)\<rparr>"

theorem derived_image_layout_witness:
  "\<exists>manifest' config' w'. generate_derived_oci_from_tar sample_derive_env None None 0 = (Inr (manifest', config'), w') \<and>
     parse_manifest_layout manifest' config' =
       Inr (hd (m_layers exported_manifest), tl (m_layers exported_manifest), [layer_descriptor (sample_oci_layer 7)])"
proof -
  let ?mc = "add_derived_layer (sample_oci_layer 7) (exported_manifest, labelled_config)"
  have run: "generate_derived_oci_from_tar sample_derive_env None None 0 =
      (Inr ((fst ?mc)\<lparr>m_config := stored_layer ''c''\<rparr>, snd ?mc), 0)"
    by (simp add: generate_derived_oci_from_tar_def sample_derive_env_def act_bind_query act_bind_def act_query_def
        act_lift_def act_update_def act_result_def Let_def case_prod_beta)
  have base: "parse_manifest_layout exported_manifest labelled_config =
      Inr (hd (m_layers exported_manifest), tl (m_layers exported_manifest), [])"
    by code_simp
  have "layer_descriptor (sample_oci_layer 7) \<notin> set (m_layers exported_manifest)"
    by code_simp
  with derived_image_layout [OF run] base run show ?thesis
    by (auto simp: sample_derive_env_def)
qed

text \<open>Listing a commit.  For every commit whose tree can be loaded the listing is one line for each file of the tree,
  with its path from the root and its size, files before directories.\<close>

theorem ostree_ls_exact:
  assumes "require_rev repo r = Inr commit" "load_commit repo commit = Inr co" "tree_loadable repo d (co_tree co)"
    and "load_dirtree repo (co_tree co) = Inr (n, dt)"
  shows "ostree_ls repo d r = Inr (concat (map (ls_line repo) (tree_entries repo d [slash] dt)))"
  using ls_recurse_eq [OF assms(4,3) norm_path_root, of "[]"] assms(1,2,4)
  by (simp add: ostree_ls_def unwrap_def)

theorem ostree_ls_exact_witness:
  "ostree_ls Chunking.sample_store 2 TESTREF = Inr (str ''r /a 5'' @ [10] @ str ''r /usr/b 6'' @ [10] @ str ''r /usr/c 6'' @ [10])"
proof -
  have "concat (map (ls_line Chunking.sample_store) (tree_entries Chunking.sample_store 2 [slash] sample_root)) =
      str ''r /a 5'' @ [10] @ str ''r /usr/b 6'' @ [10] @ str ''r /usr/c 6'' @ [10]"
    by code_simp
  with ostree_ls_exact [OF sample_root_loads(1-4), of TESTREF] show ?thesis by simp
qed

subsection \<open>Where the fixture departs from its purpose\<close>

text \<open>The owner given for a regular file has no effect.\<close>

lemma regular_file_owner_ignored:
  "fd_ty def = DefRegular contents \<Longrightarrow> write_filedef env mt (def\<lparr>fd_uid := uid, fd_gid := gid\<rparr>) = write_filedef env mt def"
  by (simp add: write_filedef_def Let_def cong: option.case_cong)

text \<open>A commit that only the second repository has cannot be compared.\<close>

lemma content_compared_in_first_repo:
  assumes "require_rev a_repo a = Inr c" "require_rev a_repo b = Inl e"
  shows "is_panic (assert_commits_content_equal contentid ls_text a_repo a b_repo b)"
  using assms by (simp add: assert_commits_content_equal_def unwrap_def is_panic_def)

text \<open>The diff id of a derived layer lacks the algorithm that every other diff id has.\<close>

lemma derived_diff_id_bare:
  "list_all (\<lambda>c. c \<noteq> 58) (ol_uncompressed_sha256 l) \<Longrightarrow> last (c_diff_ids (snd (add_derived_layer l mc))) \<noteq> diff_id l"
  by (cases mc) (auto simp: add_derived_layer_def diff_id_def str_simps)

text \<open>The definitions of the fixture's own commit can all be read.\<close>

lemma contents_v0_parsed:
  "map is_ok (file_def_iter_from CONTENTS_V0) = replicate 16 True"
  by code_simp

end
