(* ===== verification/Spec2Isabelle.thy ===== *)
theory Spec2Isabelle
  imports CliRun Fixture
begin

text \<open>
  A verification development for \<^verbatim>\<open>ostree-ext\<close>, the Rust library (\<^verbatim>\<open>src/lib\<close>) that maps ostree commits to
  OCI container images and back.

  \<^bold>\<open>The program.\<close>  A commit is \<^emph>\<open>encapsulated\<close> as a container image: its objects are split into
  chunks by the component (package) that owns them (\<^verbatim>\<open>chunking.rs\<close>, with the statistics of \<^verbatim>\<open>statistics.rs\<close>
  and the ownership data of \<^verbatim>\<open>objectsource.rs\<close>), every chunk becomes a tar stream (\<^verbatim>\<open>tar/export.rs\<close>) and
  every stream a layer of an OCI image (\<^verbatim>\<open>container/encapsulate.rs\<close>).  A container image is \<^emph>\<open>imported\<close>
  into a repository: the importer of \<^verbatim>\<open>container/store.rs\<close> fetches its layers (\<^verbatim>\<open>container/unencapsulate.rs\<close>),
  reads its ostree layers back as objects (\<^verbatim>\<open>tar/import.rs\<close>), filters and commits its derived layers
  (\<^verbatim>\<open>tar/write.rs\<close>) and writes a merge commit; the store keeps a ref for every layer and every image, whose names
  are escaped by \<^verbatim>\<open>refescape.rs\<close>, while image references are parsed and printed in \<^verbatim>\<open>container/mod.rs\<close>.  Stored
  images are deployed, pruned (\<^verbatim>\<open>container/deploy.rs\<close>), copied and exported again, and repaired (\<^verbatim>\<open>repair.rs\<close>).
  Smaller parts clean a root before it is committed (\<^verbatim>\<open>commit.rs\<close>), sign the files of a commit (\<^verbatim>\<open>ima.rs\<close>),
  replace the detached metadata of an image (\<^verbatim>\<open>container/update_detachedmeta.rs\<close>) and compare trees (\<^verbatim>\<open>diff.rs\<close>).

  \<^bold>\<open>Theories and the code they model.\<close>

  \<^item> \<open>Prelude\<close>: Rust strings as lists of code points, results as sums with an error type that separates
    errors from panics, the standard library's string, iterator and map functions the crate uses, and the
    two interfaces \<open>map_store\<close> (a key-value map) and \<open>text_codec\<close> (a printer with a parser that inverts it).
  \<^item> \<open>Action\<close>: stateful code that may fail and leaves a state behind when it does, with rules for what its
    runs do to the state.
  \<^item> \<open>Refescape\<close> (\<^verbatim>\<open>refescape.rs\<close>): escaping of arbitrary names into refs; an instance of \<open>text_codec\<close>.
  \<^item> \<open>Oci\<close>: the fields of the OCI manifest and configuration the crate reads; what else a descriptor holds is kept as
    one further field, so that descriptors are equal exactly when all their fields are.
  \<^item> \<open>ImageRef\<close> (\<^verbatim>\<open>container/mod.rs\<close>): image references, signature sources, manifest differences.
  \<^item> \<open>RustFloat\<close>, \<open>Statistics\<close> (\<^verbatim>\<open>statistics.rs\<close>): IEEE-754 arithmetic on rationals with round-to-nearest-even,
    and the statistics computed with it.
  \<^item> \<open>UPath\<close>: the path functions of the standard library (components, parents, joining, prefixes).
  \<^item> \<open>Repo\<close>: what is used of libostree, as records of functions that the definitions take as an argument.
  \<^item> \<open>Packing\<close>, \<open>Chunking\<close> (\<^verbatim>\<open>chunking.rs\<close>, \<^verbatim>\<open>objectsource.rs\<close>): partitions of components, bins, chunks.
  \<^item> \<open>TarWrite\<close> (\<^verbatim>\<open>tar/write.rs\<close>): normalizing and filtering the entries of a layer.
  \<^item> \<open>TarImport\<close> (\<^verbatim>\<open>tar/import.rs\<close>): the importer's state machine over tar entries.
  \<^item> \<open>TarExport\<close> (\<^verbatim>\<open>tar/export.rs\<close>): writing commits and chunks, and replacing detached metadata.
  \<^item> \<open>Store\<close> (\<^verbatim>\<open>container/store.rs\<close>): image and layer refs, commit metadata, manifest layout, queries,
    garbage collection and removal.
  \<^item> \<open>TreeDiff\<close> (\<^verbatim>\<open>diff.rs\<close>, \<^verbatim>\<open>compare_commit_trees\<close> of \<^verbatim>\<open>container/store.rs\<close>).
  \<^item> \<open>Encapsulate\<close> (\<^verbatim>\<open>container/encapsulate.rs\<close>): labels, layers and the written image.
  \<^item> \<open>HostConfig\<close> (\<^verbatim>\<open>globals.rs\<close>, \<^verbatim>\<open>isolation.rs\<close>, \<^verbatim>\<open>keyfileext.rs\<close>, \<^verbatim>\<open>ostree_prepareroot.rs\<close>, \<^verbatim>\<open>container_utils.rs\<close>,
    \<^verbatim>\<open>bootabletree.rs\<close>, \<^verbatim>\<open>selinux.rs\<close>, \<^verbatim>\<open>mountutil.rs\<close>, \<^verbatim>\<open>container/skopeo.rs\<close>): what is read of the host.
  \<^item> \<open>Fetch\<close> (\<^verbatim>\<open>container/unencapsulate.rs\<close>, \<^verbatim>\<open>tokio_util.rs\<close>): fetching manifests and layers.
  \<^item> \<open>ImageImport\<close> (\<^verbatim>\<open>ImageImporter\<close> in \<^verbatim>\<open>container/store.rs\<close>): preparing and importing an image.
  \<^item> \<open>StoreExport\<close> (\<^verbatim>\<open>copy\<close>, \<^verbatim>\<open>export_to_oci\<close>, \<^verbatim>\<open>export\<close> in \<^verbatim>\<open>container/store.rs\<close>).
  \<^item> \<open>Deploy\<close> (\<^verbatim>\<open>container/deploy.rs\<close>, \<^verbatim>\<open>sysroot.rs\<close>): deploying, removing undeployed images, pruning.
  \<^item> \<open>Repair\<close> (\<^verbatim>\<open>repair.rs\<close>, \<^verbatim>\<open>verify_container_image\<close> of \<^verbatim>\<open>container/store.rs\<close>).
  \<^item> \<open>CommitClean\<close> (\<^verbatim>\<open>commit.rs\<close>), \<open>UpdateDetached\<close> (\<^verbatim>\<open>container/update_detachedmeta.rs\<close>), \<open>Ima\<close> (\<^verbatim>\<open>ima.rs\<close>).
  \<^item> \<open>Cli\<close> (\<^verbatim>\<open>cli.rs\<close>): the subcommands, from their parsed options on, with the lines they print.
  \<^item> \<open>CliRun\<close> (\<^verbatim>\<open>cli.rs\<close>): the options and the dispatcher, on a machine with several repositories.
  \<^item> \<open>Fixture\<close> (\<^verbatim>\<open>fixture.rs\<close>, \<^verbatim>\<open>integrationtest.rs\<close>): the commit the tests are run on, from its textual definition
    over its owners, listing and export to images derived from it.

  \<^bold>\<open>What is shown.\<close>  Round trips: names and image references through their printers and parsers, chunks through
  a tar stream and the importer, images through the store.  Chunking puts every object into exactly one chunk
  and a rebuild keeps the packing.  The fixture of the tests has an owner for each object and can
  always be chunked; an image derived from another keeps its layout.  Commits read from a stream or an image are written only after their signature was
  verified, content only with the extended attributes named for it; insecure
  policies are refused, and paths of a layer never leave the root.  The manifest of an exported image has the
  layout the importer expects, also after its metadata was replaced and for images exported from the store, whose layers
  are made of the objects of the stored ones.
  Collecting layers, removing images, pruning and repairing take out exactly what they should and keep every image in use,
  collecting also when it fails half way; the
  removal of images refines the difference of sets.  The trees of commits are compared, signed and cleaned exactly.
  A run of the command line changes only the repository its option writes to, and what it stored is listed.
  Lemmas that show where the code departs from its documentation or purpose stand beside the properties.

  \<^bold>\<open>Conventions.\<close>  Stateful operations take their state and return it updated; \<^verbatim>\<open>?\<close> and \<^verbatim>\<open>bail!\<close> are the left
  side of a sum, \<open>Err\<close> for an error and \<open>Panic\<close> for an assertion, an \<^verbatim>\<open>unwrap\<close> or an overflow check.  Machine
  integers are words where they can wrap.  Calls into libostree, the tar crate, the OCI directory crate and
  the container tools are arguments; what a theorem relies on of them is one of its hypotheses.  Recursion over
  the directory tree of a commit takes fuel: a commit's trees are acyclic since objects are named by their
  hash.  The depth of the tree is always enough (\<open>chunking_new_ok\<close>, \<open>compare_trees_terminates\<close>, \<open>ima_sign_correct\<close>).

  \<^bold>\<open>Not modelled.\<close>  Asynchronous scheduling and pipes between threads, compression, the argument
  parsing generated by clap, warnings and progress bars, manual pages, the tests, and the external
  programs and temporary directories of their fixture.
\<close>

end
